(* ===== verification/Go_Prelude.thy ===== *)
theory Go_Prelude
  imports Main "HOL-Library.Sublist" "HOL-Library.Char_ord" "HOL-Library.List_Lexorder" "HOL-Library.Multiset"
begin

text \<open>
  The vocabulary every component shares: byte strings and the functions of Go's
  package \<open>strings\<close> the program calls, errors as values, and SQL tables as lists of
  row records in insertion (rowid) order with the statements the program issues on them
  (counted updates, \<open>ORDER BY\<close> \dots \<open>LIMIT 1\<close>, rowid allocation).

  A Go \<open>string\<close> is a \<^typ>\<open>string\<close>, one \<^typ>\<open>char\<close> per byte. The case mapping and the
  white space of \<open>strings.ToLower\<close>, \<open>EqualFold\<close>, \<open>TrimSpace\<close> and \<open>Fields\<close> are those of
  ASCII: bytes from 128 on are left alone. Time is \<^typ>\<open>int\<close>, seconds since the epoch,
  the resolution at which the program stores and compares instants
  (\<open>time.Time.Unix\<close>); a duration is an \<^typ>\<open>int\<close> number of seconds.
\<close>

section \<open>Errors\<close>

text \<open>
  \<open>Err m\<close> is \<open>errors.New(m)\<close>; \<open>Constraint c\<close> is the error SQLite returns when a
  statement violates constraint \<open>c\<close>; \<open>NoRows\<close> is \<open>sql.ErrNoRows\<close>.
\<close>

datatype err = Err string | Constraint string | NoRows

type_synonym 'a res = "err + 'a"
type_synonym time = int

definition bind_res :: "'a res \<Rightarrow> ('a \<Rightarrow> 'b res) \<Rightarrow> 'b res" where
  "bind_res r f = (case r of Inl e \<Rightarrow> Inl e | Inr x \<Rightarrow> f x)"

lemma bind_res_simps [simp]:
  "bind_res (Inl e) f = Inl e"
  "bind_res (Inr x) f = f x"
  by (simp_all add: bind_res_def)

lemma bind_res_Inr_iff: "bind_res r f = Inr y \<longleftrightarrow> (\<exists>x. r = Inr x \<and> f x = Inr y)"
  by (cases r) auto

lemma bind_res_Inl_iff:
  "bind_res r f = Inl e \<longleftrightarrow> r = Inl e \<or> (\<exists>x. r = Inr x \<and> f x = Inl e)"
  by (cases r) auto

text \<open>
  Facts that describe what a successful statement did to the database, used as
  \<open>simp add: sql\<close> in the component theories, and the branches of an operation that
  can return, used as \<open>dest: branches\<close>.
\<close>

named_theorems sql
named_theorems branches

section \<open>Package strings\<close>

definition HasPrefix :: "string \<Rightarrow> string \<Rightarrow> bool" where
  "HasPrefix s p = (take (length p) s = p)"

definition HasSuffix :: "string \<Rightarrow> string \<Rightarrow> bool" where
  "HasSuffix s p = (length p \<le> length s \<and> drop (length s - length p) s = p)"

definition TrimPrefix :: "string \<Rightarrow> string \<Rightarrow> string" where
  "TrimPrefix s p = (if HasPrefix s p then drop (length p) s else s)"

definition TrimSuffix :: "string \<Rightarrow> string \<Rightarrow> string" where
  "TrimSuffix s p = (if HasSuffix s p then take (length s - length p) s else s)"

fun Contains :: "string \<Rightarrow> string \<Rightarrow> bool" where
  "Contains [] p = (p = [])"
| "Contains (c # s) p = (HasPrefix (c # s) p \<or> Contains s p)"

definition ContainsAny :: "string \<Rightarrow> string \<Rightarrow> bool" where
  "ContainsAny s cs = list_ex (\<lambda>c. c \<in> set cs) s"

fun Split :: "char \<Rightarrow> string \<Rightarrow> string list" where
  "Split c [] = [[]]"
| "Split c (x # xs) =
     (if x = c then [] # Split c xs
      else (case Split c xs of [] \<Rightarrow> [[x]] | y # ys \<Rightarrow> (x # y) # ys))"

fun Join :: "string \<Rightarrow> string list \<Rightarrow> string" where
  "Join sep [] = []"
| "Join sep [x] = x"
| "Join sep (x # y # ys) = x @ sep @ Join sep (y # ys)"

text \<open>\<open>strings.Cut\<close> at a single byte; \<open>None\<close> is \<open>found == false\<close>.\<close>

fun Cut :: "char \<Rightarrow> string \<Rightarrow> (string \<times> string) option" where
  "Cut c [] = None"
| "Cut c (x # xs) =
     (if x = c then Some ([], xs)
      else (case Cut c xs of None \<Rightarrow> None | Some (a, b) \<Rightarrow> Some (x # a, b)))"

definition lower_char :: "char \<Rightarrow> char" where
  "lower_char c =
     (if 65 \<le> (of_char c :: nat) \<and> (of_char c :: nat) \<le> 90
      then char_of ((of_char c :: nat) + 32) else c)"

definition ToLower :: "string \<Rightarrow> string" where
  "ToLower s = map lower_char s"

definition EqualFold :: "string \<Rightarrow> string \<Rightarrow> bool" where
  "EqualFold s t = (ToLower s = ToLower t)"

definition is_space :: "char \<Rightarrow> bool" where
  "is_space c = ((of_char c :: nat) \<in> {9, 10, 11, 12, 13, 32})"

definition TrimSpace :: "string \<Rightarrow> string" where
  "TrimSpace s = rev (dropWhile is_space (rev (dropWhile is_space s)))"

lemma length_dropWhile_less: "t \<noteq> [] \<Longrightarrow> \<not> P (hd t) \<Longrightarrow> length (dropWhile (\<lambda>c. \<not> P c) t) < length t"
  by (cases t) (auto simp: le_imp_less_Suc length_dropWhile_le)

function Fields :: "string \<Rightarrow> string list" where
  "Fields s =
     (let t = dropWhile is_space s in
      if t = [] then []
      else takeWhile (\<lambda>c. \<not> is_space c) t # Fields (dropWhile (\<lambda>c. \<not> is_space c) t))"
  by pat_completeness auto
termination
proof (relation "measure length", goal_cases)
  case 1
  show ?case by simp
next
  case (2 s t)
  then have "length (dropWhile (\<lambda>c. \<not> is_space c) t) < length t"
    by (intro length_dropWhile_less) (auto simp: hd_dropWhile)
  also have "length t \<le> length s" using 2(1) by (simp add: length_dropWhile_le)
  finally show ?case by simp
qed

declare Fields.simps [simp del]

text \<open>\<open>len(s) > n\<close> then \<open>s[:n]\<close>, as the queue bounds error messages.\<close>

definition truncate_at :: "nat \<Rightarrow> string \<Rightarrow> string" where
  "truncate_at n s = (if length s > n then take n s else s)"

lemma length_truncate_at [simp]: "length (truncate_at n s) \<le> n"
  by (simp add: truncate_at_def)

subsection \<open>Laws of the string functions\<close>

lemma HasPrefix_append [simp]: "HasPrefix (p @ s) p"
  by (simp add: HasPrefix_def)

lemma HasPrefix_iff_prefix: "HasPrefix s p \<longleftrightarrow> prefix p s"
  by (metis HasPrefix_def append_eq_conv_conj append_take_drop_id prefix_def)

lemma HasSuffix_iff_suffix: "HasSuffix s p \<longleftrightarrow> suffix p s"
  unfolding HasSuffix_def suffix_def
  by (metis append_take_drop_id diff_le_self length_append length_drop diff_diff_cancel
      add_diff_cancel_right' append_eq_conv_conj le_add2)

lemma TrimPrefix_append [simp]: "TrimPrefix (p @ s) p = s"
  by (simp add: TrimPrefix_def)

lemma Split_not_Nil [simp]: "Split c s \<noteq> []"
  by (induction s) (auto split: list.splits)

lemma Split_no_sep: "c \<notin> set s \<Longrightarrow> Split c s = [s]"
  by (induction s) auto

lemma Split_append_sep: "c \<notin> set s \<Longrightarrow> Split c (s @ c # t) = s # Split c t"
  by (induction s) auto

lemma Split_Join:
  "xs \<noteq> [] \<Longrightarrow> \<forall>x \<in> set xs. c \<notin> set x \<Longrightarrow> Split c (Join [c] xs) = xs"
proof (induction xs rule: induct_list012)
  case (3 x y zs)
  then show ?case by (simp add: Split_append_sep)
qed (simp_all add: Split_no_sep)

lemma Join_Split: "Join [c] (Split c s) = s"
proof (induction s)
  case (Cons x s)
  obtain y ys where s: "Split c s = y # ys" by (cases "Split c s") simp_all
  with Cons show ?case by (cases ys) auto
qed simp

lemma length_Split: "length (Split c s) = Suc (count_list s c)"
  by (induction s) (auto split: list.splits)

lemma Split_pieces: "x \<in> set (Split c s) \<Longrightarrow> c \<notin> set x"
proof (induction s arbitrary: x)
  case (Cons a s)
  obtain y ys where s: "Split c s = y # ys" by (cases "Split c s") simp_all
  from Cons.prems show ?case
    by (auto simp: s split: if_splits dest: Cons.IH [unfolded s])
      (use Cons.IH [of y] Cons.IH s in auto)
qed simp

lemma Cut_Some_iff: "Cut c s = Some (a, b) \<longleftrightarrow> s = a @ c # b \<and> c \<notin> set a"
proof (induction s arbitrary: a b)
  case (Cons x s)
  show ?case
  proof (cases "x = c")
    case True
    then show ?thesis by (cases a) auto
  next
    case False
    show ?thesis
    proof (cases a)
      case Nil
      with False show ?thesis by (auto split: option.splits)
    next
      case (Cons y ys)
      with False Cons.IH [of ys b] show ?thesis by (auto split: option.splits)
    qed
  qed
qed simp

lemma Cut_None_iff: "Cut c s = None \<longleftrightarrow> c \<notin> set s"
  by (induction s) (auto split: option.splits)

lemma Cut_append [simp]: "c \<notin> set a \<Longrightarrow> Cut c (a @ c # b) = Some (a, b)"
  by (simp add: Cut_Some_iff)

lemma ToLower_idem [simp]: "ToLower (ToLower s) = ToLower s"
  by (simp add: ToLower_def lower_char_def)

lemma ToLower_append: "ToLower (s @ t) = ToLower s @ ToLower t"
  by (simp add: ToLower_def)

lemma length_ToLower [simp]: "length (ToLower s) = length s"
  by (simp add: ToLower_def)

section \<open>SQL statements on a table\<close>

text \<open>
  \<open>UPDATE t SET \<dots> WHERE P\<close> and its \<open>RowsAffected\<close>; \<open>SELECT COUNT(*) \<dots> WHERE P\<close>;
  \<open>SELECT \<dots> WHERE P ORDER BY k LIMIT 1\<close> (the first in rowid order among the smallest);
  the rowid SQLite gives an \<open>INTEGER PRIMARY KEY\<close> that is not \<open>AUTOINCREMENT\<close>: one more
  than the largest in use, 1 in an empty table.
\<close>

definition sql_update :: "('r \<Rightarrow> bool) \<Rightarrow> ('r \<Rightarrow> 'r) \<Rightarrow> 'r list \<Rightarrow> 'r list" where
  "sql_update P f t = map (\<lambda>r. if P r then f r else r) t"

definition sql_count :: "('r \<Rightarrow> bool) \<Rightarrow> 'r list \<Rightarrow> nat" where
  "sql_count P t = length (filter P t)"

fun first_min :: "('r \<Rightarrow> 'k::linorder) \<Rightarrow> 'r list \<Rightarrow> 'r option" where
  "first_min k [] = None"
| "first_min k (r # t) =
     (case first_min k t of None \<Rightarrow> Some r
      | Some m \<Rightarrow> if k r \<le> k m then Some r else Some m)"

fun last_max :: "('r \<Rightarrow> 'k::linorder) \<Rightarrow> 'r list \<Rightarrow> 'r option" where
  "last_max k [] = None"
| "last_max k (r # t) =
     (case last_max k t of None \<Rightarrow> Some r
      | Some m \<Rightarrow> if k m < k r then Some r else Some m)"

definition next_rowid :: "int list \<Rightarrow> int" where
  "next_rowid ids = (if ids = [] then 1 else fold max ids (hd ids) + 1)"

lemma first_min_None [simp]: "first_min k t = None \<longleftrightarrow> t = []"
  by (cases t) (auto split: option.splits if_splits)

lemma first_min_in: "first_min k t = Some r \<Longrightarrow> r \<in> set t"
  by (induction t arbitrary: r) (auto split: option.splits if_splits)

lemma first_min_le: "first_min k t = Some r \<Longrightarrow> x \<in> set t \<Longrightarrow> k r \<le> k x"
  by (induction t arbitrary: r) (fastforce split: option.splits if_splits)+

lemma last_max_None [simp]: "last_max k t = None \<longleftrightarrow> t = []"
  by (cases t) (auto split: option.splits if_splits)

lemma last_max_in: "last_max k t = Some r \<Longrightarrow> r \<in> set t"
  by (induction t arbitrary: r) (auto split: option.splits if_splits)

lemma length_sql_update [simp]: "length (sql_update P f t) = length t"
  by (simp add: sql_update_def)

lemma sql_update_Nil [simp]: "sql_update P f [] = []"
  by (simp add: sql_update_def)

lemma sql_update_Cons [simp]:
  "sql_update P f (r # t) = (if P r then f r else r) # sql_update P f t"
  by (simp add: sql_update_def)

lemma sql_update_append [simp]:
  "sql_update P f (t @ u) = sql_update P f t @ sql_update P f u"
  by (simp add: sql_update_def)

lemma in_sql_update_iff:
  "x \<in> set (sql_update P f t) \<longleftrightarrow> (\<exists>r \<in> set t. x = (if P r then f r else r))"
  by (auto simp: sql_update_def)

lemma sql_update_id: "(\<And>r. r \<in> set t \<Longrightarrow> \<not> P r) \<Longrightarrow> sql_update P f t = t"
  by (simp add: sql_update_def map_idI)

lemma map_sql_update_same [simp]: "(\<And>r. k (f r) = k r) \<Longrightarrow> map k (sql_update P f t) = map k t"
  by (simp add: sql_update_def)

lemma sql_count_0_iff [simp]: "sql_count P t = 0 \<longleftrightarrow> (\<forall>r \<in> set t. \<not> P r)"
  by (simp add: sql_count_def filter_empty_conv)

lemma sql_count_Nil [simp]: "sql_count P [] = 0"
  by (simp add: sql_count_def)

lemma sql_count_append [simp]: "sql_count P (t @ u) = sql_count P t + sql_count P u"
  by (simp add: sql_count_def)

lemma sql_count_Cons [simp]: "sql_count P (r # t) = (if P r then 1 else 0) + sql_count P t"
  by (simp add: sql_count_def)

lemma key_inj: "distinct (map k t) \<Longrightarrow> x \<in> set t \<Longrightarrow> y \<in> set t \<Longrightarrow> k x = k y \<Longrightarrow> x = y"
  unfolding distinct_map by (blast dest: inj_onD)

text \<open>A statement whose condition fixes a unique key touches at most one row.\<close>

lemma sql_count_key:
  assumes d: "distinct (map k t)" and r: "r \<in> set t" "P r"
    and u: "\<And>x. x \<in> set t \<Longrightarrow> P x \<Longrightarrow> k x = k r"
  shows "sql_count P t = 1"
proof -
  have "set (filter P t) = {r}"
    using r u key_inj [OF d] by auto
  moreover have "distinct (filter P t)"
    using d by (simp add: distinct_map)
  ultimately have "card {r} = length (filter P t)"
    by (metis distinct_card)
  then show ?thesis by (simp add: sql_count_def)
qed

lemma sql_count_pos_ex: "sql_count P t = 1 \<Longrightarrow> \<exists>r \<in> set t. P r"
  by (metis One_nat_def nat.distinct(1) sql_count_0_iff)

lemma fold_max_ge: "(b::int) \<le> fold max xs b \<and> (\<forall>x \<in> set xs. x \<le> fold max xs b)"
proof (induction xs arbitrary: b)
  case (Cons a xs)
  from Cons [of "max a b"] show ?case by auto
qed simp

lemma next_rowid_fresh: "x \<in> set ids \<Longrightarrow> x < next_rowid ids"
  using fold_max_ge [of "hd ids" ids] by (auto simp: next_rowid_def)

section \<open>Lookup of a row by key\<close>

definition row_by :: "('r \<Rightarrow> 'k) \<Rightarrow> 'k \<Rightarrow> 'r list \<Rightarrow> 'r option" where
  "row_by k v t = find (\<lambda>r. k r = v) t"

lemma row_by_Some: "row_by k v t = Some r \<Longrightarrow> r \<in> set t \<and> k r = v"
  by (auto simp: row_by_def find_Some_iff)

lemma row_by_None: "row_by k v t = None \<longleftrightarrow> v \<notin> k ` set t"
  by (auto simp: row_by_def find_None_iff)

lemma row_by_in: "distinct (map k t) \<Longrightarrow> r \<in> set t \<Longrightarrow> row_by k (k r) t = Some r"
  by (cases "row_by k (k r) t") (auto simp: row_by_None dest: row_by_Some key_inj)

lemma row_by_Nil [simp]: "row_by k v [] = None"
  by (simp add: row_by_def)

lemma row_by_Cons [simp]: "row_by k v (r # t) = (if k r = v then Some r else row_by k v t)"
  by (simp add: row_by_def)

lemma row_by_append: "row_by k v (t @ u) = (case row_by k v t of None \<Rightarrow> row_by k v u | Some r \<Rightarrow> Some r)"
  by (induction t) auto

lemma row_by_sql_update:
  assumes "\<And>r. k (f r) = k r"
  shows "row_by k v (sql_update P f t) = map_option (\<lambda>r. if P r then f r else r) (row_by k v t)"
  using assms by (induction t) auto

section \<open>Transition systems\<close>

text \<open>
  Several processes run the operations of a component against one database. Their
  interleavings are the runs of a step relation; a safety property of the component
  is an invariant of it.
\<close>

inductive reach :: "('s \<Rightarrow> bool) \<Rightarrow> ('s \<Rightarrow> 's \<Rightarrow> bool) \<Rightarrow> 's \<Rightarrow> bool"
  for init :: "'s \<Rightarrow> bool" and step :: "'s \<Rightarrow> 's \<Rightarrow> bool" where
  reach_init: "init s \<Longrightarrow> reach init step s"
| reach_step: "reach init step s \<Longrightarrow> step s t \<Longrightarrow> reach init step t"

locale invariant_system =
  fixes init :: "'s \<Rightarrow> bool" and step :: "'s \<Rightarrow> 's \<Rightarrow> bool" and inv :: "'s \<Rightarrow> bool"
  assumes inv_init: "init s \<Longrightarrow> inv s"
    and inv_step: "inv s \<Longrightarrow> step s t \<Longrightarrow> inv t"
begin

lemma reach_inv: "reach init step s \<Longrightarrow> inv s"
  by (induction rule: reach.induct) (auto intro: inv_init inv_step)

lemma steps_inv: "step\<^sup>*\<^sup>* s t \<Longrightarrow> inv s \<Longrightarrow> inv t"
  by (induction rule: rtranclp_induct) (auto intro: inv_step)

end

end
