(* ===== verification/Codec.thy ===== *)
theory Codec
  imports Go_Prelude
begin

text \<open>
  The textual encodings the program puts identifiers, digests, MACs and numbers in:
  \<open>encoding/hex\<close>, \<open>base64.RawURLEncoding\<close> (no padding; the decoder skips carriage returns
  and line feeds and ignores the unused low bits of the last character, as Go's does),
  \<open>fmt.Sprint\<close> of an integer and \<open>strconv.ParseInt(s, 10, 64)\<close>, and \<open>json.Marshal\<close> of
  strings and flat structs. The locale \<open>codec\<close> states what a token format relies on;
  each encoding is an instance of it. The keyed hash functions are parameters:
  a \<open>crypto\<close> record holds \<open>sha256.Sum256\<close> and \<open>hmac\<close> over SHA-256.
\<close>

record crypto =
  sha256 :: "string \<Rightarrow> string"
  hmac :: "string \<Rightarrow> string \<Rightarrow> string"

section \<open>The contract of an encoding\<close>

locale codec =
  fixes enc :: "'a \<Rightarrow> string" and dec :: "string \<Rightarrow> 'a option" and ok :: "'a \<Rightarrow> bool"
    and alphabet :: "char \<Rightarrow> bool"
  assumes dec_enc: "ok x \<Longrightarrow> dec (enc x) = Some x"
    and enc_alphabet: "ok x \<Longrightarrow> c \<in> set (enc x) \<Longrightarrow> alphabet c"
begin

lemma enc_inj: "ok x \<Longrightarrow> ok y \<Longrightarrow> enc x = enc y \<Longrightarrow> x = y"
  by (metis dec_enc option.inject)

lemma enc_eq_iff: "ok x \<Longrightarrow> ok y \<Longrightarrow> enc x = enc y \<longleftrightarrow> x = y"
  using enc_inj by blast

lemma not_in_enc: "ok x \<Longrightarrow> \<not> alphabet c \<Longrightarrow> c \<notin> set (enc x)"
  using enc_alphabet by blast

text \<open>Two encoded parts joined by a byte outside the alphabet are cut apart again.\<close>

lemma Cut_enc: "ok x \<Longrightarrow> \<not> alphabet c \<Longrightarrow> Cut c (enc x @ c # s) = Some (enc x, s)"
  by (simp add: not_in_enc)

end

section \<open>Hexadecimal\<close>

definition hex_digit :: "nat \<Rightarrow> char" where
  "hex_digit n = char_of (if n < 10 then 48 + n else 87 + n)"

definition hex_value :: "char \<Rightarrow> nat option" where
  "hex_value c = (let n = (of_char c :: nat) in
     if 48 \<le> n \<and> n \<le> 57 then Some (n - 48)
     else if 97 \<le> n \<and> n \<le> 102 then Some (n - 87)
     else if 65 \<le> n \<and> n \<le> 70 then Some (n - 55) else None)"

fun hex_encode :: "string \<Rightarrow> string" where
  "hex_encode [] = []"
| "hex_encode (c # s) =
     hex_digit ((of_char c :: nat) div 16) # hex_digit ((of_char c :: nat) mod 16) # hex_encode s"

fun hex_decode :: "string \<Rightarrow> string option" where
  "hex_decode [] = Some []"
| "hex_decode [_] = None"
| "hex_decode (a # b # s) =
     (case (hex_value a, hex_value b, hex_decode s) of
        (Some x, Some y, Some r) \<Rightarrow> Some (char_of (16 * x + y) # r) | _ \<Rightarrow> None)"

definition is_hex_char :: "char \<Rightarrow> bool" where
  "is_hex_char c = (let n = (of_char c :: nat) in 48 \<le> n \<and> n \<le> 57 \<or> 97 \<le> n \<and> n \<le> 102)"

lemma of_char_less_256 [simp]: "(of_char c :: nat) < 256"
  by (metis of_char_mod_256 mod_less_divisor zero_less_numeral)

lemma hex_digit_ok: "n < 16 \<Longrightarrow> hex_value (hex_digit n) = Some n \<and> is_hex_char (hex_digit n)"
  by (simp add: hex_value_def hex_digit_def is_hex_char_def Let_def)

lemma length_hex_encode [simp]: "length (hex_encode s) = 2 * length s"
  by (induction s) auto

interpretation hexc: codec hex_encode hex_decode "\<lambda>_. True" is_hex_char
proof unfold_locales
  fix s :: string
  show "hex_decode (hex_encode s) = Some s"
  proof (induction s)
    case (Cons c s)
    have "(of_char c :: nat) div 16 < 16"
      using of_char_less_256 [of c] by (simp add: div_less_iff_less_mult)
    with Cons show ?case by (simp add: hex_digit_ok)
  qed simp
  fix c show "c \<in> set (hex_encode s) \<Longrightarrow> is_hex_char c"
  proof (induction s)
    case (Cons d s)
    have "(of_char d :: nat) div 16 < 16"
      using of_char_less_256 [of d] by (simp add: div_less_iff_less_mult)
    with Cons show ?case by (auto simp: hex_digit_ok)
  qed simp
qed

section \<open>Unpadded URL-safe base64\<close>

definition b64_char :: "nat \<Rightarrow> char" where
  "b64_char n = char_of (if n < 26 then 65 + n else if n < 52 then 71 + n
     else if n < 62 then n - 4 else if n = 62 then 45 else 95)"

definition b64_value :: "char \<Rightarrow> nat option" where
  "b64_value c = (let n = (of_char c :: nat) in
     if 65 \<le> n \<and> n \<le> 90 then Some (n - 65)
     else if 97 \<le> n \<and> n \<le> 122 then Some (n - 71)
     else if 48 \<le> n \<and> n \<le> 57 then Some (n + 4)
     else if n = 45 then Some 62 else if n = 95 then Some 63 else None)"

fun b64_encode :: "string \<Rightarrow> string" where
  "b64_encode [] = []"
| "b64_encode [a] = (let x = (of_char a :: nat) in
     [b64_char (x div 4), b64_char (x mod 4 * 16)])"
| "b64_encode [a, b] = (let x = (of_char a :: nat); y = (of_char b :: nat) in
     [b64_char (x div 4), b64_char (x mod 4 * 16 + y div 16), b64_char (y mod 16 * 4)])"
| "b64_encode (a # b # c # s) =
     (let x = (of_char a :: nat); y = (of_char b :: nat); z = (of_char c :: nat) in
      b64_char (x div 4) # b64_char (x mod 4 * 16 + y div 16) #
      b64_char (y mod 16 * 4 + z div 64) # b64_char (z mod 64) # b64_encode s)"

fun b64_groups :: "nat list \<Rightarrow> string option" where
  "b64_groups [] = Some []"
| "b64_groups [_] = None"
| "b64_groups [w, x] = Some [char_of (w * 4 + x div 16)]"
| "b64_groups [w, x, y] = Some [char_of (w * 4 + x div 16), char_of (x mod 16 * 16 + y div 4)]"
| "b64_groups (w # x # y # z # s) =
     (case b64_groups s of None \<Rightarrow> None
      | Some r \<Rightarrow> Some (char_of (w * 4 + x div 16) # char_of (x mod 16 * 16 + y div 4) #
                       char_of (y mod 4 * 64 + z) # r))"

fun b64_values :: "string \<Rightarrow> nat list option" where
  "b64_values [] = Some []"
| "b64_values (c # s) =
     (case (b64_value c, b64_values s) of (Some v, Some vs) \<Rightarrow> Some (v # vs) | _ \<Rightarrow> None)"

definition b64_decode :: "string \<Rightarrow> string option" where
  "b64_decode s =
     (case b64_values (filter (\<lambda>c. c \<noteq> CHR 0x0D \<and> c \<noteq> CHR 0x0A) s) of
        None \<Rightarrow> None | Some vs \<Rightarrow> b64_groups vs)"

definition is_b64_char :: "char \<Rightarrow> bool" where
  "is_b64_char c = (b64_value c \<noteq> None)"

lemma b64_char_ok:
  assumes "n < 64"
  shows "b64_value (b64_char n) = Some n"
proof -
  consider "n < 26" | "26 \<le> n" "n < 52" | "52 \<le> n" "n < 62" | "n = 62" | "n = 63"
    using assms by linarith
  then show ?thesis
  proof cases
    case 3
    then have "n - 4 \<noteq> 45" "48 \<le> n - 4" "n - 4 \<le> 57" by arith+
    with 3 show ?thesis by (simp add: b64_value_def b64_char_def Let_def)
  qed (simp_all add: b64_value_def b64_char_def Let_def)
qed

lemma base_split:
  "(b::nat) < 16 \<Longrightarrow> (a * 16 + b) div 16 = a" "b < 16 \<Longrightarrow> (a * 16 + b) mod 16 = b"
  "b < 4 \<Longrightarrow> (a * 4 + b) div 4 = a" "b < 4 \<Longrightarrow> (a * 4 + b) mod 4 = b"
  by simp_all

lemma byte_div:
  "(x::nat) < 256 \<Longrightarrow> x div 4 < 64" "x < 256 \<Longrightarrow> x div 16 < 16" "x < 256 \<Longrightarrow> x div 64 < 4"
  by (simp_all add: div_less_iff_less_mult)

lemma sextet_bound:
  "(p::nat) < 4 \<Longrightarrow> q < 16 \<Longrightarrow> p * 16 + q < 64" "(p::nat) < 16 \<Longrightarrow> q < 4 \<Longrightarrow> p * 4 + q < 64"
  by simp_all

lemma b64_sextets:
  assumes "x < 256" "y < 256" "z < 256"
  shows "x div 4 < 64" "x mod 4 * 16 < (64::nat)" "x mod 4 * 16 + y div 16 < (64::nat)"
    "y mod 16 * 4 < (64::nat)" "y mod 16 * 4 + z div 64 < (64::nat)"
  using byte_div [OF assms(1)] sextet_bound(1) [of "x mod 4" "y div 16"] byte_div [OF assms(2)]
    sextet_bound(1) [of "x mod 4" 0] sextet_bound(2) [of "y mod 16" 0]
    sextet_bound(2) [of "y mod 16" "z div 64"] byte_div [OF assms(3)]
  by (simp_all only: mod_less_divisor zero_less_numeral add_0_right simp_thms)

lemma byte_rest:
  "(x::nat) < 256 \<Longrightarrow> x div 16 div 16 = 0" "x < 256 \<Longrightarrow> x div 16 mod 16 = x div 16"
  "x < 256 \<Longrightarrow> x div 64 div 4 = 0" "x < 256 \<Longrightarrow> x div 64 mod 4 = x div 64"
  using byte_div(2,3) [of x] by simp_all

lemmas b64_arith = base_split(1,2) [OF byte_div(2)] base_split(3,4) [OF byte_div(3)] byte_rest

lemma b64_bytes:
  "of_char a div 4 * 4 + (of_char a mod 4 * 16 + of_char b div 16) div 16 = (of_char a :: nat)"
  "(of_char a mod 4 * 16 + of_char b div 16) mod 16 * 16 + (of_char b mod 16 * 4 + of_char c div 64) div 4
     = (of_char b :: nat)"
  "(of_char b mod 16 * 4 + of_char c div 64) mod 4 * 64 + of_char c mod 64 = (of_char c :: nat)"
  by (simp_all only: base_split(1,2) [OF byte_div(2) [OF of_char_less_256]]
      base_split(3,4) [OF byte_div(3) [OF of_char_less_256]] div_mult_mod_eq)

lemma b64_encode_values:
  "\<exists>vs. b64_values (b64_encode s) = Some vs \<and> b64_groups vs = Some s"
proof (induction s rule: b64_encode.induct)
  case (2 a)
  show ?case using b64_sextets [of "of_char a" 0 0]
    by (simp add: Let_def b64_char_ok)
next
  case (3 a b)
  show ?case using b64_sextets [of "of_char a" "of_char b" 0]
    by (simp add: Let_def b64_char_ok b64_arith)
next
  case (4 a b c s)
  then obtain vs where vs: "b64_values (b64_encode s) = Some vs" "b64_groups vs = Some s"
    by blast
  let ?vs = "of_char a div 4 # (of_char a mod 4 * 16 + of_char b div 16) #
       (of_char b mod 16 * 4 + of_char c div 64) # (of_char c mod 64) # vs"
  have "b64_groups ?vs = Some (a # b # c # s)"
    by (simp only: b64_groups.simps vs(2) option.case b64_bytes char_of_char)
  moreover have "b64_values (b64_encode (a # b # c # s)) = Some ?vs"
    using vs(1) b64_sextets [of "of_char a" "of_char b" "of_char c"]
    by (simp add: Let_def b64_char_ok)
  ultimately show ?case by blast
qed simp

lemma b64_values_chars: "b64_values s = Some vs \<Longrightarrow> c \<in> set s \<Longrightarrow> is_b64_char c"
  by (induction s arbitrary: vs) (auto simp: is_b64_char_def split: option.splits)

lemma b64_no_newline: "\<forall>c \<in> set s. is_b64_char c \<Longrightarrow>
  filter (\<lambda>c. c \<noteq> CHR 0x0D \<and> c \<noteq> CHR 0x0A) s = s"
proof -
  have "\<not> is_b64_char (CHR 0x0D)" "\<not> is_b64_char (CHR 0x0A)"
    by (simp_all add: is_b64_char_def b64_value_def Let_def)
  then show "\<forall>c \<in> set s. is_b64_char c \<Longrightarrow> ?thesis" by (auto simp: filter_id_conv)
qed

interpretation b64c: codec b64_encode b64_decode "\<lambda>_. True" is_b64_char
proof unfold_locales
  fix s :: string and c
  obtain vs where vs: "b64_values (b64_encode s) = Some vs" "b64_groups vs = Some s"
    using b64_encode_values by blast
  show *: "is_b64_char c" if "c \<in> set (b64_encode s)" for c
    using vs that by (blast intro: b64_values_chars)
  show "b64_decode (b64_encode s) = Some s"
    using vs * by (simp add: b64_decode_def b64_no_newline)
qed

lemma length_b64_encode: "length (b64_encode s) = (4 * length s + 2) div 3"
  by (induction s rule: b64_encode.induct) (auto simp: Let_def)

lemma dot_not_b64 [simp]: "\<not> is_b64_char (CHR ''.'')"
  by (simp add: is_b64_char_def b64_value_def Let_def)

section \<open>Decimal integers\<close>

definition digit_char :: "nat \<Rightarrow> char" where
  "digit_char n = char_of (48 + n)"

definition digit_value :: "char \<Rightarrow> nat option" where
  "digit_value c = (let n = (of_char c :: nat) in if 48 \<le> n \<and> n \<le> 57 then Some (n - 48) else None)"

fun show_nat :: "nat \<Rightarrow> string" where
  "show_nat n = (if n < 10 then [digit_char n] else show_nat (n div 10) @ [digit_char (n mod 10)])"

declare show_nat.simps [simp del]

definition show_int :: "int \<Rightarrow> string" where
  "show_int i = (if i < 0 then CHR ''-'' # show_nat (nat (- i)) else show_nat (nat i))"

fun digits_value :: "nat \<Rightarrow> string \<Rightarrow> nat option" where
  "digits_value acc [] = Some acc"
| "digits_value acc (c # s) =
     (case digit_value c of None \<Rightarrow> None | Some d \<Rightarrow> digits_value (10 * acc + d) s)"

definition int64_ok :: "int \<Rightarrow> bool" where
  "int64_ok i = (- (2 ^ 63) \<le> i \<and> i < 2 ^ 63)"

definition ParseInt :: "string \<Rightarrow> int option" where
  "ParseInt s =
     (let (neg, t) = (case s of [] \<Rightarrow> (False, []) | c # r \<Rightarrow>
            if c = CHR ''-'' then (True, r) else if c = CHR ''+'' then (False, r) else (False, s))
      in if t = [] then None
         else (case digits_value 0 t of None \<Rightarrow> None
               | Some n \<Rightarrow> (let i = (if neg then - int n else int n)
                           in if int64_ok i then Some i else None)))"

definition is_decimal_char :: "char \<Rightarrow> bool" where
  "is_decimal_char c = (let n = (of_char c :: nat) in n = 45 \<or> 48 \<le> n \<and> n \<le> 57)"

lemma of_digit_char: "n < 10 \<Longrightarrow> (of_char (digit_char n) :: nat) = 48 + n"
  by (simp add: digit_char_def)

lemma digit_char_ok: "n < 10 \<Longrightarrow> digit_value (digit_char n) = Some n \<and> is_decimal_char (digit_char n)
     \<and> digit_char n \<noteq> CHR ''-'' \<and> digit_char n \<noteq> CHR ''+''"
  using of_digit_char [of n]
  by (auto simp: digit_value_def is_decimal_char_def Let_def)

lemma digits_value_append:
  "digits_value acc (s @ t) = (case digits_value acc s of None \<Rightarrow> None | Some a \<Rightarrow> digits_value a t)"
  by (induction s arbitrary: acc) (auto split: option.splits)

lemma show_nat_value: "digits_value 0 (show_nat n) = Some n"
proof (induction n rule: show_nat.induct)
  case (1 n)
  then show ?case
    by (subst show_nat.simps) (auto simp: digit_char_ok digits_value_append)
qed

lemma show_nat_shape:
  "show_nat n \<noteq> [] \<and> (\<forall>c \<in> set (show_nat n). is_decimal_char c \<and> c \<noteq> CHR ''-'' \<and> c \<noteq> CHR ''+'')"
proof (induction n rule: show_nat.induct)
  case (1 n)
  then show ?case by (subst (1 2) show_nat.simps) (auto simp: digit_char_ok)
qed

lemma ParseInt_show_nat: "ParseInt (show_nat n) = (if int64_ok (int n) then Some (int n) else None)"
proof -
  obtain c r where cr: "show_nat n = c # r" "c \<noteq> CHR ''-''" "c \<noteq> CHR ''+''"
    using show_nat_shape [of n] by (cases "show_nat n") auto
  show ?thesis using show_nat_value [of n] by (simp add: ParseInt_def cr Let_def)
qed

interpretation decc: codec show_int ParseInt int64_ok is_decimal_char
proof unfold_locales
  fix i :: int
  assume ok: "int64_ok i"
  show "ParseInt (show_int i) = Some i"
  proof (cases "i < 0")
    case True
    with ok show_nat_shape [of "nat (- i)"] show ?thesis
      by (simp add: show_int_def ParseInt_def show_nat_value Let_def)
  next
    case False
    with ok show ?thesis by (simp add: show_int_def ParseInt_show_nat)
  qed
  fix c assume "c \<in> set (show_int i)"
  then consider "c = CHR ''-''" | n where "c \<in> set (show_nat n)"
    by (auto simp: show_int_def split: if_splits)
  then show "is_decimal_char c"
    by cases (simp add: is_decimal_char_def Let_def, use show_nat_shape in blast)
qed

section \<open>JSON of flat structs\<close>

text \<open>
  \<open>json.Marshal\<close> of a string: the two-character escapes, \<open>\u00XX\<close> for the other control
  bytes and for the three bytes \<open>encoding/json\<close> escapes for HTML.
\<close>

definition json_char :: "char \<Rightarrow> string" where
  "json_char c = (let n = (of_char c :: nat) in
     if n = 34 then [CHR 0x5C, CHR 0x22]
     else if n = 92 then [CHR 0x5C, CHR 0x5C]
     else if n = 10 then [CHR 0x5C, CHR ''n'']
     else if n = 13 then [CHR 0x5C, CHR ''r'']
     else if n = 9 then [CHR 0x5C, CHR ''t'']
     else if n = 8 then [CHR 0x5C, CHR ''b'']
     else if n = 12 then [CHR 0x5C, CHR ''f'']
     else if n < 32 \<or> n = 60 \<or> n = 62 \<or> n = 38
       then CHR 0x5C # ''u00'' @ [hex_digit (n div 16), hex_digit (n mod 16)]
     else [c])"

definition json_string :: "string \<Rightarrow> string" where
  "json_string s = CHR 0x22 # concat (map json_char s) @ [CHR 0x22]"

text \<open>An object of already encoded members, in the order of the struct's fields.\<close>

definition json_object :: "(string \<times> string) list \<Rightarrow> string" where
  "json_object ms =
     CHR ''{'' # Join '','' (map (\<lambda>(k, v). json_string k @ CHR '':'' # v) ms) @ ''}''"

end
