(* ===== verification/Schema.thy ===== *)
theory Schema
  imports Codec
begin

text \<open>
  The SQLite schema that \<open>queue.Migrate\<close> creates (migrations 1 to 17): one record type per
  table, the database as a record of tables, and one insert statement per table with the
  constraints the schema declares for it: \<open>PRIMARY KEY\<close>, \<open>UNIQUE\<close>, \<open>CHECK\<close>, and the
  foreign keys, which \<open>queue.Open\<close> enforces (\<open>foreign_keys(1)\<close>). A statement that
  violates a constraint returns \<open>Constraint\<close> and the transaction is rolled back, so the
  operations of the component theories return the new database only on success.
  Columns that carry a closed vocabulary under a \<open>CHECK\<close> are datatypes for runs and
  submitters, where the state machine depends on them, and strings elsewhere. Columns
  that no Go statement ever writes beyond their default (the lease columns of
  \<open>rejection_work_items\<close> and \<open>decision_signing_outbox\<close>, \<open>postfix_queue_id\<close>,
  \<open>notarization_error\<close>) are left out.
\<close>

section \<open>Rows\<close>

datatype run_state =
  Queued | AnalysisLeased | ReportPending | ReportLeased
| Complete | ReplySuppressed | AnalysisDead | ReportDead

fun state_text :: "run_state \<Rightarrow> string" where
  "state_text Queued = ''queued''"
| "state_text AnalysisLeased = ''analysis_leased''"
| "state_text ReportPending = ''report_pending''"
| "state_text ReportLeased = ''report_leased''"
| "state_text Complete = ''complete''"
| "state_text ReplySuppressed = ''reply_suppressed''"
| "state_text AnalysisDead = ''analysis_dead''"
| "state_text ReportDead = ''report_dead''"

record delivery =
  d_delivery_id :: string
  d_message_digest :: string
  d_source_key :: string
  d_collected_at :: time
  d_submitter_id :: "string option"
  d_reply_address :: "string option"

record run =
  r_run_id :: string
  r_delivery_id :: string
  r_state :: run_state
  r_analysis_attempts :: int
  r_report_attempts :: int
  r_not_before :: time
  r_lease_owner :: "string option"
  r_lease_until :: "time option"
  r_last_error :: string
  r_created_at :: time

datatype sub_status = Pending | Active | Revoked

record submitter =
  s_submitter_id :: string
  s_canonical_address :: string
  s_status :: sub_status
  s_created_at :: time
  s_verified_at :: "time option"
  s_revoked_at :: "time option"
  s_policy_version :: string
  s_minute_limit :: int
  s_hour_limit :: int
  s_day_limit :: int

record challenge =
  ch_challenge_id :: string
  ch_submitter_id :: string
  ch_code_digest :: string
  ch_created_at :: time
  ch_expires_at :: time
  ch_consumed_at :: "time option"

record capability =
  c_capability_id :: string
  c_submitter_id :: string
  c_digest :: string
  c_key_id :: string
  c_activated_at :: time
  c_revoked_at :: "time option"

record submission_decision =
  sd_decision_id :: string
  sd_submitter_id :: "string option"
  sd_capability_digest :: "string option"
  sd_envelope_sender :: string
  sd_recipient :: string
  sd_peer_ip :: string
  sd_helo :: string
  sd_spf_outcome :: string
  sd_stage :: string
  sd_reason_code :: string
  sd_policy_version :: string
  sd_applied_rule_id :: string
  sd_queue_id :: "string option"
  sd_stamp_mac :: "string option"
  sd_expires_at :: "time option"
  sd_consumed_at :: "time option"
  sd_created_at :: time

record admission_event =
  ae_decision_id :: string
  ae_submitter_id :: string
  ae_admitted_at :: time

record work_item =
  wi_work_id :: string
  wi_decision_id :: string
  wi_delivery_id :: string
  wi_kind :: string
  wi_state :: string
  wi_created_at :: time

record report_attempt =
  ra_attempt_id :: int
  ra_run_id :: string
  ra_submitter_id :: string
  ra_reply_address :: string
  ra_started_at :: time
  ra_finished_at :: "time option"
  ra_outcome :: string
  ra_error_class :: string

record decision_record =
  dr_decision_id :: string
  dr_submission_id :: "string option"
  dr_delivery_id :: "string option"
  dr_submitter_id :: "string option"
  dr_occurred_at :: time
  dr_outcome :: string
  dr_stage :: string
  dr_reason_code :: string
  dr_policy_version :: string
  dr_selected_subject_domain :: string
  dr_applied_rule_id :: string
  dr_smtp_class :: int
  dr_canonical_json :: string
  dr_canonical_digest :: string
  dr_notarization_status :: string

record signing_item =
  ob_decision_id :: string
  ob_state :: string
  ob_created_at :: time

record analytics_event =
  ev_id :: int
  ev_producer :: string
  ev_source_type :: string
  ev_source_id :: string
  ev_type :: string
  ev_schema_version :: int
  ev_occurred_at :: time
  ev_outcome :: string
  ev_dimension_key :: string
  ev_duration_ms :: int
  ev_payload_digest :: string

record rollup =
  mr_bucket_start :: time
  mr_granularity :: string
  mr_metric :: string
  mr_outcome :: string
  mr_schema_version :: int
  mr_dimension_key :: string
  mr_event_count :: int
  mr_high_watermark :: int

record policy_version =
  pv_version :: int
  pv_created_at :: time
  pv_command_id :: string
  pv_digest :: string

record policy_rule_row =
  pr_rule_id :: string
  pr_version :: int
  pr_rule_type :: string
  pr_subject :: string
  pr_value :: string
  pr_enabled :: bool
  pr_expires_at :: "time option"
  pr_created_at :: time

record control_command =
  cc_command_id :: string
  cc_idempotency_key :: string
  cc_command_type :: string
  cc_command_digest :: string
  cc_expected_version :: int
  cc_result_version :: int
  cc_result_code :: string
  cc_created_at :: time

record audit_event =
  au_command_id :: string
  au_actor :: string
  au_session_id :: string
  au_command_type :: string
  au_result_code :: string
  au_before_digest :: string
  au_after_digest :: string
  au_reason :: string
  au_created_at :: time

text \<open>
  The members of a control command's JSON object that the program reads. \<open>command_json\<close>
  stores the object; the program decodes it into these members at each use.
\<close>

record payload =
  p_submitter_id :: string
  p_rule_id :: string
  p_value :: string
  p_subject :: string
  p_expiry :: string
  p_enabled :: "bool option"
  p_minute_limit :: int
  p_hour_limit :: int
  p_day_limit :: int

record confirmation_token =
  ct_token_digest :: string
  ct_command_digest :: string
  ct_session_id :: string
  ct_expected_version :: int
  ct_expires_at :: time
  ct_consumed_at :: "time option"
  ct_command_json :: payload
  ct_command_type :: string
  ct_command_id :: string
  ct_idempotency_key :: string
  ct_reason :: string
  ct_before_digest :: string

record bootstrap_observation =
  bo_observed_at :: time
  bo_source_digest :: string
  bo_source_count :: nat
  bo_outcome :: string

record result_record =
  rr_run_id :: string
  rr_delivery_id :: string
  rr_submitter_id :: "string option"
  rr_occurred_at :: time
  rr_verdict :: string
  rr_policy_version :: string
  rr_schema_version :: string
  rr_auth_scope :: string
  rr_selected_subject_status :: string
  rr_unavailable_analyzers :: int
  rr_risk_summary :: string
  rr_category_summary :: string
  rr_manifest_digest :: string
  rr_manifest_path :: string
  rr_source_artifact_digests :: string
  rr_created_at :: time

record outbox_item =
  io_run_id :: string
  io_manifest_path :: string
  io_manifest_digest :: string
  io_state :: string
  io_attempts :: int
  io_not_before :: time
  io_lease_owner :: string
  io_lease_until :: time
  io_reason_code :: string
  io_created_at :: time
  io_completed_at :: "time option"

record run_indicator =
  ri_projection_version :: string
  ri_run_id :: string
  ri_type :: string
  ri_value :: string
  ri_digest :: string
  ri_key_id :: string
  ri_normalization_version :: string
  ri_source_artifact_digest :: string
  ri_created_at :: time

record grouping_edge =
  ge_projection_version :: string
  ge_run_id :: string
  ge_key :: string
  ge_rule_id :: string
  ge_created_at :: time

record campaign_projection =
  cp_projection_version :: string
  cp_campaign_id :: string
  cp_component_key :: string
  cp_active :: bool
  cp_superseded_by :: string
  cp_first_seen :: time
  cp_last_seen :: time
  cp_hit_count :: nat
  cp_created_at :: time

record campaign_member =
  cm_projection_version :: string
  cm_campaign_id :: string
  cm_run_id :: string
  cm_occurred_at :: time

record projected_run =
  ip_projection_version :: string
  ip_run_id :: string
  ip_projected_at :: time

section \<open>The database\<close>

record db =
  deliveries :: "delivery list"
  runs :: "run list"
  collector_lease :: "(string \<times> time) option"
  submitters :: "submitter list"
  submitter_challenges :: "challenge list"
  submission_capabilities :: "capability list"
  submission_decisions :: "submission_decision list"
  admission_events :: "admission_event list"
  rejection_work_items :: "work_item list"
  report_delivery_attempts :: "report_attempt list"
  result_records :: "result_record list"
  decision_records :: "decision_record list"
  decision_signing_outbox :: "signing_item list"
  analytics_events :: "analytics_event list"
  analytics_cursor :: int
  metric_rollups :: "rollup list"
  analytics_projector_lease :: "(string \<times> time) option"
  analytics_backup_markers :: "(time \<times> string) list"
  intel_projection_outbox :: "outbox_item list"
  run_indicators :: "run_indicator list"
  run_grouping_edges :: "grouping_edge list"
  campaign_projections :: "campaign_projection list"
  campaign_members :: "campaign_member list"
  intel_projected_runs :: "projected_run list"
  policy_versions :: "policy_version list"
  policy_rules :: "policy_rule_row list"
  control_commands :: "control_command list"
  audit_events :: "audit_event list"
  confirmation_tokens :: "confirmation_token list"
  policy_bootstrap :: "(time \<times> string) option"
  policy_bootstrap_observations :: "bootstrap_observation list"

text \<open>The database right after \<open>Migrate\<close> on an empty file.\<close>

definition Migrate :: "time \<Rightarrow> db" where
  "Migrate now = \<lparr>
     deliveries = [], runs = [], collector_lease = None, submitters = [],
     submitter_challenges = [], submission_capabilities = [], submission_decisions = [],
     admission_events = [], rejection_work_items = [], report_delivery_attempts = [],
     result_records = [], decision_records = [], decision_signing_outbox = [], analytics_events = [],
     analytics_cursor = 0, metric_rollups = [], analytics_projector_lease = None,
     analytics_backup_markers = [],
     intel_projection_outbox = [], run_indicators = [], run_grouping_edges = [],
     campaign_projections = [], campaign_members = [], intel_projected_runs = [],
     policy_versions = [\<lparr>pv_version = 0, pv_created_at = now, pv_command_id = ''bootstrap'', pv_digest = ''''\<rparr>],
     policy_rules = [], control_commands = [], audit_events = [], confirmation_tokens = [],
     policy_bootstrap = None, policy_bootstrap_observations = []\<rparr>"

section \<open>Insert statements\<close>

text \<open>The constraints of a statement, checked in order; the first that fails is reported.\<close>

fun check_all :: "(string \<times> bool) list \<Rightarrow> 'a \<Rightarrow> 'a res" where
  "check_all [] x = Inr x"
| "check_all ((n, ok) # cs) x = (if ok then check_all cs x else Inl (Constraint n))"

lemma check_all_Inr [simp]: "check_all cs x = Inr y \<longleftrightarrow> y = x \<and> list_all snd cs"
  by (induction cs x rule: check_all.induct) auto

declare check_all.simps [simp del]

lemma check_all_Inl_D: "check_all cs x = Inl e \<Longrightarrow> \<exists>n. e = Constraint n"
  by (induction cs x rule: check_all.induct) (auto simp: check_all.simps split: if_splits)

definition fresh :: "('r \<Rightarrow> 'k) \<Rightarrow> 'r \<Rightarrow> 'r list \<Rightarrow> bool" where
  "fresh k r t = (k r \<notin> set (map k t))"

definition parent :: "'k \<Rightarrow> ('r \<Rightarrow> 'k) \<Rightarrow> 'r list \<Rightarrow> bool" where
  "parent v k t = (v \<in> set (map k t))"

definition parent_opt :: "'k option \<Rightarrow> ('r \<Rightarrow> 'k) \<Rightarrow> 'r list \<Rightarrow> bool" where
  "parent_opt v k t = (case v of None \<Rightarrow> True | Some x \<Rightarrow> parent x k t)"

definition insert_delivery :: "delivery \<Rightarrow> db \<Rightarrow> db res" where
  "insert_delivery row s = check_all
     [(''deliveries.source_key'', fresh d_source_key row (deliveries s)),
      (''deliveries.delivery_id'', fresh d_delivery_id row (deliveries s)),
      (''deliveries.submitter_id'', parent_opt (d_submitter_id row) s_submitter_id (submitters s))]
     (s\<lparr>deliveries := deliveries s @ [row]\<rparr>)"

definition insert_run :: "run \<Rightarrow> db \<Rightarrow> db res" where
  "insert_run row s = check_all
     [(''runs.run_id'', fresh r_run_id row (runs s)),
      (''runs.delivery_id'', parent (r_delivery_id row) d_delivery_id (deliveries s))]
     (s\<lparr>runs := runs s @ [row]\<rparr>)"

text \<open>
  \<open>UNIQUE(canonical_address, status)\<close> and the partial unique index on the active rows
  are conditions on the whole table, checked after an insert and after an update.
\<close>

definition submitters_unique :: "submitter list \<Rightarrow> bool" where
  "submitters_unique t =
     (distinct (map (\<lambda>r. (s_canonical_address r, s_status r)) t) \<and>
      distinct (map s_canonical_address (filter (\<lambda>r. s_status r = Active) t)))"

definition insert_submitter :: "submitter \<Rightarrow> db \<Rightarrow> db res" where
  "insert_submitter row s = check_all
     [(''submitters.submitter_id'', fresh s_submitter_id row (submitters s)),
      (''submitters.canonical_address'', submitters_unique (submitters s @ [row]))]
     (s\<lparr>submitters := submitters s @ [row]\<rparr>)"

definition update_submitters :: "(submitter \<Rightarrow> bool) \<Rightarrow> (submitter \<Rightarrow> submitter) \<Rightarrow> db \<Rightarrow> db res" where
  "update_submitters P f s = (let t = sql_update P f (submitters s) in check_all
     [(''submitters.canonical_address'', submitters_unique t)] (s\<lparr>submitters := t\<rparr>))"

definition insert_challenge :: "challenge \<Rightarrow> db \<Rightarrow> db res" where
  "insert_challenge row s = check_all
     [(''submitter_challenges.challenge_id'', fresh ch_challenge_id row (submitter_challenges s)),
      (''submitter_challenges.code_digest'',
         fresh (\<lambda>c. (ch_submitter_id c, ch_code_digest c)) row (submitter_challenges s)),
      (''submitter_challenges.submitter_id'', parent (ch_submitter_id row) s_submitter_id (submitters s))]
     (s\<lparr>submitter_challenges := submitter_challenges s @ [row]\<rparr>)"

definition active_caps :: "capability list \<Rightarrow> capability list" where
  "active_caps t = filter (\<lambda>c. c_revoked_at c = None) t"

definition insert_capability :: "capability \<Rightarrow> db \<Rightarrow> db res" where
  "insert_capability row s = check_all
     [(''submission_capabilities.capability_id'', fresh c_capability_id row (submission_capabilities s)),
      (''submission_capabilities.digest'',
         fresh (\<lambda>c. (c_key_id c, c_digest c)) row (submission_capabilities s)),
      (''submission_capabilities_one_active'',
         c_revoked_at row = None \<longrightarrow> fresh c_submitter_id row (active_caps (submission_capabilities s))),
      (''submission_capabilities.submitter_id'', parent (c_submitter_id row) s_submitter_id (submitters s))]
     (s\<lparr>submission_capabilities := submission_capabilities s @ [row]\<rparr>)"

definition insert_submission_decision :: "submission_decision \<Rightarrow> db \<Rightarrow> db res" where
  "insert_submission_decision row s = check_all
     [(''submission_decisions.decision_id'', fresh sd_decision_id row (submission_decisions s)),
      (''submission_decisions.submitter_id'', parent_opt (sd_submitter_id row) s_submitter_id (submitters s))]
     (s\<lparr>submission_decisions := submission_decisions s @ [row]\<rparr>)"

definition insert_admission_event :: "admission_event \<Rightarrow> db \<Rightarrow> db res" where
  "insert_admission_event row s = check_all
     [(''admission_events.decision_id'', fresh ae_decision_id row (admission_events s)),
      (''admission_events.decision_id'', parent (ae_decision_id row) sd_decision_id (submission_decisions s)),
      (''admission_events.submitter_id'', parent (ae_submitter_id row) s_submitter_id (submitters s))]
     (s\<lparr>admission_events := admission_events s @ [row]\<rparr>)"

definition insert_work_item :: "work_item \<Rightarrow> db \<Rightarrow> db res" where
  "insert_work_item row s = check_all
     [(''rejection_work_items.work_id'', fresh wi_work_id row (rejection_work_items s)),
      (''rejection_work_items.kind'', wi_kind row \<in> {''notarize'', ''notify_verified_forwarder''}),
      (''rejection_work_items.decision_id'', parent (wi_decision_id row) sd_decision_id (submission_decisions s)),
      (''rejection_work_items.delivery_id'', parent (wi_delivery_id row) d_delivery_id (deliveries s))]
     (s\<lparr>rejection_work_items := rejection_work_items s @ [row]\<rparr>)"

definition insert_report_attempt :: "report_attempt \<Rightarrow> db \<Rightarrow> db res" where
  "insert_report_attempt row s = check_all
     [(''report_delivery_attempts.run_id'', parent (ra_run_id row) r_run_id (runs s)),
      (''report_delivery_attempts.outcome'', ra_outcome row \<in> {''started'', ''accepted'', ''failed'', ''unknown''})]
     (s\<lparr>report_delivery_attempts := report_delivery_attempts s @ [row]\<rparr>)"

text \<open>\<open>\<dots> ON CONFLICT(decision_id) DO NOTHING\<close>, in both of the next two.\<close>

definition insert_decision_record :: "decision_record \<Rightarrow> db \<Rightarrow> db res" where
  "insert_decision_record row s =
     (if \<not> fresh dr_decision_id row (decision_records s) then Inr s else check_all
     [(''decision_records.outcome'', dr_outcome row \<in> {''admitted'', ''rejected'', ''deferred''}),
      (''decision_records.notarization_status'', dr_notarization_status row \<in> {''queued'', ''published'', ''failed''}),
      (''decision_records.decision_id'', parent (dr_decision_id row) sd_decision_id (submission_decisions s)),
      (''decision_records.delivery_id'', parent_opt (dr_delivery_id row) d_delivery_id (deliveries s))]
     (s\<lparr>decision_records := decision_records s @ [row]\<rparr>))"

definition insert_signing_item :: "signing_item \<Rightarrow> db \<Rightarrow> db res" where
  "insert_signing_item row s =
     (if \<not> fresh ob_decision_id row (decision_signing_outbox s) then Inr s else check_all
     [(''decision_signing_outbox.decision_id'', parent (ob_decision_id row) dr_decision_id (decision_records s))]
     (s\<lparr>decision_signing_outbox := decision_signing_outbox s @ [row]\<rparr>))"

definition insert_policy_version :: "policy_version \<Rightarrow> db \<Rightarrow> db res" where
  "insert_policy_version row s = check_all
     [(''policy_versions.version'', fresh pv_version row (policy_versions s)),
      (''policy_versions.command_id'', fresh pv_command_id row (policy_versions s))]
     (s\<lparr>policy_versions := policy_versions s @ [row]\<rparr>)"

definition insert_policy_rule :: "policy_rule_row \<Rightarrow> db \<Rightarrow> db res" where
  "insert_policy_rule row s = check_all
     [(''policy_rules.rule_id'', fresh pr_rule_id row (policy_rules s)),
      (''policy_rules.version'', parent (pr_version row) pv_version (policy_versions s))]
     (s\<lparr>policy_rules := policy_rules s @ [row]\<rparr>)"

definition insert_control_command :: "control_command \<Rightarrow> db \<Rightarrow> db res" where
  "insert_control_command row s = check_all
     [(''control_commands.command_id'', fresh cc_command_id row (control_commands s)),
      (''control_commands.idempotency_key'', fresh cc_idempotency_key row (control_commands s))]
     (s\<lparr>control_commands := control_commands s @ [row]\<rparr>)"

definition insert_audit_event :: "audit_event \<Rightarrow> db \<Rightarrow> db res" where
  "insert_audit_event row s = check_all
     [(''audit_events.command_id'', parent (au_command_id row) cc_command_id (control_commands s))]
     (s\<lparr>audit_events := audit_events s @ [row]\<rparr>)"

definition insert_confirmation_token :: "confirmation_token \<Rightarrow> db \<Rightarrow> db res" where
  "insert_confirmation_token row s = check_all
     [(''confirmation_tokens.token_digest'', fresh ct_token_digest row (confirmation_tokens s))]
     (s\<lparr>confirmation_tokens := confirmation_tokens s @ [row]\<rparr>)"

lemmas insert_defs =
  insert_delivery_def insert_run_def insert_submitter_def insert_challenge_def
  insert_capability_def insert_submission_decision_def insert_admission_event_def
  insert_work_item_def insert_report_attempt_def insert_policy_version_def
  insert_policy_rule_def insert_control_command_def insert_audit_event_def
  insert_confirmation_token_def

section \<open>Tables with a primary key\<close>

text \<open>
  What a component relies on when it inserts into a table: the row is appended, its key
  was free, and the database is otherwise as the statement found it. From this, keys stay
  distinct, the inserted row can be looked up, and every other lookup is unchanged.
\<close>

locale keyed_table =
  fixes rows :: "db \<Rightarrow> 'r list" and key :: "'r \<Rightarrow> 'k" and ins :: "'r \<Rightarrow> db \<Rightarrow> db res"
  assumes ins_rows: "ins r s = Inr s' \<Longrightarrow> rows s' = rows s @ [r]"
    and ins_key_free: "ins r s = Inr s' \<Longrightarrow> key r \<notin> key ` set (rows s)"
begin

lemma ins_distinct: "distinct (map key (rows s)) \<Longrightarrow> ins r s = Inr s' \<Longrightarrow> distinct (map key (rows s'))"
  using ins_key_free by (simp add: ins_rows)

lemma ins_lookup: "ins r s = Inr s' \<Longrightarrow> row_by key (key r) (rows s') = Some r"
  using ins_key_free by (simp add: ins_rows row_by_append row_by_None split: option.split)
    (metis row_by_None option.distinct(1))

lemma ins_lookup_other:
  "ins r s = Inr s' \<Longrightarrow> v \<noteq> key r \<Longrightarrow> row_by key v (rows s') = row_by key v (rows s)"
  by (simp add: ins_rows row_by_append split: option.split)

lemma ins_keeps: "ins r s = Inr s' \<Longrightarrow> set (rows s) \<subseteq> set (rows s')"
  by (auto simp: ins_rows)

end

interpretation deliveries_t: keyed_table deliveries d_delivery_id insert_delivery
  by unfold_locales (auto simp: insert_defs fresh_def)

interpretation runs_t: keyed_table runs r_run_id insert_run
  by unfold_locales (auto simp: insert_defs fresh_def)

interpretation submitters_t: keyed_table submitters s_submitter_id insert_submitter
  by unfold_locales (auto simp: insert_defs fresh_def)

interpretation challenges_t: keyed_table submitter_challenges ch_challenge_id insert_challenge
  by unfold_locales (auto simp: insert_defs fresh_def)

interpretation capabilities_t: keyed_table submission_capabilities c_capability_id insert_capability
  by unfold_locales (auto simp: insert_defs fresh_def)

interpretation decisions_t: keyed_table submission_decisions sd_decision_id insert_submission_decision
  by unfold_locales (auto simp: insert_defs fresh_def)

interpretation admissions_t: keyed_table admission_events ae_decision_id insert_admission_event
  by unfold_locales (auto simp: insert_defs fresh_def)

interpretation work_items_t: keyed_table rejection_work_items wi_work_id insert_work_item
  by unfold_locales (auto simp: insert_defs fresh_def)

interpretation versions_t: keyed_table policy_versions pv_version insert_policy_version
  by unfold_locales (auto simp: insert_defs fresh_def)

interpretation tokens_t: keyed_table confirmation_tokens ct_token_digest insert_confirmation_token
  by unfold_locales (auto simp: insert_defs fresh_def)

section \<open>Leases\<close>

text \<open>
  \<open>collector_lease\<close> and \<open>analytics_projector_lease\<close> are single-row tables taken and given
  back by the same two statements, on which the processes rely for mutual exclusion: a
  request is granted exactly when the row is missing, expired or the requester's own; a
  refused request changes nothing; a release removes only the releaser's row. Then no
  sequence of requests and releases by other owners takes a lease away before it ends.
\<close>

type_synonym lease = "(string \<times> time) option"

definition lease_free :: "string \<Rightarrow> time \<Rightarrow> lease \<Rightarrow> bool" where
  "lease_free owner now l = (case l of None \<Rightarrow> True | Some (o', until) \<Rightarrow> until < now \<or> o' = owner)"

datatype lease_op = Acquire string time int | Release string

fun lease_op_owner :: "lease_op \<Rightarrow> string" where
  "lease_op_owner (Acquire w n d) = w"
| "lease_op_owner (Release w) = w"

fun lease_op_by :: "time \<Rightarrow> lease_op \<Rightarrow> bool" where
  "lease_op_by u (Acquire w n d) = (n \<le> u)"
| "lease_op_by u (Release w) = True"

fun lease_run ::
  "(string \<Rightarrow> time \<Rightarrow> int \<Rightarrow> 's \<Rightarrow> bool \<times> 's) \<Rightarrow> (string \<Rightarrow> 's \<Rightarrow> 's) \<Rightarrow> lease_op list \<Rightarrow> 's \<Rightarrow> 's" where
  "lease_run acquire release [] s = s"
| "lease_run acquire release (Acquire w n d # ops) s = lease_run acquire release ops (snd (acquire w n d s))"
| "lease_run acquire release (Release w # ops) s = lease_run acquire release ops (release w s)"

locale lease_table =
  fixes holder :: "db \<Rightarrow> lease"
    and acquire :: "string \<Rightarrow> time \<Rightarrow> int \<Rightarrow> db \<Rightarrow> bool \<times> db"
    and release :: "string \<Rightarrow> db \<Rightarrow> db"
  assumes acquire_granted: "lease_free w now (holder s) \<Longrightarrow>
      fst (acquire w now d s) \<and> holder (snd (acquire w now d s)) = Some (w, now + d)"
    and acquire_refused: "\<not> lease_free w now (holder s) \<Longrightarrow> acquire w now d s = (False, s)"
    and release_holder: "holder (release w s) =
      (case holder s of None \<Rightarrow> None | Some (v, u) \<Rightarrow> if v = w then None else Some (v, u))"
begin

lemma acquire_iff: "fst (acquire w now d s) \<longleftrightarrow> lease_free w now (holder s)"
  using acquire_granted acquire_refused by (metis fst_conv)

lemma others_keep_lease:
  assumes "holder s = Some (w, u)"
    and "\<forall>op \<in> set ops. lease_op_owner op \<noteq> w \<and> lease_op_by u op"
  shows "holder (lease_run acquire release ops s) = Some (w, u)"
  using assms
proof (induction ops arbitrary: s)
  case (Cons op ops)
  show ?case
  proof (cases op)
    case (Acquire v n d)
    with Cons.prems have "\<not> lease_free v n (holder s)" by (auto simp: lease_free_def)
    with Cons Acquire show ?thesis by (simp add: acquire_refused)
  next
    case (Release v)
    with Cons show ?thesis by (auto simp: release_holder)
  qed
qed simp

lemma exclusion:
  assumes "fst (acquire w now d s)"
    and "\<forall>op \<in> set ops. lease_op_owner op \<noteq> w \<and> lease_op_by (now + d) op"
    and "v \<noteq> w" "t \<le> now + d"
  shows "\<not> fst (acquire v t e (lease_run acquire release ops (snd (acquire w now d s))))"
proof -
  have "holder (snd (acquire w now d s)) = Some (w, now + d)"
    using assms(1) by (simp add: acquire_iff acquire_granted)
  from others_keep_lease [OF this assms(2)] show ?thesis
    using assms(3,4) by (auto simp: acquire_iff lease_free_def)
qed

lemma available_again: "holder s = Some (w, u) \<Longrightarrow> u < now \<Longrightarrow> fst (acquire v now d s)"
  by (simp add: acquire_iff lease_free_def)

end

end
