(* ===== verification/Calendar.thy ===== *)
theory Calendar
  imports Codec
begin

text \<open>
  The part of Go's package \<open>time\<close> that depends on the calendar: \<open>AddDate\<close> on UTC instants
  and \<open>time.Parse(time.RFC3339, s)\<close>. Days are counted from the epoch by the proleptic
  Gregorian calendar, with the year taken to start in March so that the leap day is its last.
  A day number past the end of a month runs into the next, as in \<open>time.Date\<close>. A parsed
  fraction of a second is dropped: instants are whole seconds.
\<close>

definition days_from_civil :: "int \<Rightarrow> int \<Rightarrow> int \<Rightarrow> int" where
  "days_from_civil y m d =
     (let y' = (if m \<le> 2 then y - 1 else y); era = y' div 400; yoe = y' mod 400;
          doy = (153 * ((m + 9) mod 12) + 2) div 5 + d - 1
      in era * 146097 + yoe * 365 + yoe div 4 - yoe div 100 + doy - 719468)"

definition civil_from_days :: "int \<Rightarrow> int \<times> int \<times> int" where
  "civil_from_days z =
     (let z' = z + 719468; era = z' div 146097; doe = z' mod 146097;
          yoe = (doe - doe div 1460 + doe div 36524 - doe div 146096) div 365;
          doy = doe - (365 * yoe + yoe div 4 - yoe div 100);
          mp = (5 * doy + 2) div 153; d = doy - (153 * mp + 2) div 5 + 1;
          m = (if mp < 10 then mp + 3 else mp - 9); y = yoe + era * 400
      in (if m \<le> 2 then y + 1 else y, m, d))"

text \<open>\<open>AddDate(years, 0, 0)\<close> and \<open>AddDate(0, 0, days)\<close> in UTC, where every day has 86400 seconds.\<close>

definition AddYears :: "int \<Rightarrow> time \<Rightarrow> time" where
  "AddYears n t = (let (y, m, d) = civil_from_days (t div 86400)
     in days_from_civil (y + n) m d * 86400 + t mod 86400)"

definition AddDays :: "int \<Rightarrow> time \<Rightarrow> time" where
  "AddDays n t = t + 86400 * n"

definition leap :: "int \<Rightarrow> bool" where
  "leap y = (y mod 4 = 0 \<and> (y mod 100 \<noteq> 0 \<or> y mod 400 = 0))"

definition daysIn :: "int \<Rightarrow> int \<Rightarrow> int" where
  "daysIn m y = (if m = 2 then (if leap y then 29 else 28) else if m \<in> {4, 6, 9, 11} then 30 else 31)"

fun scan_digits :: "nat \<Rightarrow> int \<Rightarrow> string \<Rightarrow> (int \<times> string) option" where
  "scan_digits 0 acc s = Some (acc, s)"
| "scan_digits (Suc n) acc [] = None"
| "scan_digits (Suc n) acc (c # s) =
     (case digit_value c of None \<Rightarrow> None | Some v \<Rightarrow> scan_digits n (10 * acc + int v) s)"

fun scan_char :: "char \<Rightarrow> string \<Rightarrow> string option" where
  "scan_char c [] = None"
| "scan_char c (x # s) = (if x = c then Some s else None)"

definition is_digit :: "char \<Rightarrow> bool" where
  "is_digit c = (digit_value c \<noteq> None)"

text \<open>\<open>getnum(value, false)\<close>: one digit if the second byte is no digit.\<close>

definition scan_hour :: "string \<Rightarrow> (int \<times> string) option" where
  "scan_hour s = (case scan_digits 2 0 s of Some r \<Rightarrow> Some r | None \<Rightarrow> scan_digits 1 0 s)"

definition skip_fraction :: "string \<Rightarrow> string" where
  "skip_fraction s = (case s of c # d # r \<Rightarrow>
       if (c = CHR ''.'' \<or> c = CHR '','') \<and> is_digit d then dropWhile is_digit (d # r) else s
     | _ \<Rightarrow> s)"

text \<open>The zone: \<open>Z\<close>, or a sign, hours and minutes; the offset in seconds.\<close>

definition scan_zone :: "string \<Rightarrow> int option" where
  "scan_zone s = (case s of
       [] \<Rightarrow> None
     | c # r \<Rightarrow>
         if c = CHR ''Z'' then (if r = [] then Some 0 else None)
         else if c = CHR ''+'' \<or> c = CHR ''-'' then
           Option.bind (scan_digits 2 0 r) (\<lambda>(hh, r).
           Option.bind (scan_char (CHR '':'') r) (\<lambda>r.
           Option.bind (scan_digits 2 0 r) (\<lambda>(mm, r).
             if r = [] \<and> hh \<le> 24 \<and> mm \<le> 60
             then Some ((if c = CHR ''-'' then -1 else 1) * (hh * 3600 + mm * 60)) else None)))
         else None)"

definition parse_rfc3339 :: "string \<Rightarrow> time option" where
  "parse_rfc3339 s =
     Option.bind (scan_digits 4 0 s) (\<lambda>(y, s).
     Option.bind (scan_char (CHR ''-'') s) (\<lambda>s.
     Option.bind (scan_digits 2 0 s) (\<lambda>(m, s).
     Option.bind (scan_char (CHR ''-'') s) (\<lambda>s.
     Option.bind (scan_digits 2 0 s) (\<lambda>(d, s).
     Option.bind (scan_char (CHR ''T'') s) (\<lambda>s.
     Option.bind (scan_hour s) (\<lambda>(hh, s).
     Option.bind (scan_char (CHR '':'') s) (\<lambda>s.
     Option.bind (scan_digits 2 0 s) (\<lambda>(mi, s).
     Option.bind (scan_char (CHR '':'') s) (\<lambda>s.
     Option.bind (scan_digits 2 0 s) (\<lambda>(se, s).
     Option.bind (scan_zone (skip_fraction s)) (\<lambda>off.
       if 1 \<le> m \<and> m \<le> 12 \<and> 1 \<le> d \<and> d \<le> daysIn m y \<and> hh \<le> 23 \<and> mi \<le> 59 \<and> se \<le> 59
       then Some (days_from_civil y m d * 86400 + hh * 3600 + mi * 60 + se - off) else None))))))))))))"

text \<open>\<open>Format(time.RFC3339)\<close> of an instant in UTC, for the years 0 to 9999.\<close>

definition pad_int :: "nat \<Rightarrow> int \<Rightarrow> string" where
  "pad_int w n = (let s = show_nat (nat n) in replicate (w - length s) (CHR ''0'') @ s)"

definition format_rfc3339 :: "time \<Rightarrow> string" where
  "format_rfc3339 t =
     (let (y, m, d) = civil_from_days (t div 86400); s = t mod 86400 in
      pad_int 4 y @ ''-'' @ pad_int 2 m @ ''-'' @ pad_int 2 d @ ''T'' @
      pad_int 2 (s div 3600) @ '':'' @ pad_int 2 (s div 60 mod 60) @ '':'' @ pad_int 2 (s mod 60) @ ''Z'')"

text \<open>\<open>time.Time{}\<close>, the zero instant, 1 January of the year 1.\<close>

definition zero_time :: time where
  "zero_time = -62135596800"

lemma zero_time_civil: "zero_time = days_from_civil 1 1 1 * 86400"
  by (simp add: zero_time_def days_from_civil_def)

lemma parse_rfc3339_epoch: "parse_rfc3339 ''1970-01-01T00:00:00Z'' = Some 0"
  by code_simp

lemma parse_rfc3339_leap_day: "parse_rfc3339 ''2024-02-29T12:30:05.25+01:30'' = Some 1709204405"
  by code_simp

lemma format_rfc3339_leap_day: "format_rfc3339 1709204405 = ''2024-02-29T11:00:05Z''"
  by code_simp

lemma AddYears_leap_day: "AddYears 5 1709164800 = 1867017600"
  by code_simp

end
