(* ===== verification/Analytics.thy ===== *)
theory Analytics
  imports Schema Calendar "HOL-Library.AList" "HOL-Library.Product_Lexorder"
begin

text \<open>
  \<open>internal/analytics\<close>: lifecycle events (\<open>analytics.go\<close>), their projection into minute,
  hour and day rollups (\<open>projector.go\<close>), the bounded queries the dashboard runs over the
  rollups (\<open>query.go\<close>), and the projector lease and the retention and rebuild commands of
  \<open>cmd/mailproof/main.go\<close>. The lemmas relate the rollups to the events: a rollup counts the
  events of its bucket up to the cursor, however the projector batches its work.
\<close>

section \<open>Events\<close>

definition SchemaVersion :: int where
  "SchemaVersion = 1"

record dimensions =
  dm_PolicyVersion :: string
  dm_Stage :: string
  dm_Reason :: string
  dm_Queue :: string
  dm_Worker :: string
  dm_Analyzer :: string
  dm_State :: string

definition no_dimensions :: dimensions where
  "no_dimensions = \<lparr>dm_PolicyVersion = [], dm_Stage = [], dm_Reason = [], dm_Queue = [],
     dm_Worker = [], dm_Analyzer = [], dm_State = []\<rparr>"

record event =
  e_Producer :: string
  e_SourceType :: string
  e_SourceID :: string
  e_Type :: string
  e_Outcome :: string
  e_OccurredAt :: time
  e_DurationMS :: int
  e_Dimensions :: dimensions

definition dim_valid :: "string \<Rightarrow> string list \<Rightarrow> bool" where
  "dim_valid v values = (v = [] \<or> v \<in> set values)"

definition dimensions_json :: "dimensions \<Rightarrow> string" where
  "dimensions_json d = json_object
     [(''PolicyVersion'', json_string (dm_PolicyVersion d)), (''Stage'', json_string (dm_Stage d)),
      (''Reason'', json_string (dm_Reason d)), (''Queue'', json_string (dm_Queue d)),
      (''Worker'', json_string (dm_Worker d)), (''Analyzer'', json_string (dm_Analyzer d)),
      (''State'', json_string (dm_State d))]"

definition dim_key :: "dimensions \<Rightarrow> string res" where
  "dim_key d =
     (if \<not> dim_valid (dm_PolicyVersion d) [''v1''] \<or>
         \<not> dim_valid (dm_Stage d) [''admission'', ''quota'', ''post_data'', ''subject_preflight''] \<or>
         \<not> dim_valid (dm_Reason d) [''admitted'', ''rejected'', ''deferred'', ''quota_exceeded'',
              ''wrapper_sender_invalid'', ''selected_subject_ambiguous'', ''selected_subject_sender_denied'',
              ''analysis_dead'', ''report_dead''] \<or>
         \<not> dim_valid (dm_Queue d) [''analysis'', ''report''] \<or>
         \<not> dim_valid (dm_Worker d) [''analysis'', ''report''] \<or>
         \<not> dim_valid (dm_Analyzer d) [''rspamd'', ''subject-selection''] \<or>
         \<not> dim_valid (dm_State d) [''queued'', ''analysis_leased'', ''report_pending'', ''report_leased'',
              ''complete'', ''reply_suppressed'', ''analysis_dead'', ''report_dead'', ''started'',
              ''accepted'', ''failed'', ''unknown'', ''pending'']
      then Inl (Err ''invalid analytics dimension'')
      else Inr (dimensions_json d))"

definition analytics_allowed :: "string \<Rightarrow> string \<Rightarrow> string \<Rightarrow> string \<Rightarrow> bool" where
  "analytics_allowed producer sourceType eventType outcome =
     (if sourceType \<noteq> ''run'' \<and> sourceType \<noteq> ''delivery'' \<and> sourceType \<noteq> ''decision'' then False
      else if outcome = [] \<or> length outcome > 64 then False
      else if producer = ''collector'' then eventType = ''subject_preflight''
      else if producer = ''queue'' then eventType = ''run_started'' \<or> eventType = ''run_lifecycle''
      else if producer = ''admission'' then eventType = ''admission_decision''
      else if producer = ''worker'' then eventType = ''run_completed'' \<or> eventType = ''analyzer_observation''
      else if producer = ''reporter''
        then eventType = ''report_delivery_state'' \<or> eventType = ''rejection_delivery_state''
      else False)"

definition NewLifecycle :: "string \<Rightarrow> string \<Rightarrow> string \<Rightarrow> string \<Rightarrow> string \<Rightarrow> time \<Rightarrow> event res" where
  "NewLifecycle producer sourceType sourceID eventType outcome occurredAt =
     (if producer = [] \<or> sourceID = [] \<or> \<not> analytics_allowed producer sourceType eventType outcome
      then Inl (Err ''invalid analytics lifecycle event'')
      else Inr \<lparr>e_Producer = producer, e_SourceType = sourceType, e_SourceID = sourceID,
             e_Type = eventType, e_Outcome = outcome, e_OccurredAt = occurredAt,
             e_DurationMS = 0, e_Dimensions = no_dimensions\<rparr>)"

definition event_json :: "event \<Rightarrow> string" where
  "event_json e = json_object
     [(''Producer'', json_string (e_Producer e)), (''SourceType'', json_string (e_SourceType e)),
      (''SourceID'', json_string (e_SourceID e)), (''Type'', json_string (e_Type e)),
      (''Outcome'', json_string (e_Outcome e)), (''schema'', show_int SchemaVersion),
      (''dimensions'', dimensions_json (e_Dimensions e))]"

text \<open>The column tuple of the table's \<open>UNIQUE\<close> constraint.\<close>

definition event_identity :: "analytics_event \<Rightarrow> string \<times> string \<times> string \<times> string \<times> int" where
  "event_identity e = (ev_producer e, ev_source_type e, ev_source_id e, ev_type e, ev_schema_version e)"

definition InsertTx :: "crypto \<Rightarrow> event \<Rightarrow> db \<Rightarrow> db res" where
  "InsertTx cr e s = bind_res (dim_key (e_Dimensions e)) (\<lambda>dimensionKey.
     if e_DurationMS e < 0 \<or> e_DurationMS e > 86400000 then Inl (Err ''invalid analytics duration'')
     else let row = \<lparr>ev_id = next_rowid (map ev_id (analytics_events s)),
            ev_producer = e_Producer e, ev_source_type = e_SourceType e, ev_source_id = e_SourceID e,
            ev_type = e_Type e, ev_schema_version = SchemaVersion, ev_occurred_at = e_OccurredAt e,
            ev_outcome = e_Outcome e, ev_dimension_key = dimensionKey, ev_duration_ms = e_DurationMS e,
            ev_payload_digest = hex_encode (sha256 cr (event_json e))\<rparr> in
       if \<not> fresh event_identity row (analytics_events s) then Inr s
       else Inr (s\<lparr>analytics_events := analytics_events s @ [row]\<rparr>))"

section \<open>Projection\<close>

text \<open>\<open>time.Time.Truncate\<close> on whole seconds: multiples of a minute, hour or day since the
  zero time of Go are multiples of it since the epoch, as the two are a whole number of days
  apart.\<close>

definition Truncate :: "int \<Rightarrow> time \<Rightarrow> time" where
  "Truncate d t = t - t mod d"

definition levels :: "(string \<times> int) list" where
  "levels = [(''minute'', 60), (''hour'', 3600), (''day'', 86400)]"

definition rollup_key :: "rollup \<Rightarrow> time \<times> string \<times> string \<times> string \<times> int \<times> string" where
  "rollup_key r = (mr_bucket_start r, mr_granularity r, mr_metric r, mr_outcome r,
     mr_schema_version r, mr_dimension_key r)"

definition upsert_rollup :: "rollup \<Rightarrow> rollup list \<Rightarrow> rollup list" where
  "upsert_rollup row t =
     (if fresh rollup_key row t then t @ [row]
      else sql_update (\<lambda>r. rollup_key r = rollup_key row)
        (\<lambda>r. r\<lparr>mr_event_count := mr_event_count r + 1,
               mr_high_watermark := max (mr_high_watermark r) (mr_high_watermark row)\<rparr>) t)"

definition event_rollup :: "analytics_event \<Rightarrow> string \<times> int \<Rightarrow> rollup" where
  "event_rollup e level = \<lparr>mr_bucket_start = Truncate (snd level) (ev_occurred_at e),
     mr_granularity = fst level, mr_metric = ev_type e, mr_outcome = ev_outcome e,
     mr_schema_version = SchemaVersion, mr_dimension_key = ev_dimension_key e,
     mr_event_count = 1, mr_high_watermark = ev_id e\<rparr>"

definition project_event :: "analytics_event \<Rightarrow> rollup list \<Rightarrow> rollup list" where
  "project_event e t = fold (\<lambda>level. upsert_rollup (event_rollup e level)) levels t"

fun project_rows :: "analytics_event list \<Rightarrow> int \<Rightarrow> nat \<Rightarrow> rollup list \<Rightarrow> int \<times> nat \<times> rollup list" where
  "project_rows [] cursor n t = (cursor, n, t)"
| "project_rows (e # es) cursor n t = project_rows es (ev_id e) (n + 1) (project_event e t)"

definition ProjectOnce :: "int \<Rightarrow> db \<Rightarrow> (nat \<times> db) res" where
  "ProjectOnce batch s =
     (if batch < 1 \<or> batch > 1000 then Inl (Err ''batch size must be 1..1000'')
      else let rows = take (nat batch) (sort_key ev_id
                 (filter (\<lambda>e. ev_id e > analytics_cursor s) (analytics_events s)));
               (cursor, n, t) = project_rows rows (analytics_cursor s) 0 (metric_rollups s)
           in Inr (n, s\<lparr>metric_rollups := t,
                analytics_cursor := (if n > 0 then cursor else analytics_cursor s)\<rparr>))"

definition RebuildWindow :: "time \<Rightarrow> time \<Rightarrow> db \<Rightarrow> db" where
  "RebuildWindow from to s =
     (let kept = fold (\<lambda>(name, d) t. filter (\<lambda>r. \<not> (mr_granularity r = name \<and>
                   mr_bucket_start r \<ge> Truncate d from \<and> mr_bucket_start r < Truncate d to)) t)
                 levels (metric_rollups s);
          rows = sort_key ev_id (filter (\<lambda>e. ev_occurred_at e \<ge> from \<and> ev_occurred_at e < to) (analytics_events s))
      in s\<lparr>metric_rollups := fold project_event rows kept\<rparr>)"

section \<open>The projector lease\<close>

definition acquireAnalyticsLease :: "string \<Rightarrow> time \<Rightarrow> int \<Rightarrow> db \<Rightarrow> bool \<times> db" where
  "acquireAnalyticsLease owner now duration s =
     (case analytics_projector_lease s of
        None \<Rightarrow> (True, s\<lparr>analytics_projector_lease := Some (owner, now + duration)\<rparr>)
      | Some (holder, until) \<Rightarrow>
          if until < now \<or> holder = owner
          then (True, s\<lparr>analytics_projector_lease := Some (owner, now + duration)\<rparr>)
          else (False, s))"

definition releaseAnalyticsLease :: "string \<Rightarrow> db \<Rightarrow> db" where
  "releaseAnalyticsLease owner s =
     (case analytics_projector_lease s of
        None \<Rightarrow> s
      | Some (holder, until) \<Rightarrow> if holder = owner then s\<lparr>analytics_projector_lease := None\<rparr> else s)"

interpretation analytics_lease: lease_table analytics_projector_lease acquireAnalyticsLease releaseAnalyticsLease
  by unfold_locales
    (auto simp: acquireAnalyticsLease_def releaseAnalyticsLease_def lease_free_def
      split: option.splits prod.splits if_splits)

section \<open>Retention and rebuild\<close>

text \<open>
  \<open>mailproof analytics rebuild|retain\<close>: the flags, the parsed bounds, and what the command
  did: the status word and the count it emits. A bound that was not given is the zero time.
  SQLite divides integers toward zero.
\<close>

record analytics_args =
  aa_verb :: string
  aa_dry :: bool
  aa_confirm :: bool
  aa_from :: string
  aa_to :: string

definition sql_quot :: "int \<Rightarrow> int \<Rightarrow> int" where
  "sql_quot a b = (if a < 0 then - ((- a) div b) else a div b)"

definition parseUTC :: "string \<Rightarrow> time res" where
  "parseUTC v =
     (if v = [] then Inr zero_time
      else if \<not> HasSuffix v ''Z'' then Inl (Err ''analytics bounds must be RFC3339 UTC'')
      else case parse_rfc3339 v of
          None \<Rightarrow> Inl (Err ''analytics bounds must be RFC3339 UTC'')
        | Some t \<Rightarrow> Inr t)"

definition covered :: "string \<Rightarrow> int \<Rightarrow> rollup list \<Rightarrow> rollup \<Rightarrow> bool" where
  "covered level d t m = list_ex (\<lambda>h. mr_granularity h = level \<and> mr_metric h = mr_metric m \<and>
     mr_outcome h = mr_outcome m \<and> mr_schema_version h = mr_schema_version m \<and>
     mr_dimension_key h = mr_dimension_key m \<and>
     mr_bucket_start h = sql_quot (mr_bucket_start m) d * d) t"

definition retain :: "bool \<Rightarrow> time \<Rightarrow> db \<Rightarrow> ((string \<times> nat) \<times> db) res" where
  "retain dry now s =
     (if sql_count (\<lambda>(at, digest). at > 0 \<and> digest \<noteq> []) (analytics_backup_markers s) = 0
      then Inl (Err ''analytics retention requires verified backup marker'')
      else if fold max (map ev_id (analytics_events s)) 0 > analytics_cursor s
      then Inl (Err ''analytics retention refuses unprojected events'')
      else if sql_count (\<lambda>m. mr_granularity m = ''minute'' \<and> mr_bucket_start m < AddDays (-31) now \<and>
                 \<not> covered ''hour'' 3600 (metric_rollups s) m) (metric_rollups s) \<noteq> 0
      then Inl (Err ''analytics retention refuses incomplete hourly rollups'')
      else if sql_count (\<lambda>h. mr_granularity h = ''hour'' \<and> mr_bucket_start h < AddDays (-366) now \<and>
                 \<not> covered ''day'' 86400 (metric_rollups s) h) (metric_rollups s) \<noteq> 0
      then Inl (Err ''analytics retention refuses incomplete daily rollups'')
      else let eligible = (\<lambda>e. ev_occurred_at e < AddDays (-31) now \<and> ev_id e \<le> analytics_cursor s) in
        if dry then Inr ((''dry-run'', sql_count eligible (analytics_events s)), s)
        else Inr ((''completed'', 0), s\<lparr>
          metric_rollups := filter (\<lambda>r.
            \<not> (mr_granularity r = ''minute'' \<and> mr_bucket_start r < AddDays (-31) now) \<and>
            \<not> (mr_granularity r = ''hour'' \<and> mr_bucket_start r < AddDays (-366) now) \<and>
            \<not> (mr_granularity r = ''day'' \<and> mr_bucket_start r < AddYears (-5) now)) (metric_rollups s),
          analytics_events := filter (\<lambda>e. \<not> eligible e) (analytics_events s)\<rparr>))"

definition rebuild_all :: "db \<Rightarrow> db" where
  "rebuild_all s = (case map ev_occurred_at (analytics_events s) of
       [] \<Rightarrow> s
     | t # ts \<Rightarrow> let first = fold min ts t; last = fold max ts t in
         if first \<noteq> 0 then RebuildWindow (Truncate 86400 first) (Truncate 86400 last + 86400) s else s)"

definition analyticsCommand :: "analytics_args \<Rightarrow> time \<Rightarrow> db \<Rightarrow> ((string \<times> nat) \<times> db) res" where
  "analyticsCommand a now s =
     (if aa_verb a \<noteq> ''rebuild'' \<and> aa_verb a \<noteq> ''retain'' then Inl (Err ''usage'')
      else if aa_dry a = aa_confirm a then Inl (Err ''exactly one of --dry-run or --confirm is required'')
      else bind_res (parseUTC (aa_from a)) (\<lambda>start. bind_res (parseUTC (aa_to a)) (\<lambda>end'.
        let from_given = (start \<noteq> zero_time); to_given = (end' \<noteq> zero_time) in
        if from_given \<noteq> to_given then Inl (Err ''analytics rebuild requires both --from and --to'')
        else if from_given \<and> \<not> start < end' then Inl (Err ''analytics rebuild requires --from before --to'')
        else if from_given \<and> (start mod 86400 \<noteq> 0 \<or> end' mod 86400 \<noteq> 0)
          then Inl (Err ''analytics rebuild bounds must align to UTC day buckets'')
        else if aa_verb a = ''retain'' \<and> (from_given \<or> to_given)
          then Inl (Err ''analytics retain does not accept --from/--to'')
        else if aa_dry a \<and> aa_verb a = ''rebuild'' then
          Inr ((''dry-run'', sql_count (\<lambda>e. \<not> from_given \<or>
            (ev_occurred_at e \<ge> start \<and> ev_occurred_at e < end')) (analytics_events s)), s)
        else if aa_verb a = ''rebuild'' then
          Inr ((''completed'', 0), if from_given then RebuildWindow start end' s else rebuild_all s)
        else retain (aa_dry a) now s)))"

section \<open>Queries\<close>

record query =
  q_From :: time
  q_To :: time
  q_Interval :: string
  q_Metric :: string
  q_Dimension :: string
  q_Series :: "string list"
  q_Cards :: "string list"

record qvalue =
  v_Key :: string
  v_State :: string
  v_Count :: int
  v_OldestAt :: "time option"

record bucket =
  b_Start :: time
  b_Values :: "qvalue list"

record snapshot =
  GeneratedAt :: time
  DataThrough :: "time option"
  ObservedAt :: "time option"
  HighWatermark :: int
  ProjectionLag :: int
  P95LatencyMS :: int
  LatencyKnown :: bool
  Partial :: bool
  Stale :: bool
  Values :: "qvalue list"
  Buckets :: "bucket list"

definition ErrInvalidQuery :: err where
  "ErrInvalidQuery = Err ''invalid analytics query''"

definition intervalDuration :: "string \<Rightarrow> int" where
  "intervalDuration interval = (if interval = ''minute'' then 60 else if interval = ''hour'' then 3600 else 86400)"

definition allowedMetric :: "string \<Rightarrow> bool" where
  "allowedMetric v = (v = [] \<or> v \<in> set [''admission_decision'', ''subject_preflight'', ''run_started'',
     ''run_lifecycle'', ''run_completed'', ''analyzer_observation'', ''report_delivery_state'',
     ''rejection_delivery_state''])"

definition allowedDimension :: "string \<Rightarrow> bool" where
  "allowedDimension v = (v = [] \<or> v \<in> set [''outcome'', ''stage'', ''reason'', ''state'', ''queue'',
     ''worker'', ''analyzer''])"

fun uniqueAllowed_from :: "string set \<Rightarrow> (string \<Rightarrow> bool) \<Rightarrow> string list \<Rightarrow> bool" where
  "uniqueAllowed_from seen ok [] = True"
| "uniqueAllowed_from seen ok (v # vs) =
     (if \<not> ok v \<or> v \<in> seen then False else uniqueAllowed_from (insert v seen) ok vs)"

definition uniqueAllowed :: "string list \<Rightarrow> (string \<Rightarrow> bool) \<Rightarrow> bool" where
  "uniqueAllowed vs ok = uniqueAllowed_from {} ok vs"

definition max_to :: "string \<Rightarrow> time \<Rightarrow> time" where
  "max_to interval from = (if interval = ''minute'' then AddDays 31 from
     else if interval = ''hour'' then AddDays 366 from else AddYears 5 from)"

definition validate :: "query \<Rightarrow> unit res" where
  "validate q =
     (if q_From q = zero_time \<or> q_To q = zero_time \<or> \<not> q_To q > q_From q \<or>
         (q_Interval q \<noteq> ''minute'' \<and> q_Interval q \<noteq> ''hour'' \<and> q_Interval q \<noteq> ''day'') \<or>
         length (q_Series q) > 12 \<or> length (q_Cards q) > 24
      then Inl ErrInvalidQuery
      else if q_From q \<noteq> Truncate (intervalDuration (q_Interval q)) (q_From q) \<or>
              q_To q \<noteq> Truncate (intervalDuration (q_Interval q)) (q_To q)
      then Inl ErrInvalidQuery
      else if q_To q > max_to (q_Interval q) (q_From q) \<or> \<not> allowedMetric (q_Metric q) \<or>
              \<not> allowedDimension (q_Dimension q) \<or> \<not> uniqueAllowed (q_Series q) allowedMetric \<or>
              \<not> uniqueAllowed (q_Cards q) allowedMetric
      then Inl ErrInvalidQuery else Inr ())"

definition snapshot_of :: "time \<Rightarrow> int \<Rightarrow> time \<Rightarrow> snapshot" where
  "snapshot_of now watermark dataThrough =
     (let s = \<lparr>GeneratedAt = now, DataThrough = None, ObservedAt = None, HighWatermark = watermark,
            ProjectionLag = 0, P95LatencyMS = 0, LatencyKnown = False, Partial = False, Stale = False,
            Values = [], Buckets = []\<rparr> in
      if watermark = 0 then s\<lparr>Partial := True\<rparr>
      else s\<lparr>DataThrough := Some dataThrough, ProjectionLag := now - dataThrough,
             Stale := now - dataThrough > 300\<rparr>)"

text \<open>
  \<open>COALESCE(NULLIF(json_extract(dimension_key,'$.dim'),''),'unknown')\<close>; SQLite's
  \<open>json_extract\<close> is a parameter (\<open>None\<close> for SQL \<open>NULL\<close>).
\<close>

type_synonym json_extractor = "string \<Rightarrow> string \<Rightarrow> string option"

definition dimension_value :: "json_extractor \<Rightarrow> string \<Rightarrow> rollup \<Rightarrow> string" where
  "dimension_value ex dim r = (case ex (mr_dimension_key r) dim of
     None \<Rightarrow> ''unknown'' | Some v \<Rightarrow> if v = [] then ''unknown'' else v)"

definition in_window :: "query \<Rightarrow> string list \<Rightarrow> rollup \<Rightarrow> bool" where
  "in_window q metrics r = (mr_granularity r = q_Interval q \<and> mr_bucket_start r \<ge> q_From q \<and>
     mr_bucket_start r < q_To q \<and> mr_metric r \<in> set metrics)"

definition sum_count :: "rollup list \<Rightarrow> int" where
  "sum_count t = sum_list (map mr_event_count t)"

definition max_of :: "int list \<Rightarrow> int" where
  "max_of xs = fold max xs 0"

text \<open>\<open>GROUP BY k ORDER BY k\<close>: one group of rows per key, keys ascending.\<close>

definition group_by :: "('r \<Rightarrow> 'k::linorder) \<Rightarrow> 'r list \<Rightarrow> ('k \<times> 'r list) list" where
  "group_by k t = map (\<lambda>v. (v, filter (\<lambda>r. k r = v) t)) (sort (remdups (map k t)))"

text \<open>
  The Go map \<open>byBucket[bucket][key]\<close> as an association list per bucket; the program sorts
  what it reads back by key, so the order of a map's iteration does not matter.
\<close>

type_synonym by_bucket = "((time \<times> string) \<times> int) list"

definition series_rows :: "json_extractor \<Rightarrow> query \<Rightarrow> string list \<Rightarrow> db \<Rightarrow> ((time \<times> string \<times> string) \<times> rollup list) list" where
  "series_rows ex q metrics s = group_by
     (\<lambda>r. (mr_bucket_start r, mr_metric r, if q_Dimension q = [] then [] else dimension_value ex (q_Dimension q) r))
     (filter (in_window q metrics) (metric_rollups s))"

definition series_key :: "query \<Rightarrow> string \<Rightarrow> string \<Rightarrow> string" where
  "series_key q metric v = (if q_Dimension q = [] then metric else metric @ '':'' @ v)"

definition by_bucket_add :: "time \<times> string \<Rightarrow> int \<Rightarrow> by_bucket \<Rightarrow> by_bucket" where
  "by_bucket_add k n m = AList.update k ((case map_of m k of None \<Rightarrow> 0 | Some c \<Rightarrow> c) + n) m"

definition by_bucket_of :: "query \<Rightarrow> ((time \<times> string \<times> string) \<times> rollup list) list \<Rightarrow> by_bucket" where
  "by_bucket_of q rows = fold (\<lambda>((b, metric, v), rs) m. by_bucket_add (b, series_key q metric v) (sum_count rs) m) rows []"

definition known :: "string \<Rightarrow> int \<Rightarrow> qvalue" where
  "known key n = \<lparr>v_Key = key, v_State = ''known'', v_Count = n, v_OldestAt = None\<rparr>"

definition series_values :: "query \<Rightarrow> string list \<Rightarrow> by_bucket \<Rightarrow> time \<Rightarrow> qvalue list" where
  "series_values q metrics m at = sort_key v_Key (concat (map (\<lambda>metric.
     if q_Dimension q = [] then [known metric (case map_of m (at, metric) of None \<Rightarrow> 0 | Some c \<Rightarrow> c)]
     else map (\<lambda>((_, key), n). known key n)
       (filter (\<lambda>((b, key), _). b = at \<and> HasPrefix key (metric @ '':'')) m)) metrics))"

text \<open>The bucket starts from \<open>from\<close> up to \<open>to\<close>, excluded, in steps of a positive \<open>d\<close>.\<close>

function bucket_starts :: "time \<Rightarrow> time \<Rightarrow> int \<Rightarrow> time list" where
  "bucket_starts at to d = (if at < to \<and> 0 < d then at # bucket_starts (at + d) to d else [])"
  by pat_completeness auto
termination by (relation "measure (\<lambda>(at, to, d). nat (to - at))") auto

declare bucket_starts.simps [simp del]

definition Series :: "json_extractor \<Rightarrow> time \<Rightarrow> query \<Rightarrow> db \<Rightarrow> snapshot res" where
  "Series ex now q s = bind_res (validate q) (\<lambda>_.
     let metrics = (if q_Series q = [] then [q_Metric q] else q_Series q);
         rows = series_rows ex q metrics s;
         byBucket = by_bucket_of q rows;
         watermark = max_of (map (\<lambda>(_, rs). fold max (map mr_high_watermark (tl rs)) (mr_high_watermark (hd rs))) rows);
         dataThrough = max_of (map (\<lambda>((b, _, _), _). b) rows)
     in Inr ((snapshot_of now watermark dataThrough)\<lparr>Buckets :=
          map (\<lambda>at. \<lparr>b_Start = at, b_Values = series_values q metrics byBucket at\<rparr>)
            (bucket_starts (q_From q) (q_To q) (intervalDuration (q_Interval q)))\<rparr>))"

definition default_cards :: "string list" where
  "default_cards = [''admission_decision'', ''run_started'', ''run_completed'', ''report_delivery_state'',
     ''rejection_delivery_state'']"

definition aggregate :: "json_extractor \<Rightarrow> time \<Rightarrow> query \<Rightarrow> string \<Rightarrow> db \<Rightarrow> snapshot res" where
  "aggregate ex now q dimension s = bind_res (validate q) (\<lambda>_.
     let metrics = (if q_Cards q = [] then default_cards else q_Cards q);
         rows = group_by (\<lambda>r. if dimension = [] then mr_metric r else dimension_value ex dimension r)
                  (filter (in_window q metrics) (metric_rollups s));
         watermark = max_of (map (\<lambda>(_, rs). fold max (map mr_high_watermark (tl rs)) (mr_high_watermark (hd rs))) rows);
         dataThrough = max_of (map (\<lambda>(_, rs). fold max (map mr_bucket_start (tl rs)) (mr_bucket_start (hd rs))) rows)
     in Inr ((snapshot_of now watermark dataThrough)\<lparr>Values :=
          map (\<lambda>(k, rs). known (if k = [] then ''unknown'' else k) (sum_count rs)) rows\<rparr>))"

function latency_index :: "int \<Rightarrow> int \<Rightarrow> nat \<Rightarrow> nat" where
  "latency_index duration bound index =
     (if duration \<ge> bound \<and> index < 17 then latency_index duration (bound * 2) (index + 1) else index)"
  by pat_completeness auto
termination by (relation "measure (\<lambda>(_, _, index). 17 - index)") auto

declare latency_index.simps [simp del]

definition latency_rows :: "query \<Rightarrow> db \<Rightarrow> (int \<times> nat) list" where
  "latency_rows q s = map (\<lambda>(d, es). (d, length es)) (group_by ev_duration_ms
     (filter (\<lambda>e. ev_type e = ''analyzer_observation'' \<and> ev_occurred_at e \<ge> q_From q \<and>
        ev_occurred_at e < q_To q \<and> ev_duration_ms e > 0) (analytics_events s)))"

definition latency_buckets :: "(int \<times> nat) list \<Rightarrow> nat list" where
  "latency_buckets rows = fold (\<lambda>(duration, n) bs. let i = latency_index duration 2 0 in bs[i := bs ! i + n])
     rows (replicate 18 0)"

fun latency_pick :: "nat list \<Rightarrow> nat \<Rightarrow> nat \<Rightarrow> nat \<Rightarrow> int" where
  "latency_pick [] index seen target = 2 ^ 17"
| "latency_pick (n # bs) index seen target =
     (if seen + n \<ge> target then 2 ^ index else latency_pick bs (index + 1) (seen + n) target)"

definition latencyP95 :: "query \<Rightarrow> db \<Rightarrow> int \<times> bool" where
  "latencyP95 q s =
     (if q_To q - q_From q > 31 * 86400 then (0, False)
      else let rows = latency_rows q s; total = sum_list (map snd rows) in
        if total = 0 then (0, False)
        else (latency_pick (latency_buckets rows) 0 0 ((95 * total + 99) div 100), True))"

definition Overview :: "json_extractor \<Rightarrow> time \<Rightarrow> query \<Rightarrow> db \<Rightarrow> snapshot res" where
  "Overview ex now q s =
     (if q_Dimension q \<noteq> [] then Inl ErrInvalidQuery
      else bind_res (aggregate ex now q [] s) (\<lambda>snap.
        let (p95, k) = latencyP95 q s in Inr (snap\<lparr>P95LatencyMS := p95, LatencyKnown := k\<rparr>)))"

definition Funnel :: "json_extractor \<Rightarrow> time \<Rightarrow> query \<Rightarrow> db \<Rightarrow> snapshot res" where
  "Funnel ex now q s =
     (if q_Dimension q \<noteq> [] \<and> q_Dimension q \<noteq> ''stage'' then Inl ErrInvalidQuery
      else aggregate ex now q ''stage'' s)"

definition state_value :: "string \<Rightarrow> time list \<Rightarrow> qvalue" where
  "state_value key created = \<lparr>v_Key = key, v_State = ''known'', v_Count = int (length created),
     v_OldestAt = (case created of [] \<Rightarrow> None | t # ts \<Rightarrow> Some (fold min ts t))\<rparr>"

definition runs_created :: "run_state \<Rightarrow> db \<Rightarrow> time list" where
  "runs_created st s = map r_created_at (filter (\<lambda>r. r_state r = st) (runs s))"

definition Operations :: "time \<Rightarrow> query \<Rightarrow> db \<Rightarrow> snapshot res" where
  "Operations now q s =
     (if q_Dimension q \<noteq> [] \<or> q_Metric q \<noteq> [] \<or> q_Series q \<noteq> [] \<or> q_Cards q \<noteq> [] then Inl ErrInvalidQuery
      else bind_res (validate q) (\<lambda>_. Inr \<lparr>GeneratedAt = now, DataThrough = Some now, ObservedAt = Some now,
        HighWatermark = 0, ProjectionLag = 0, P95LatencyMS = 0, LatencyKnown = False, Partial = False,
        Stale = False,
        Values = sort_key v_Key
          [state_value ''queued'' (runs_created Queued s),
           state_value ''analysis_leased'' (runs_created AnalysisLeased s),
           state_value ''report_pending'' (runs_created ReportPending s),
           state_value ''report_leased'' (runs_created ReportLeased s),
           state_value ''rejection_pending''
             (map wi_created_at (filter (\<lambda>w. wi_state w = ''pending'') (rejection_work_items s)))],
        Buckets = []\<rparr>))"

section \<open>What the rollups count\<close>

text \<open>
  The specification: a rollup key names the events that fall in its bucket, and the table
  counts, for each key, the events the cursor has passed.
\<close>

type_synonym rollup_key = "time \<times> string \<times> string \<times> string \<times> int \<times> string"

definition in_bucket :: "rollup_key \<Rightarrow> analytics_event \<Rightarrow> bool" where
  "in_bucket k e = list_ex (\<lambda>level. rollup_key (event_rollup e level) = k) levels"

definition rollup_count :: "rollup_key \<Rightarrow> rollup list \<Rightarrow> int" where
  "rollup_count k t = (case row_by rollup_key k t of None \<Rightarrow> 0 | Some r \<Rightarrow> mr_event_count r)"

definition pending :: "db \<Rightarrow> analytics_event list" where
  "pending s = filter (\<lambda>e. ev_id e > analytics_cursor s) (analytics_events s)"

definition events_ok :: "db \<Rightarrow> bool" where
  "events_ok s = (sorted_wrt (<) (map ev_id (analytics_events s)) \<and>
     distinct (map event_identity (analytics_events s)))"

definition projected :: "db \<Rightarrow> bool" where
  "projected s = (distinct (map rollup_key (metric_rollups s)) \<and>
     (\<forall>k. rollup_count k (metric_rollups s) =
        int (sql_count (\<lambda>e. ev_id e \<le> analytics_cursor s \<and> in_bucket k e) (analytics_events s))))"

definition analytics_ok :: "db \<Rightarrow> bool" where
  "analytics_ok s = (events_ok s \<and> projected s \<and>
     analytics_cursor s < next_rowid (map ev_id (analytics_events s)))"

lemma rollup_key_count [simp]: "rollup_key (r\<lparr>mr_event_count := c, mr_high_watermark := w\<rparr>) = rollup_key r"
  by (simp add: rollup_key_def)

lemma upsert_distinct: "distinct (map rollup_key t) \<Longrightarrow> distinct (map rollup_key (upsert_rollup row t))"
  by (auto simp: upsert_rollup_def fresh_def)

lemma upsert_count:
  "mr_event_count row = 1 \<Longrightarrow>
   rollup_count k (upsert_rollup row t) = rollup_count k t + (if rollup_key row = k then 1 else 0)"
proof (cases "fresh rollup_key row t")
  case True
  then have "row_by rollup_key (rollup_key row) t = None" by (simp add: row_by_None fresh_def)
  moreover assume "mr_event_count row = 1"
  ultimately show ?thesis
    using True by (cases "row_by rollup_key k t") (auto simp: upsert_rollup_def rollup_count_def row_by_append)
next
  case False
  then obtain r where "row_by rollup_key (rollup_key row) t = Some r"
    using row_by_None [of rollup_key "rollup_key row" t] by (auto simp: fresh_def)
  moreover from this have "rollup_key r = rollup_key row" using row_by_Some by fast
  moreover have "rollup_key q = k" if "row_by rollup_key k t = Some q" for q using that row_by_Some by fast
  ultimately show ?thesis
    using False by (cases "row_by rollup_key k t") (auto simp: upsert_rollup_def rollup_count_def row_by_sql_update)
qed

lemma project_event_distinct: "distinct (map rollup_key t) \<Longrightarrow> distinct (map rollup_key (project_event e t))"
  by (simp add: project_event_def levels_def upsert_distinct)

lemma event_rollup_simps [simp]:
  "mr_event_count (event_rollup e l) = 1" "mr_granularity (event_rollup e l) = fst l"
  by (simp_all add: event_rollup_def)

lemma project_event_count:
  "rollup_count k (project_event e t) = rollup_count k t + (if in_bucket k e then 1 else 0)"
  by (auto simp: project_event_def in_bucket_def levels_def upsert_count rollup_key_def)

lemma fold_project_distinct:
  "distinct (map rollup_key t) \<Longrightarrow> distinct (map rollup_key (fold project_event es t))"
  by (induction es arbitrary: t) (simp_all add: project_event_distinct)

lemma fold_project_count:
  "rollup_count k (fold project_event es t) = rollup_count k t + int (sql_count (in_bucket k) es)"
  by (induction es arbitrary: t) (simp_all add: project_event_count)

lemma project_rows_fold:
  "project_rows es c n t = (if es = [] then c else ev_id (last es), n + length es, fold project_event es t)"
  by (induction es arbitrary: c n t) auto

subsection \<open>Projection\<close>

lemma sorted_filter_split:
  fixes k :: "'a \<Rightarrow> int"
  shows "sorted_wrt (<) (map k xs) \<Longrightarrow> xs = filter (\<lambda>x. k x \<le> c) xs @ filter (\<lambda>x. k x > c) xs"
proof (induction xs)
  case (Cons x xs)
  then have IH: "xs = filter (\<lambda>x. k x \<le> c) xs @ filter (\<lambda>x. k x > c) xs" by simp
  show ?case
  proof (cases "k x \<le> c")
    case False
    with Cons.prems have "filter (\<lambda>x. k x \<le> c) xs = []" by (auto simp: filter_empty_conv)
    with IH False show ?thesis by simp
  qed (use IH in simp)
qed simp

lemma sort_key_sorted: "sorted_wrt (<) (map k xs) \<Longrightarrow> sort_key (k :: 'a \<Rightarrow> int) xs = xs"
  by (intro sort_key_id_if_sorted strict_sorted_imp_sorted) simp

lemma pending_sorted: "events_ok s \<Longrightarrow> sorted_wrt (<) (map ev_id (pending s))"
  unfolding events_ok_def pending_def
  by (simp add: sorted_wrt_map sorted_wrt_filter)

definition cursor_after :: "int \<Rightarrow> analytics_event list \<Rightarrow> int" where
  "cursor_after c es = (if es = [] then c else ev_id (last es))"

lemma ProjectOnce_eq:
  assumes "events_ok s" "1 \<le> b" "b \<le> 1000"
  shows "ProjectOnce b s = Inr (length (take (nat b) (pending s)),
    s\<lparr>metric_rollups := fold project_event (take (nat b) (pending s)) (metric_rollups s),
      analytics_cursor := cursor_after (analytics_cursor s) (take (nat b) (pending s))\<rparr>)"
  using assms sort_key_sorted [OF pending_sorted [OF assms(1)]]
  by (simp add: ProjectOnce_def project_rows_fold pending_def [symmetric] cursor_after_def Let_def)

lemma ProjectOnce_Inr:
  assumes "ProjectOnce b s = Inr (n, s')" "events_ok s"
  shows "1 \<le> b" "b \<le> 1000" "n = length (take (nat b) (pending s))"
    "s' = s\<lparr>metric_rollups := fold project_event (take (nat b) (pending s)) (metric_rollups s),
      analytics_cursor := cursor_after (analytics_cursor s) (take (nat b) (pending s))\<rparr>"
proof -
  show b: "1 \<le> b" "b \<le> 1000" using assms(1) by (auto simp: ProjectOnce_def split: if_splits)
  show "n = length (take (nat b) (pending s))"
    "s' = s\<lparr>metric_rollups := fold project_event (take (nat b) (pending s)) (metric_rollups s),
      analytics_cursor := cursor_after (analytics_cursor s) (take (nat b) (pending s))\<rparr>"
    using assms(1) ProjectOnce_eq [OF assms(2) b] by auto
qed

lemma take_sorted_split:
  fixes k :: "'a \<Rightarrow> int"
  assumes "sorted_wrt (<) (map k xs)" "take m xs \<noteq> []"
  shows "\<forall>x \<in> set (take m xs). k x \<le> k (last (take m xs))"
    "\<forall>x \<in> set (drop m xs). k (last (take m xs)) < k x"
proof -
  have s: "sorted_wrt (<) (map k (take m xs @ drop m xs))" using assms(1) by simp
  obtain ys y where t: "take m xs = ys @ [y]" using assms(2) by (metis rev_exhaust)
  from s show "\<forall>x \<in> set (take m xs). k x \<le> k (last (take m xs))"
    "\<forall>x \<in> set (drop m xs). k (last (take m xs)) < k x"
    unfolding t by (auto simp: sorted_wrt_append less_imp_le)
qed

lemma filter_three:
  assumes "xs = as @ bs @ cs"
  shows "\<forall>x \<in> set as \<union> set bs. P x \<Longrightarrow> \<forall>x \<in> set cs. \<not> P x \<Longrightarrow> filter P xs = as @ bs"
    and "\<forall>x \<in> set as \<union> set bs. P x \<Longrightarrow> \<forall>x \<in> set cs. \<not> P x \<Longrightarrow> filter (\<lambda>x. \<not> P x) xs = cs"
  unfolding assms by (simp_all add: filter_id_conv filter_empty_conv)

lemma cursor_after_split:
  assumes "events_ok s" "c' = cursor_after (analytics_cursor s) (take m (pending s))"
  shows "filter (\<lambda>e. ev_id e \<le> c') (analytics_events s) =
           filter (\<lambda>e. ev_id e \<le> analytics_cursor s) (analytics_events s) @ take m (pending s)"
    and "filter (\<lambda>e. ev_id e > c') (analytics_events s) = drop m (pending s)"
proof -
  let ?A = "filter (\<lambda>e. ev_id e \<le> analytics_cursor s) (analytics_events s)"
  have split: "analytics_events s = ?A @ take m (pending s) @ drop m (pending s)"
    using assms(1) sorted_filter_split [of ev_id "analytics_events s" "analytics_cursor s"]
    by (simp add: events_ok_def pending_def)
  have above: "\<forall>e \<in> set (pending s). analytics_cursor s < ev_id e" by (simp add: pending_def)
  have bounds: "(\<forall>e \<in> set ?A. ev_id e \<le> c') \<and> (\<forall>e \<in> set (take m (pending s)). ev_id e \<le> c') \<and>
    (\<forall>e \<in> set (drop m (pending s)). c' < ev_id e)"
  proof (cases "take m (pending s) = []")
    case True
    then show ?thesis
      using assms(2) above by (auto simp: cursor_after_def dest: in_set_dropD)
  next
    case False
    have c: "c' = ev_id (last (take m (pending s)))" using False assms(2) by (simp add: cursor_after_def)
    have "last (take m (pending s)) \<in> set (pending s)" using False by (meson in_set_takeD last_in_set)
    then have "\<forall>e \<in> set ?A. ev_id e \<le> c'" using above c by fastforce
    then show ?thesis
      using take_sorted_split [OF pending_sorted [OF assms(1)] False] c by auto
  qed
  note parts = filter_three [OF split, of "\<lambda>e. ev_id e \<le> c'"]
  show "filter (\<lambda>e. ev_id e \<le> c') (analytics_events s) = ?A @ take m (pending s)"
    using bounds by (intro parts(1)) (auto simp: not_le)
  have "filter (\<lambda>e. \<not> ev_id e \<le> c') (analytics_events s) = drop m (pending s)"
    using bounds by (intro parts(2)) (auto simp: not_le)
  then show "filter (\<lambda>e. ev_id e > c') (analytics_events s) = drop m (pending s)"
    by (simp add: not_le)
qed

lemma pending_ProjectOnce:
  assumes "events_ok s" "ProjectOnce b s = Inr (n, s')"
  shows "pending s' = drop (nat b) (pending s)"
  using ProjectOnce_Inr(4) [OF assms(2,1)] cursor_after_split(2) [OF assms(1) refl]
  by (simp add: pending_def)

lemma cursor_after_less:
  assumes "analytics_ok s"
  shows "cursor_after (analytics_cursor s) (take m (pending s)) < next_rowid (map ev_id (analytics_events s))"
proof (cases "take m (pending s) = []")
  case False
  then have "last (take m (pending s)) \<in> set (analytics_events s)"
    by (metis (no_types, lifting) filter_is_subset in_set_takeD last_in_set pending_def subsetD)
  with False show ?thesis by (simp add: cursor_after_def next_rowid_fresh)
qed (use assms in \<open>simp add: cursor_after_def analytics_ok_def\<close>)

lemma ProjectOnce_keeps:
  assumes ok: "analytics_ok s" and p: "ProjectOnce b s = Inr (n, s')"
  shows "analytics_ok s'"
proof -
  have ev: "events_ok s" and pr: "projected s" using ok by (simp_all add: analytics_ok_def)
  note s' = ProjectOnce_Inr(4) [OF p ev]
  let ?c = "cursor_after (analytics_cursor s) (take (nat b) (pending s))"
  have "sql_count (\<lambda>e. ev_id e \<le> ?c \<and> in_bucket k e) (analytics_events s) =
      sql_count (\<lambda>e. ev_id e \<le> analytics_cursor s \<and> in_bucket k e) (analytics_events s) +
      sql_count (in_bucket k) (take (nat b) (pending s))" for k
    using arg_cong [OF cursor_after_split(1) [OF ev refl, of "nat b"], of "\<lambda>xs. length (filter (in_bucket k) xs)"]
    by (simp add: sql_count_def conj_commute)
  then have "projected s'"
    using pr by (auto simp: projected_def s' fold_project_distinct fold_project_count)
  moreover have "events_ok s'" using ev by (simp add: events_ok_def s')
  ultimately show ?thesis
    using cursor_after_less [OF ok] by (simp add: analytics_ok_def s')
qed

lemma InsertTx_rows:
  assumes "InsertTx cr e s = Inr s'"
  shows "s' = s \<or> (\<exists>row. s' = s\<lparr>analytics_events := analytics_events s @ [row]\<rparr> \<and>
     ev_id row = next_rowid (map ev_id (analytics_events s)) \<and>
     event_identity row \<notin> event_identity ` set (analytics_events s))"
  using assms by (auto simp: InsertTx_def bind_res_Inr_iff Let_def fresh_def split: if_splits)

lemma InsertTx_keeps:
  assumes ok: "analytics_ok s" and i: "InsertTx cr e s = Inr s'"
  shows "analytics_ok s'"
  using InsertTx_rows [OF i]
proof
  assume "\<exists>row. s' = s\<lparr>analytics_events := analytics_events s @ [row]\<rparr> \<and>
     ev_id row = next_rowid (map ev_id (analytics_events s)) \<and>
     event_identity row \<notin> event_identity ` set (analytics_events s)"
  then obtain row where s': "s' = s\<lparr>analytics_events := analytics_events s @ [row]\<rparr>"
    and id: "ev_id row = next_rowid (map ev_id (analytics_events s))"
    and fr: "event_identity row \<notin> event_identity ` set (analytics_events s)" by blast
  have lt: "\<forall>e \<in> set (analytics_events s). ev_id e < ev_id row" using id by (simp add: next_rowid_fresh)
  moreover have "analytics_cursor s < ev_id row" using ok id by (simp add: analytics_ok_def)
  moreover have "ev_id row < next_rowid (map ev_id (analytics_events s @ [row]))"
    by (rule next_rowid_fresh) simp
  ultimately show ?thesis
    using ok fr by (auto simp: analytics_ok_def events_ok_def projected_def s' sorted_wrt_append)
qed (use ok in simp)

lemma analytics_ok_Migrate: "analytics_ok (Migrate now)"
  by (simp add: analytics_ok_def events_ok_def projected_def Migrate_def rollup_count_def next_rowid_def)

lemma ProjectOnce_twice:
  assumes ev: "events_ok s" and b: "1 \<le> b" "1 \<le> c" "b + c \<le> 1000"
    and p: "ProjectOnce b s = Inr (n, s1)" "ProjectOnce c s1 = Inr (m, s2)"
  shows "ProjectOnce (b + c) s = Inr (n + m, s2)"
proof -
  note s1 = ProjectOnce_Inr(3,4) [OF p(1) ev]
  have ev1: "events_ok s1" using ev by (simp add: events_ok_def s1)
  note s2 = ProjectOnce_Inr(3,4) [OF p(2) ev1]
  have split: "take (nat (b + c)) (pending s) = take (nat b) (pending s) @ take (nat c) (pending s1)"
    using b take_add [of "nat b" "nat c" "pending s"] by (simp add: pending_ProjectOnce [OF ev p(1)] nat_add_distrib)
  have eq: "ProjectOnce (b + c) s = Inr (length (take (nat (b + c)) (pending s)),
    s\<lparr>metric_rollups := fold project_event (take (nat (b + c)) (pending s)) (metric_rollups s),
      analytics_cursor := cursor_after (analytics_cursor s) (take (nat (b + c)) (pending s))\<rparr>)"
    using b by (intro ProjectOnce_eq ev) simp_all
  show ?thesis
    unfolding eq split s2(1) s2(2)
    by (simp add: s1(1) cursor_after_def s1(2) del: take_append length_take)
qed

text \<open>
  C3: However the projector batches its work, the minute, hour and day rollups count exactly
  the events the cursor has passed: each call of \<open>ProjectOnce\<close> keeps that correspondence,
  consumes \<open>min batch pending\<close> events in id order and leaves the rest pending.
\<close>

theorem ProjectOnce_correct:
  assumes "analytics_ok s" "1 \<le> b" "b \<le> 1000"
  shows "\<exists>n s'. ProjectOnce b s = Inr (n, s') \<and> analytics_ok s' \<and>
    n = min (nat b) (length (pending s)) \<and> pending s' = drop (nat b) (pending s) \<and>
    (\<forall>k. rollup_count k (metric_rollups s') =
      rollup_count k (metric_rollups s) + int (sql_count (in_bucket k) (take (nat b) (pending s))))"
proof -
  have ev: "events_ok s" using assms(1) by (simp add: analytics_ok_def)
  obtain n s' where p: "ProjectOnce b s = Inr (n, s')" using ProjectOnce_eq [OF ev assms(2,3)] by blast
  note eq = ProjectOnce_Inr(3,4) [OF p ev]
  have "rollup_count k (metric_rollups s') =
      rollup_count k (metric_rollups s) + int (sql_count (in_bucket k) (take (nat b) (pending s)))" for k
    by (simp add: eq(2) fold_project_count)
  with p eq(1) show ?thesis
    using ProjectOnce_keeps [OF assms(1) p] pending_ProjectOnce [OF ev p]
    by (auto simp: min.commute)
qed

subsection \<open>Rebuild\<close>

lemma Truncate_ge:
  assumes "0 < d" "d dvd a"
  shows "a \<le> Truncate d t \<longleftrightarrow> a \<le> t"
proof
  assume "a \<le> t"
  from assms(2) obtain j where j: "a = d * j" by blast
  with zdiv_mono1 [OF \<open>a \<le> t\<close> assms(1)] assms(1) have "j \<le> t div d" by simp
  then have "d * j \<le> d * (t div d)" using assms(1) by simp
  then show "a \<le> Truncate d t" by (simp add: j Truncate_def minus_mod_eq_mult_div)
next
  assume "a \<le> Truncate d t"
  then show "a \<le> t" unfolding Truncate_def using pos_mod_sign [OF assms(1), of t] by linarith
qed

lemma Truncate_aligned: "d dvd a \<Longrightarrow> Truncate d a = a"
  by (simp add: Truncate_def)

lemma level_divides: "(name, d) \<in> set levels \<Longrightarrow> 86400 dvd a \<Longrightarrow> 0 < d \<and> d dvd a"
  by (auto simp: levels_def elim!: dvd_trans [rotated])

lemma in_bucket_start:
  assumes "in_bucket k e" "86400 dvd a"
  shows "a \<le> fst k \<longleftrightarrow> a \<le> ev_occurred_at e"
proof -
  obtain name d where l: "(name, d) \<in> set levels" "rollup_key (event_rollup e (name, d)) = k"
    using assms(1) by (auto simp: in_bucket_def list_ex_iff)
  with level_divides [OF l(1) assms(2)] show ?thesis
    by (auto simp: rollup_key_def event_rollup_def Truncate_ge)
qed

definition window_kept :: "time \<Rightarrow> time \<Rightarrow> rollup list \<Rightarrow> rollup list" where
  "window_kept from to t = filter (\<lambda>r. \<not> (mr_granularity r \<in> fst ` set levels \<and>
     from \<le> mr_bucket_start r \<and> mr_bucket_start r < to)) t"

lemma RebuildWindow_aligned:
  assumes "86400 dvd from" "86400 dvd to"
  shows "metric_rollups (RebuildWindow from to s) = fold project_event
     (sort_key ev_id (filter (\<lambda>e. from \<le> ev_occurred_at e \<and> ev_occurred_at e < to) (analytics_events s)))
     (window_kept from to (metric_rollups s))"
proof -
  have "Truncate d from = from" "Truncate d to = to" if "(name, d) \<in> set levels" for name d
    using level_divides [OF that] assms by (simp_all add: Truncate_aligned)
  then have t: "Truncate 60 from = from" "Truncate 3600 from = from" "Truncate 86400 from = from"
     "Truncate 60 to = to" "Truncate 3600 to = to" "Truncate 86400 to = to"
    by (force simp: levels_def)+
  have "fold (\<lambda>(name, d) t. filter (\<lambda>r. \<not> (mr_granularity r = name \<and>
          mr_bucket_start r \<ge> Truncate d from \<and> mr_bucket_start r < Truncate d to)) t) levels (metric_rollups s)
       = window_kept from to (metric_rollups s)"
    by (auto simp: levels_def t window_kept_def intro!: filter_cong)
  then show ?thesis by (simp add: RebuildWindow_def Let_def)
qed

lemma rollup_count_filter_key:
  assumes "\<And>r. rollup_key r = k \<Longrightarrow> P r = b"
  shows "rollup_count k (filter P t) = (if b then rollup_count k t else 0)"
  using assms by (induction t) (auto simp: rollup_count_def)

lemma RebuildWindow_count:
  assumes "86400 dvd from" "86400 dvd to" "fst (snd k) \<in> fst ` set levels"
  shows "rollup_count k (metric_rollups (RebuildWindow from to s)) =
      (if from \<le> fst k \<and> fst k < to then int (sql_count (in_bucket k) (analytics_events s))
       else rollup_count k (metric_rollups s)) \<and>
    analytics_cursor (RebuildWindow from to s) = analytics_cursor s"
proof -
  let ?W = "\<lambda>e. from \<le> ev_occurred_at e \<and> ev_occurred_at e < to"
  have kept: "rollup_count k (window_kept from to (metric_rollups s)) =
      (if from \<le> fst k \<and> fst k < to then 0 else rollup_count k (metric_rollups s))"
    unfolding window_kept_def using assms(3)
    by (subst rollup_count_filter_key [of _ _ "\<not> (from \<le> fst k \<and> fst k < to)"]) (auto simp: rollup_key_def image_iff)
  have window: "(in_bucket k e \<and> ?W e) = (in_bucket k e \<and> from \<le> fst k \<and> fst k < to)" for e
    using in_bucket_start [OF _ assms(1), of k e] in_bucket_start [OF _ assms(2), of k e]
    by (metis not_le)
  have "sql_count (in_bucket k) (sort_key ev_id (filter ?W (analytics_events s))) =
      sql_count (\<lambda>e. in_bucket k e \<and> ?W e) (analytics_events s)"
    by (simp add: sql_count_def filter_sort conj_commute)
  also have "\<dots> = (if from \<le> fst k \<and> fst k < to then sql_count (in_bucket k) (analytics_events s) else 0)"
    using window by (simp add: sql_count_def filter_empty_conv cong: conj_cong)
  finally have "rollup_count k (metric_rollups (RebuildWindow from to s)) =
      (if from \<le> fst k \<and> fst k < to then int (sql_count (in_bucket k) (analytics_events s))
       else rollup_count k (metric_rollups s))"
    by (simp add: RebuildWindow_aligned [OF assms(1,2)] fold_project_count kept)
  then show ?thesis
    by (simp add: RebuildWindow_def Let_def)
qed

lemma RebuildWindow_frame:
  "analytics_events (RebuildWindow from to s) = analytics_events s"
  "pending (RebuildWindow from to s) = pending s"
  "events_ok (RebuildWindow from to s) = events_ok s"
  by (simp_all add: RebuildWindow_def Let_def pending_def events_ok_def)

lemma RebuildWindow_cursor: "analytics_cursor (RebuildWindow from to s) = analytics_cursor s"
  by (simp add: RebuildWindow_def Let_def)

lemma in_bucket_level: "in_bucket k e \<Longrightarrow> fst (snd k) \<in> fst ` set levels"
  by (force simp: in_bucket_def list_ex_iff rollup_key_def event_rollup_def)

lemma RebuildWindow_count_other:
  assumes "86400 dvd from" "86400 dvd to" "fst (snd k) \<notin> fst ` set levels"
  shows "rollup_count k (metric_rollups (RebuildWindow from to s)) = rollup_count k (metric_rollups s)"
proof -
  have none: "\<not> in_bucket k e" for e using assms(3) in_bucket_level by blast
  have "rollup_count k (window_kept from to (metric_rollups s)) = rollup_count k (metric_rollups s)"
    unfolding window_kept_def using assms(3)
    by (subst rollup_count_filter_key [of _ _ True]) (auto simp: rollup_key_def image_iff)
  then show ?thesis
    by (simp add: RebuildWindow_aligned [OF assms(1,2)] fold_project_count none sql_count_def)
qed

lemma RebuildWindow_keeps:
  assumes ok: "analytics_ok s" "pending s = []" and al: "86400 dvd from" "86400 dvd to"
  shows "analytics_ok (RebuildWindow from to s)"
proof -
  have past: "\<forall>e \<in> set (analytics_events s). ev_id e \<le> analytics_cursor s"
    using ok(2) by (auto simp: pending_def filter_empty_conv)
  have pr: "rollup_count k (metric_rollups s) = int (sql_count (in_bucket k) (analytics_events s))" for k
    using ok(1) past by (simp add: analytics_ok_def projected_def sql_count_def del: split_paired_All cong: filter_cong)
  have "rollup_count k (metric_rollups (RebuildWindow from to s)) = int (sql_count (in_bucket k) (analytics_events s))" for k
    using RebuildWindow_count [OF al, of k s] RebuildWindow_count_other [OF al, of k s] pr
    by (cases "fst (snd k) \<in> fst ` set levels") auto
  moreover have "distinct (map rollup_key (metric_rollups (RebuildWindow from to s)))"
    using ok(1) by (auto simp: RebuildWindow_aligned [OF al] window_kept_def analytics_ok_def projected_def
        distinct_map_filter intro!: fold_project_distinct)
  ultimately have "projected (RebuildWindow from to s)"
    using past by (simp add: projected_def RebuildWindow_frame RebuildWindow_cursor sql_count_def
        del: split_paired_All cong: filter_cong)
  with ok(1) show ?thesis by (simp add: analytics_ok_def RebuildWindow_frame RebuildWindow_cursor)
qed

text \<open>
  C35: Rebuilding a window of whole UTC days makes every minute, hour and day rollup that
  starts in the window count exactly the stored events of its bucket and leaves every
  other rollup and the cursor unchanged; when nothing is waiting to be projected, the
  rollups still count what the cursor has passed.
\<close>

theorem RebuildWindow_exact:
  assumes "86400 dvd from" "86400 dvd to" "fst (snd k) \<in> fst ` set levels"
  shows "rollup_count k (metric_rollups (RebuildWindow from to s)) =
      (if from \<le> fst k \<and> fst k < to then int (sql_count (in_bucket k) (analytics_events s))
       else rollup_count k (metric_rollups s)) \<and>
    analytics_cursor (RebuildWindow from to s) = analytics_cursor s \<and>
    (analytics_ok s \<and> pending s = [] \<longrightarrow> analytics_ok (RebuildWindow from to s))"
  using RebuildWindow_count [OF assms] RebuildWindow_keeps [OF _ _ assms(1,2)] by blast

text \<open>
  What the rebuild does to events that are still waiting: it counts them, the cursor stays
  before them, and the next projection counts them a second time.
\<close>

lemma rebuild_counts_pending_twice:
  assumes al: "86400 dvd from" "86400 dvd to" and k: "fst (snd k) \<in> fst ` set levels" "from \<le> fst k" "fst k < to"
    and ev: "events_ok s" and p: "ProjectOnce b (RebuildWindow from to s) = Inr (n, s')"
  shows "rollup_count k (metric_rollups s') =
    int (sql_count (in_bucket k) (analytics_events s)) + int (sql_count (in_bucket k) (take (nat b) (pending s)))"
  using ProjectOnce_Inr(4) [OF p] ev RebuildWindow_count [OF al k(1), of s] k(2,3)
  by (simp add: RebuildWindow_frame fold_project_count)

subsection \<open>Storing events\<close>

lemma InsertTx_total:
  assumes "e_Dimensions e = no_dimensions" "0 \<le> e_DurationMS e" "e_DurationMS e \<le> 86400000"
  shows "\<exists>s'. InsertTx cr e s = Inr s'"
  using assms by (simp add: InsertTx_def dim_key_def no_dimensions_def dim_valid_def Let_def)

lemma InsertTx_present:
  assumes "InsertTx cr e s = Inr s'"
  shows "(e_Producer e, e_SourceType e, e_SourceID e, e_Type e, SchemaVersion) \<in> event_identity ` set (analytics_events s')"
  using assms by (auto simp: InsertTx_def bind_res_Inr_iff Let_def fresh_def event_identity_def image_iff
      split: if_splits)

text \<open>
  An event is stored at most once: after \<open>InsertTx\<close> succeeds, inserting an event with the
  same producer, source and type again, whatever its outcome, time or duration, changes
  nothing; and every accepted event has dimensions from the closed vocabulary and a
  duration of at most a day.
\<close>

theorem InsertTx_idempotent:
  assumes "InsertTx cr e s = Inr s1" "InsertTx cr e' s1 = Inr s2"
    and "(e_Producer e', e_SourceType e', e_SourceID e', e_Type e') = (e_Producer e, e_SourceType e, e_SourceID e, e_Type e)"
  shows "s2 = s1 \<and> (\<exists>k. dim_key (e_Dimensions e) = Inr k) \<and> 0 \<le> e_DurationMS e \<and> e_DurationMS e \<le> 86400000"
  using InsertTx_present [OF assms(1)] assms
  by (auto simp: InsertTx_def bind_res_Inr_iff Let_def fresh_def event_identity_def image_iff split: if_splits)

text \<open>
  Ids are not \<open>AUTOINCREMENT\<close>: once retention has emptied the table below a cursor that has
  moved, the next event takes id 1 again and is never projected.
\<close>

lemma event_after_empty_table_is_never_pending:
  assumes "analytics_events s = []" "1 \<le> analytics_cursor s" "InsertTx cr e s = Inr s'"
  shows "pending s' = [] \<and> analytics_events s' \<noteq> []"
  using assms by (auto simp: InsertTx_def bind_res_Inr_iff Let_def fresh_def pending_def next_rowid_def split: if_splits)

subsection \<open>Retention\<close>

lemma retain_Inr:
  assumes "retain False now s = Inr (r, s')"
  shows "sql_count (\<lambda>(at, digest). at > 0 \<and> digest \<noteq> []) (analytics_backup_markers s) \<noteq> 0"
    "\<not> fold max (map ev_id (analytics_events s)) 0 > analytics_cursor s"
    "sql_count (\<lambda>m. mr_granularity m = ''minute'' \<and> mr_bucket_start m < AddDays (-31) now \<and>
       \<not> covered ''hour'' 3600 (metric_rollups s) m) (metric_rollups s) = 0"
    "sql_count (\<lambda>h. mr_granularity h = ''hour'' \<and> mr_bucket_start h < AddDays (-366) now \<and>
       \<not> covered ''day'' 86400 (metric_rollups s) h) (metric_rollups s) = 0"
    "s' = s\<lparr>
          metric_rollups := filter (\<lambda>r.
            \<not> (mr_granularity r = ''minute'' \<and> mr_bucket_start r < AddDays (-31) now) \<and>
            \<not> (mr_granularity r = ''hour'' \<and> mr_bucket_start r < AddDays (-366) now) \<and>
            \<not> (mr_granularity r = ''day'' \<and> mr_bucket_start r < AddYears (-5) now)) (metric_rollups s),
          analytics_events := filter (\<lambda>e. \<not> (ev_occurred_at e < AddDays (-31) now \<and> ev_id e \<le> analytics_cursor s))
            (analytics_events s)\<rparr>"
  using assms unfolding retain_def Let_def by (simp_all split: if_splits)

text \<open>
  A confirmed retention run deletes no event that is newer than 31 days or not yet
  projected, no hour rollup newer than 366 days and no day rollup newer than five years;
  every minute rollup it deletes had an hour rollup of the same series, every hour rollup a
  day rollup; and it touches no table other than the events and the rollups. It refuses
  without a verified backup marker.
\<close>

theorem retain_safe:
  assumes "retain False now s = Inr (r, s')"
  shows "(\<forall>e \<in> set (analytics_events s) - set (analytics_events s').
            ev_occurred_at e < AddDays (-31) now \<and> ev_id e \<le> analytics_cursor s) \<and>
    (\<forall>m \<in> set (metric_rollups s) - set (metric_rollups s').
       (mr_granularity m = ''minute'' \<and> mr_bucket_start m < AddDays (-31) now \<and>
          covered ''hour'' 3600 (metric_rollups s) m) \<or>
       (mr_granularity m = ''hour'' \<and> mr_bucket_start m < AddDays (-366) now \<and>
          covered ''day'' 86400 (metric_rollups s) m) \<or>
       (mr_granularity m = ''day'' \<and> mr_bucket_start m < AddYears (-5) now)) \<and>
    s' = s\<lparr>metric_rollups := metric_rollups s', analytics_events := analytics_events s'\<rparr> \<and>
    (\<exists>(at, digest) \<in> set (analytics_backup_markers s). at > 0 \<and> digest \<noteq> [])"
proof -
  note r = retain_Inr [OF assms]
  have "covered ''hour'' 3600 (metric_rollups s) m"
    if "m \<in> set (metric_rollups s)" "mr_granularity m = ''minute''" "mr_bucket_start m < AddDays (-31) now" for m
    using r(3) that by auto
  moreover have "covered ''day'' 86400 (metric_rollups s) m"
    if "m \<in> set (metric_rollups s)" "mr_granularity m = ''hour''" "mr_bucket_start m < AddDays (-366) now" for m
    using r(4) that by auto
  moreover have "\<exists>(at, digest) \<in> set (analytics_backup_markers s). at > 0 \<and> digest \<noteq> []"
    using r(1) unfolding sql_count_0_iff by blast
  moreover have "s' = s\<lparr>metric_rollups := metric_rollups s', analytics_events := analytics_events s'\<rparr>"
    unfolding r(5) by (rule db.equality) simp_all
  moreover have "analytics_events s' = filter (\<lambda>e. \<not> (ev_occurred_at e < AddDays (-31) now \<and> ev_id e \<le> analytics_cursor s))
            (analytics_events s)" by (simp add: r(5))
  moreover have "metric_rollups s' = filter (\<lambda>r.
            \<not> (mr_granularity r = ''minute'' \<and> mr_bucket_start r < AddDays (-31) now) \<and>
            \<not> (mr_granularity r = ''hour'' \<and> mr_bucket_start r < AddDays (-366) now) \<and>
            \<not> (mr_granularity r = ''day'' \<and> mr_bucket_start r < AddYears (-5) now)) (metric_rollups s)"
    by (simp add: r(5))
  ultimately show ?thesis by auto
qed

subsection \<open>The latency histogram\<close>

lemma latency_index_bounds:
  assumes "2 ^ i \<le> d" "i \<le> 17"
  shows "latency_index d (2 ^ (i + 1)) i \<le> 17 \<and> 2 ^ latency_index d (2 ^ (i + 1)) i \<le> d \<and>
    (latency_index d (2 ^ (i + 1)) i < 17 \<longrightarrow> d < 2 ^ (latency_index d (2 ^ (i + 1)) i + 1))"
  using assms
proof (induction "17 - i" arbitrary: i)
  case 0
  then show ?case by (subst (1 2 3 4) latency_index.simps) simp
next
  case (Suc n)
  show ?case
  proof (cases "d \<ge> 2 ^ (i + 1)")
    case True
    moreover have "i < 17" using Suc.hyps(2) by simp
    ultimately have "latency_index d (2 ^ (i + 1)) i = latency_index d (2 ^ (Suc i + 1)) (Suc i)"
      by (subst latency_index.simps) (simp add: mult.commute)
    with Suc.hyps(1) [of "Suc i"] Suc.hyps(2) True show ?thesis by simp
  next
    case False
    then have "latency_index d (2 ^ (i + 1)) i = i" by (subst latency_index.simps) simp
    with Suc.prems False show ?thesis by simp
  qed
qed

lemma latency_index_less:
  assumes "1 \<le> d" "j \<le> 17"
  shows "latency_index d 2 0 < j \<longleftrightarrow> d < 2 ^ j"
proof -
  let ?i = "latency_index d 2 0"
  have b: "?i \<le> 17" "2 ^ ?i \<le> d" "?i < 17 \<longrightarrow> d < 2 ^ (?i + 1)"
    using latency_index_bounds [of 0 d] assms(1) by simp_all
  show ?thesis
  proof
    assume "?i < j"
    then have "d < 2 ^ (?i + 1)" using b(3) assms(2) by simp
    also have "(2::int) ^ (?i + 1) \<le> 2 ^ j" using \<open>?i < j\<close> by (intro power_increasing) simp_all
    finally show "d < 2 ^ j" .
  next
    assume "d < 2 ^ j"
    with b(2) have "(2::int) ^ ?i < 2 ^ j" by linarith
    then show "?i < j" by simp
  qed
qed

lemma sum_take_update:
  "i < length bs \<Longrightarrow> sum_list (take j (bs[i := bs ! i + n])) = sum_list (take j bs) + (if i < j then n else (0::nat))"
proof (induction bs arbitrary: i j)
  case (Cons b bs)
  then show ?case by (cases i; cases j) auto
qed simp

lemma latency_buckets_prefix:
  fixes bs :: "nat list"
  assumes "length bs = 18" "\<forall>(d, n) \<in> set rows. 1 \<le> d"
  shows "sum_list (take j (fold (\<lambda>(duration, n) bs. let i = latency_index duration 2 0 in bs[i := bs ! i + n]) rows bs))
    = sum_list (take j bs) + sum_list (map (\<lambda>(d, n). if latency_index d 2 0 < j then n else 0) rows)"
  using assms
proof (induction rows arbitrary: bs)
  case (Cons r rows)
  obtain d n where r: "r = (d, n)" by force
  have "latency_index d 2 0 < length bs"
    using latency_index_bounds [of 0 d] Cons.prems by (auto simp: r)
  note upd = sum_take_update [OF this, of j n]
  show ?case using Cons upd by (simp add: r Let_def)
qed simp

lemma latency_pick_spec:
  assumes "seen < target" "target \<le> seen + sum_list bs"
  shows "\<exists>m < length bs. latency_pick bs i seen target = 2 ^ (i + m) \<and>
    target \<le> seen + sum_list (take (Suc m) bs) \<and> seen + sum_list (take m bs) < target"
  using assms
proof (induction bs arbitrary: i seen)
  case (Cons b bs)
  show ?case
  proof (cases "seen + b \<ge> target")
    case True
    with Cons.prems show ?thesis by (intro exI [of _ 0]) simp
  next
    case False
    with Cons.IH [of "seen + b" "i + 1"] Cons.prems obtain m where
      m: "m < length bs" "latency_pick bs (i + 1) (seen + b) target = 2 ^ (i + 1 + m)"
      "target \<le> seen + b + sum_list (take (Suc m) bs)" "seen + b + sum_list (take m bs) < target"
      by auto
    with False show ?thesis by (intro exI [of _ "Suc m"]) simp
  qed
qed simp

lemma sum_filter_key:
  assumes "finite A" "k ` set t \<subseteq> A"
  shows "(\<Sum>v\<in>A. if P v then length (filter (\<lambda>r. k r = v) t) else 0) = length (filter (\<lambda>r. P (k r)) t)"
  using assms(2)
proof (induction t)
  case (Cons r t)
  have "(if P v then length (filter (\<lambda>x. k x = v) (r # t)) else 0) =
     (if P v then length (filter (\<lambda>x. k x = v) t) else 0) + (if k r = v then (if P (k r) then 1 else 0) else 0)" for v
    by auto
  then have "(\<Sum>v\<in>A. if P v then length (filter (\<lambda>x. k x = v) (r # t)) else 0) =
      (\<Sum>v\<in>A. if P v then length (filter (\<lambda>x. k x = v) t) else 0) +
      (\<Sum>v\<in>A. if k r = v then (if P (k r) then 1 else 0) else 0)"
    by (simp only: sum.distrib)
  with Cons assms(1) show ?case by simp
qed (auto intro: sum.neutral)

lemma group_by_sum:
  "sum_list (map (\<lambda>(v, rs). if P v then length rs else 0) (group_by k t)) = length (filter (\<lambda>r. P (k r)) t)"
proof -
  have "sum_list (map (\<lambda>(v, rs). if P v then length rs else 0) (group_by k t)) =
      (\<Sum>v\<in>k ` set t. if P v then length (filter (\<lambda>r. k r = v) t) else 0)"
    by (simp add: group_by_def o_def sum_list_distinct_conv_sum_set)
  also have "\<dots> = length (filter (\<lambda>r. P (k r)) t)" by (rule sum_filter_key) simp_all
  finally show ?thesis .
qed

text \<open>The samples the histogram is drawn from.\<close>

definition latency_samples :: "query \<Rightarrow> db \<Rightarrow> int list" where
  "latency_samples q s = map ev_duration_ms (filter (\<lambda>e. ev_type e = ''analyzer_observation'' \<and>
     ev_occurred_at e \<ge> q_From q \<and> ev_occurred_at e < q_To q \<and> ev_duration_ms e > 0) (analytics_events s))"

lemma latency_rows_sum:
  "sum_list (map (\<lambda>(d, n). if P d then n else 0) (latency_rows q s)) = sql_count P (latency_samples q s)"
proof -
  have "sum_list (map (\<lambda>(d, n). if P d then n else 0) (latency_rows q s)) =
     sum_list (map (\<lambda>(d, es). if P d then length es else 0) (group_by ev_duration_ms
      (filter (\<lambda>e. ev_type e = ''analyzer_observation'' \<and> ev_occurred_at e \<ge> q_From q \<and>
        ev_occurred_at e < q_To q \<and> ev_duration_ms e > 0) (analytics_events s))))"
    by (simp add: latency_rows_def o_def case_prod_unfold cong: if_cong)
  then show ?thesis
    by (simp add: group_by_sum sql_count_def latency_samples_def filter_map o_def)
qed

lemma latency_rows_pos: "(d, n) \<in> set (latency_rows q s) \<Longrightarrow> 1 \<le> d"
  by (auto simp: latency_rows_def group_by_def)

lemma latency_prefix:
  assumes "j \<le> 18"
  shows "sum_list (take j (latency_buckets (latency_rows q s))) =
    sql_count (\<lambda>d. latency_index d 2 0 < j) (latency_samples q s)"
  unfolding latency_buckets_def
  by (subst latency_buckets_prefix) (auto simp: latency_rows_sum dest: latency_rows_pos)

lemma latency_buckets_length: "length (latency_buckets rows) = 18"
proof -
  have "length (fold (\<lambda>(duration, n) bs. let i = latency_index duration 2 0 in bs[i := bs ! i + n]) rows bs) = length bs" for bs :: "nat list"
    by (induction rows arbitrary: bs) (auto simp: Let_def)
  then show ?thesis by (simp add: latency_buckets_def)
qed

lemma sql_count_cong: "(\<And>x. x \<in> set t \<Longrightarrow> P x = Q x) \<Longrightarrow> sql_count P t = sql_count Q t"
  by (simp add: sql_count_def cong: filter_cong)

lemma p95_target:
  fixes n :: nat
  shows "n \<noteq> 0 \<Longrightarrow> 0 < (95 * n + 99) div 100" "(95 * n + 99) div 100 \<le> n"
    "x < (95 * n + 99) div 100 \<longleftrightarrow> 100 * x < 95 * n"
  by linarith+

text \<open>
  When a latency is reported as known it is a power of two \<open>2^k\<close> with \<open>k \<le> 17\<close>, and it
  brackets the 95th percentile: fewer than 95\% of the samples of the window are below
  \<open>2^k\<close>, and (below the last bucket) at least 95\% are under \<open>2^(k+1)\<close>.
\<close>

theorem latencyP95_bracket:
  assumes "latencyP95 q s = (p, True)"
  shows "\<exists>k \<le> 17. p = 2 ^ k \<and>
    100 * sql_count (\<lambda>d. d < 2 ^ k) (latency_samples q s) < 95 * length (latency_samples q s) \<and>
    (k < 17 \<longrightarrow> 95 * length (latency_samples q s) \<le> 100 * sql_count (\<lambda>d. d < 2 ^ (k + 1)) (latency_samples q s))"
proof -
  let ?bs = "latency_buckets (latency_rows q s)"
  let ?n = "length (latency_samples q s)"
  let ?t = "(95 * ?n + 99) div 100"
  have total: "sum_list (map snd (latency_rows q s)) = ?n"
    using latency_rows_sum [of "\<lambda>_. True" q s] by (simp add: sql_count_def case_prod_unfold)
  have p: "p = latency_pick ?bs 0 0 ?t" "?n \<noteq> 0"
    using assms unfolding latencyP95_def Let_def total by (auto split: if_splits)
  have pre: "sum_list (take j ?bs) = sql_count (\<lambda>d. d < 2 ^ j) (latency_samples q s)" if "j \<le> 17" for j
    unfolding latency_prefix [OF le_trans [OF that], simplified]
    by (rule sql_count_cong) (auto simp: latency_samples_def latency_index_less [OF _ that])
  have all: "sum_list ?bs = ?n"
  proof -
    have "latency_index d 2 0 < 18" if "d \<in> set (latency_samples q s)" for d
      using latency_index_bounds [of 0 d] that by (auto simp: latency_samples_def)
    then have "sum_list (take 18 ?bs) = ?n"
      unfolding latency_prefix [OF order_refl] by (simp add: sql_count_def)
    then show ?thesis by (simp add: latency_buckets_length)
  qed
  from p(2) obtain m where m: "m < 18" "latency_pick ?bs 0 0 ?t = 2 ^ m"
    "?t \<le> sum_list (take (Suc m) ?bs)" "sum_list (take m ?bs) < ?t"
    using latency_pick_spec [of 0 ?t ?bs 0, OF p95_target(1) [OF p(2)]] p95_target(2)
    unfolding latency_buckets_length all by auto
  then have "100 * sql_count (\<lambda>d. d < 2 ^ m) (latency_samples q s) < 95 * ?n"
    using pre [of m] by (simp add: p95_target(3))
  moreover have "95 * ?n \<le> 100 * sql_count (\<lambda>d. d < 2 ^ (m + 1)) (latency_samples q s)" if "m < 17"
    using pre [of "Suc m"] m(3) that by (simp add: not_less [symmetric] p95_target(3))
  ultimately show ?thesis using m p by (intro exI [of _ m]) auto
qed

subsection \<open>The series query\<close>

lemma by_bucket_add_lookup:
  "map_of (by_bucket_add k n m) j = (if j = k then Some ((case map_of m k of None \<Rightarrow> 0 | Some c \<Rightarrow> c) + n) else map_of m j)"
  by (simp add: by_bucket_add_def update_conv')

lemma by_bucket_fold:
  "(case map_of (fold (\<lambda>((b, metric, v), rs) m. by_bucket_add (b, series_key q metric v) (sum_count rs) m) rows m) k of
      None \<Rightarrow> 0 | Some c \<Rightarrow> c) =
   (case map_of m k of None \<Rightarrow> 0 | Some c \<Rightarrow> c) +
   sum_list (map (\<lambda>((b, metric, v), rs). if (b, series_key q metric v) = k then sum_count rs else 0) rows)"
proof (induction rows arbitrary: m)
  case (Cons r rows)
  obtain b metric v rs where r: "r = ((b, metric, v), rs)" by (metis prod.exhaust)
  show ?case by (simp add: r Cons by_bucket_add_lookup split: option.split)
qed simp

lemma sum_count_append: "sum_count (xs @ ys) = sum_count xs + sum_count ys"
  by (simp add: sum_count_def)

lemma sum_count_filter_key:
  assumes "finite A" "k ` set t \<subseteq> A"
  shows "(\<Sum>v\<in>A. if P v then sum_count (filter (\<lambda>r. k r = v) t) else 0) = sum_count (filter (\<lambda>r. P (k r)) t)"
  using assms(2)
proof (induction t)
  case (Cons r t)
  have "(if P v then sum_count (filter (\<lambda>x. k x = v) (r # t)) else 0) =
     (if P v then sum_count (filter (\<lambda>x. k x = v) t) else 0) + (if k r = v then (if P (k r) then mr_event_count r else 0) else 0)" for v
    by (auto simp: sum_count_def)
  then have "(\<Sum>v\<in>A. if P v then sum_count (filter (\<lambda>x. k x = v) (r # t)) else 0) =
      (\<Sum>v\<in>A. if P v then sum_count (filter (\<lambda>x. k x = v) t) else 0) +
      (\<Sum>v\<in>A. if k r = v then (if P (k r) then mr_event_count r else 0) else 0)"
    by (simp only: sum.distrib)
  with Cons assms(1) show ?case by (simp add: sum_count_def)
qed (auto simp: sum_count_def intro: sum.neutral)

lemma group_by_sum_count:
  "sum_list (map (\<lambda>(v, rs). if P v then sum_count rs else 0) (group_by k t)) = sum_count (filter (\<lambda>r. P (k r)) t)"
proof -
  have "sum_list (map (\<lambda>(v, rs). if P v then sum_count rs else 0) (group_by k t)) =
      (\<Sum>v\<in>k ` set t. if P v then sum_count (filter (\<lambda>r. k r = v) t) else 0)"
    by (simp add: group_by_def o_def sum_list_distinct_conv_sum_set)
  also have "\<dots> = sum_count (filter (\<lambda>r. P (k r)) t)" by (rule sum_count_filter_key) simp_all
  finally show ?thesis .
qed

lemma by_bucket_count:
  assumes "q_Dimension q = []"
  shows "(case map_of (by_bucket_of q (series_rows ex q metrics s)) (b, metric) of None \<Rightarrow> 0 | Some c \<Rightarrow> c) =
    sum_count (filter (\<lambda>r. in_window q metrics r \<and> mr_bucket_start r = b \<and> mr_metric r = metric) (metric_rollups s))"
proof -
  have "(case map_of (by_bucket_of q (series_rows ex q metrics s)) (b, metric) of None \<Rightarrow> 0 | Some c \<Rightarrow> c) =
     sum_list (map (\<lambda>(k, rs). if fst k = b \<and> fst (snd k) = metric then sum_count rs else 0) (series_rows ex q metrics s))"
    unfolding by_bucket_of_def by_bucket_fold
    by (auto simp: series_key_def assms intro!: arg_cong [where f = sum_list] map_cong)
  also have "\<dots> = sum_count (filter (\<lambda>r. in_window q metrics r \<and> mr_bucket_start r = b \<and> mr_metric r = metric) (metric_rollups s))"
    by (simp add: series_rows_def group_by_sum_count)
  finally show ?thesis .
qed

lemma bucket_starts_mem: "0 < d \<Longrightarrow> b \<in> set (bucket_starts at to d) \<longleftrightarrow> at \<le> b \<and> b < to \<and> d dvd (b - at)"
proof (induction at to d rule: bucket_starts.induct)
  case (1 at to d)
  show ?case
  proof (cases "at < to")
    case True
    have step: "d dvd (b - (at + d)) \<longleftrightarrow> d dvd (b - at)"
      by (metis add_diff_eq diff_add_cancel diff_diff_add dvd_add_triv_right_iff)
    have "b = at \<or> (at + d \<le> b \<and> d dvd (b - at)) \<longleftrightarrow> at \<le> b \<and> d dvd (b - at)"
      using 1(2) by (auto dest: zdvd_imp_le)
    with True 1 step show ?thesis by (subst bucket_starts.simps) auto
  next
    case False
    then show ?thesis by (subst bucket_starts.simps) auto
  qed
qed

lemma in_bucket_at_level:
  assumes "(name, d) \<in> set levels" "fst (snd k) = name"
  shows "in_bucket k e \<longleftrightarrow> rollup_key (event_rollup e (name, d)) = k"
  using assms by (auto simp: in_bucket_def levels_def rollup_key_def event_rollup_def)

lemma rollup_count_absent: "k \<notin> rollup_key ` set t \<Longrightarrow> rollup_count k t = 0"
  by (simp add: rollup_count_def row_by_None [THEN iffD2])

lemma rollup_sum_events:
  assumes pr: "projected s" and l: "(name, d) \<in> set levels"
  shows "sum_count (filter (\<lambda>r. mr_granularity r = name \<and> mr_bucket_start r = b \<and> mr_metric r = m) (metric_rollups s)) =
    int (sql_count (\<lambda>e. ev_id e \<le> analytics_cursor s \<and> ev_type e = m \<and> Truncate d (ev_occurred_at e) = b) (analytics_events s))"
proof -
  let ?P = "\<lambda>k :: rollup_key. fst (snd k) = name \<and> fst k = b \<and> fst (snd (snd k)) = m"
  let ?T = "filter (\<lambda>e. ev_id e \<le> analytics_cursor s) (analytics_events s)"
  let ?f = "\<lambda>e. rollup_key (event_rollup e (name, d))"
  let ?R = "filter (\<lambda>r. ?P (rollup_key r)) (metric_rollups s)"
  let ?A = "rollup_key ` set (metric_rollups s) \<union> ?f ` set ?T"
  have dist: "distinct (map rollup_key (metric_rollups s))" using pr by (simp add: projected_def)
  have cnt: "rollup_count k (metric_rollups s) = int (length (filter (\<lambda>e. ?f e = k) ?T))" if "?P k" for k
    using pr in_bucket_at_level [OF l, of k] that
    by (simp add: projected_def sql_count_def conj_commute del: split_paired_All)
  have "sum_count ?R = (\<Sum>r\<leftarrow>?R. rollup_count (rollup_key r) (metric_rollups s))"
    unfolding sum_count_def using row_by_in [OF dist]
    by (intro arg_cong [where f = sum_list] map_cong) (auto simp: rollup_count_def)
  also have "\<dots> = (\<Sum>k\<in>rollup_key ` set ?R. rollup_count k (metric_rollups s))"
    using dist distinct_map_filter [OF dist, of "\<lambda>r. ?P (rollup_key r)"]
    by (subst sum_list_distinct_conv_sum_set)
      (auto simp: distinct_map comp_def intro!: sum.reindex [symmetric, unfolded comp_def])
  also have "\<dots> = (\<Sum>k\<in>?A. if ?P k then rollup_count k (metric_rollups s) else 0)"
  proof (rule sum.mono_neutral_cong_left)
    show "\<forall>k \<in> ?A - rollup_key ` set ?R. (if ?P k then rollup_count k (metric_rollups s) else 0) = 0"
    proof
      fix k assume k: "k \<in> ?A - rollup_key ` set ?R"
      then have "?P k \<longrightarrow> k \<notin> rollup_key ` set (metric_rollups s)" by auto
      then show "(if ?P k then rollup_count k (metric_rollups s) else 0) = 0"
        using rollup_count_absent by simp
    qed
  qed auto
  also have "\<dots> = (\<Sum>k\<in>?A. int (if ?P k then length (filter (\<lambda>e. ?f e = k) ?T) else 0))"
    by (intro sum.cong refl) (simp add: cnt)
  also have "\<dots> = int (length (filter (\<lambda>e. ?P (?f e)) ?T))"
  proof -
    have "(\<Sum>k\<in>?A. if ?P k then length (filter (\<lambda>e. ?f e = k) ?T) else 0) = length (filter (\<lambda>e. ?P (?f e)) ?T)"
      by (rule sum_filter_key [where P = ?P]) auto
    from arg_cong [OF this, of int] show ?thesis by (simp only: of_nat_sum)
  qed
  finally show ?thesis
    by (simp add: rollup_key_def event_rollup_def sql_count_def conj_commute conj_left_commute)
qed

lemma validate_interval:
  assumes "validate q = Inr u"
  shows "(q_Interval q, intervalDuration (q_Interval q)) \<in> set levels"
  using assms by (auto simp: validate_def levels_def intervalDuration_def split: if_splits)

lemma validate_aligned:
  assumes "validate q = Inr u"
  shows "intervalDuration (q_Interval q) dvd q_From q" "intervalDuration (q_Interval q) dvd q_To q" "q_From q < q_To q"
  using assms by (auto simp: validate_def Truncate_def mod_eq_0_iff_dvd split: if_splits)

text \<open>
  An accepted series query returns one bucket for every interval of its window, and
  without a dimension each value counts exactly the projected events of that metric whose
  time falls in the bucket.
\<close>

theorem Series_counts:
  assumes "projected s" "Series ex now q s = Inr snap" "q_Dimension q = []"
  shows "(\<forall>b. b \<in> b_Start ` set (Buckets snap) \<longleftrightarrow>
      q_From q \<le> b \<and> b < q_To q \<and> intervalDuration (q_Interval q) dvd b) \<and>
    (\<forall>b \<in> set (Buckets snap). \<forall>v \<in> set (b_Values b). v_Count v =
      int (sql_count (\<lambda>e. ev_id e \<le> analytics_cursor s \<and> ev_type e = v_Key v \<and>
        Truncate (intervalDuration (q_Interval q)) (ev_occurred_at e) = b_Start b) (analytics_events s)))"
proof -
  let ?d = "intervalDuration (q_Interval q)"
  let ?ms = "if q_Series q = [] then [q_Metric q] else q_Series q"
  obtain u where v: "validate q = Inr u" using assms(2) by (auto simp: Series_def bind_res_Inr_iff)
  note l = validate_interval [OF v]
  have d: "0 < ?d" by (simp add: intervalDuration_def)
  have Bk: "Buckets snap = map (\<lambda>at. \<lparr>b_Start = at, b_Values = series_values q ?ms (by_bucket_of q (series_rows ex q ?ms s)) at\<rparr>)
            (bucket_starts (q_From q) (q_To q) ?d)"
    using assms(2) v by (auto simp: Series_def bind_res_Inr_iff Let_def)
  have mem: "b \<in> set (bucket_starts (q_From q) (q_To q) ?d) \<longleftrightarrow> q_From q \<le> b \<and> b < q_To q \<and> ?d dvd b" for b
    using validate_aligned(1) [OF v] by (simp add: bucket_starts_mem [OF d] dvd_diff_left_iff)
  have "v_Count w = int (sql_count (\<lambda>e. ev_id e \<le> analytics_cursor s \<and> ev_type e = v_Key w \<and>
        Truncate ?d (ev_occurred_at e) = b) (analytics_events s))"
    if b: "b \<in> set (bucket_starts (q_From q) (q_To q) ?d)"
      and w: "w \<in> set (series_values q ?ms (by_bucket_of q (series_rows ex q ?ms s)) b)" for b w
  proof -
    from w have key: "v_Key w \<in> set ?ms" and "v_Count w =
      (case map_of (by_bucket_of q (series_rows ex q ?ms s)) (b, v_Key w) of None \<Rightarrow> 0 | Some c \<Rightarrow> c)"
      by (auto simp: series_values_def assms(3) known_def)
    then have "v_Count w = sum_count (filter (\<lambda>r. in_window q ?ms r \<and> mr_bucket_start r = b \<and> mr_metric r = v_Key w) (metric_rollups s))"
      by (simp only: by_bucket_count [OF assms(3)])
    also have "\<dots> = sum_count (filter (\<lambda>r. mr_granularity r = q_Interval q \<and> mr_bucket_start r = b \<and> mr_metric r = v_Key w) (metric_rollups s))"
      using b [unfolded mem] key unfolding in_window_def by (intro arg_cong [where f = sum_count] filter_cong) auto
    finally show ?thesis by (simp only: rollup_sum_events [OF assms(1) l])
  qed
  note counts = this
  have "b_Start ` set (Buckets snap) = set (bucket_starts (q_From q) (q_To q) ?d)"
    by (simp add: Bk image_image)
  moreover have "\<forall>b \<in> set (Buckets snap). \<forall>v \<in> set (b_Values b). v_Count v =
      int (sql_count (\<lambda>e. ev_id e \<le> analytics_cursor s \<and> ev_type e = v_Key v \<and>
        Truncate ?d (ev_occurred_at e) = b_Start b) (analytics_events s))"
    unfolding Bk set_map using counts by simp
  ultimately show ?thesis using mem by simp
qed

section \<open>Instances\<close>

text \<open>
  A database with one event that waits and the day it belongs to, on which each property's
  hypotheses hold.
\<close>

definition example_crypto :: crypto where
  "example_crypto = \<lparr>sha256 = (\<lambda>s. take 4 s), hmac = (\<lambda>k s. s @ k)\<rparr>"

definition example_row :: analytics_event where
  "example_row = \<lparr>ev_id = 1, ev_producer = ''worker'', ev_source_type = ''run'', ev_source_id = ''r1'',
     ev_type = ''analyzer_observation'', ev_schema_version = 1, ev_occurred_at = 90000, ev_outcome = ''ok'',
     ev_dimension_key = ''{}'', ev_duration_ms = 5, ev_payload_digest = ''00''\<rparr>"

definition example_db :: db where
  "example_db = (Migrate 0)\<lparr>analytics_events := [example_row]\<rparr>"

definition example_query :: query where
  "example_query = \<lparr>q_From = 86400, q_To = 172800, q_Interval = ''day'', q_Metric = ''analyzer_observation'',
     q_Dimension = [], q_Series = [], q_Cards = []\<rparr>"

definition example_event :: event where
  "example_event = \<lparr>e_Producer = ''worker'', e_SourceType = ''run'', e_SourceID = ''r2'',
     e_Type = ''run_completed'', e_Outcome = ''report_pending'', e_OccurredAt = 5, e_DurationMS = 7,
     e_Dimensions = no_dimensions\<rparr>"

lemma example_ok: "analytics_ok example_db" "projected example_db"
  by (simp_all add: analytics_ok_def events_ok_def projected_def example_db_def Migrate_def rollup_count_def
      next_rowid_def example_row_def)

theorem ProjectOnce_correct_witness:
  "analytics_ok example_db \<and> (\<exists>n s'. ProjectOnce 10 example_db = Inr (n, s') \<and> analytics_ok s' \<and>
    n = min (nat 10) (length (pending example_db)) \<and> pending s' = drop (nat 10) (pending example_db) \<and>
    (\<forall>k. rollup_count k (metric_rollups s') =
      rollup_count k (metric_rollups example_db) + int (sql_count (in_bucket k) (take (nat 10) (pending example_db)))))"
  using ProjectOnce_correct [of example_db 10] example_ok by simp

theorem RebuildWindow_exact_witness:
  "rollup_count (86400, ''day'', ''analyzer_observation'', ''ok'', 1, ''{}'')
     (metric_rollups (RebuildWindow 86400 172800 example_db)) = 1"
  using RebuildWindow_exact [of 86400 172800 "(86400, ''day'', ''analyzer_observation'', ''ok'', 1, ''{}'')" example_db]
  by (simp add: levels_def example_db_def example_row_def in_bucket_def rollup_key_def event_rollup_def
      Truncate_def SchemaVersion_def)

theorem latencyP95_bracket_witness:
  "\<exists>k \<le> 17. (4::int) = 2 ^ k \<and>
    100 * sql_count (\<lambda>d. d < 2 ^ k) (latency_samples example_query example_db) < 95 * length (latency_samples example_query example_db) \<and>
    (k < 17 \<longrightarrow> 95 * length (latency_samples example_query example_db) \<le>
       100 * sql_count (\<lambda>d. d < 2 ^ (k + 1)) (latency_samples example_query example_db))"
proof -
  have "latencyP95 example_query example_db = (4, True)" by code_simp
  from latencyP95_bracket [OF this] show ?thesis .
qed

theorem InsertTx_idempotent_witness:
  "\<exists>s1. InsertTx example_crypto example_event example_db = Inr s1 \<and>
     InsertTx example_crypto (example_event\<lparr>e_Outcome := ''other''\<rparr>) s1 = Inr s1"
proof -
  obtain s1 where s1: "InsertTx example_crypto example_event example_db = Inr s1"
    using InsertTx_total [of _ example_crypto] by (fastforce simp: example_event_def)
  obtain s2 where s2: "InsertTx example_crypto (example_event\<lparr>e_Outcome := ''other''\<rparr>) s1 = Inr s2"
    using InsertTx_total [of _ example_crypto] by (fastforce simp: example_event_def)
  from InsertTx_idempotent [OF s1 s2] s1 s2 show ?thesis by simp
qed

definition example_retained :: db where
  "example_retained = example_db\<lparr>analytics_cursor := 1, analytics_backup_markers := [(1, ''d'')]\<rparr>"

lemma example_retained_tables:
  "analytics_events example_retained = [example_row]" "analytics_cursor example_retained = 1"
  "analytics_backup_markers example_retained = [(1, ''d'')]" "metric_rollups example_retained = []"
  by (simp_all add: example_retained_def example_db_def Migrate_def)

theorem retain_safe_witness:
  "\<exists>r s'. retain False 9000000 example_retained = Inr (r, s') \<and> analytics_events s' = [] \<and>
     (\<forall>e \<in> set (analytics_events example_retained). ev_id e \<le> analytics_cursor example_retained)"
proof -
  have "\<exists>r s'. retain False 9000000 example_retained = Inr (r, s') \<and> analytics_events s' = []"
    unfolding retain_def Let_def example_retained_tables by (simp add: example_row_def AddDays_def)
  then obtain r s' where rs: "retain False 9000000 example_retained = Inr (r, s')" "analytics_events s' = []"
    by blast
  from retain_safe [OF rs(1)] rs show ?thesis by (intro exI [of _ r] exI [of _ s']) simp
qed

theorem Series_counts_witness:
  "\<exists>snap. Series (\<lambda>_ _. None) 200000 example_query example_db = Inr snap \<and>
    (\<forall>b \<in> set (Buckets snap). \<forall>v \<in> set (b_Values b). v_Count v = 0)"
proof -
  obtain snap where snap: "Series (\<lambda>_ _. None) 200000 example_query example_db = Inr snap"
  proof -
    have "validate example_query = Inr ()" by code_simp
    then show thesis using that by (simp add: Series_def Let_def)
  qed
  from Series_counts [OF example_ok(2) this] snap show ?thesis
    by (simp add: example_query_def example_db_def example_row_def Migrate_def)
qed

end
