(* ===== verification/Queue.thy ===== *)
theory Queue
  imports Analytics
begin

text \<open>
  \<open>internal/queue/queue.go\<close>: collection of deliveries, the run state machine (claim, renew,
  finish, retry, quarantine, redeliver, replay), report attempts, rejected collections and
  the collector lease. Each operation is one transaction: it returns the new database only
  when it commits. \<open>Claim\<close> commits its lease recovery separately, so it returns the database
  in every case. The operations the processes interleave are the constructors of
  \<open>queue_op\<close>, and the invariants and the exclusion results hold for every sequence of them.
\<close>

section \<open>Operations\<close>

record claimed_run =
  run_ID :: string
  run_DeliveryID :: string
  run_State :: run_state
  run_Attempt :: int
  run_LeaseUntil :: time

record report_destination =
  rd_SubmitterID :: string
  rd_ReplyAddress :: string

definition ErrNoReportDestination :: err where
  "ErrNoReportDestination = Err ''no report destination for delivery''"

definition eventTx :: "crypto \<Rightarrow> string \<Rightarrow> string \<Rightarrow> string \<Rightarrow> string \<Rightarrow> string \<Rightarrow> time \<Rightarrow> db \<Rightarrow> db res" where
  "eventTx cr producer sourceType sourceID eventType outcome now s =
     bind_res (NewLifecycle producer sourceType sourceID eventType outcome now) (\<lambda>e. InsertTx cr e s)"

text \<open>\<open>INSERT INTO deliveries \<dots> ON CONFLICT(source_key) DO NOTHING\<close>.\<close>

definition insert_delivery_once :: "delivery \<Rightarrow> db \<Rightarrow> db res" where
  "insert_delivery_once row s =
     (if \<not> fresh d_source_key row (deliveries s) then Inr s else insert_delivery row s)"

definition new_run :: "string \<Rightarrow> string \<Rightarrow> time \<Rightarrow> run" where
  "new_run runID deliveryID now = \<lparr>r_run_id = runID, r_delivery_id = deliveryID, r_state = Queued,
     r_analysis_attempts = 0, r_report_attempts = 0, r_not_before = 0, r_lease_owner = None,
     r_lease_until = None, r_last_error = [], r_created_at = now\<rparr>"

definition insert_run_once :: "run \<Rightarrow> db \<Rightarrow> db res" where
  "insert_run_once row s = (if \<not> fresh r_run_id row (runs s) then Inr s else insert_run row s)"

definition delivery_row :: "string \<Rightarrow> string \<Rightarrow> string \<Rightarrow> report_destination option \<Rightarrow> time \<Rightarrow> delivery" where
  "delivery_row deliveryID digest sourceKey destination now =
     \<lparr>d_delivery_id = deliveryID, d_message_digest = digest, d_source_key = sourceKey, d_collected_at = now,
      d_submitter_id = map_option rd_SubmitterID destination, d_reply_address = map_option rd_ReplyAddress destination\<rparr>"

definition enqueueCollection ::
  "crypto \<Rightarrow> string \<Rightarrow> string \<Rightarrow> string \<Rightarrow> string \<Rightarrow> report_destination option \<Rightarrow> time \<Rightarrow> db \<Rightarrow> db res" where
  "enqueueCollection cr deliveryID digest sourceKey runID destination now s =
     bind_res (insert_delivery_once (delivery_row deliveryID digest sourceKey destination now) s) (\<lambda>s.
     bind_res (insert_run_once (new_run runID deliveryID now) s) (\<lambda>s.
     eventTx cr ''collector'' ''delivery'' deliveryID ''subject_preflight'' ''accepted'' now s))"

definition EnqueueCollection :: "crypto \<Rightarrow> string \<Rightarrow> string \<Rightarrow> string \<Rightarrow> string \<Rightarrow> time \<Rightarrow> db \<Rightarrow> db res" where
  "EnqueueCollection cr deliveryID digest sourceKey runID now s =
     enqueueCollection cr deliveryID digest sourceKey runID None now s"

definition EnqueueAdmittedCollection ::
  "crypto \<Rightarrow> string \<Rightarrow> string \<Rightarrow> string \<Rightarrow> string \<Rightarrow> report_destination \<Rightarrow> time \<Rightarrow> db \<Rightarrow> db res" where
  "EnqueueAdmittedCollection cr deliveryID digest sourceKey runID destination now s =
     (if rd_SubmitterID destination = [] \<or> rd_ReplyAddress destination = []
      then Inl (Err ''admitted delivery requires report destination'')
      else enqueueCollection cr deliveryID digest sourceKey runID (Some destination) now s)"

definition SnapshotReportDestination :: "string \<Rightarrow> db \<Rightarrow> report_destination res" where
  "SnapshotReportDestination submitterID s =
     (case find (\<lambda>r. s_submitter_id r = submitterID \<and> s_status r = Active) (submitters s) of
        None \<Rightarrow> Inl ErrNoReportDestination
      | Some r \<Rightarrow> Inr \<lparr>rd_SubmitterID = s_submitter_id r, rd_ReplyAddress = s_canonical_address r\<rparr>)"

definition ReportDestinationForRun :: "string \<Rightarrow> db \<Rightarrow> report_destination res" where
  "ReportDestinationForRun runID s =
     (case row_by r_run_id runID (runs s) of
        None \<Rightarrow> Inl ErrNoReportDestination
      | Some r \<Rightarrow> (case row_by d_delivery_id (r_delivery_id r) (deliveries s) of
            None \<Rightarrow> Inl ErrNoReportDestination
          | Some d \<Rightarrow> (case (d_submitter_id d, d_reply_address d) of
                (Some sid, Some addr) \<Rightarrow>
                  if sid = [] \<or> addr = [] then Inl ErrNoReportDestination
                  else Inr \<lparr>rd_SubmitterID = sid, rd_ReplyAddress = addr\<rparr>
              | _ \<Rightarrow> Inl ErrNoReportDestination)))"

definition BeginReportAttempt :: "crypto \<Rightarrow> string \<Rightarrow> report_destination \<Rightarrow> time \<Rightarrow> db \<Rightarrow> (int \<times> db) res" where
  "BeginReportAttempt cr runID destination now s =
     (let id = next_rowid (map ra_attempt_id (report_delivery_attempts s)) in
      bind_res (insert_report_attempt \<lparr>ra_attempt_id = id, ra_run_id = runID,
          ra_submitter_id = rd_SubmitterID destination, ra_reply_address = rd_ReplyAddress destination,
          ra_started_at = now, ra_finished_at = None, ra_outcome = ''started'', ra_error_class = []\<rparr> s) (\<lambda>s.
      bind_res (eventTx cr ''reporter'' ''run'' (runID @ '':attempt:'' @ show_int id @ '':started'')
          ''report_delivery_state'' ''started'' now s) (\<lambda>s. Inr (id, s))))"

definition FinishReportAttempt :: "crypto \<Rightarrow> int \<Rightarrow> string \<Rightarrow> string \<Rightarrow> time \<Rightarrow> db \<Rightarrow> db res" where
  "FinishReportAttempt cr attemptID outcome errorClass finished s =
     (if outcome \<noteq> ''accepted'' \<and> outcome \<noteq> ''failed'' \<and> outcome \<noteq> ''unknown''
      then Inl (Err ''invalid report delivery outcome'')
      else if errorClass \<noteq> [] \<and> errorClass \<noteq> ''smtp''
      then Inl (Err ''invalid report delivery error class'')
      else let P = (\<lambda>a. ra_attempt_id a = attemptID \<and> ra_outcome a = ''started'') in
        if sql_count P (report_delivery_attempts s) \<noteq> 1
        then Inl (Err ''report delivery attempt not active'')
        else let t = sql_update P (\<lambda>a. a\<lparr>ra_finished_at := Some finished, ra_outcome := outcome,
                     ra_error_class := errorClass\<rparr>) (report_delivery_attempts s);
                 s' = s\<lparr>report_delivery_attempts := t\<rparr>
          in case row_by ra_attempt_id attemptID t of
               None \<Rightarrow> Inl NoRows
             | Some a \<Rightarrow> eventTx cr ''reporter'' ''run''
                 (ra_run_id a @ '':attempt:'' @ show_int attemptID @ '':'' @ outcome)
                 ''report_delivery_state'' outcome finished s')"

definition rejection_json :: "string \<Rightarrow> string \<Rightarrow> time \<Rightarrow> string" where
  "rejection_json decisionID reason now = json_object
     [(''id'', json_string decisionID), (''outcome'', json_string ''rejected''),
      (''stage'', json_string ''post_data''), (''reason'', json_string reason), (''occurred_at'', show_int now)]"

definition recordRejectedCollection ::
  "crypto \<Rightarrow> string \<Rightarrow> string \<Rightarrow> string \<Rightarrow> string \<Rightarrow> string \<Rightarrow> report_destination option \<Rightarrow> int \<Rightarrow> string \<Rightarrow> time \<Rightarrow> db \<Rightarrow> db res" where
  "recordRejectedCollection cr deliveryID digest sourceKey decisionID reason destination policyVersion ruleID now s =
     (let version = (if policyVersion > 0 then CHR ''v'' # show_int policyVersion else ''v1'');
          canonical = rejection_json decisionID reason now in
      bind_res (insert_delivery_once (delivery_row deliveryID digest sourceKey destination now) s) (\<lambda>s.
      bind_res (insert_submission_decision \<lparr>sd_decision_id = decisionID, sd_submitter_id = None,
          sd_capability_digest = None, sd_envelope_sender = [], sd_recipient = [], sd_peer_ip = [],
          sd_helo = [], sd_spf_outcome = [], sd_stage = ''post_data'', sd_reason_code = reason,
          sd_policy_version = version, sd_applied_rule_id = ruleID, sd_queue_id = None,
          sd_stamp_mac = None, sd_expires_at = None, sd_consumed_at = None, sd_created_at = now\<rparr> s) (\<lambda>s.
      bind_res (insert_work_item \<lparr>wi_work_id = decisionID @ ''-notarize'', wi_decision_id = decisionID,
          wi_delivery_id = deliveryID, wi_kind = ''notarize'', wi_state = ''pending'', wi_created_at = now\<rparr> s) (\<lambda>s.
      bind_res (insert_decision_record \<lparr>dr_decision_id = decisionID, dr_submission_id = None, dr_delivery_id = Some deliveryID,
          dr_submitter_id = None, dr_occurred_at = now, dr_outcome = ''rejected'', dr_stage = ''post_data'',
          dr_reason_code = reason, dr_policy_version = version, dr_selected_subject_domain = [], dr_applied_rule_id = ruleID,
          dr_smtp_class = 550, dr_canonical_json = canonical,
          dr_canonical_digest = hex_encode (sha256 cr canonical), dr_notarization_status = ''queued''\<rparr> s) (\<lambda>s.
      bind_res (insert_signing_item \<lparr>ob_decision_id = decisionID, ob_state = ''pending'', ob_created_at = now\<rparr> s) (\<lambda>s.
      bind_res (eventTx cr ''collector'' ''delivery'' deliveryID ''subject_preflight'' reason now s) (\<lambda>s.
      eventTx cr ''reporter'' ''decision'' (decisionID @ '':signing'') ''rejection_delivery_state'' ''pending'' now s)))))))"

definition RecordRejectedCollection ::
  "crypto \<Rightarrow> string \<Rightarrow> string \<Rightarrow> string \<Rightarrow> string \<Rightarrow> string \<Rightarrow> time \<Rightarrow> db \<Rightarrow> db res" where
  "RecordRejectedCollection cr deliveryID digest sourceKey decisionID reason now s =
     recordRejectedCollection cr deliveryID digest sourceKey decisionID reason None 0 [] now s"

definition RecordAdmittedRejectedCollectionWithPolicyRule ::
  "crypto \<Rightarrow> string \<Rightarrow> string \<Rightarrow> string \<Rightarrow> string \<Rightarrow> string \<Rightarrow> report_destination \<Rightarrow> int \<Rightarrow> string \<Rightarrow> time \<Rightarrow> db \<Rightarrow> db res" where
  "RecordAdmittedRejectedCollectionWithPolicyRule cr deliveryID digest sourceKey decisionID reason destination policyVersion ruleID now s =
     (if rd_SubmitterID destination = [] \<or> rd_ReplyAddress destination = []
      then Inl (Err ''admitted rejection requires report destination'')
      else recordRejectedCollection cr deliveryID digest sourceKey decisionID reason (Some destination) policyVersion ruleID now s)"

definition RecordAdmittedRejectedCollectionWithPolicy ::
  "crypto \<Rightarrow> string \<Rightarrow> string \<Rightarrow> string \<Rightarrow> string \<Rightarrow> string \<Rightarrow> report_destination \<Rightarrow> int \<Rightarrow> time \<Rightarrow> db \<Rightarrow> db res" where
  "RecordAdmittedRejectedCollectionWithPolicy cr deliveryID digest sourceKey decisionID reason destination policyVersion now s =
     RecordAdmittedRejectedCollectionWithPolicyRule cr deliveryID digest sourceKey decisionID reason destination policyVersion [] now s"

definition RecordAdmittedRejectedCollection ::
  "crypto \<Rightarrow> string \<Rightarrow> string \<Rightarrow> string \<Rightarrow> string \<Rightarrow> string \<Rightarrow> report_destination \<Rightarrow> time \<Rightarrow> db \<Rightarrow> db res" where
  "RecordAdmittedRejectedCollection cr deliveryID digest sourceKey decisionID reason destination now s =
     RecordAdmittedRejectedCollectionWithPolicy cr deliveryID digest sourceKey decisionID reason destination 0 now s"

definition EnqueueVerifiedRejectionNotification :: "crypto \<Rightarrow> string \<Rightarrow> string \<Rightarrow> string \<Rightarrow> time \<Rightarrow> db \<Rightarrow> db res" where
  "EnqueueVerifiedRejectionNotification cr decisionID deliveryID workID now s =
     bind_res (insert_work_item \<lparr>wi_work_id = workID, wi_decision_id = decisionID, wi_delivery_id = deliveryID,
         wi_kind = ''notify_verified_forwarder'', wi_state = ''pending'', wi_created_at = now\<rparr> s) (\<lambda>s.
     eventTx cr ''reporter'' ''decision'' workID ''rejection_delivery_state'' ''pending'' now s)"

definition Collected :: "string \<Rightarrow> db \<Rightarrow> bool" where
  "Collected sourceKey s = (sql_count (\<lambda>d. d_source_key d = sourceKey) (deliveries s) > 0)"

section \<open>The collector lease\<close>

definition AcquireCollectorLease :: "string \<Rightarrow> time \<Rightarrow> int \<Rightarrow> db \<Rightarrow> bool \<times> db" where
  "AcquireCollectorLease owner now duration s =
     (case collector_lease s of
        None \<Rightarrow> (True, s\<lparr>collector_lease := Some (owner, now + duration)\<rparr>)
      | Some (holder, until) \<Rightarrow>
          if until < now \<or> holder = owner
          then (True, s\<lparr>collector_lease := Some (owner, now + duration)\<rparr>)
          else (False, s))"

definition ReleaseCollectorLease :: "string \<Rightarrow> db \<Rightarrow> db" where
  "ReleaseCollectorLease owner s =
     (case collector_lease s of
        None \<Rightarrow> s
      | Some (holder, until) \<Rightarrow> if holder = owner then s\<lparr>collector_lease := None\<rparr> else s)"

interpretation collector: lease_table collector_lease AcquireCollectorLease ReleaseCollectorLease
  by unfold_locales
    (auto simp: AcquireCollectorLease_def ReleaseCollectorLease_def lease_free_def
      split: option.splits prod.splits if_splits)

section \<open>The run state machine\<close>

definition is_leased :: "run_state \<Rightarrow> bool" where
  "is_leased st = (st = AnalysisLeased \<or> st = ReportLeased)"

definition expired :: "time \<Rightarrow> run \<Rightarrow> bool" where
  "expired now r = (is_leased (r_state r) \<and> (case r_lease_until r of None \<Rightarrow> False | Some u \<Rightarrow> u < now))"

definition recover_run :: "run \<Rightarrow> run" where
  "recover_run r = r\<lparr>r_state := (if r_state r = AnalysisLeased then Queued else ReportPending),
     r_lease_owner := None, r_lease_until := None\<rparr>"

definition recover_expired :: "time \<Rightarrow> db \<Rightarrow> db" where
  "recover_expired now s = s\<lparr>runs := sql_update (expired now) recover_run (runs s)\<rparr>"

lemma recover_not_expired: "\<not> expired now (recover_run r)"
  by (simp add: expired_def recover_run_def)

lemma recover_expired_count: "sql_count (expired now) (runs (recover_expired now s)) = 0"
  by (auto simp: recover_expired_def in_sql_update_iff recover_not_expired split: if_splits) (metis recover_not_expired)

definition claim_states :: "string \<Rightarrow> run_state \<times> run_state" where
  "claim_states phase = (if phase = ''report'' then (ReportPending, ReportLeased) else (Queued, AnalysisLeased))"

definition due :: "run_state \<Rightarrow> time \<Rightarrow> run \<Rightarrow> bool" where
  "due from now r = (r_state r = from \<and> r_not_before r \<le> now)"

text \<open>The second part of \<open>Claim\<close>, reached when no lease had to be recovered.\<close>

definition claim_due :: "crypto \<Rightarrow> string \<Rightarrow> string \<Rightarrow> time \<Rightarrow> int \<Rightarrow> db \<Rightarrow> claimed_run option res \<times> db" where
  "claim_due cr owner phase now lease s =
     (let (from, leased) = claim_states phase in
      case first_min r_created_at (filter (due from now) (runs s)) of
        None \<Rightarrow> (Inr None, s)
      | Some r \<Rightarrow>
          let run = \<lparr>run_ID = r_run_id r, run_DeliveryID = r_delivery_id r, run_State = leased,
                run_Attempt = (if phase = ''report'' then r_report_attempts r else r_analysis_attempts r),
                run_LeaseUntil = now + lease\<rparr>;
              P = (\<lambda>x. r_run_id x = r_run_id r \<and> r_state x = from)
          in if sql_count P (runs s) \<noteq> 1 then (Inr None, s)
             else (case eventTx cr ''queue'' ''run'' (r_run_id r) ''run_started'' phase now
                    (s\<lparr>runs := sql_update P (\<lambda>x. x\<lparr>r_state := leased, r_lease_owner := Some owner,
                         r_lease_until := Some (now + lease)\<rparr>) (runs s)\<rparr>) of
                 Inl e \<Rightarrow> (Inl e, s)
               | Inr s' \<Rightarrow> (Inr (Some run), s')))"

function Claim :: "crypto \<Rightarrow> string \<Rightarrow> string \<Rightarrow> time \<Rightarrow> int \<Rightarrow> db \<Rightarrow> claimed_run option res \<times> db" where
  "Claim cr owner phase now lease s =
     (if phase \<noteq> ''analysis'' \<and> phase \<noteq> ''report'' then (Inl (Err ''unknown queue phase''), s)
      else if sql_count (expired now) (runs s) > 0 then Claim cr owner phase now lease (recover_expired now s)
      else claim_due cr owner phase now lease s)"
  by pat_completeness auto
termination
  by (relation "measure (\<lambda>(cr, owner, phase, now, lease, s). sql_count (expired now) (runs s))")
    (simp_all add: recover_expired_count del: sql_count_0_iff)

declare Claim.simps [simp del]

definition transitionMeasured ::
  "crypto \<Rightarrow> string \<Rightarrow> string \<Rightarrow> run_state \<Rightarrow> run_state \<Rightarrow> string \<Rightarrow> int \<Rightarrow> time \<Rightarrow> db \<Rightarrow> db res" where
  "transitionMeasured cr rid owner from to producer duration_ms now s =
     (let P = (\<lambda>r. r_run_id r = rid \<and> r_state r = from \<and> r_lease_owner r = Some owner);
          s' = s\<lparr>runs := sql_update P (\<lambda>r. r\<lparr>r_state := to, r_lease_owner := None, r_lease_until := None\<rparr>) (runs s)\<rparr>;
          eventType = (if producer = ''reporter'' then ''report_delivery_state''
                       else if producer = ''worker'' then ''run_completed'' else [])
      in if sql_count P (runs s) \<noteq> 1 then Inl (Err ''run lease not owned'')
         else if eventType \<noteq> [] then
           bind_res (NewLifecycle producer ''run'' rid eventType (state_text to) now)
             (\<lambda>e. InsertTx cr (e\<lparr>e_DurationMS := duration_ms\<rparr>) s')
         else Inr s')"

definition FinishAnalysisMeasured :: "crypto \<Rightarrow> string \<Rightarrow> string \<Rightarrow> int \<Rightarrow> time \<Rightarrow> db \<Rightarrow> db res" where
  "FinishAnalysisMeasured cr rid owner duration_ms now s =
     transitionMeasured cr rid owner AnalysisLeased ReportPending ''worker'' duration_ms now s"

definition FinishAnalysis :: "crypto \<Rightarrow> string \<Rightarrow> string \<Rightarrow> time \<Rightarrow> db \<Rightarrow> db res" where
  "FinishAnalysis cr rid owner now s = FinishAnalysisMeasured cr rid owner 0 now s"

definition Renew :: "string \<Rightarrow> string \<Rightarrow> time \<Rightarrow> db \<Rightarrow> db res" where
  "Renew rid owner until s =
     (let P = (\<lambda>r. r_run_id r = rid \<and> r_lease_owner r = Some owner \<and> is_leased (r_state r)) in
      if sql_count P (runs s) \<noteq> 1 then Inl (Err ''lease not owned'')
      else Inr (s\<lparr>runs := sql_update P (\<lambda>r. r\<lparr>r_lease_until := Some until\<rparr>) (runs s)\<rparr>))"

definition retry_run :: "string \<Rightarrow> string \<Rightarrow> time \<Rightarrow> int \<Rightarrow> run \<Rightarrow> run" where
  "retry_run phase message notBefore maxAttempts r =
     (let r' = (if phase = ''report''
          then r\<lparr>r_state := (if r_report_attempts r + 1 \<ge> maxAttempts then ReportDead else ReportPending),
                 r_report_attempts := r_report_attempts r + 1\<rparr>
          else r\<lparr>r_state := (if r_analysis_attempts r + 1 \<ge> maxAttempts then AnalysisDead else Queued),
                 r_analysis_attempts := r_analysis_attempts r + 1\<rparr>)
      in r'\<lparr>r_not_before := notBefore, r_last_error := truncate_at 1024 message,
            r_lease_owner := None, r_lease_until := None\<rparr>)"

definition Retry :: "crypto \<Rightarrow> string \<Rightarrow> string \<Rightarrow> string \<Rightarrow> time \<Rightarrow> int \<Rightarrow> db \<Rightarrow> db res" where
  "Retry cr rid phase message notBefore maxAttempts s =
     (let next = (if phase = ''report'' then ReportPending else Queued) in
      eventTx cr ''queue'' ''run'' (rid @ '':'' @ state_text next) ''run_lifecycle'' (state_text next) notBefore
        (s\<lparr>runs := sql_update (\<lambda>r. r_run_id r = rid) (retry_run phase message notBefore maxAttempts) (runs s)\<rparr>))"

definition FinishReport :: "crypto \<Rightarrow> string \<Rightarrow> string \<Rightarrow> run_state \<Rightarrow> time \<Rightarrow> db \<Rightarrow> db res" where
  "FinishReport cr rid owner state now s =
     (if state \<noteq> Complete \<and> state \<noteq> ReplySuppressed then Inl (Err ''invalid report terminal state'')
      else transitionMeasured cr rid owner ReportLeased state ''reporter'' 0 now s)"

definition QuarantineReply :: "crypto \<Rightarrow> string \<Rightarrow> string \<Rightarrow> string \<Rightarrow> time \<Rightarrow> db \<Rightarrow> db res" where
  "QuarantineReply cr rid owner message now s =
     (let P = (\<lambda>r. r_run_id r = rid \<and> r_state r = ReportLeased \<and> r_lease_owner r = Some owner) in
      if sql_count P (runs s) \<noteq> 1 then Inl (Err ''report lease not owned'')
      else eventTx cr ''reporter'' ''run'' (rid @ '':quarantine'') ''report_delivery_state'' ''unknown'' now
        (s\<lparr>runs := sql_update P (\<lambda>r. r\<lparr>r_state := ReportDead, r_last_error := truncate_at 1024 message,
             r_lease_owner := None, r_lease_until := None\<rparr>) (runs s)\<rparr>))"

definition Redeliver :: "string \<Rightarrow> db \<Rightarrow> db res" where
  "Redeliver rid s =
     (let P = (\<lambda>r. r_run_id r = rid \<and> r_state r = ReportDead) in
      if sql_count P (runs s) \<noteq> 1 then Inl (Err ''redelivery allowed only from report_dead'')
      else Inr (s\<lparr>runs := sql_update P (\<lambda>r. r\<lparr>r_state := ReportPending, r_not_before := 0,
             r_lease_owner := None, r_lease_until := None\<rparr>) (runs s)\<rparr>))"

definition Replay :: "string \<Rightarrow> string \<Rightarrow> time \<Rightarrow> db \<Rightarrow> db res" where
  "Replay deliveryID runID now s = insert_run (new_run runID deliveryID now) s"

section \<open>Interleavings\<close>

text \<open>
  The transactions the collector, workers, reporter and operator commands issue. A failed
  transaction leaves the database as it was; \<open>Claim\<close> returns its own.
\<close>

datatype queue_op =
  OpEnqueue string string string string "report_destination option" time
| OpReject string string string string string "report_destination option" int string time
| OpNotify string string string time
| OpClaim string string time int
| OpFinishAnalysis string string int time
| OpRenew string string time
| OpRetry string string string time int
| OpFinishReport string string run_state time
| OpQuarantine string string string time
| OpRedeliver string
| OpReplay string string time
| OpBeginAttempt string report_destination time
| OpFinishAttempt int string string time

definition commit :: "db \<Rightarrow> db res \<Rightarrow> db" where
  "commit s r = (case r of Inl _ \<Rightarrow> s | Inr s' \<Rightarrow> s')"

fun exec :: "crypto \<Rightarrow> queue_op \<Rightarrow> db \<Rightarrow> db" where
  "exec cr (OpEnqueue d g k r dest now) s = commit s (enqueueCollection cr d g k r dest now s)"
| "exec cr (OpReject d g k c reason dest v rule now) s =
     commit s (recordRejectedCollection cr d g k c reason dest v rule now s)"
| "exec cr (OpNotify c d w now) s = commit s (EnqueueVerifiedRejectionNotification cr c d w now s)"
| "exec cr (OpClaim w phase now lease) s = snd (Claim cr w phase now lease s)"
| "exec cr (OpFinishAnalysis rid w ms now) s = commit s (FinishAnalysisMeasured cr rid w ms now s)"
| "exec cr (OpRenew rid w until) s = commit s (Renew rid w until s)"
| "exec cr (OpRetry rid phase msg nb mx) s = commit s (Retry cr rid phase msg nb mx s)"
| "exec cr (OpFinishReport rid w st now) s = commit s (FinishReport cr rid w st now s)"
| "exec cr (OpQuarantine rid w msg now) s = commit s (QuarantineReply cr rid w msg now s)"
| "exec cr (OpRedeliver rid) s = commit s (Redeliver rid s)"
| "exec cr (OpReplay d r now) s = commit s (Replay d r now s)"
| "exec cr (OpBeginAttempt r dest now) s = commit s (map_sum id snd (BeginReportAttempt cr r dest now s))"
| "exec cr (OpFinishAttempt a out ec now) s = commit s (FinishReportAttempt cr a out ec now s)"

definition exec_all :: "crypto \<Rightarrow> queue_op list \<Rightarrow> db \<Rightarrow> db" where
  "exec_all cr ops s = fold (exec cr) ops s"

section \<open>What an operation does to the tables\<close>

lemma InsertTx_frame: "InsertTx cr e s = Inr s' \<Longrightarrow> s' = s\<lparr>analytics_events := analytics_events s'\<rparr>"
  by (auto simp: InsertTx_def bind_res_Inr_iff Let_def split: if_splits)

lemma eventTx_frame: "eventTx cr p st sid et out now s = Inr s' \<Longrightarrow> s' = s\<lparr>analytics_events := analytics_events s'\<rparr>"
  by (auto simp: eventTx_def bind_res_Inr_iff intro: InsertTx_frame)

lemma eventTx_tables:
  assumes "eventTx cr p st sid et out now s = Inr s'"
  shows "runs s' = runs s" "deliveries s' = deliveries s" "submitters s' = submitters s"
    "report_delivery_attempts s' = report_delivery_attempts s"
    "submission_decisions s' = submission_decisions s" "rejection_work_items s' = rejection_work_items s"
  by (subst eventTx_frame [OF assms], simp)+

lemma InsertTx_rd: "InsertTx cr e s = Inr s' \<Longrightarrow> runs s' = runs s \<and> deliveries s' = deliveries s"
  by (subst (1 2) InsertTx_frame, assumption, assumption, simp)

lemma eventTx_rd: "eventTx cr p st sid et out now s = Inr s' \<Longrightarrow> runs s' = runs s \<and> deliveries s' = deliveries s"
  by (simp add: eventTx_tables)

lemma eventTx_keeps: "analytics_ok s \<Longrightarrow> eventTx cr p st sid et out now s = Inr s' \<Longrightarrow> analytics_ok s'"
  by (auto simp: eventTx_def bind_res_Inr_iff intro: InsertTx_keeps)

lemma sql_update_all2:
  assumes "\<And>r. r \<in> set t \<Longrightarrow> P r \<Longrightarrow> R r (f r)" "\<And>r. r \<in> set t \<Longrightarrow> \<not> P r \<Longrightarrow> R r r"
  shows "list_all2 R t (sql_update P f t)"
  using assms by (induction t) auto

lemma sql_count_one_unique:
  assumes "sql_count P t = 1" "x \<in> set t" "P x" "y \<in> set t" "P y"
  shows "x = y"
proof -
  obtain z where "filter P t = [z]" using assms(1) by (auto simp: sql_count_def length_Suc_conv)
  moreover have "x \<in> set (filter P t)" "y \<in> set (filter P t)" using assms by simp_all
  ultimately show ?thesis by simp
qed

text \<open>How one run may change in one operation: the edges of the run state machine.\<close>

definition lease_run_to :: "run_state \<Rightarrow> string \<Rightarrow> time \<Rightarrow> run \<Rightarrow> run" where
  "lease_run_to leased owner until r = r\<lparr>r_state := leased, r_lease_owner := Some owner, r_lease_until := Some until\<rparr>"

definition unlease_to :: "run_state \<Rightarrow> run \<Rightarrow> run" where
  "unlease_to st r = r\<lparr>r_state := st, r_lease_owner := None, r_lease_until := None\<rparr>"

inductive run_step :: "queue_op \<Rightarrow> run \<Rightarrow> run \<Rightarrow> bool" where
  stay: "run_step op r r"
| recover: "expired now r \<Longrightarrow> run_step (OpClaim w ph now l) r (recover_run r)"
| claim: "due (fst (claim_states ph)) now r \<Longrightarrow>
    run_step (OpClaim w ph now l) r (lease_run_to (snd (claim_states ph)) w (now + l) r)"
| reclaim: "expired now r \<Longrightarrow> due (fst (claim_states ph)) now (recover_run r) \<Longrightarrow>
    run_step (OpClaim w ph now l) r (lease_run_to (snd (claim_states ph)) w (now + l) (recover_run r))"
| analysed: "r_run_id r = i \<Longrightarrow> r_state r = AnalysisLeased \<Longrightarrow> r_lease_owner r = Some w \<Longrightarrow>
    run_step (OpFinishAnalysis i w ms now) r (unlease_to ReportPending r)"
| renew: "r_run_id r = i \<Longrightarrow> is_leased (r_state r) \<Longrightarrow> r_lease_owner r = Some w \<Longrightarrow>
    run_step (OpRenew i w until) r (r\<lparr>r_lease_until := Some until\<rparr>)"
| retry: "r_run_id r = i \<Longrightarrow> run_step (OpRetry i ph msg nb mx) r (retry_run ph msg nb mx r)"
| reported: "r_run_id r = i \<Longrightarrow> r_state r = ReportLeased \<Longrightarrow> r_lease_owner r = Some w \<Longrightarrow>
    st = Complete \<or> st = ReplySuppressed \<Longrightarrow> run_step (OpFinishReport i w st now) r (unlease_to st r)"
| quarantine: "r_run_id r = i \<Longrightarrow> r_state r = ReportLeased \<Longrightarrow> r_lease_owner r = Some w \<Longrightarrow>
    run_step (OpQuarantine i w msg now) r ((unlease_to ReportDead r)\<lparr>r_last_error := truncate_at 1024 msg\<rparr>)"
| redeliver: "r_run_id r = i \<Longrightarrow> r_state r = ReportDead \<Longrightarrow>
    run_step (OpRedeliver i) r ((unlease_to ReportPending r)\<lparr>r_not_before := 0\<rparr>)"

declare run_step.intros [intro]

lemma run_step_id: "run_step op r r' \<Longrightarrow> r_run_id r' = r_run_id r \<and> r_delivery_id r' = r_delivery_id r"
  by (induction rule: run_step.induct)
    (auto simp: recover_run_def lease_run_to_def unlease_to_def retry_run_def Let_def)

lemma Claim_eq:
  "Claim cr w ph now l s =
     (if ph \<noteq> ''analysis'' \<and> ph \<noteq> ''report'' then (Inl (Err ''unknown queue phase''), s)
      else claim_due cr w ph now l (recover_expired now s))"
proof (cases "sql_count (expired now) (runs s) > 0")
  case True
  then show ?thesis
    by (subst Claim.simps, subst Claim.simps)
      (simp add: recover_expired_count del: sql_count_0_iff)
next
  case False
  then have "recover_expired now s = s"
    by (simp add: recover_expired_def sql_update_id)
  moreover have "sql_count (expired now) (runs s) = 0" using False by blast
  ultimately show ?thesis by (subst Claim.simps) (simp del: sql_count_0_iff)
qed

lemma claim_due_Some:
  assumes "first_min r_created_at (filter (due (fst (claim_states ph)) now) (runs s)) = Some r"
  shows "claim_due cr w ph now l s =
     (if sql_count (\<lambda>x. r_run_id x = r_run_id r \<and> r_state x = fst (claim_states ph)) (runs s) \<noteq> 1 then (Inr None, s)
      else (case eventTx cr ''queue'' ''run'' (r_run_id r) ''run_started'' ph now
          (s\<lparr>runs := sql_update (\<lambda>x. r_run_id x = r_run_id r \<and> r_state x = fst (claim_states ph))
             (lease_run_to (snd (claim_states ph)) w (now + l)) (runs s)\<rparr>) of
          Inl e \<Rightarrow> (Inl e, s)
        | Inr s' \<Rightarrow> (Inr (Some \<lparr>run_ID = r_run_id r, run_DeliveryID = r_delivery_id r,
          run_State = snd (claim_states ph),
          run_Attempt = (if ph = ''report'' then r_report_attempts r else r_analysis_attempts r),
          run_LeaseUntil = now + l\<rparr>), s')))"
  unfolding claim_due_def case_prod_unfold Let_def assms option.case lease_run_to_def [abs_def] ..

lemma claim_due_cases:
  obtains (none) e where "claim_due cr w ph now l s = (e, s)" "\<And>x. e \<noteq> Inr (Some x)"
  | (some) r s' where "r \<in> set (runs s)" "due (fst (claim_states ph)) now r"
      "\<And>x. x \<in> set (runs s) \<Longrightarrow> due (fst (claim_states ph)) now x \<Longrightarrow> r_created_at r \<le> r_created_at x"
      "sql_count (\<lambda>x. r_run_id x = r_run_id r \<and> r_state x = fst (claim_states ph)) (runs s) = 1"
      "eventTx cr ''queue'' ''run'' (r_run_id r) ''run_started'' ph now
         (s\<lparr>runs := sql_update (\<lambda>x. r_run_id x = r_run_id r \<and> r_state x = fst (claim_states ph))
              (lease_run_to (snd (claim_states ph)) w (now + l)) (runs s)\<rparr>) = Inr s'"
      "claim_due cr w ph now l s = (Inr (Some \<lparr>run_ID = r_run_id r, run_DeliveryID = r_delivery_id r,
          run_State = snd (claim_states ph),
          run_Attempt = (if ph = ''report'' then r_report_attempts r else r_analysis_attempts r),
          run_LeaseUntil = now + l\<rparr>), s')"
proof (cases "first_min r_created_at (filter (due (fst (claim_states ph)) now) (runs s))")
  case None
  then have "claim_due cr w ph now l s = (Inr None, s)"
    by (simp add: claim_due_def case_prod_unfold Let_def)
  then show ?thesis by (rule none) simp
next
  case (Some r)
  let ?P = "\<lambda>x. r_run_id x = r_run_id r \<and> r_state x = fst (claim_states ph)"
  let ?s = "s\<lparr>runs := sql_update ?P (lease_run_to (snd (claim_states ph)) w (now + l)) (runs s)\<rparr>"
  have r: "r \<in> set (runs s)" "due (fst (claim_states ph)) now r" using first_min_in [OF Some] by auto
  have le: "r_created_at r \<le> r_created_at x" if "x \<in> set (runs s)" "due (fst (claim_states ph)) now x" for x
    using first_min_le [OF Some, of x] that by simp
  note eq = claim_due_Some [OF Some, of cr w l]
  show ?thesis
  proof (cases "sql_count ?P (runs s) = 1")
    case False
    with eq have "claim_due cr w ph now l s = (Inr None, s)" by simp
    then show ?thesis by (rule none) simp
  next
    case True
    show ?thesis
    proof (cases "eventTx cr ''queue'' ''run'' (r_run_id r) ''run_started'' ph now ?s")
      case (Inl e)
      with eq True have "claim_due cr w ph now l s = (Inl e, s)" by simp
      then show ?thesis by (rule none) simp
    next
      case (Inr s')
      with eq True r le show ?thesis by (intro some) simp_all
    qed
  qed
qed

subsection \<open>Every operation moves runs along the edges of the state machine\<close>

definition runs_step :: "queue_op \<Rightarrow> db \<Rightarrow> db \<Rightarrow> bool" where
  "runs_step op s s' = (\<exists>rs new. runs s' = rs @ new \<and> list_all2 (run_step op) (runs s) rs \<and>
     (new = [] \<or> (\<exists>i d t. new = [new_run i d t] \<and> i \<notin> r_run_id ` set (runs s) \<and>
        d \<in> d_delivery_id ` set (deliveries s'))))"

lemma runs_step_update: "list_all2 (run_step op) (runs s) (runs s') \<Longrightarrow> runs_step op s s'"
  unfolding runs_step_def by (rule exI [of _ "runs s'"], rule exI [of _ "[]"]) simp

lemma run_steps_refl [simp]: "list_all2 (run_step op) t t"
  by (auto simp: list_all2_same)

lemma runs_step_same: "runs s' = runs s \<Longrightarrow> runs_step op s s'"
  by (auto intro: runs_step_update)

lemma insert_delivery_tables:
  assumes "insert_delivery_once row s = Inr s'"
  shows "runs s' = runs s" "submitters s' = submitters s" "report_delivery_attempts s' = report_delivery_attempts s"
    "analytics_ok s' = analytics_ok s"
  using assms by (auto simp: insert_delivery_once_def insert_delivery_def analytics_ok_def events_ok_def projected_def
      split: if_splits)

lemma runs_step_new_run:
  assumes "insert_run_once (new_run i d t) s = Inr s'" "runs s1 = runs s'" "deliveries s1 = deliveries s'" "runs s0 = runs s"
  shows "runs_step op s0 s1"
proof (cases "runs s' = runs s")
  case False
  then have "runs s' = runs s @ [new_run i d t]" "i \<notin> r_run_id ` set (runs s)" "d \<in> d_delivery_id ` set (deliveries s')"
    using assms(1) by (auto simp: insert_run_once_def insert_run_def fresh_def parent_def new_run_def split: if_splits)
  with assms show ?thesis unfolding runs_step_def
    by (intro exI [of _ "runs s"] exI [of _ "[new_run i d t]"]) auto
qed (use assms in \<open>auto intro: runs_step_same\<close>)

lemma Claim_runs_step: "runs_step (OpClaim w ph now l) s (snd (Claim cr w ph now l s))"
proof (cases "ph \<noteq> ''analysis'' \<and> ph \<noteq> ''report''")
  case True
  then show ?thesis by (simp add: Claim_eq runs_step_same)
next
  case False
  let ?s = "recover_expired now s"
  have rec: "list_all2 (run_step (OpClaim w ph now l)) (runs s) (runs ?s)"
    by (auto simp: recover_expired_def intro: sql_update_all2)
  show ?thesis
  proof (cases rule: claim_due_cases [of cr w ph now l ?s])
    case (none e)
    with False rec show ?thesis by (simp add: Claim_eq runs_step_update)
  next
    case (some r s')
    let ?P = "\<lambda>x. r_run_id x = r_run_id r \<and> r_state x = fst (claim_states ph)"
    let ?f = "lease_run_to (snd (claim_states ph)) w (now + l)"
    have "x = r" if "x \<in> set (runs ?s)" "?P x" for x
      using sql_count_one_unique [OF some(4) that(1,2) some(1)] some(2) by (auto simp: due_def)
    then have due: "due (fst (claim_states ph)) now x" if "x \<in> set (runs ?s)" "?P x" for x
      using some(2) that by blast
    have "list_all2 (run_step (OpClaim w ph now l)) (runs s) (sql_update ?P ?f (runs ?s))"
      unfolding list_all2_conv_all_nth
    proof (intro conjI allI impI)
      show "length (runs s) = length (sql_update ?P ?f (runs ?s))" by (simp add: recover_expired_def)
      fix n assume n: "n < length (runs s)"
      then have "runs ?s ! n \<in> set (runs ?s)" by (simp add: recover_expired_def)
      with due [of "runs ?s ! n"] n
      show "run_step (OpClaim w ph now l) (runs s ! n) (sql_update ?P ?f (runs ?s) ! n)"
        by (auto simp: recover_expired_def sql_update_def)
    qed
    with False some(6) eventTx_tables(1) [OF some(5)] show ?thesis
      by (simp add: Claim_eq runs_step_update)
  qed
qed

lemma transition_runs:
  assumes "transitionMeasured cr rid w from to producer ms now s = Inr s'"
  shows "runs s' = sql_update (\<lambda>r. r_run_id r = rid \<and> r_state r = from \<and> r_lease_owner r = Some w) (unlease_to to) (runs s)"
    "deliveries s' = deliveries s"
  using assms
  by (auto simp: transitionMeasured_def Let_def bind_res_Inr_iff unlease_to_def [abs_def] split: if_splits dest!: InsertTx_rd)

lemma transition_runs_step:
  assumes "transitionMeasured cr rid w from to producer ms now s = Inr s'"
    and "\<And>r. r_run_id r = rid \<Longrightarrow> r_state r = from \<Longrightarrow> r_lease_owner r = Some w \<Longrightarrow> run_step op r (unlease_to to r)"
  shows "runs_step op s s'"
  using assms(2) by (intro runs_step_update) (auto simp: transition_runs(1) [OF assms(1)] intro!: sql_update_all2)

lemma enqueue_runs_step:
  assumes "enqueueCollection cr d g k r dest now s = Inr s'"
  shows "runs_step op s s'"
proof -
  obtain s1 s2 where s1: "insert_delivery_once (delivery_row d g k dest now) s = Inr s1"
    and s2: "insert_run_once (new_run r d now) s1 = Inr s2"
    and s3: "eventTx cr ''collector'' ''delivery'' d ''subject_preflight'' ''accepted'' now s2 = Inr s'"
    using assms by (auto simp: enqueueCollection_def bind_res_Inr_iff)
  show ?thesis
    using runs_step_new_run [OF s2] insert_delivery_tables(1) [OF s1] eventTx_tables [OF s3] by metis
qed

lemma insert_rejection_tables:
  "insert_submission_decision a s = Inr s' \<Longrightarrow> runs s' = runs s \<and> deliveries s' = deliveries s"
  "insert_work_item b s = Inr s' \<Longrightarrow> runs s' = runs s \<and> deliveries s' = deliveries s"
  "insert_decision_record c s = Inr s' \<Longrightarrow> runs s' = runs s \<and> deliveries s' = deliveries s"
  "insert_signing_item d s = Inr s' \<Longrightarrow> runs s' = runs s \<and> deliveries s' = deliveries s"
  "insert_report_attempt e s = Inr s' \<Longrightarrow> runs s' = runs s \<and> deliveries s' = deliveries s"
  by (auto simp: insert_submission_decision_def insert_work_item_def insert_decision_record_def
      insert_signing_item_def insert_report_attempt_def split: if_splits)

lemma reject_steps:
  assumes "recordRejectedCollection cr d g k c reason dest v rule now s = Inr s'"
  obtains s1 s2 s3 s4 s5 s6 r2 r3 r4 r5 sid out where
    "insert_delivery_once (delivery_row d g k dest now) s = Inr s1"
    "insert_submission_decision r2 s1 = Inr s2" "insert_work_item r3 s2 = Inr s3"
    "insert_decision_record r4 s3 = Inr s4" "insert_signing_item r5 s4 = Inr s5"
    "eventTx cr ''collector'' ''delivery'' d ''subject_preflight'' reason now s5 = Inr s6"
    "eventTx cr ''reporter'' ''decision'' sid ''rejection_delivery_state'' out now s6 = Inr s'"
  using assms unfolding recordRejectedCollection_def Let_def bind_res_Inr_iff by blast

lemma reject_cases:
  assumes "recordRejectedCollection cr d g k c reason dest v rule now s = Inr s'"
  obtains s1 where "insert_delivery_once (delivery_row d g k dest now) s = Inr s1"
    "runs s' = runs s1" "deliveries s' = deliveries s1"
  using assms
proof (rule reject_steps)
  fix s1 s2 s3 s4 s5 s6 r2 r3 r4 r5 sid out
  assume s: "insert_delivery_once (delivery_row d g k dest now) s = Inr s1"
    "insert_submission_decision r2 s1 = Inr s2" "insert_work_item r3 s2 = Inr s3"
    "insert_decision_record r4 s3 = Inr s4" "insert_signing_item r5 s4 = Inr s5"
    "eventTx cr ''collector'' ''delivery'' d ''subject_preflight'' reason now s5 = Inr s6"
    "eventTx cr ''reporter'' ''decision'' sid ''rejection_delivery_state'' out now s6 = Inr s'"
  note tables = insert_rejection_tables(1) [OF s(2)] insert_rejection_tables(2) [OF s(3)]
    insert_rejection_tables(3) [OF s(4)] insert_rejection_tables(4) [OF s(5)] eventTx_rd [OF s(6)] eventTx_rd [OF s(7)]
  then show ?thesis by (intro that [OF s(1)]) simp_all
qed

lemma BeginReportAttempt_tables:
  "BeginReportAttempt cr r dest now s = Inr (a, s') \<Longrightarrow> runs s' = runs s \<and> deliveries s' = deliveries s"
  by (auto simp: BeginReportAttempt_def Let_def bind_res_Inr_iff dest!: insert_rejection_tables(5) eventTx_rd)

lemma FinishReportAttempt_Inr:
  assumes "FinishReportAttempt cr a out ec now s = Inr s'"
  shows "out \<noteq> ''started'' \<and>
    sql_count (\<lambda>x. ra_attempt_id x = a \<and> ra_outcome x = ''started'') (report_delivery_attempts s) = 1 \<and>
    (\<exists>sid. eventTx cr ''reporter'' ''run'' sid ''report_delivery_state'' out now
      (s\<lparr>report_delivery_attempts := sql_update (\<lambda>x. ra_attempt_id x = a \<and> ra_outcome x = ''started'')
        (\<lambda>x. x\<lparr>ra_finished_at := Some now, ra_outcome := out, ra_error_class := ec\<rparr>) (report_delivery_attempts s)\<rparr>) = Inr s')"
proof -
  have o: "out = ''accepted'' \<or> out = ''failed'' \<or> out = ''unknown''"
    using assms unfolding FinishReportAttempt_def by (metis Inl_Inr_False)
  show ?thesis
    using assms unfolding FinishReportAttempt_def Let_def
    by (simp split: if_split_asm option.split_asm) (use o in blast)+
qed

lemma FinishReportAttempt_tables:
  "FinishReportAttempt cr a out ec now s = Inr s' \<Longrightarrow> runs s' = runs s \<and> deliveries s' = deliveries s"
  by (auto simp: FinishReportAttempt_def Let_def split: if_splits option.splits dest!: eventTx_rd)

lemma exec_runs_step: "runs_step op s (exec cr op s)"
proof (cases op)
  case (OpEnqueue d g k r dest now)
  then show ?thesis by (auto simp: commit_def runs_step_same enqueue_runs_step split: sum.split)
next
  case (OpReject d g k c reason dest v rule now)
  then show ?thesis
    by (auto simp: commit_def split: sum.split elim!: reject_cases dest!: insert_delivery_tables(1) intro!: runs_step_same)
next
  case (OpNotify c d w now)
  then show ?thesis
    by (auto simp: commit_def EnqueueVerifiedRejectionNotification_def bind_res_Inr_iff split: sum.split
        dest!: insert_rejection_tables(2) eventTx_tables(1) intro!: runs_step_same)
next
  case (OpClaim w ph now l)
  then show ?thesis by (simp add: Claim_runs_step)
next
  case (OpFinishAnalysis rid w ms now)
  then show ?thesis
    by (auto simp: commit_def runs_step_same FinishAnalysisMeasured_def split: sum.split intro: transition_runs_step)
next
  case (OpRenew rid w until)
  then show ?thesis
    by (auto simp: commit_def runs_step_same Renew_def Let_def split: sum.split if_splits
        intro!: runs_step_update sql_update_all2)
next
  case (OpRetry rid ph msg nb mx)
  then show ?thesis
    by (auto simp: commit_def runs_step_same Retry_def Let_def split: sum.split
        dest!: eventTx_tables(1) intro!: runs_step_update sql_update_all2)
next
  case (OpFinishReport rid w st now)
  then show ?thesis
    by (auto simp: commit_def runs_step_same FinishReport_def split: sum.split if_splits intro: transition_runs_step)
next
  case (OpQuarantine rid w msg now)
  have "(unlease_to ReportDead r)\<lparr>r_last_error := truncate_at 1024 msg\<rparr> =
      r\<lparr>r_state := ReportDead, r_last_error := truncate_at 1024 msg, r_lease_owner := None, r_lease_until := None\<rparr>" for r
    by (simp add: unlease_to_def)
  then have "run_step op r (r\<lparr>r_state := ReportDead, r_last_error := truncate_at 1024 msg, r_lease_owner := None, r_lease_until := None\<rparr>)"
    if "r_run_id r = rid" "r_state r = ReportLeased" "r_lease_owner r = Some w" for r
    using run_step.quarantine [OF that] OpQuarantine by metis
  with OpQuarantine show ?thesis
    by (auto simp: commit_def runs_step_same QuarantineReply_def Let_def split: sum.split if_splits
        dest!: eventTx_tables(1) intro!: runs_step_update sql_update_all2)
next
  case (OpRedeliver rid)
  have "(unlease_to ReportPending r)\<lparr>r_not_before := 0\<rparr> =
      r\<lparr>r_state := ReportPending, r_not_before := 0, r_lease_owner := None, r_lease_until := None\<rparr>" for r
    by (simp add: unlease_to_def)
  then have "run_step op r (r\<lparr>r_state := ReportPending, r_not_before := 0, r_lease_owner := None, r_lease_until := None\<rparr>)"
    if "r_run_id r = rid" "r_state r = ReportDead" for r
    using run_step.redeliver [OF that] OpRedeliver by metis
  with OpRedeliver show ?thesis
    by (auto simp: commit_def runs_step_same Redeliver_def Let_def split: sum.split if_splits
        intro!: runs_step_update sql_update_all2)
next
  case (OpReplay d r now)
  have "runs_step op s s'" if "insert_run (new_run r d now) s = Inr s'" for s'
    using runs_step_new_run [of r d now s s' s' s op] that
    by (simp add: insert_run_once_def insert_run_def)
  with OpReplay show ?thesis by (auto simp: commit_def runs_step_same Replay_def split: sum.split)
next
  case (OpBeginAttempt r dest now)
  then show ?thesis
    by (cases "BeginReportAttempt cr r dest now s")
      (auto simp: commit_def intro!: runs_step_same dest: BeginReportAttempt_tables)
next
  case (OpFinishAttempt a out ec now)
  then show ?thesis by (auto simp: commit_def runs_step_same FinishReportAttempt_tables split: sum.split)
qed

subsection \<open>Deliveries only grow\<close>

definition deliveries_step :: "db \<Rightarrow> db \<Rightarrow> bool" where
  "deliveries_step s s' = (deliveries s' = deliveries s \<or>
     (\<exists>d. deliveries s' = deliveries s @ [d] \<and> d_delivery_id d \<notin> d_delivery_id ` set (deliveries s) \<and>
        d_source_key d \<notin> d_source_key ` set (deliveries s)))"

lemma insert_delivery_step: "insert_delivery_once d s = Inr s' \<Longrightarrow> deliveries_step s s'"
  by (auto simp: insert_delivery_once_def insert_delivery_def deliveries_step_def fresh_def split: if_splits)

lemma insert_run_deliveries: "insert_run_once r s = Inr s' \<Longrightarrow> deliveries s' = deliveries s"
  by (auto simp: insert_run_once_def insert_run_def split: if_splits)

lemma deliveries_step_same: "deliveries s' = deliveries s \<Longrightarrow> deliveries_step s s'"
  by (simp add: deliveries_step_def)

lemma Claim_deliveries: "deliveries (snd (Claim cr w ph now l s)) = deliveries s"
  by (cases rule: claim_due_cases [of cr w ph now l "recover_expired now s"])
    (auto simp: Claim_eq recover_expired_def dest!: eventTx_rd)

lemma exec_deliveries_step: "deliveries_step s (exec cr op s)"
proof (cases op)
  case (OpEnqueue d g k r dest now)
  then show ?thesis
    by (auto simp: commit_def enqueueCollection_def bind_res_Inr_iff deliveries_step_same split: sum.split
        dest!: eventTx_rd insert_run_deliveries insert_delivery_step simp: deliveries_step_def)
next
  case (OpReject d g k c reason dest v rule now)
  then show ?thesis
    by (auto simp: commit_def deliveries_step_same split: sum.split elim!: reject_cases
        dest!: insert_delivery_step simp: deliveries_step_def)
next
  case (OpBeginAttempt r dest now)
  then show ?thesis
    by (cases "BeginReportAttempt cr r dest now s")
      (auto simp: commit_def intro!: deliveries_step_same dest: BeginReportAttempt_tables)
qed (auto simp: commit_def Claim_deliveries EnqueueVerifiedRejectionNotification_def bind_res_Inr_iff
    FinishAnalysisMeasured_def transition_runs(2) Renew_def Retry_def FinishReport_def QuarantineReply_def
    Redeliver_def Replay_def insert_run_def FinishReportAttempt_tables Let_def
    intro!: deliveries_step_same split: sum.split if_splits dest!: eventTx_rd insert_rejection_tables(2))

section \<open>The invariant of the queue\<close>

definition run_ok :: "run \<Rightarrow> bool" where
  "run_ok r = ((is_leased (r_state r) \<longleftrightarrow> r_lease_owner r \<noteq> None) \<and>
     (is_leased (r_state r) \<longleftrightarrow> r_lease_until r \<noteq> None) \<and>
     0 \<le> r_analysis_attempts r \<and> 0 \<le> r_report_attempts r \<and> length (r_last_error r) \<le> 1024)"

definition queue_ok :: "db \<Rightarrow> bool" where
  "queue_ok s = (distinct (map r_run_id (runs s)) \<and> distinct (map d_delivery_id (deliveries s)) \<and>
     distinct (map d_source_key (deliveries s)) \<and>
     (\<forall>r \<in> set (runs s). run_ok r \<and> r_delivery_id r \<in> d_delivery_id ` set (deliveries s)))"

lemma claim_states_leased [simp]: "is_leased (snd (claim_states ph))" "\<not> is_leased (fst (claim_states ph))"
  by (auto simp: claim_states_def is_leased_def)

lemma is_leased_simps [simp]:
  "\<not> is_leased Queued" "is_leased AnalysisLeased" "\<not> is_leased ReportPending" "is_leased ReportLeased"
  "\<not> is_leased Complete" "\<not> is_leased ReplySuppressed" "\<not> is_leased AnalysisDead" "\<not> is_leased ReportDead"
  by (simp_all add: is_leased_def)

lemma run_step_ok: "run_step op r r' \<Longrightarrow> run_ok r \<Longrightarrow> run_ok r'"
  by (induction rule: run_step.induct)
    (auto simp: run_ok_def recover_run_def lease_run_to_def unlease_to_def retry_run_def Let_def)

lemma new_run_ok [simp]: "run_ok (new_run i d t)"
  by (simp add: run_ok_def new_run_def)

lemma list_all2_map_same: "list_all2 R xs ys \<Longrightarrow> (\<And>x y. R x y \<Longrightarrow> f y = f x) \<Longrightarrow> map f ys = map f xs"
  by (induction rule: list_all2_induct) auto

lemma runs_step_ids:
  assumes "runs_step op s s'"
  obtains new where "map r_run_id (runs s') = map r_run_id (runs s) @ new" "length new \<le> 1"
    "set new \<inter> r_run_id ` set (runs s) = {}"
proof -
  from assms obtain rs new where n: "runs s' = rs @ new" "list_all2 (run_step op) (runs s) rs"
    "new = [] \<or> (\<exists>i d t. new = [new_run i d t] \<and> i \<notin> r_run_id ` set (runs s) \<and> d \<in> d_delivery_id ` set (deliveries s'))"
    unfolding runs_step_def by blast
  have "map r_run_id rs = map r_run_id (runs s)"
    by (rule list_all2_map_same [OF n(2)]) (simp add: run_step_id)
  with n show ?thesis by (intro that [of "map r_run_id new"]) (auto simp: new_run_def)
qed

lemma runs_step_row:
  assumes "runs_step op s s'" "r' \<in> set (runs s')"
  obtains (old) r where "r \<in> set (runs s)" "run_step op r r'"
  | (new) i d t where "r' = new_run i d t" "i \<notin> r_run_id ` set (runs s)" "d \<in> d_delivery_id ` set (deliveries s')"
proof -
  from assms obtain rs new where n: "runs s' = rs @ new" "list_all2 (run_step op) (runs s) rs"
    "new = [] \<or> (\<exists>i d t. new = [new_run i d t] \<and> i \<notin> r_run_id ` set (runs s) \<and> d \<in> d_delivery_id ` set (deliveries s'))"
    unfolding runs_step_def by blast
  from assms(2) n(1) consider "r' \<in> set rs" | "r' \<in> set new" by auto
  then show ?thesis
  proof cases
    case 1
    with n(2) obtain r where "r \<in> set (runs s)" "run_step op r r'"
      by (metis list_all2_conv_all_nth in_set_conv_nth)
    then show ?thesis by (rule old)
  next
    case 2
    with n(3) show ?thesis by (auto intro: that(2))
  qed
qed

lemma queue_ok_exec:
  assumes "queue_ok s"
  shows "queue_ok (exec cr op s)"
proof -
  note rs = exec_runs_step [of op s cr] and ds = exec_deliveries_step [of s cr op]
  have "distinct (map r_run_id (runs (exec cr op s)))"
  proof -
    obtain new where "map r_run_id (runs (exec cr op s)) = map r_run_id (runs s) @ new" "length new \<le> 1"
      "set new \<inter> r_run_id ` set (runs s) = {}" using runs_step_ids [OF rs] by blast
    with assms show ?thesis by (cases new) (auto simp: queue_ok_def)
  qed
  moreover have del: "distinct (map d_delivery_id (deliveries (exec cr op s)))"
    "distinct (map d_source_key (deliveries (exec cr op s)))"
    "d_delivery_id ` set (deliveries s) \<subseteq> d_delivery_id ` set (deliveries (exec cr op s))"
    using assms ds by (auto simp: queue_ok_def deliveries_step_def)
  moreover have "run_ok r \<and> r_delivery_id r \<in> d_delivery_id ` set (deliveries (exec cr op s))"
    if "r \<in> set (runs (exec cr op s))" for r
  proof (cases rule: runs_step_row [OF rs that, case_names old new])
    case (old r0)
    have "run_ok r0" "r_delivery_id r0 \<in> d_delivery_id ` set (deliveries s)"
      using assms old(1) by (simp_all add: queue_ok_def)
    then show ?thesis using run_step_ok [OF old(2)] run_step_id [OF old(2)] del(3) by auto
  qed (auto simp: new_run_def run_ok_def)
  ultimately show ?thesis by (simp add: queue_ok_def)
qed

lemma exec_all_simps [simp]:
  "exec_all cr [] s = s" "exec_all cr (op # ops) s = exec_all cr ops (exec cr op s)"
  by (simp_all add: exec_all_def)

lemma queue_ok_exec_all: "queue_ok s \<Longrightarrow> queue_ok (exec_all cr ops s)"
  by (induction ops arbitrary: s) (simp_all add: queue_ok_exec)

lemma queue_ok_Migrate: "queue_ok (Migrate now)"
  by (simp add: queue_ok_def Migrate_def)

definition queue_init :: "db \<Rightarrow> bool" where
  "queue_init s = (\<exists>now. s = Migrate now)"

definition queue_step :: "crypto \<Rightarrow> db \<Rightarrow> db \<Rightarrow> bool" where
  "queue_step cr s t = (\<exists>op. t = exec cr op s)"

interpretation queue_system: invariant_system queue_init "queue_step cr" queue_ok
  by unfold_locales (auto simp: queue_init_def queue_step_def queue_ok_Migrate queue_ok_exec)

text \<open>The row of a run before and after an operation.\<close>

lemma row_by_list_all2:
  assumes "list_all2 R xs ys" "\<And>x y. R x y \<Longrightarrow> k y = k x" "row_by k i xs = Some x"
  shows "\<exists>y. row_by k i ys = Some y \<and> R x y"
  using assms by (induction rule: list_all2_induct) (auto split: if_splits)

lemma exec_row:
  assumes "row_by r_run_id i (runs s) = Some r"
  shows "\<exists>r'. row_by r_run_id i (runs (exec cr op s)) = Some r' \<and> run_step op r r'"
proof -
  obtain rs new where n: "runs (exec cr op s) = rs @ new" "list_all2 (run_step op) (runs s) rs"
    using exec_runs_step [of op s cr] unfolding runs_step_def by blast
  from row_by_list_all2 [OF n(2) _ assms] run_step_id show ?thesis
    by (auto simp: n(1) row_by_append)
qed

section \<open>Leases are exclusive\<close>

text \<open>
  An operation that does not act on run \<open>i\<close> as its lease holder \<open>w\<close>, does not retry it, and
  if it is a claim happens no later than the end \<open>u\<close> of the lease.
\<close>

fun foreign :: "string \<Rightarrow> string \<Rightarrow> time \<Rightarrow> queue_op \<Rightarrow> bool" where
  "foreign i w u (OpClaim v ph now l) = (now \<le> u)"
| "foreign i w u (OpFinishAnalysis j v ms now) = (j \<noteq> i \<or> v \<noteq> w)"
| "foreign i w u (OpRenew j v until) = (j \<noteq> i \<or> v \<noteq> w)"
| "foreign i w u (OpFinishReport j v st now) = (j \<noteq> i \<or> v \<noteq> w)"
| "foreign i w u (OpQuarantine j v msg now) = (j \<noteq> i \<or> v \<noteq> w)"
| "foreign i w u (OpRetry j ph msg nb mx) = (j \<noteq> i)"
| "foreign i w u _ = True"

definition leased_by :: "string \<Rightarrow> time \<Rightarrow> run \<Rightarrow> bool" where
  "leased_by w u r = (is_leased (r_state r) \<and> r_lease_owner r = Some w \<and> r_lease_until r = Some u)"

lemma run_step_foreign:
  "run_step op r r' \<Longrightarrow> leased_by w u r \<Longrightarrow> foreign (r_run_id r) w u op \<Longrightarrow> r' = r"
  by (induction rule: run_step.induct)
    (auto simp: leased_by_def expired_def due_def claim_states_def is_leased_def split: if_splits)

lemma lease_survives:
  assumes "row_by r_run_id i (runs s) = Some r" "leased_by w u r" "\<forall>op \<in> set ops. foreign i w u op"
  shows "row_by r_run_id i (runs (exec_all cr ops s)) = Some r"
  using assms(1,3)
proof (induction ops arbitrary: s)
  case (Cons op ops)
  obtain r' where r': "row_by r_run_id i (runs (exec cr op s)) = Some r'" "run_step op r r'"
    using exec_row [OF Cons.prems(1)] by blast
  have "r_run_id r = i" using row_by_Some [OF Cons.prems(1)] by simp
  with r' Cons.prems(2) assms(2) have "r' = r" using run_step_foreign [OF r'(2) assms(2)] by simp
  with Cons r' show ?case by simp
qed simp

lemma Claim_result:
  assumes "queue_ok s" "Claim cr w ph now l s = (Inr (Some x), s')"
  obtains r where "row_by r_run_id (run_ID x) (runs (recover_expired now s)) = Some r"
    "due (fst (claim_states ph)) now r"
    "\<forall>y \<in> set (runs (recover_expired now s)). due (fst (claim_states ph)) now y \<longrightarrow> r_created_at r \<le> r_created_at y"
    "runs s' = sql_update (\<lambda>y. r_run_id y = run_ID x) (lease_run_to (snd (claim_states ph)) w (now + l)) (runs (recover_expired now s))"
    "x = \<lparr>run_ID = r_run_id r, run_DeliveryID = r_delivery_id r, run_State = snd (claim_states ph),
          run_Attempt = (if ph = ''report'' then r_report_attempts r else r_analysis_attempts r),
          run_LeaseUntil = now + l\<rparr>"
proof -
  let ?s = "recover_expired now s"
  have due: "claim_due cr w ph now l ?s = (Inr (Some x), s')"
    using assms(2) by (auto simp: Claim_eq split: if_splits)
  have ids: "distinct (map r_run_id (runs ?s))"
    using assms(1) by (simp add: queue_ok_def recover_expired_def recover_run_def)
  show ?thesis
  proof (cases rule: claim_due_cases [of cr w ph now l ?s])
    case (none e)
    with due show ?thesis by auto
  next
    case (some r s2)
    from some(6) due have x: "x = \<lparr>run_ID = r_run_id r, run_DeliveryID = r_delivery_id r,
          run_State = snd (claim_states ph),
          run_Attempt = (if ph = ''report'' then r_report_attempts r else r_analysis_attempts r),
          run_LeaseUntil = now + l\<rparr>" and s2: "s2 = s'" by simp_all
    have "(r_run_id y = r_run_id r \<and> r_state y = fst (claim_states ph)) = (r_run_id y = r_run_id r)"
      if "y \<in> set (runs ?s)" for y
      using key_inj [OF ids that some(1)] some(2) by (auto simp: due_def)
    then have "runs s' = sql_update (\<lambda>y. r_run_id y = run_ID x) (lease_run_to (snd (claim_states ph)) w (now + l)) (runs ?s)"
      using eventTx_tables(1) [OF some(5)] by (simp add: s2 x sql_update_def)
    moreover have "row_by r_run_id (run_ID x) (runs ?s) = Some r"
      using row_by_in [OF ids some(1)] by (simp add: x)
    ultimately show ?thesis using some(2,3) x by (intro that) auto
  qed
qed

text \<open>
  C1: A claimed run is exclusive. After \<open>Claim\<close> returned run \<open>x\<close> to worker \<open>w\<close>, whatever
  other workers, the collector and the operator do, in any order and up to the end of the
  lease, short of a \<open>Retry\<close> of that run, the run stays leased by \<open>w\<close> until \<open>now + lease\<close>,
  and no claim returns it again.
\<close>

theorem Claim_exclusive:
  assumes "queue_ok s" "Claim cr w ph now l s = (Inr (Some x), s1)"
    and "\<forall>op \<in> set ops. foreign (run_ID x) w (now + l) op" "t \<le> now + l"
  shows "(\<exists>r. row_by r_run_id (run_ID x) (runs (exec_all cr ops s1)) = Some r \<and> leased_by w (now + l) r) \<and>
    (\<forall>v ph' l' y s2. Claim cr v ph' t l' (exec_all cr ops s1) = (Inr (Some y), s2) \<longrightarrow> run_ID y \<noteq> run_ID x)"
proof -
  obtain r0 where r0: "row_by r_run_id (run_ID x) (runs (recover_expired now s)) = Some r0"
    "runs s1 = sql_update (\<lambda>y. r_run_id y = run_ID x) (lease_run_to (snd (claim_states ph)) w (now + l)) (runs (recover_expired now s))"
    using Claim_result [OF assms(1,2)] by metis
  let ?r = "lease_run_to (snd (claim_states ph)) w (now + l) r0"
  have row: "row_by r_run_id (run_ID x) (runs s1) = Some ?r"
    using r0 row_by_Some [OF r0(1)] by (simp add: row_by_sql_update lease_run_to_def)
  have l: "leased_by w (now + l) ?r" by (simp add: leased_by_def lease_run_to_def)
  note kept = lease_survives [OF row l assms(3)]
  have ok: "queue_ok (exec_all cr ops s1)"
    using queue_ok_exec [OF assms(1), of cr "OpClaim w ph now l"] assms(2) by (simp add: queue_ok_exec_all)
  have "run_ID y \<noteq> run_ID x" if y: "Claim cr v ph' t l' (exec_all cr ops s1) = (Inr (Some y), s2)" for v ph' l' y s2
  proof
    assume eq: "run_ID y = run_ID x"
    obtain r1 where r1: "row_by r_run_id (run_ID y) (runs (recover_expired t (exec_all cr ops s1))) = Some r1"
      "due (fst (claim_states ph')) t r1" using Claim_result [OF ok y] by metis
    have "\<not> expired t ?r" using assms(4) by (simp add: expired_def lease_run_to_def)
    then have "row_by r_run_id (run_ID x) (runs (recover_expired t (exec_all cr ops s1))) = Some ?r"
      using kept by (simp add: recover_expired_def row_by_sql_update recover_run_def)
    with r1 eq have "due (fst (claim_states ph')) t ?r" by simp
    then have "snd (claim_states ph) = fst (claim_states ph')" by (simp add: due_def lease_run_to_def)
    then show False by (metis claim_states_leased)
  qed
  with kept l show ?thesis by blast
qed

lemma eventTx_total:
  assumes "p \<noteq> []" "sid \<noteq> []" "analytics_allowed p st et out"
  shows "\<exists>s'. eventTx cr p st sid et out now s = Inr s'"
  using assms InsertTx_total by (simp add: eventTx_def NewLifecycle_def)

lemma Claim_finds:
  assumes "queue_ok s" "\<forall>r \<in> set (runs s). r_run_id r \<noteq> []" "ph = ''analysis'' \<or> ph = ''report''"
  shows "(\<exists>x s'. Claim cr w ph now l s = (Inr (Some x), s')) \<longleftrightarrow>
    (\<exists>r \<in> set (runs (recover_expired now s)). due (fst (claim_states ph)) now r)"
proof
  let ?s = "recover_expired now s"
  assume "\<exists>r \<in> set (runs ?s). due (fst (claim_states ph)) now r"
  then obtain m where m: "first_min r_created_at (filter (due (fst (claim_states ph)) now) (runs ?s)) = Some m"
    by (metis (mono_tags, lifting) filter_empty_conv first_min_None not_None_eq)
  then have mr: "m \<in> set (runs ?s)" "due (fst (claim_states ph)) now m" using first_min_in [OF m] by auto
  have ids: "distinct (map r_run_id (runs ?s))"
    using assms(1) by (simp add: queue_ok_def recover_expired_def recover_run_def)
  have one: "sql_count (\<lambda>x. r_run_id x = r_run_id m \<and> r_state x = fst (claim_states ph)) (runs ?s) = 1"
    using mr by (intro sql_count_key [OF ids mr(1)]) (auto simp: due_def)
  have "r_run_id m \<noteq> []" using mr(1) assms(2)
    by (auto simp: recover_expired_def in_sql_update_iff recover_run_def split: if_splits)
  then have "\<exists>s'. eventTx cr ''queue'' ''run'' (r_run_id m) ''run_started'' ph now u = Inr s'" for u
    using assms(3) by (intro eventTx_total) (auto simp: analytics_allowed_def)
  then obtain s' where "eventTx cr ''queue'' ''run'' (r_run_id m) ''run_started'' ph now
    (?s\<lparr>runs := sql_update (\<lambda>x. r_run_id x = r_run_id m \<and> r_state x = fst (claim_states ph))
       (lease_run_to (snd (claim_states ph)) w (now + l)) (runs ?s)\<rparr>) = Inr s'" by blast
  then have "\<exists>x. claim_due cr w ph now l ?s = (Inr (Some x), s')"
    unfolding claim_due_Some [OF m] one by simp
  with assms(3) show "\<exists>x s'. Claim cr w ph now l s = (Inr (Some x), s')"
    by (auto simp: Claim_eq)
next
  assume "\<exists>x s'. Claim cr w ph now l s = (Inr (Some x), s')"
  then obtain x s' where c: "Claim cr w ph now l s = (Inr (Some x), s')" by blast
  obtain r where "row_by r_run_id (run_ID x) (runs (recover_expired now s)) = Some r" "due (fst (claim_states ph)) now r"
    using Claim_result [OF assms(1) c] by metis
  then show "\<exists>r \<in> set (runs (recover_expired now s)). due (fst (claim_states ph)) now r"
    using row_by_Some by fast
qed

text \<open>
  \<open>Claim\<close> gives back the leases that ended before \<open>now\<close>, then leases the oldest due run of
  the phase to the caller and leaves every other run alone; in a well-formed queue whose run
  ids are not empty it returns a run exactly when one is due.
\<close>

theorem Claim_oldest_due:
  assumes "queue_ok s" "\<forall>r \<in> set (runs s). r_run_id r \<noteq> []" "ph = ''analysis'' \<or> ph = ''report''"
  shows "((\<exists>x s'. Claim cr w ph now l s = (Inr (Some x), s')) \<longleftrightarrow>
      (\<exists>r \<in> set (runs (recover_expired now s)). due (fst (claim_states ph)) now r)) \<and>
    (\<forall>x s'. Claim cr w ph now l s = (Inr (Some x), s') \<longrightarrow>
      (\<exists>r. row_by r_run_id (run_ID x) (runs (recover_expired now s)) = Some r \<and> due (fst (claim_states ph)) now r \<and>
        (\<forall>y \<in> set (runs (recover_expired now s)). due (fst (claim_states ph)) now y \<longrightarrow> r_created_at r \<le> r_created_at y) \<and>
        runs s' = sql_update (\<lambda>y. r_run_id y = run_ID x) (lease_run_to (snd (claim_states ph)) w (now + l)) (runs (recover_expired now s))))"
proof -
  have "\<exists>r. row_by r_run_id (run_ID x) (runs (recover_expired now s)) = Some r \<and> due (fst (claim_states ph)) now r \<and>
        (\<forall>y \<in> set (runs (recover_expired now s)). due (fst (claim_states ph)) now y \<longrightarrow> r_created_at r \<le> r_created_at y) \<and>
        runs s' = sql_update (\<lambda>y. r_run_id y = run_ID x) (lease_run_to (snd (claim_states ph)) w (now + l)) (runs (recover_expired now s))"
    if "Claim cr w ph now l s = (Inr (Some x), s')" for x s'
    using Claim_result [OF assms(1) that] by metis
  with Claim_finds [OF assms] show ?thesis by blast
qed

section \<open>Terminal runs\<close>

definition terminal :: "run_state \<Rightarrow> bool" where
  "terminal st = (st = Complete \<or> st = ReplySuppressed \<or> st = AnalysisDead \<or> st = ReportDead)"

fun reopens :: "string \<Rightarrow> queue_op \<Rightarrow> bool" where
  "reopens i (OpRetry j ph msg nb mx) = (j = i)"
| "reopens i (OpRedeliver j) = (j = i)"
| "reopens i _ = False"

lemma run_step_terminal:
  "run_step op r r' \<Longrightarrow> terminal (r_state r) \<Longrightarrow> \<not> reopens (r_run_id r) op \<Longrightarrow> r' = r"
  by (induction rule: run_step.induct)
    (auto simp: terminal_def expired_def due_def claim_states_def is_leased_def split: if_splits)

lemma terminal_survives:
  assumes "row_by r_run_id i (runs s) = Some r" "terminal (r_state r)" "\<forall>op \<in> set ops. \<not> reopens i op"
  shows "row_by r_run_id i (runs (exec_all cr ops s)) = Some r"
  using assms(1,3)
proof (induction ops arbitrary: s)
  case (Cons op ops)
  obtain r' where r': "row_by r_run_id i (runs (exec cr op s)) = Some r'" "run_step op r r'"
    using exec_row [OF Cons.prems(1)] by blast
  have "r_run_id r = i" using row_by_Some [OF Cons.prems(1)] by simp
  then have "r' = r" using run_step_terminal [OF r'(2) assms(2)] Cons.prems(2) by simp
  with Cons r' show ?case by simp
qed simp

lemma QuarantineReply_row:
  assumes "queue_ok s" "QuarantineReply cr i w msg now s = Inr s'"
  shows "\<exists>r. row_by r_run_id i (runs s') = Some r \<and> r_state r = ReportDead"
proof -
  let ?P = "\<lambda>r. r_run_id r = i \<and> r_state r = ReportLeased \<and> r_lease_owner r = Some w"
  have one: "sql_count ?P (runs s) = 1" and
    rs: "runs s' = sql_update ?P (\<lambda>r. r\<lparr>r_state := ReportDead, r_last_error := truncate_at 1024 msg,
             r_lease_owner := None, r_lease_until := None\<rparr>) (runs s)"
    using assms(2) by (auto simp: QuarantineReply_def Let_def split: if_splits dest!: eventTx_rd)
  obtain r where r: "r \<in> set (runs s)" "?P r" using sql_count_pos_ex [OF one] by blast
  have "row_by r_run_id i (runs s) = Some r"
    using row_by_in [of r_run_id "runs s" r] r assms(1) by (simp add: queue_ok_def)
  with r show ?thesis by (simp add: rs row_by_sql_update)
qed

text \<open>
  A reply whose outcome is unknown is never submitted again by itself: once
  \<open>QuarantineReply\<close> succeeded, the run stays in \<open>report_dead\<close> through every sequence of
  operations that contains no \<open>Redeliver\<close> and no \<open>Retry\<close> of that run.
\<close>

theorem quarantined_until_redelivered:
  assumes "queue_ok s" "QuarantineReply cr i w msg now s = Inr s'" "\<forall>op \<in> set ops. \<not> reopens i op"
  shows "\<exists>r. row_by r_run_id i (runs (exec_all cr ops s')) = Some r \<and> r_state r = ReportDead"
proof -
  obtain r where r: "row_by r_run_id i (runs s') = Some r" "r_state r = ReportDead"
    using QuarantineReply_row [OF assms(1,2)] by blast
  with terminal_survives [OF r(1) _ assms(3)] show ?thesis by (simp add: terminal_def)
qed

text \<open>
  \<open>Retry\<close> checks neither the state nor the owner of the run: called by a worker that lost its
  lease, it takes a completed run back into the queue.
\<close>

lemma retry_reopens_complete:
  assumes "row_by r_run_id i (runs s) = Some r" "r_state r = Complete" "r_report_attempts r + 1 < mx"
    and "Retry cr i ''report'' msg nb mx s = Inr s'"
  shows "\<exists>r'. row_by r_run_id i (runs s') = Some r' \<and> r_state r' = ReportPending"
proof -
  have "runs s' = sql_update (\<lambda>r. r_run_id r = i) (retry_run ''report'' msg nb mx) (runs s)"
    using assms(4) by (auto simp: Retry_def Let_def dest!: eventTx_rd)
  then show ?thesis
    using assms(1-3) row_by_Some [OF assms(1)] by (simp add: row_by_sql_update retry_run_def Let_def)
qed

section \<open>Retries\<close>

lemma Retry_total: "i \<noteq> [] \<Longrightarrow> \<exists>s'. Retry cr i ph msg nb mx s = Inr s'"
  unfolding Retry_def Let_def by (rule eventTx_total) (auto simp: analytics_allowed_def)

lemma exec_Retry_row:
  assumes "row_by r_run_id i (runs s) = Some r" "i \<noteq> []"
  shows "row_by r_run_id i (runs (exec cr (OpRetry i ph msg nb mx) s)) = Some (retry_run ph msg nb mx r)"
proof -
  obtain s' where s': "Retry cr i ph msg nb mx s = Inr s'" using Retry_total [OF assms(2)] by blast
  then have "runs s' = sql_update (\<lambda>r. r_run_id r = i) (retry_run ph msg nb mx) (runs s)"
    by (auto simp: Retry_def Let_def dest!: eventTx_rd)
  then show ?thesis
    using assms(1) row_by_Some [OF assms(1)] s'
    by (simp add: commit_def row_by_sql_update retry_run_def Let_def)
qed

text \<open>The retries of a run in a phase; \<open>Retry\<close> takes every phase but \<open>report\<close> for the analysis.\<close>

fun retries_of :: "string \<Rightarrow> bool \<Rightarrow> queue_op \<Rightarrow> bool" where
  "retries_of i report (OpRetry j ph msg nb mx) = (j = i \<and> (ph = ''report'') = report)"
| "retries_of i report _ = False"

definition attempts :: "bool \<Rightarrow> run \<Rightarrow> int" where
  "attempts report r = (if report then r_report_attempts r else r_analysis_attempts r)"

lemma run_step_attempts:
  "run_step op r r' \<Longrightarrow> (\<And>b. \<not> retries_of (r_run_id r) b op) \<Longrightarrow> attempts report r' = attempts report r"
  by (induction rule: run_step.induct)
    (auto simp: attempts_def recover_run_def lease_run_to_def unlease_to_def)

lemma retry_run_attempts: "attempts report (retry_run ph msg nb mx r) = attempts report r + (if (ph = ''report'') = report then 1 else 0)"
  by (auto simp: attempts_def retry_run_def Let_def)

lemma exec_attempts:
  assumes "row_by r_run_id i (runs s) = Some r" "i \<noteq> []"
  shows "\<exists>r'. row_by r_run_id i (runs (exec cr op s)) = Some r' \<and> attempts report r' = attempts report r + (if retries_of i report op then 1 else 0)"
proof (cases "\<exists>b. retries_of i b op")
  case True
  then obtain ph msg nb mx where op: "op = OpRetry i ph msg nb mx" by (cases op) auto
  show ?thesis using exec_Retry_row [OF assms, of cr ph msg nb mx] retry_run_attempts [of report ph msg nb mx r] by (simp add: op)
next
  case False
  obtain r' where "row_by r_run_id i (runs (exec cr op s)) = Some r'" "run_step op r r'" using exec_row [OF assms(1)] by blast
  with False run_step_attempts [of op r r' report] row_by_Some [OF assms(1)] show ?thesis by auto
qed

text \<open>Whatever the operations between them, claims and recoveries of expired leases included, the counters count the retries.\<close>

lemma exec_all_attempts:
  assumes "row_by r_run_id i (runs s) = Some r" "i \<noteq> []"
  shows "\<exists>r'. row_by r_run_id i (runs (exec_all cr ops s)) = Some r' \<and>
     attempts report r' = attempts report r + int (length (filter (retries_of i report) ops))"
  using assms(1)
proof (induction ops arbitrary: s r)
  case (Cons op ops)
  obtain r1 where r1: "row_by r_run_id i (runs (exec cr op s)) = Some r1"
    "attempts report r1 = attempts report r + (if retries_of i report op then 1 else 0)"
    using exec_attempts [OF Cons.prems assms(2)] by blast
  from Cons.IH [OF r1(1)] r1(2) show ?case by auto
qed simp

lemma terminal_not_claimed:
  assumes "queue_ok s" "row_by r_run_id i (runs s) = Some r" "terminal (r_state r)" "Claim cr w ph now l s = (Inr (Some c), t)"
  shows "run_ID c \<noteq> i"
proof
  assume i: "run_ID c = i"
  obtain r' where r': "row_by r_run_id (run_ID c) (runs (recover_expired now s)) = Some r'" "due (fst (claim_states ph)) now r'"
    using Claim_result [OF assms(1,4)] by metis
  have "\<not> expired now r" using assms(3) by (auto simp: terminal_def expired_def is_leased_def)
  then have "r' = r"
    using r'(1) assms(2) row_by_Some [OF assms(2)] by (simp add: i recover_expired_def row_by_sql_update recover_run_def)
  with r'(2) assms(3) show False by (auto simp: due_def terminal_def claim_states_def split: if_splits)
qed

text \<open>
  C20: Failed attempts are bounded. Take any sequence of queue operations, with claims, renewals, expired leases and
  operations on other runs in any order, and then a retry of a run, whose identifier is not empty, with limit \<open>mx\<close>. The run's counter of the phase is
  its old value plus the retries of that phase in the sequence and the last one, no other operation having changed it. The run is left
  without a lease, back in the queue when the counter is below the limit and dead when it has reached it; a dead run stays as it is, and no claim of any worker returns it, until an operator
  redelivers it or some process calls retry on it again.
  A worker that dies without calling retry is not counted.
\<close>

theorem retries_bounded:
  assumes "queue_ok s" "row_by r_run_id i (runs s) = Some r" "i \<noteq> []"
    and "t = exec cr (OpRetry i ph msg nb mx) (exec_all cr ops s)"
    and "n = attempts (ph = ''report'') r + int (length (filter (retries_of i (ph = ''report'')) ops)) + 1"
  shows "\<exists>r'. row_by r_run_id i (runs t) = Some r' \<and> attempts (ph = ''report'') r' = n \<and>
    r_lease_owner r' = None \<and> r_lease_until r' = None \<and>
    r_state r' = (if ph = ''report'' then (if n < mx then ReportPending else ReportDead) else (if n < mx then Queued else AnalysisDead)) \<and>
    (n \<ge> mx \<longrightarrow> (\<forall>later. (\<forall>op \<in> set later. \<not> reopens i op) \<longrightarrow> row_by r_run_id i (runs (exec_all cr later t)) = Some r' \<and>
       (\<forall>w ph' now l c t'. Claim cr w ph' now l (exec_all cr later t) = (Inr (Some c), t') \<longrightarrow> run_ID c \<noteq> i)))"
proof -
  obtain r1 where r1: "row_by r_run_id i (runs (exec_all cr ops s)) = Some r1" "attempts (ph = ''report'') r1 + 1 = n"
    using exec_all_attempts [OF assms(2,3), of cr ops "ph = ''report''"] assms(5) by auto
  let ?r = "retry_run ph msg nb mx r1"
  have row: "row_by r_run_id i (runs t) = Some ?r" unfolding assms(4) by (rule exec_Retry_row [OF r1(1) assms(3)])
  have st: "r_state ?r = (if ph = ''report'' then (if n < mx then ReportPending else ReportDead) else (if n < mx then Queued else AnalysisDead))"
    "r_lease_owner ?r = None" "r_lease_until ?r = None"
    using r1(2) by (cases "ph = ''report''"; auto simp: attempts_def retry_run_def Let_def)+
  have ok: "queue_ok (exec_all cr later t)" for later
    unfolding assms(4) by (intro queue_ok_exec_all queue_ok_exec assms(1))
  have "row_by r_run_id i (runs (exec_all cr later t)) = Some ?r \<and>
      (\<forall>w ph' now l c t'. Claim cr w ph' now l (exec_all cr later t) = (Inr (Some c), t') \<longrightarrow> run_ID c \<noteq> i)"
    if "n \<ge> mx" "\<forall>op \<in> set later. \<not> reopens i op" for later
  proof -
    have dead: "terminal (r_state ?r)" using that(1) by (simp add: st terminal_def)
    from terminal_survives [OF row dead that(2)] terminal_not_claimed [OF ok _ dead] show ?thesis by metis
  qed
  with row st r1(2) retry_run_attempts [of "ph = ''report''" ph msg nb mx r1] show ?thesis by (intro exI [of _ ?r]) simp
qed

text \<open>
  A worker that dies during an analysis is not counted: the next claim after the lease has ended takes the run again
  with the same counters, and leaves it in the situation it was in before.
\<close>

lemma abandoned_run_claimed_again:
  assumes "runs s = [r]" "r_run_id r \<noteq> []" "r_state r = AnalysisLeased" "r_lease_until r = Some u" "u < now" "r_not_before r \<le> now"
  shows "\<exists>c s' r'. Claim cr w ''analysis'' now l s = (Inr (Some c), s') \<and> run_ID c = r_run_id r \<and> runs s' = [r'] \<and>
    r_run_id r' = r_run_id r \<and> r_state r' = AnalysisLeased \<and> r_lease_until r' = Some (now + l) \<and> r_not_before r' = r_not_before r \<and>
    r_analysis_attempts r' = r_analysis_attempts r \<and> r_report_attempts r' = r_report_attempts r"
proof -
  let ?q = "recover_run r" and ?s = "recover_expired now s" and ?r = "lease_run_to AnalysisLeased w (now + l) (recover_run r)"
  have q: "expired now r" "r_state ?q = Queued" "due Queued now ?q" "r_run_id ?q = r_run_id r"
    using assms by (simp_all add: expired_def is_leased_def recover_run_def due_def)
  have rs: "runs ?s = [?q]" using q(1) assms(1) by (simp add: recover_expired_def sql_update_def)
  have first: "first_min r_created_at (filter (due (fst (claim_states ''analysis'')) now) (runs ?s)) = Some ?q"
    using q(3) by (simp add: rs claim_states_def)
  have one: "sql_count (\<lambda>x. r_run_id x = r_run_id ?q \<and> r_state x = Queued) [?q] = 1" using q(2) by (simp add: sql_count_def)
  have upd: "sql_update (\<lambda>x. r_run_id x = r_run_id ?q \<and> r_state x = Queued) (lease_run_to AnalysisLeased w (now + l)) [?q] = [?r]"
    using q(2) by (simp add: sql_update_def)
  obtain s' where s': "eventTx cr ''queue'' ''run'' (r_run_id ?q) ''run_started'' ''analysis'' now (?s\<lparr>runs := [?r]\<rparr>) = Inr s'"
    using eventTx_total [of "''queue''" "r_run_id ?q" "''run''" "''run_started''" "''analysis''" cr now "?s\<lparr>runs := [?r]\<rparr>"] assms(2) q(4)
    by (auto simp: analytics_allowed_def)
  have "\<exists>c. Claim cr w ''analysis'' now l s = (Inr (Some c), s') \<and> run_ID c = r_run_id r"
    unfolding Claim_eq claim_due_Some [OF first] using s' q(2,4) by (simp add: rs claim_states_def one upd)
  moreover have "runs s' = [?r]" using eventTx_rd [OF s'] by simp
  ultimately show ?thesis by (auto simp: lease_run_to_def recover_run_def)
qed

section \<open>Report destinations\<close>

lemma exec_delivery_row:
  assumes "row_by d_delivery_id i (deliveries s) = Some d"
  shows "row_by d_delivery_id i (deliveries (exec cr op s)) = Some d"
  using exec_deliveries_step [of s cr op] assms by (auto simp: deliveries_step_def row_by_append)

lemma destination_exec:
  assumes "queue_ok s" "row_by r_run_id i (runs s) = Some r"
  shows "ReportDestinationForRun i (exec cr op s) = ReportDestinationForRun i s"
proof -
  obtain r' where r': "row_by r_run_id i (runs (exec cr op s)) = Some r'" "r_delivery_id r' = r_delivery_id r"
    using exec_row [OF assms(2), of cr op] run_step_id by metis
  have "r_delivery_id r \<in> d_delivery_id ` set (deliveries s)"
    using assms row_by_Some [OF assms(2)] by (simp add: queue_ok_def)
  then obtain d where "row_by d_delivery_id (r_delivery_id r) (deliveries s) = Some d"
    by (metis not_None_eq row_by_None)
  with exec_delivery_row [OF this, of cr op] assms(2) r' show ?thesis
    by (simp add: ReportDestinationForRun_def)
qed

lemma ReportDestinationForRun_submitters:
  "ReportDestinationForRun i (s\<lparr>submitters := t\<rparr>) = ReportDestinationForRun i s"
  by (simp add: ReportDestinationForRun_def cong: option.case_cong)

lemma destination_exec_all:
  assumes "queue_ok s" "row_by r_run_id i (runs s) = Some r"
  shows "ReportDestinationForRun i (exec_all cr ops s) = ReportDestinationForRun i s"
  using assms
proof (induction ops arbitrary: s r)
  case (Cons op ops)
  obtain r' where "row_by r_run_id i (runs (exec cr op s)) = Some r'" using exec_row [OF Cons.prems(2)] by blast
  with Cons.IH [OF queue_ok_exec [OF Cons.prems(1)], of cr op] destination_exec [OF Cons.prems]
  show ?case by auto
qed simp

text \<open>
  The destination of a run's report is fixed when its delivery is admitted: through any
  sequence of queue operations, and whatever the submitter registry becomes,
  \<open>ReportDestinationForRun\<close> returns the snapshot stored with the delivery.
\<close>

theorem destination_immutable:
  assumes "queue_ok s" "EnqueueAdmittedCollection cr d g k i dest now s = Inr s'"
    and "\<not> Collected k s" "i \<notin> r_run_id ` set (runs s)"
  shows "ReportDestinationForRun i ((exec_all cr ops s')\<lparr>submitters := t\<rparr>) = Inr dest"
proof -
  have dest: "rd_SubmitterID dest \<noteq> []" "rd_ReplyAddress dest \<noteq> []"
    and e: "enqueueCollection cr d g k i (Some dest) now s = Inr s'"
    using assms(2) by (auto simp: EnqueueAdmittedCollection_def split: if_splits)
  obtain s1 s2 where s1: "insert_delivery_once (delivery_row d g k (Some dest) now) s = Inr s1"
    and s2: "insert_run_once (new_run i d now) s1 = Inr s2" and s3: "runs s' = runs s2 \<and> deliveries s' = deliveries s2"
    using e by (auto simp: enqueueCollection_def bind_res_Inr_iff dest!: eventTx_rd)
  have del: "deliveries s1 = deliveries s @ [delivery_row d g k (Some dest) now]"
    "d \<notin> d_delivery_id ` set (deliveries s)" "runs s1 = runs s"
    using s1 assms(3) by (auto simp: insert_delivery_once_def insert_delivery_def fresh_def Collected_def
        delivery_row_def split: if_splits)
  have run: "runs s2 = runs s @ [new_run i d now]" "deliveries s2 = deliveries s1"
    using s2 assms(4) del(3) by (auto simp: insert_run_once_def insert_run_def fresh_def new_run_def split: if_splits)
  have "row_by r_run_id i (runs s) = None" "row_by d_delivery_id d (deliveries s) = None"
    using assms(4) del(2) by (simp_all add: row_by_None)
  then have row: "row_by r_run_id i (runs s') = Some (new_run i d now)"
    "row_by d_delivery_id d (deliveries s') = Some (delivery_row d g k (Some dest) now)"
    by (simp_all add: s3 run del row_by_append new_run_def delivery_row_def)
  have "queue_ok s'"
    using queue_ok_exec [OF assms(1), of cr "OpEnqueue d g k i (Some dest) now"] e by (simp add: commit_def)
  from destination_exec_all [OF this row(1)]
  have "ReportDestinationForRun i (exec_all cr ops s') = ReportDestinationForRun i s'" .
  also have "\<dots> = Inr dest"
    using dest row by (simp add: ReportDestinationForRun_def new_run_def delivery_row_def)
  finally show ?thesis by (simp add: ReportDestinationForRun_submitters)
qed

section \<open>Collection\<close>

text \<open>
  Collecting is idempotent per source: after a delivery was enqueued under a source
  key, the key counts as collected, and enqueueing or rejecting it again under the same
  delivery id adds no delivery; a rejected collection adds no run.
\<close>

theorem collection_once:
  assumes "enqueueCollection cr d g k r dest now s = Inr s1"
  shows "Collected k s1 \<and>
    (\<forall>g' r' dest' now' s2. enqueueCollection cr d g' k r' dest' now' s1 = Inr s2 \<longrightarrow> deliveries s2 = deliveries s1) \<and>
    (\<forall>g' c reason dest' v rule now' s2. recordRejectedCollection cr d g' k c reason dest' v rule now' s1 = Inr s2 \<longrightarrow>
       deliveries s2 = deliveries s1 \<and> runs s2 = runs s1)"
proof -
  obtain s0 s2 where s0: "insert_delivery_once (delivery_row d g k dest now) s = Inr s0"
    and "insert_run_once (new_run r d now) s0 = Inr s2" "runs s1 = runs s2 \<and> deliveries s1 = deliveries s2"
    using assms by (auto simp: enqueueCollection_def bind_res_Inr_iff dest!: eventTx_rd)
  then have "deliveries s1 = deliveries s0" using insert_run_deliveries by simp
  moreover have "k \<in> d_source_key ` set (deliveries s0)"
    using s0 by (auto simp: insert_delivery_once_def insert_delivery_def fresh_def delivery_row_def split: if_splits)
  ultimately have k: "k \<in> d_source_key ` set (deliveries s1)" by simp
  then have once: "insert_delivery_once (delivery_row d' g' k dest' now') s1 = Inr s1" for d' g' dest' now'
    by (simp add: insert_delivery_once_def fresh_def delivery_row_def)
  have "deliveries s3 = deliveries s1" if "enqueueCollection cr d g' k r' dest' now' s1 = Inr s3" for g' r' dest' now' s3
    using that by (auto simp: enqueueCollection_def bind_res_Inr_iff once dest!: eventTx_rd insert_run_deliveries)
  moreover have "deliveries s3 = deliveries s1 \<and> runs s3 = runs s1"
    if "recordRejectedCollection cr d g' k c reason dest' v rule now' s1 = Inr s3" for g' c reason dest' v rule now' s3
    using reject_cases [OF that] once by (metis Inr_inject)
  moreover have "Collected k s1" using k unfolding Collected_def by (metis (mono_tags, lifting) imageE neq0_conv sql_count_0_iff)
  ultimately show ?thesis by blast
qed

section \<open>Lease holders\<close>

lemma transition_iff:
  assumes "queue_ok s" "i \<noteq> []" "0 \<le> ms" "ms \<le> 86400000" "p = ''worker'' \<or> p = ''reporter''"
  shows "(\<exists>s'. transitionMeasured cr i w from to p ms now s = Inr s') \<longleftrightarrow>
    (\<exists>r. row_by r_run_id i (runs s) = Some r \<and> r_state r = from \<and> r_lease_owner r = Some w)"
proof -
  let ?P = "\<lambda>r. r_run_id r = i \<and> r_state r = from \<and> r_lease_owner r = Some w"
  let ?et = "if p = ''reporter'' then ''report_delivery_state'' else if p = ''worker'' then ''run_completed'' else []"
  have ids: "distinct (map r_run_id (runs s))" using assms(1) by (simp add: queue_ok_def)
  have count: "sql_count ?P (runs s) = 1 \<longleftrightarrow> (\<exists>r. row_by r_run_id i (runs s) = Some r \<and> r_state r = from \<and> r_lease_owner r = Some w)"
  proof
    assume "sql_count ?P (runs s) = 1"
    from sql_count_pos_ex [OF this] show "\<exists>r. row_by r_run_id i (runs s) = Some r \<and> r_state r = from \<and> r_lease_owner r = Some w"
      using row_by_in [OF ids] by blast
  next
    assume "\<exists>r. row_by r_run_id i (runs s) = Some r \<and> r_state r = from \<and> r_lease_owner r = Some w"
    then obtain r where "r \<in> set (runs s)" "?P r" using row_by_Some by metis
    then show "sql_count ?P (runs s) = 1" by (intro sql_count_key [OF ids]) auto
  qed
  have "length (state_text to) \<le> 64 \<and> state_text to \<noteq> []" by (cases to) auto
  then obtain e where e: "NewLifecycle p ''run'' i ?et (state_text to) now = Inr e" "e_Dimensions e = no_dimensions"
    using assms(2,5) by (auto simp: NewLifecycle_def analytics_allowed_def)
  have "\<exists>s'. InsertTx cr (e\<lparr>e_DurationMS := ms\<rparr>) u = Inr s'" for u
    using assms(3,4) e(2) by (intro InsertTx_total) simp_all
  then have "sql_count ?P (runs s) = 1 \<longleftrightarrow> (\<exists>s'. transitionMeasured cr i w from to p ms now s = Inr s')"
    unfolding transitionMeasured_def Let_def using e(1) assms(5) by auto
  with count show ?thesis by simp
qed

text \<open>
  Only the holder of a run's lease can finish its analysis, finish its report with a
  terminal state, or renew the lease: each succeeds exactly when the caller owns the lease
  in the right phase, for a duration the event log accepts.
\<close>

theorem finish_iff_holder:
  assumes "queue_ok s" "i \<noteq> []" "0 \<le> ms" "ms \<le> 86400000" "st = Complete \<or> st = ReplySuppressed"
  shows "((\<exists>s'. FinishAnalysisMeasured cr i w ms now s = Inr s') \<longleftrightarrow>
      (\<exists>r. row_by r_run_id i (runs s) = Some r \<and> r_state r = AnalysisLeased \<and> r_lease_owner r = Some w)) \<and>
    ((\<exists>s'. FinishReport cr i w st now s = Inr s') \<longleftrightarrow>
      (\<exists>r. row_by r_run_id i (runs s) = Some r \<and> r_state r = ReportLeased \<and> r_lease_owner r = Some w)) \<and>
    ((\<exists>s'. Renew i w until s = Inr s') \<longrightarrow>
      (\<exists>r. row_by r_run_id i (runs s) = Some r \<and> is_leased (r_state r) \<and> r_lease_owner r = Some w))"
proof (intro conjI impI)
  show "(\<exists>s'. FinishAnalysisMeasured cr i w ms now s = Inr s') \<longleftrightarrow>
      (\<exists>r. row_by r_run_id i (runs s) = Some r \<and> r_state r = AnalysisLeased \<and> r_lease_owner r = Some w)"
    unfolding FinishAnalysisMeasured_def using assms by (intro transition_iff) simp_all
  show "(\<exists>s'. FinishReport cr i w st now s = Inr s') \<longleftrightarrow>
      (\<exists>r. row_by r_run_id i (runs s) = Some r \<and> r_state r = ReportLeased \<and> r_lease_owner r = Some w)"
    using transition_iff [OF assms(1,2), of 0 "''reporter''" cr w ReportLeased st now] assms(5)
    by (auto simp: FinishReport_def)
  assume "\<exists>s'. Renew i w until s = Inr s'"
  then have "sql_count (\<lambda>r. r_run_id r = i \<and> r_lease_owner r = Some w \<and> is_leased (r_state r)) (runs s) = 1"
    by (auto simp: Renew_def Let_def split: if_splits)
  from sql_count_pos_ex [OF this] show "\<exists>r. row_by r_run_id i (runs s) = Some r \<and> is_leased (r_state r) \<and> r_lease_owner r = Some w"
    using row_by_in [of r_run_id "runs s"] assms(1) by (auto simp: queue_ok_def)
qed

section \<open>The event log under queue operations\<close>

lemma analytics_ok_frame [simp]:
  "analytics_ok (s\<lparr>runs := a\<rparr>) = analytics_ok s" "analytics_ok (s\<lparr>report_delivery_attempts := b\<rparr>) = analytics_ok s"
  by (simp_all add: analytics_ok_def events_ok_def projected_def)

lemma insert_analytics_ok:
  "insert_delivery_once d s = Inr s' \<Longrightarrow> analytics_ok s' = analytics_ok s"
  "insert_run_once r s = Inr s' \<Longrightarrow> analytics_ok s' = analytics_ok s"
  "insert_run r s = Inr s' \<Longrightarrow> analytics_ok s' = analytics_ok s"
  "insert_submission_decision c s = Inr s' \<Longrightarrow> analytics_ok s' = analytics_ok s"
  "insert_work_item w s = Inr s' \<Longrightarrow> analytics_ok s' = analytics_ok s"
  "insert_decision_record e s = Inr s' \<Longrightarrow> analytics_ok s' = analytics_ok s"
  "insert_signing_item o' s = Inr s' \<Longrightarrow> analytics_ok s' = analytics_ok s"
  "insert_report_attempt a s = Inr s' \<Longrightarrow> analytics_ok s' = analytics_ok s"
  by (auto simp: insert_delivery_once_def insert_run_once_def insert_delivery_def insert_run_def
      insert_submission_decision_def insert_work_item_def insert_decision_record_def insert_signing_item_def
      insert_report_attempt_def analytics_ok_def events_ok_def projected_def split: if_splits)

lemma Claim_analytics_ok:
  assumes "analytics_ok s"
  shows "analytics_ok (snd (Claim cr w ph now l s))"
proof (cases rule: claim_due_cases [of cr w ph now l "recover_expired now s"])
  case (none e)
  with assms show ?thesis by (simp add: Claim_eq recover_expired_def)
next
  case (some r s')
  then have "analytics_ok s'" using assms by (intro eventTx_keeps [OF _ some(5)]) (simp add: recover_expired_def)
  with some(6) assms show ?thesis by (simp add: Claim_eq)
qed

lemma transition_analytics_ok:
  "analytics_ok s \<Longrightarrow> transitionMeasured cr i w from to p ms now s = Inr s' \<Longrightarrow> analytics_ok s'"
  by (auto simp: transitionMeasured_def Let_def bind_res_Inr_iff split: if_splits intro: InsertTx_keeps [rotated])

lemma reject_analytics_ok:
  assumes "analytics_ok s" "recordRejectedCollection cr d g k c reason dest v rule now s = Inr s'"
  shows "analytics_ok s'"
  using assms(2)
proof (rule reject_steps)
  fix s1 s2 s3 s4 s5 s6 r2 r3 r4 r5 sid out
  assume s: "insert_delivery_once (delivery_row d g k dest now) s = Inr s1"
    "insert_submission_decision r2 s1 = Inr s2" "insert_work_item r3 s2 = Inr s3"
    "insert_decision_record r4 s3 = Inr s4" "insert_signing_item r5 s4 = Inr s5"
    "eventTx cr ''collector'' ''delivery'' d ''subject_preflight'' reason now s5 = Inr s6"
    "eventTx cr ''reporter'' ''decision'' sid ''rejection_delivery_state'' out now s6 = Inr s'"
  have "analytics_ok s5"
    using assms(1) insert_analytics_ok(1) [OF s(1)] insert_analytics_ok(4) [OF s(2)] insert_analytics_ok(5) [OF s(3)]
      insert_analytics_ok(6) [OF s(4)] insert_analytics_ok(7) [OF s(5)] by simp
  then show "analytics_ok s'" using eventTx_keeps [OF _ s(6)] eventTx_keeps [OF _ s(7)] by blast
qed

lemma commit_keeps: "Q s \<Longrightarrow> (\<And>s'. res = Inr s' \<Longrightarrow> Q s') \<Longrightarrow> Q (commit s res)"
  by (cases res) (simp_all add: commit_def)

lemma exec_analytics_ok:
  assumes ok: "analytics_ok s"
  shows "analytics_ok (exec cr op s)"
proof (cases op)
  case (OpEnqueue d g k r dest now)
  have "analytics_ok s'" if "enqueueCollection cr d g k r dest now s = Inr s'" for s'
    using that ok insert_analytics_ok(1,2) eventTx_keeps unfolding enqueueCollection_def bind_res_Inr_iff by metis
  with OpEnqueue ok show ?thesis by (simp add: commit_keeps)
next
  case (OpReject d g k c reason dest v rule now)
  with ok show ?thesis by (simp add: commit_keeps reject_analytics_ok)
next
  case (OpNotify c d w now)
  have "analytics_ok s'" if "EnqueueVerifiedRejectionNotification cr c d w now s = Inr s'" for s'
    using that ok insert_analytics_ok(5) eventTx_keeps
    unfolding EnqueueVerifiedRejectionNotification_def bind_res_Inr_iff by metis
  with OpNotify ok show ?thesis by (simp add: commit_keeps)
next
  case (OpRetry i ph msg nb mx)
  have "analytics_ok s'" if "Retry cr i ph msg nb mx s = Inr s'" for s'
    using that ok eventTx_keeps [rotated] analytics_ok_frame(1) unfolding Retry_def Let_def by blast
  with OpRetry ok show ?thesis by (simp add: commit_keeps)
next
  case (OpQuarantine i w msg now)
  have "analytics_ok s'" if "QuarantineReply cr i w msg now s = Inr s'" for s'
    using that unfolding QuarantineReply_def Let_def
    by (simp split: if_split_asm) (erule eventTx_keeps [rotated], simp add: ok)
  with OpQuarantine ok show ?thesis by (simp add: commit_keeps)
next
  case (OpBeginAttempt r dest now)
  have "analytics_ok s'" if "BeginReportAttempt cr r dest now s = Inr (a, s')" for a s'
    using that ok insert_analytics_ok(8) eventTx_keeps unfolding BeginReportAttempt_def Let_def bind_res_Inr_iff
    by (metis Inr_inject prod.inject)
  with OpBeginAttempt ok show ?thesis
    by (cases "BeginReportAttempt cr r dest now s") (auto simp: commit_def)
next
  case (OpFinishAttempt a out ec now)
  have "analytics_ok s'" if "FinishReportAttempt cr a out ec now s = Inr s'" for s'
    using FinishReportAttempt_Inr [OF that] by (elim conjE exE) (erule eventTx_keeps [rotated], simp add: ok)
  with OpFinishAttempt ok show ?thesis by (simp add: commit_keeps)
next
  case (OpReplay d r now)
  with ok show ?thesis by (simp add: commit_keeps Replay_def insert_analytics_ok(3))
next
  case (OpClaim w ph now l)
  with ok show ?thesis by (simp add: Claim_analytics_ok)
qed (use ok in \<open>auto simp: commit_def FinishAnalysisMeasured_def FinishReport_def Renew_def Redeliver_def
    Let_def split: sum.split if_splits intro: transition_analytics_ok\<close>)

interpretation log_system: invariant_system queue_init "queue_step cr" analytics_ok
  by unfold_locales (auto simp: queue_init_def queue_step_def analytics_ok_Migrate exec_analytics_ok)

text \<open>
  C18: In every database that queue operations can reach from a fresh one, run ids, delivery
  ids and source keys are unique, every run belongs to a stored delivery, a run has an owner
  and an end of lease exactly while it is in a leased state, stored error messages have at
  most 1024 bytes, and the event log and its rollups are consistent.
\<close>

theorem reachable_ok: "reach queue_init (queue_step cr) s \<Longrightarrow> queue_ok s \<and> analytics_ok s"
  using queue_system.reach_inv log_system.reach_inv by blast

text \<open>
  Two collectors never both hold the lease: after one acquired it, no sequence of
  requests and releases by other owners up to its end grants it to another.
\<close>

theorem collector_lease_exclusive:
  assumes "fst (AcquireCollectorLease w now d s)"
    and "\<forall>op \<in> set ops. lease_op_owner op \<noteq> w \<and> lease_op_by (now + d) op"
    and "v \<noteq> w" "t \<le> now + d"
  shows "\<not> fst (AcquireCollectorLease v t e
      (lease_run AcquireCollectorLease ReleaseCollectorLease ops (snd (AcquireCollectorLease w now d s))))"
  using assms by (rule collector.exclusion)

lemma FinishReportAttempt_attempts:
  assumes "FinishReportAttempt cr a out ec now s = Inr s'"
  shows "report_delivery_attempts s' = sql_update (\<lambda>x. ra_attempt_id x = a \<and> ra_outcome x = ''started'')
      (\<lambda>x. x\<lparr>ra_finished_at := Some now, ra_outcome := out, ra_error_class := ec\<rparr>) (report_delivery_attempts s)"
    "out \<noteq> ''started''" "\<exists>x \<in> set (report_delivery_attempts s). ra_attempt_id x = a \<and> ra_outcome x = ''started''"
proof -
  note r = FinishReportAttempt_Inr [OF assms]
  show "out \<noteq> ''started''" using r by blast
  show "\<exists>x \<in> set (report_delivery_attempts s). ra_attempt_id x = a \<and> ra_outcome x = ''started''"
    using r by (intro sql_count_pos_ex) blast
  obtain sid where e: "eventTx cr ''reporter'' ''run'' sid ''report_delivery_state'' out now
      (s\<lparr>report_delivery_attempts := sql_update (\<lambda>x. ra_attempt_id x = a \<and> ra_outcome x = ''started'')
        (\<lambda>x. x\<lparr>ra_finished_at := Some now, ra_outcome := out, ra_error_class := ec\<rparr>) (report_delivery_attempts s)\<rparr>) = Inr s'"
    using r by blast
  show "report_delivery_attempts s' = sql_update (\<lambda>x. ra_attempt_id x = a \<and> ra_outcome x = ''started'')
      (\<lambda>x. x\<lparr>ra_finished_at := Some now, ra_outcome := out, ra_error_class := ec\<rparr>) (report_delivery_attempts s)"
    using eventTx_tables(4) [OF e] by simp
qed

text \<open>
  A report attempt is finished at most once: \<open>FinishReportAttempt\<close> succeeds only on an
  attempt still marked as started, and after it succeeded it fails for that attempt
  whatever outcome is reported, leaving the recorded outcome in place.
\<close>

theorem attempt_finished_once:
  assumes "FinishReportAttempt cr a out ec now s = Inr s'"
  shows "(\<exists>x \<in> set (report_delivery_attempts s). ra_attempt_id x = a \<and> ra_outcome x = ''started'') \<and>
    (\<forall>out' ec' now' s''. FinishReportAttempt cr a out' ec' now' s' \<noteq> Inr s'')"
proof -
  note f = FinishReportAttempt_attempts [OF assms]
  have "\<not> (\<exists>x \<in> set (report_delivery_attempts s'). ra_attempt_id x = a \<and> ra_outcome x = ''started'')"
    using f(2) by (auto simp: f(1) sql_update_def ball_Un)
  with f(3) FinishReportAttempt_attempts(3) show ?thesis by blast
qed

section \<open>Instances\<close>

definition example_dest :: report_destination where
  "example_dest = \<lparr>rd_SubmitterID = ''sub1'', rd_ReplyAddress = ''a@b''\<rparr>"

definition example_run :: run where
  "example_run = (new_run ''r1'' ''d1'' 5)"

definition example_delivery :: delivery where
  "example_delivery = delivery_row ''d1'' ''dig'' ''k1'' None 5"

definition example_queue :: db where
  "example_queue = (Migrate 0)\<lparr>deliveries := [example_delivery], runs := [example_run]\<rparr>"

definition example_reporting :: db where
  "example_reporting = (Migrate 0)\<lparr>deliveries := [example_delivery],
     runs := [lease_run_to ReportLeased ''w'' 100 example_run]\<rparr>"

lemma example_tables:
  "runs example_queue = [example_run]" "deliveries example_queue = [example_delivery]"
  "runs example_reporting = [lease_run_to ReportLeased ''w'' 100 example_run]"
  "deliveries example_reporting = [example_delivery]"
  by (simp_all add: example_queue_def example_reporting_def)

lemma example_queue_ok: "queue_ok example_queue" "queue_ok example_reporting" "queue_ok (Migrate 0)"
  by (simp_all add: queue_ok_def example_tables example_run_def example_delivery_def delivery_row_def
      lease_run_to_def new_run_def run_ok_def Migrate_def)

lemma example_claim:
  "\<exists>x s1. Claim example_crypto ''w'' ''analysis'' 10 30 example_queue = (Inr (Some x), s1) \<and> run_ID x = ''r1''"
proof -
  have "\<exists>r \<in> set (runs (recover_expired 10 example_queue)). due (fst (claim_states ''analysis'')) 10 r"
    by (simp add: recover_expired_def example_tables example_run_def new_run_def expired_def due_def claim_states_def)
  then obtain x s1 where x: "Claim example_crypto ''w'' ''analysis'' 10 30 example_queue = (Inr (Some x), s1)"
    using Claim_finds [OF example_queue_ok(1), where ph = "''analysis''" and now = 10 and cr = example_crypto
        and w = "''w''" and l = 30]
    by (auto simp: example_tables example_run_def new_run_def)
  obtain r where "row_by r_run_id (run_ID x) (runs (recover_expired 10 example_queue)) = Some r"
    using Claim_result [OF example_queue_ok(1) x] by metis
  then have "run_ID x = ''r1''"
    by (simp add: recover_expired_def example_tables example_run_def new_run_def expired_def split: if_splits)
  with x show ?thesis by blast
qed

theorem Claim_exclusive_witness:
  "\<exists>x s1. Claim example_crypto ''w'' ''analysis'' 10 30 example_queue = (Inr (Some x), s1) \<and>
    (\<forall>v ph' l' y s2. Claim example_crypto v ph' 40 l'
       (exec_all example_crypto [OpClaim ''v'' ''analysis'' 40 30, OpRenew ''r1'' ''v'' 99] s1) = (Inr (Some y), s2)
       \<longrightarrow> run_ID y \<noteq> ''r1'')"
proof -
  obtain x s1 where x: "Claim example_crypto ''w'' ''analysis'' 10 30 example_queue = (Inr (Some x), s1)" "run_ID x = ''r1''"
    using example_claim by blast
  from Claim_exclusive [OF example_queue_ok(1) x(1), of "[OpClaim ''v'' ''analysis'' 40 30, OpRenew ''r1'' ''v'' 99]" 40] x
  show ?thesis by auto
qed

theorem Claim_oldest_due_witness:
  "(\<exists>x s'. Claim example_crypto ''w'' ''analysis'' 10 30 example_queue = (Inr (Some x), s')) \<longleftrightarrow>
      (\<exists>r \<in> set (runs (recover_expired 10 example_queue)). due (fst (claim_states ''analysis'')) 10 r)"
  using Claim_oldest_due [OF example_queue_ok(1), where ph = "''analysis''" and now = 10 and cr = example_crypto
        and w = "''w''" and l = 30]
  by (simp add: example_tables example_run_def new_run_def)

theorem quarantined_until_redelivered_witness:
  "\<exists>s'. QuarantineReply example_crypto ''r1'' ''w'' ''lost'' 50 example_reporting = Inr s' \<and>
    (\<exists>r. row_by r_run_id ''r1'' (runs (exec_all example_crypto [OpClaim ''v'' ''report'' 500 30] s')) = Some r \<and>
       r_state r = ReportDead)"
proof -
  have "\<exists>s'. QuarantineReply example_crypto ''r1'' ''w'' ''lost'' 50 example_reporting = Inr s'"
    unfolding QuarantineReply_def Let_def using eventTx_total [of "''reporter''" "''r1'' @ '':quarantine''"]
    by (simp add: example_tables lease_run_to_def example_run_def new_run_def analytics_allowed_def)
  then obtain s' where s': "QuarantineReply example_crypto ''r1'' ''w'' ''lost'' 50 example_reporting = Inr s'" by blast
  from quarantined_until_redelivered [OF example_queue_ok(2) s', of "[OpClaim ''v'' ''report'' 500 30]"] s'
  show ?thesis by auto
qed

theorem retries_bounded_witness:
  "let ops = [OpRetry ''r1'' ''report'' ''a'' 1 2, OpClaim ''w'' ''report'' 10 30, OpClaim ''v'' ''report'' 50 30];
       t = exec example_crypto (OpRetry ''r1'' ''report'' ''b'' 60 2) (exec_all example_crypto ops example_reporting) in
   (\<exists>r'. row_by r_run_id ''r1'' (runs t) = Some r' \<and> r_report_attempts r' = 2 \<and> r_state r' = ReportDead) \<and>
   (\<forall>c t'. Claim example_crypto ''w'' ''report'' 90 30 (exec_all example_crypto [OpRenew ''r1'' ''v'' 80] t) = (Inr (Some c), t') \<longrightarrow> run_ID c \<noteq> ''r1'')"
proof -
  let ?ops = "[OpRetry ''r1'' ''report'' ''a'' 1 2, OpClaim ''w'' ''report'' 10 30, OpClaim ''v'' ''report'' 50 30]"
  let ?t = "exec example_crypto (OpRetry ''r1'' ''report'' ''b'' 60 2) (exec_all example_crypto ?ops example_reporting)"
  let ?r = "lease_run_to ReportLeased ''w'' 100 example_run"
  have row: "row_by r_run_id ''r1'' (runs example_reporting) = Some ?r"
    by (simp add: example_tables lease_run_to_def example_run_def new_run_def)
  have n: "2 = attempts (''report'' = ''report'') ?r + int (length (filter (retries_of ''r1'' (''report'' = ''report'')) ?ops)) + 1"
    by (simp add: attempts_def lease_run_to_def example_run_def new_run_def)
  have i: "''r1'' \<noteq> []" by simp
  from retries_bounded [OF example_queue_ok(2) row i refl n, where mx = 2 and msg = "''b''" and nb = 60 and cr = example_crypto]
  obtain r' where r': "row_by r_run_id ''r1'' (runs ?t) = Some r'" "attempts (''report'' = ''report'') r' = 2" "r_state r' = ReportDead"
    "\<forall>later. (\<forall>op \<in> set later. \<not> reopens ''r1'' op) \<longrightarrow> row_by r_run_id ''r1'' (runs (exec_all example_crypto later ?t)) = Some r' \<and>
       (\<forall>w ph' now l c t'. Claim example_crypto w ph' now l (exec_all example_crypto later ?t) = (Inr (Some c), t') \<longrightarrow> run_ID c \<noteq> ''r1'')"
    by (auto simp del: exec.simps)
  have "\<forall>op \<in> set [OpRenew ''r1'' ''v'' 80]. \<not> reopens ''r1'' op" by simp
  with r' show ?thesis unfolding Let_def by (metis attempts_def)
qed

theorem destination_immutable_witness:
  "\<exists>s'. EnqueueAdmittedCollection example_crypto ''d2'' ''dig'' ''k2'' ''r2'' example_dest 9
       ((Migrate 0)\<lparr>submitters := [\<lparr>s_submitter_id = ''sub1'', s_canonical_address = ''a@b'', s_status = Active, s_created_at = 0,
          s_verified_at = None, s_revoked_at = None, s_policy_version = ''v1'', s_minute_limit = 1, s_hour_limit = 1,
          s_day_limit = 1\<rparr>]\<rparr>) = Inr s' \<and>
     ReportDestinationForRun ''r2'' ((exec_all example_crypto [OpClaim ''v'' ''analysis'' 10 30] s')\<lparr>submitters := []\<rparr>) = Inr example_dest"
proof -
  let ?s = "(Migrate 0)\<lparr>submitters := [\<lparr>s_submitter_id = ''sub1'', s_canonical_address = ''a@b'', s_status = Active, s_created_at = 0,
          s_verified_at = None, s_revoked_at = None, s_policy_version = ''v1'', s_minute_limit = 1, s_hour_limit = 1,
          s_day_limit = 1\<rparr>]\<rparr>"
  have t: "runs ?s = []" "deliveries ?s = []" by (simp_all add: Migrate_def)
  then have ok: "queue_ok ?s" by (simp add: queue_ok_def)
  have "\<exists>s'. EnqueueAdmittedCollection example_crypto ''d2'' ''dig'' ''k2'' ''r2'' example_dest 9 ?s = Inr s'"
    using eventTx_total [of "''collector''" "''d2''"]
    by (simp add: EnqueueAdmittedCollection_def enqueueCollection_def example_dest_def insert_delivery_once_def
        insert_delivery_def insert_run_once_def insert_run_def fresh_def parent_def parent_opt_def t new_run_def
        delivery_row_def check_all.simps analytics_allowed_def)
  then obtain s' where s': "EnqueueAdmittedCollection example_crypto ''d2'' ''dig'' ''k2'' ''r2'' example_dest 9 ?s = Inr s'" by blast
  from destination_immutable [OF ok s', where ops = "[OpClaim ''v'' ''analysis'' 10 30]" and t = "[]"] s' t
  show ?thesis by (auto simp: Collected_def)
qed

lemma example_enqueue: "\<exists>s1. enqueueCollection example_crypto ''d2'' ''dig'' ''k2'' ''r2'' None 9 example_queue = Inr s1"
  using eventTx_total [of "''collector''" "''d2''"]
  by (simp add: enqueueCollection_def insert_delivery_once_def insert_delivery_def insert_run_once_def insert_run_def
      fresh_def parent_def parent_opt_def example_tables example_run_def example_delivery_def new_run_def
      delivery_row_def check_all.simps analytics_allowed_def)

theorem collection_once_witness:
  "\<exists>s1. enqueueCollection example_crypto ''d2'' ''dig'' ''k2'' ''r2'' None 9 example_queue = Inr s1 \<and> Collected ''k2'' s1"
proof -
  obtain s1 where s1: "enqueueCollection example_crypto ''d2'' ''dig'' ''k2'' ''r2'' None 9 example_queue = Inr s1"
    using example_enqueue by blast
  with collection_once [OF s1] show ?thesis by blast
qed

theorem finish_iff_holder_witness:
  "(\<exists>s'. FinishReport example_crypto ''r1'' ''w'' Complete 50 example_reporting = Inr s') \<and>
   \<not> (\<exists>s'. FinishReport example_crypto ''r1'' ''v'' Complete 50 example_reporting = Inr s')"
  using finish_iff_holder [OF example_queue_ok(2), where i = "''r1''" and ms = 0 and st = Complete and cr = example_crypto
      and w = "''w''" and now = 50]
    finish_iff_holder [OF example_queue_ok(2), where i = "''r1''" and ms = 0 and st = Complete and cr = example_crypto
      and w = "''v''" and now = 50]
  by (simp add: example_tables lease_run_to_def example_run_def new_run_def)

theorem reachable_ok_witness:
  "queue_ok (exec example_crypto (OpEnqueue ''d'' ''g'' ''k'' ''r'' None 1) (Migrate 0))"
proof -
  have "reach queue_init (queue_step example_crypto) (exec example_crypto (OpEnqueue ''d'' ''g'' ''k'' ''r'' None 1) (Migrate 0))"
    by (rule reach_step [OF reach_init [of _ "Migrate 0"]]) (unfold queue_init_def queue_step_def, blast+)
  from reachable_ok [OF this] show ?thesis by blast
qed

theorem collector_lease_exclusive_witness:
  "\<not> fst (AcquireCollectorLease ''b'' 20 5
      (lease_run AcquireCollectorLease ReleaseCollectorLease [Release ''c'', Acquire ''c'' 15 9]
        (snd (AcquireCollectorLease ''a'' 10 30 (Migrate 0)))))"
  by (rule collector_lease_exclusive) (simp_all add: AcquireCollectorLease_def Migrate_def)

definition example_attempting :: db where
  "example_attempting = example_reporting\<lparr>report_delivery_attempts := [\<lparr>ra_attempt_id = 1, ra_run_id = ''r1'',
     ra_submitter_id = ''sub1'', ra_reply_address = ''a@b'', ra_started_at = 5, ra_finished_at = None,
     ra_outcome = ''started'', ra_error_class = []\<rparr>]\<rparr>"

theorem attempt_finished_once_witness:
  "\<exists>s'. FinishReportAttempt example_crypto 1 ''accepted'' [] 60 example_attempting = Inr s' \<and>
     (\<forall>out ec now s''. FinishReportAttempt example_crypto 1 out ec now s' \<noteq> Inr s'')"
proof -
  have "\<exists>s'. FinishReportAttempt example_crypto 1 ''accepted'' [] 60 example_attempting = Inr s'"
    unfolding FinishReportAttempt_def Let_def
    using eventTx_total [of "''reporter''" "''r1'' @ '':attempt:'' @ show_int 1 @ '':'' @ ''accepted''"]
    by (simp add: example_attempting_def analytics_allowed_def)
  then obtain s' where s': "FinishReportAttempt example_crypto 1 ''accepted'' [] 60 example_attempting = Inr s'" by blast
  with attempt_finished_once [OF s'] show ?thesis by blast
qed

end
