(* ===== verification/Submitter.thy ===== *)
theory Submitter
  imports Queue
begin

text \<open>
  \<open>internal/submitter/submitter.go\<close>: enrolment of submitters by a code mailed to the address,
  activation with a first submission capability, rotation and revocation. Random bytes, the
  clock and the outcome of sending mail are arguments; \<open>golang.org/x/net/idna\<close> is the
  parameter \<open>toASCII\<close>. The lemmas show that codes are single use, that an address has at
  most one active submitter and a submitter at most one active capability, in every
  reachable database.
\<close>

section \<open>Addresses\<close>

definition ErrInvalidAddress :: err where
  "ErrInvalidAddress = Err ''invalid submitter address''"

definition ErrChallenge :: err where
  "ErrChallenge = Err ''challenge invalid or expired''"

definition ErrActiveAddress :: err where
  "ErrActiveAddress = Err ''submitter address is already active''"

text \<open>
  \<open>net/mail.ParseAddress(v)\<close> succeeds with \<open>Address == v\<close> exactly for a bare
  \<open>local@domain\<close> whose two sides are dot-atoms (or a bracketed domain literal, which the
  caller rejects): display names, comments, quoted local parts and surrounding space all
  give an address that differs from the input. Bytes from 128 on belong to UTF-8 sequences.
\<close>

fun utf8_valid :: "string \<Rightarrow> bool" where
  "utf8_valid [] = True"
| "utf8_valid (c # s) = (let n = (of_char c :: nat); cont = (\<lambda>x. 128 \<le> (of_char x :: nat) \<and> (of_char x :: nat) < 192) in
     if n < 128 then utf8_valid s
     else if 194 \<le> n \<and> n \<le> 223 then (case s of a # r \<Rightarrow> cont a \<and> utf8_valid r | _ \<Rightarrow> False)
     else if 224 \<le> n \<and> n \<le> 239 then (case s of a # b # r \<Rightarrow> cont a \<and> cont b \<and>
         (n = 224 \<longrightarrow> 160 \<le> (of_char a :: nat)) \<and> (n = 237 \<longrightarrow> (of_char a :: nat) < 160) \<and> utf8_valid r | _ \<Rightarrow> False)
     else if 240 \<le> n \<and> n \<le> 244 then (case s of a # b # d # r \<Rightarrow> cont a \<and> cont b \<and> cont d \<and>
         (n = 240 \<longrightarrow> 144 \<le> (of_char a :: nat)) \<and> (n = 244 \<longrightarrow> (of_char a :: nat) < 144) \<and> utf8_valid r | _ \<Rightarrow> False)
     else False)"

definition is_atext :: "char \<Rightarrow> bool" where
  "is_atext c = ((of_char c :: nat) > 32 \<and> (of_char c :: nat) \<noteq> 127 \<and> c \<notin> set ''()<>[]:;@,'' \<and>
     (of_char c :: nat) \<noteq> 92 \<and> (of_char c :: nat) \<noteq> 34)"

definition dot_atom :: "string \<Rightarrow> bool" where
  "dot_atom s = (s \<noteq> [] \<and> list_all is_atext s \<and> utf8_valid s \<and> \<not> HasPrefix s ''.'' \<and>
     \<not> Contains s ''..'' \<and> \<not> HasSuffix s ''.'')"

definition bare_address :: "string \<Rightarrow> bool" where
  "bare_address v = (case Cut (CHR ''@'') v of
       None \<Rightarrow> False
     | Some (local, domain) \<Rightarrow> dot_atom local \<and> (dot_atom domain \<or> HasPrefix domain ''[''))"

type_synonym to_ascii = "string \<Rightarrow> string option"

definition CanonicalAddress :: "to_ascii \<Rightarrow> string \<Rightarrow> string res" where
  "CanonicalAddress toASCII v =
     (if list_ex (\<lambda>c. (of_char c :: nat) \<le> 31 \<or> (of_char c :: nat) = 127) v then Inl ErrInvalidAddress
      else if \<not> bare_address v \<or> count_list v (CHR ''@'') \<noteq> 1 then Inl ErrInvalidAddress
      else case Split (CHR ''@'') v of
          local # domain # _ \<Rightarrow>
            if local = [] \<or> domain = [] \<or> HasPrefix domain ''['' then Inl ErrInvalidAddress
            else (case toASCII (ToLower domain) of
                None \<Rightarrow> Inl ErrInvalidAddress
              | Some ascii \<Rightarrow>
                  if ascii = [] \<or> Contains ascii ''..'' then Inl ErrInvalidAddress
                  else Inr (local @ ''@'' @ ascii))
        | _ \<Rightarrow> Inl ErrInvalidAddress)"

section \<open>The service\<close>

record service =
  CapabilityKey :: string
  CapabilityKeyID :: string
  svc_Domain :: string

record challenge_info =
  ci_ID :: string
  ci_SubmitterID :: string
  ci_Address :: string
  ci_ExpiresAt :: time

record activation =
  ac_ID :: string
  ac_Address :: string
  ac_PolicyVersion :: string
  ac_CreatedAt :: time
  ac_VerifiedAt :: time
  ac_SubmissionAddress :: string

definition svc_digest :: "crypto \<Rightarrow> service \<Rightarrow> string \<Rightarrow> string res" where
  "svc_digest cr svc v =
     (if length (CapabilityKey svc) < 32 then Inl (Err ''capability HMAC key must be at least 32 bytes'')
      else Inr (hmac cr (CapabilityKey svc) v))"

type_synonym mailer = "string \<Rightarrow> string \<Rightarrow> string \<Rightarrow> err option"

definition challenge_body :: "string \<Rightarrow> string" where
  "challenge_body code = ''Your Mailproof activation code is: '' @ code @ [CHR 0x0A] @
     ''It expires in 15 minutes.'' @ [CHR 0x0A]"

text \<open>
  The transaction of \<open>Challenge\<close>: a new pending submitter, or the newest pending one when the
  insert is refused, and a challenge row for it.
\<close>

definition challenge_tx ::
  "string \<Rightarrow> string \<Rightarrow> string \<Rightarrow> string \<Rightarrow> time \<Rightarrow> db \<Rightarrow> (string \<times> db) res" where
  "challenge_tx canonical cid sid digest now s =
     (if sql_count (\<lambda>r. s_canonical_address r = canonical \<and> s_status r = Active) (submitters s) > 0
      then Inl ErrActiveAddress
      else let row = \<lparr>s_submitter_id = sid, s_canonical_address = canonical, s_status = Pending,
                 s_created_at = now, s_verified_at = None, s_revoked_at = None, s_policy_version = ''v1'',
                 s_minute_limit = 5, s_hour_limit = 30, s_day_limit = 100\<rparr>;
               chosen = (case insert_submitter row s of
                   Inr s' \<Rightarrow> Inr (sid, s')
                 | Inl _ \<Rightarrow> (case last_max s_created_at (filter (\<lambda>r. s_canonical_address r = canonical \<and>
                                s_status r = Pending) (submitters s)) of
                       None \<Rightarrow> Inl NoRows
                     | Some r \<Rightarrow> Inr (s_submitter_id r, s)))
           in bind_res chosen (\<lambda>(sid, s).
              bind_res (insert_challenge \<lparr>ch_challenge_id = cid, ch_submitter_id = sid, ch_code_digest = digest,
                  ch_created_at = now, ch_expires_at = now + 900, ch_consumed_at = None\<rparr> s) (\<lambda>s.
              Inr (sid, s))))"

definition Challenge ::
  "crypto \<Rightarrow> to_ascii \<Rightarrow> service \<Rightarrow> mailer option \<Rightarrow> string \<Rightarrow> string \<Rightarrow> string \<Rightarrow> time \<Rightarrow> string \<Rightarrow> db
   \<Rightarrow> challenge_info res \<times> db" where
  "Challenge cr toASCII svc mailer id_bytes code_bytes sid_bytes now address s =
     (case CanonicalAddress toASCII address of
        Inl e \<Rightarrow> (Inl e, s)
      | Inr canonical \<Rightarrow> (case mailer of
          None \<Rightarrow> (Inl (Err ''challenge mailer is required''), s)
        | Some send \<Rightarrow> (let code = b64_encode code_bytes in case svc_digest cr svc code of
            Inl e \<Rightarrow> (Inl e, s)
          | Inr digest \<Rightarrow> (case challenge_tx canonical (hex_encode id_bytes) (hex_encode sid_bytes) digest now s of
              Inl e \<Rightarrow> (Inl e, s)
            | Inr (sid, s') \<Rightarrow> (case send canonical ''Mailproof submitter enrollment'' (challenge_body code) of
                Some e \<Rightarrow> (Inl e, s')
              | None \<Rightarrow> (Inr \<lparr>ci_ID = hex_encode id_bytes, ci_SubmitterID = sid, ci_Address = canonical,
                    ci_ExpiresAt = now + 900\<rparr>, s'))))))"

text \<open>The join of \<open>Activate\<close>: submitters of the address with an open challenge for the digest.\<close>

definition open_challenges :: "string \<Rightarrow> string \<Rightarrow> time \<Rightarrow> db \<Rightarrow> (submitter \<times> challenge) list" where
  "open_challenges canonical digest now s = concat (map (\<lambda>r. map (Pair r) (filter (\<lambda>c.
       ch_submitter_id c = s_submitter_id r \<and> ch_code_digest c = digest \<and> ch_consumed_at c = None \<and>
       ch_expires_at c \<ge> now) (submitter_challenges s)))
     (filter (\<lambda>r. s_canonical_address r = canonical) (submitters s)))"

definition activate_tx ::
  "service \<Rightarrow> string \<Rightarrow> string \<Rightarrow> string \<Rightarrow> string \<Rightarrow> time \<Rightarrow> db \<Rightarrow> (submitter \<times> db) res" where
  "activate_tx svc canonical digest capDigest capID now s =
     (case last_max (\<lambda>(r, c). ch_created_at c) (open_challenges canonical digest now s) of
        None \<Rightarrow> Inl ErrChallenge
      | Some (r, c) \<Rightarrow>
          if s_status r = Active then Inl ErrActiveAddress
          else let s1 = s\<lparr>submitter_challenges := sql_update
                     (\<lambda>x. ch_submitter_id x = s_submitter_id r \<and> ch_code_digest x = digest \<and> ch_consumed_at x = None)
                     (\<lambda>x. x\<lparr>ch_consumed_at := Some now\<rparr>) (submitter_challenges s)\<rparr> in
            bind_res (update_submitters (\<lambda>x. s_submitter_id x = s_submitter_id r \<and> s_status x = Pending)
                (\<lambda>x. x\<lparr>s_status := Active, s_verified_at := Some now\<rparr>) s1) (\<lambda>s2.
            bind_res (insert_capability \<lparr>c_capability_id = capID, c_submitter_id = s_submitter_id r,
                c_digest = capDigest, c_key_id = CapabilityKeyID svc, c_activated_at = now, c_revoked_at = None\<rparr> s2) (\<lambda>s3.
            Inr (r, s3))))"

definition Activate ::
  "crypto \<Rightarrow> to_ascii \<Rightarrow> service \<Rightarrow> string \<Rightarrow> string \<Rightarrow> time \<Rightarrow> string \<Rightarrow> string \<Rightarrow> db \<Rightarrow> (activation \<times> db) res" where
  "Activate cr toASCII svc cap_bytes capid_bytes now address code s =
     bind_res (CanonicalAddress toASCII address) (\<lambda>canonical.
     bind_res (svc_digest cr svc code) (\<lambda>digest.
     let capability = b64_encode cap_bytes in
     bind_res (svc_digest cr svc capability) (\<lambda>capDigest.
     bind_res (activate_tx svc canonical digest capDigest (hex_encode capid_bytes) now s) (\<lambda>(r, s').
       Inr (\<lparr>ac_ID = s_submitter_id r, ac_Address = canonical, ac_PolicyVersion = s_policy_version r,
             ac_CreatedAt = s_created_at r, ac_VerifiedAt = now,
             ac_SubmissionAddress = ''verify+'' @ capability @ ''@'' @ svc_Domain svc\<rparr>, s')))))"

definition List :: "db \<Rightarrow> submitter list" where
  "List s = sort_key s_created_at (submitters s)"

definition Revoke :: "string \<Rightarrow> time \<Rightarrow> db \<Rightarrow> db res" where
  "Revoke sid now s =
     (let P = (\<lambda>r. s_submitter_id r = sid \<and> s_status r = Active) in
      bind_res (update_submitters P (\<lambda>r. r\<lparr>s_status := Revoked, s_revoked_at := Some now\<rparr>) s) (\<lambda>s'.
      if sql_count P (submitters s) \<noteq> 1 then Inl (Err ''active submitter not found'') else Inr s'))"

definition rotate_tx :: "service \<Rightarrow> string \<Rightarrow> string \<Rightarrow> string \<Rightarrow> time \<Rightarrow> db \<Rightarrow> db res" where
  "rotate_tx svc sid capDigest capID now s =
     (let P = (\<lambda>c. c_submitter_id c = sid \<and> c_revoked_at c = None) in
      if sql_count P (submission_capabilities s) \<noteq> 1 then Inl (Err ''active capability not found'')
      else insert_capability \<lparr>c_capability_id = capID, c_submitter_id = sid, c_digest = capDigest,
          c_key_id = CapabilityKeyID svc, c_activated_at = now, c_revoked_at = None\<rparr>
        (s\<lparr>submission_capabilities := sql_update P (\<lambda>c. c\<lparr>c_revoked_at := Some now\<rparr>) (submission_capabilities s)\<rparr>))"

definition Rotate :: "crypto \<Rightarrow> service \<Rightarrow> string \<Rightarrow> string \<Rightarrow> time \<Rightarrow> string \<Rightarrow> db \<Rightarrow> (string \<times> db) res" where
  "Rotate cr svc cap_bytes capid_bytes now sid s =
     (let capability = b64_encode cap_bytes in
      bind_res (svc_digest cr svc capability) (\<lambda>d.
      bind_res (rotate_tx svc sid d (hex_encode capid_bytes) now s) (\<lambda>s'.
      Inr (''verify+'' @ capability @ ''@'' @ svc_Domain svc, s'))))"

section \<open>The invariant of the registry\<close>

definition has_cap :: "db \<Rightarrow> string \<Rightarrow> bool" where
  "has_cap s sid = (sid \<in> c_submitter_id ` set (active_caps (submission_capabilities s)))"

definition cap_matches :: "db \<Rightarrow> submitter \<Rightarrow> bool" where
  "cap_matches s r =
     ((s_status r = Pending \<longrightarrow> s_submitter_id r \<notin> c_submitter_id ` set (submission_capabilities s)) \<and>
      (s_status r \<noteq> Pending \<longrightarrow> has_cap s (s_submitter_id r)))"

definition registry_ok :: "db \<Rightarrow> bool" where
  "registry_ok s = (distinct (map s_submitter_id (submitters s)) \<and> submitters_unique (submitters s) \<and>
     distinct (map c_submitter_id (active_caps (submission_capabilities s))) \<and>
     c_submitter_id ` set (submission_capabilities s) \<subseteq> s_submitter_id ` set (submitters s) \<and>
     (\<forall>r \<in> set (submitters s). cap_matches s r))"

lemma active_caps_revoke:
  "active_caps (sql_update P (\<lambda>c. c\<lparr>c_revoked_at := Some now\<rparr>) t) = filter (\<lambda>c. \<not> P c) (active_caps t)"
  by (induction t) (auto simp: active_caps_def)

lemma c_submitter_revoke [simp]:
  "c_submitter_id ` set (sql_update P (\<lambda>c. c\<lparr>c_revoked_at := Some now\<rparr>) t) = c_submitter_id ` set t"
proof -
  have "map c_submitter_id (sql_update P (\<lambda>c. c\<lparr>c_revoked_at := Some now\<rparr>) t) = map c_submitter_id t" by simp
  then show ?thesis by (metis set_map)
qed

lemma insert_submitter_Inr:
  assumes "insert_submitter row s = Inr s'"
  shows "s' = s\<lparr>submitters := submitters s @ [row]\<rparr>" "s_submitter_id row \<notin> s_submitter_id ` set (submitters s)"
    "submitters_unique (submitters s @ [row])"
  using assms by (auto simp: insert_submitter_def fresh_def)

lemma insert_challenge_frame:
  assumes "insert_challenge c s = Inr s'"
  shows "submitters s' = submitters s" "submission_capabilities s' = submission_capabilities s"
    "submitter_challenges s' = submitter_challenges s @ [c]"
  using assms by (auto simp: insert_challenge_def)

lemma registry_ok_cong:
  "submitters s' = submitters s \<Longrightarrow> submission_capabilities s' = submission_capabilities s \<Longrightarrow> registry_ok s' = registry_ok s"
  by (simp add: registry_ok_def has_cap_def cap_matches_def)

lemma challenge_tx_keeps:
  assumes "registry_ok s" "challenge_tx canonical cid sid digest now s = Inr (i, s')"
  shows "registry_ok s'"
proof -
  let ?row = "\<lparr>s_submitter_id = sid, s_canonical_address = canonical, s_status = Pending,
       s_created_at = now, s_verified_at = None, s_revoked_at = None, s_policy_version = ''v1'',
       s_minute_limit = 5, s_hour_limit = 30, s_day_limit = 100\<rparr>"
  obtain s1 where s1: "insert_submitter ?row s = Inr s1 \<or> s1 = s"
    and c: "\<exists>c. insert_challenge c s1 = Inr s'"
    using assms(2) unfolding challenge_tx_def Let_def
    by (auto simp: bind_res_Inr_iff split: if_splits sum.splits option.splits)
  have "registry_ok s1"
  proof (cases "s1 = s")
    case False
    with s1 have i: "insert_submitter ?row s = Inr s1" by auto
    note r = insert_submitter_Inr [OF i]
    have "sid \<notin> c_submitter_id ` set (submission_capabilities s)"
      using assms(1) r(2) by (auto simp: registry_ok_def)
    with assms(1) r show ?thesis by (auto simp: registry_ok_def has_cap_def cap_matches_def)
  qed (use assms(1) in simp)
  with c insert_challenge_frame(1,2) registry_ok_cong show ?thesis by metis
qed

lemma insert_capability_Inr:
  assumes "insert_capability row s = Inr s'"
  shows "s' = s\<lparr>submission_capabilities := submission_capabilities s @ [row]\<rparr>"
    "c_revoked_at row = None \<Longrightarrow> c_submitter_id row \<notin> c_submitter_id ` set (active_caps (submission_capabilities s))"
    "c_submitter_id row \<in> s_submitter_id ` set (submitters s)"
  using assms by (auto simp: insert_capability_def fresh_def parent_def)

lemma active_caps_append: "active_caps (t @ u) = active_caps t @ active_caps u"
  by (simp add: active_caps_def)

lemma rotate_tx_keeps:
  assumes ok: "registry_ok s" and r: "rotate_tx svc sid d capID now s = Inr s'"
  shows "registry_ok s'"
proof -
  let ?P = "\<lambda>c. c_submitter_id c = sid \<and> c_revoked_at c = None"
  let ?row = "\<lparr>c_capability_id = capID, c_submitter_id = sid, c_digest = d, c_key_id = CapabilityKeyID svc,
      c_activated_at = now, c_revoked_at = None\<rparr>"
  let ?t = "sql_update ?P (\<lambda>c. c\<lparr>c_revoked_at := Some now\<rparr>) (submission_capabilities s)"
  have one: "sql_count ?P (submission_capabilities s) = 1"
    and i: "insert_capability ?row (s\<lparr>submission_capabilities := ?t\<rparr>) = Inr s'"
    using r by (auto simp: rotate_tx_def Let_def split: if_splits)
  note ins = insert_capability_Inr [OF i]
  have caps: "submission_capabilities s' = ?t @ [?row]" "submitters s' = submitters s" using ins(1) by simp_all
  have act: "active_caps (submission_capabilities s') = filter (\<lambda>c. \<not> ?P c) (active_caps (submission_capabilities s)) @ [?row]"
    by (simp add: caps active_caps_append active_caps_revoke) (simp add: active_caps_def)
  have sid: "sid \<in> c_submitter_id ` set (submission_capabilities s)"
    using sql_count_pos_ex [OF one] by auto
  have "distinct (map c_submitter_id (active_caps (submission_capabilities s')))"
    using ok ins(2) unfolding act by (auto simp: registry_ok_def distinct_map_filter active_caps_revoke)
  moreover have "has_cap s' x" if "has_cap s x" for x
    using that by (auto simp: has_cap_def act)
  moreover have "c_submitter_id ` set (submission_capabilities s') = c_submitter_id ` set (submission_capabilities s)"
    using sid by (simp add: caps insert_absorb)
  ultimately show ?thesis
    using ok by (auto simp: registry_ok_def caps(2) cap_matches_def)
qed

lemma update_submitters_Inr:
  assumes "update_submitters P g s = Inr s'"
  shows "s' = s\<lparr>submitters := sql_update P g (submitters s)\<rparr>" "submitters_unique (sql_update P g (submitters s))"
  using assms by (auto simp: update_submitters_def Let_def)

lemma open_challenges_mem:
  "(r, c) \<in> set (open_challenges canonical digest now s) \<longleftrightarrow>
     r \<in> set (submitters s) \<and> s_canonical_address r = canonical \<and> c \<in> set (submitter_challenges s) \<and>
     ch_submitter_id c = s_submitter_id r \<and> ch_code_digest c = digest \<and> ch_consumed_at c = None \<and> ch_expires_at c \<ge> now"
  by (auto simp: open_challenges_def)

lemma activate_tx_cases:
  assumes "activate_tx svc canonical digest capDigest capID now s = Inr (r, s')"
  obtains c s2 where "(r, c) \<in> set (open_challenges canonical digest now s)" "s_status r \<noteq> Active"
    "submitters s2 = sql_update (\<lambda>x. s_submitter_id x = s_submitter_id r \<and> s_status x = Pending)
        (\<lambda>x. x\<lparr>s_status := Active, s_verified_at := Some now\<rparr>) (submitters s)"
    "submitters_unique (submitters s2)"
    "submission_capabilities s2 = submission_capabilities s"
    "submitter_challenges s2 = sql_update
         (\<lambda>x. ch_submitter_id x = s_submitter_id r \<and> ch_code_digest x = digest \<and> ch_consumed_at x = None)
         (\<lambda>x. x\<lparr>ch_consumed_at := Some now\<rparr>) (submitter_challenges s)"
    "insert_capability \<lparr>c_capability_id = capID, c_submitter_id = s_submitter_id r,
         c_digest = capDigest, c_key_id = CapabilityKeyID svc, c_activated_at = now, c_revoked_at = None\<rparr> s2 = Inr s'"
proof -
  obtain r0 c where m: "last_max (\<lambda>(r, c). ch_created_at c) (open_challenges canonical digest now s) = Some (r0, c)"
    using assms unfolding activate_tx_def by (auto split: option.splits)
  let ?s1 = "s\<lparr>submitter_challenges := sql_update
                     (\<lambda>x. ch_submitter_id x = s_submitter_id r0 \<and> ch_code_digest x = digest \<and> ch_consumed_at x = None)
                     (\<lambda>x. x\<lparr>ch_consumed_at := Some now\<rparr>) (submitter_challenges s)\<rparr>"
  from assms have na: "s_status r0 \<noteq> Active" and b: "bind_res (update_submitters (\<lambda>x. s_submitter_id x = s_submitter_id r0 \<and> s_status x = Pending)
                (\<lambda>x. x\<lparr>s_status := Active, s_verified_at := Some now\<rparr>) ?s1) (\<lambda>s2.
            bind_res (insert_capability \<lparr>c_capability_id = capID, c_submitter_id = s_submitter_id r0,
                c_digest = capDigest, c_key_id = CapabilityKeyID svc, c_activated_at = now, c_revoked_at = None\<rparr> s2) (\<lambda>s3.
            Inr (r0, s3))) = Inr (r, s')"
    unfolding activate_tx_def m option.case prod.case Let_def by (simp_all split: if_split_asm)
  from b obtain s2 where u: "update_submitters (\<lambda>x. s_submitter_id x = s_submitter_id r0 \<and> s_status x = Pending)
                (\<lambda>x. x\<lparr>s_status := Active, s_verified_at := Some now\<rparr>) ?s1 = Inr s2"
    and i: "insert_capability \<lparr>c_capability_id = capID, c_submitter_id = s_submitter_id r0,
         c_digest = capDigest, c_key_id = CapabilityKeyID svc, c_activated_at = now, c_revoked_at = None\<rparr> s2 = Inr s'"
    and r: "r = r0" by (auto simp: bind_res_Inr_iff)
  note us = update_submitters_Inr [OF u]
  show ?thesis
    using last_max_in [OF m] na us i r by (intro that [of c s2]) simp_all
qed

lemma activate_tx_pending:
  assumes "registry_ok s" "activate_tx svc canonical digest capDigest capID now s = Inr (r, s')"
  shows "s_status r = Pending"
proof (rule activate_tx_cases [OF assms(2)])
  fix c s2
  assume a: "(r, c) \<in> set (open_challenges canonical digest now s)" "s_status r \<noteq> Active"
    "submission_capabilities s2 = submission_capabilities s"
    "insert_capability \<lparr>c_capability_id = capID, c_submitter_id = s_submitter_id r,
         c_digest = capDigest, c_key_id = CapabilityKeyID svc, c_activated_at = now, c_revoked_at = None\<rparr> s2 = Inr s'"
  have "\<not> has_cap s (s_submitter_id r)"
    using insert_capability_Inr(2) [OF a(4)] a(3) by (simp add: has_cap_def)
  moreover have "r \<in> set (submitters s)" using a(1) by (simp add: open_challenges_mem)
  ultimately show ?thesis using assms(1) by (auto simp: registry_ok_def cap_matches_def)
qed

lemma activate_tx_keeps:
  assumes ok: "registry_ok s" and a: "activate_tx svc canonical digest capDigest capID now s = Inr (r, s')"
  shows "registry_ok s'"
proof (rule activate_tx_cases [OF a])
  fix c s2
  assume c: "(r, c) \<in> set (open_challenges canonical digest now s)"
    and subs: "submitters s2 = sql_update (\<lambda>x. s_submitter_id x = s_submitter_id r \<and> s_status x = Pending)
        (\<lambda>x. x\<lparr>s_status := Active, s_verified_at := Some now\<rparr>) (submitters s)"
    and uniq: "submitters_unique (submitters s2)"
    and caps: "submission_capabilities s2 = submission_capabilities s"
    and ins: "insert_capability \<lparr>c_capability_id = capID, c_submitter_id = s_submitter_id r,
         c_digest = capDigest, c_key_id = CapabilityKeyID svc, c_activated_at = now, c_revoked_at = None\<rparr> s2 = Inr s'"
  note i = insert_capability_Inr [OF ins]
  have ids: "map s_submitter_id (submitters s2) = map s_submitter_id (submitters s)" by (simp add: subs)
  then have idset: "s_submitter_id ` set (submitters s2) = s_submitter_id ` set (submitters s)" by (metis set_map)
  have s': "submitters s' = submitters s2" "submission_capabilities s' = submission_capabilities s @
      [\<lparr>c_capability_id = capID, c_submitter_id = s_submitter_id r, c_digest = capDigest, c_key_id = CapabilityKeyID svc,
        c_activated_at = now, c_revoked_at = None\<rparr>]" using i(1) caps by simp_all
  have act: "map c_submitter_id (active_caps (submission_capabilities s')) =
      map c_submitter_id (active_caps (submission_capabilities s)) @ [s_submitter_id r]"
    by (simp add: s' active_caps_append) (simp add: active_caps_def)
  then have has: "has_cap s' x \<longleftrightarrow> has_cap s x \<or> x = s_submitter_id r" for x
    by (auto simp: has_cap_def simp flip: set_map)
  have "cap_matches s' x" if x: "x \<in> set (submitters s')" for x
  proof -
    from x obtain y where y0: "y \<in> set (submitters s)" and yx: "x = (if s_submitter_id y = s_submitter_id r \<and> s_status y = Pending
        then y\<lparr>s_status := Active, s_verified_at := Some now\<rparr> else y)"
      unfolding s' subs in_sql_update_iff by blast
    have y: "y \<in> set (submitters s)" "s_submitter_id y = s_submitter_id x"
      "s_submitter_id y \<noteq> s_submitter_id r \<Longrightarrow> s_status x = s_status y" "s_submitter_id y = s_submitter_id r \<Longrightarrow> s_status x \<noteq> Pending"
      unfolding yx by (simp_all add: y0)
    show ?thesis
    proof (cases "s_submitter_id x = s_submitter_id r")
      case True
      then show ?thesis using y has by (simp add: cap_matches_def)
    next
      case False
      have "cap_matches s y" using ok y(1) by (simp add: registry_ok_def)
      with y False show ?thesis by (simp add: has s' cap_matches_def)
    qed
  qed
  moreover have "distinct (map c_submitter_id (active_caps (submission_capabilities s')))"
    using ok i(2) unfolding act by (simp add: registry_ok_def caps)
  ultimately show "registry_ok s'"
    using ok uniq ids idset i(3) by (simp add: registry_ok_def s')
qed

lemma Revoke_Inr:
  assumes "Revoke sid now s = Inr s'"
  shows "s' = s\<lparr>submitters := sql_update (\<lambda>r. s_submitter_id r = sid \<and> s_status r = Active)
       (\<lambda>r. r\<lparr>s_status := Revoked, s_revoked_at := Some now\<rparr>) (submitters s)\<rparr>"
    "submitters_unique (submitters s')"
    "sql_count (\<lambda>r. s_submitter_id r = sid \<and> s_status r = Active) (submitters s) = 1"
proof -
  from assms obtain u where u: "update_submitters (\<lambda>r. s_submitter_id r = sid \<and> s_status r = Active)
      (\<lambda>r. r\<lparr>s_status := Revoked, s_revoked_at := Some now\<rparr>) s = Inr u"
    "sql_count (\<lambda>r. s_submitter_id r = sid \<and> s_status r = Active) (submitters s) = 1" "s' = u"
    unfolding Revoke_def Let_def bind_res_Inr_iff by (auto split: if_splits)
  with update_submitters_Inr [OF u(1)] show
    "s' = s\<lparr>submitters := sql_update (\<lambda>r. s_submitter_id r = sid \<and> s_status r = Active)
       (\<lambda>r. r\<lparr>s_status := Revoked, s_revoked_at := Some now\<rparr>) (submitters s)\<rparr>"
    "submitters_unique (submitters s')"
    "sql_count (\<lambda>r. s_submitter_id r = sid \<and> s_status r = Active) (submitters s) = 1" by simp_all
qed

lemma Revoke_keeps:
  assumes ok: "registry_ok s" and r: "Revoke sid now s = Inr s'"
  shows "registry_ok s'"
proof -
  note rv = Revoke_Inr [OF r]
  have subs: "submitters s' = sql_update (\<lambda>r. s_submitter_id r = sid \<and> s_status r = Active)
       (\<lambda>r. r\<lparr>s_status := Revoked, s_revoked_at := Some now\<rparr>) (submitters s)"
    and caps: "submission_capabilities s' = submission_capabilities s" by (simp_all add: rv(1))
  have ids: "map s_submitter_id (submitters s') = map s_submitter_id (submitters s)" by (simp add: subs)
  then have idset: "s_submitter_id ` set (submitters s') = s_submitter_id ` set (submitters s)" by (metis set_map)
  have "cap_matches s' x" if x: "x \<in> set (submitters s')" for x
  proof -
    from x obtain y where y: "y \<in> set (submitters s)" and yx: "x = (if s_submitter_id y = sid \<and> s_status y = Active
        then y\<lparr>s_status := Revoked, s_revoked_at := Some now\<rparr> else y)"
      unfolding subs in_sql_update_iff by blast
    have "s_submitter_id x = s_submitter_id y" "(s_status x = Pending) = (s_status y = Pending)" by (simp_all add: yx)
    moreover have "cap_matches s y" using ok y by (simp add: registry_ok_def)
    ultimately show ?thesis by (simp add: caps cap_matches_def has_cap_def)
  qed
  with ok rv(2) ids idset show ?thesis by (simp add: registry_ok_def caps)
qed

section \<open>Interleavings of the registry\<close>

datatype registry_op =
  RegChallenge string string string time string
| RegActivate string string time string string
| RegRevoke string time
| RegRotate string string time string

fun reg_exec :: "crypto \<Rightarrow> to_ascii \<Rightarrow> service \<Rightarrow> mailer option \<Rightarrow> registry_op \<Rightarrow> db \<Rightarrow> db" where
  "reg_exec cr ta svc m (RegChallenge idb codeb sidb now address) s =
     snd (Challenge cr ta svc m idb codeb sidb now address s)"
| "reg_exec cr ta svc m (RegActivate capb capidb now address code) s =
     commit s (map_sum id snd (Activate cr ta svc capb capidb now address code s))"
| "reg_exec cr ta svc m (RegRevoke sid now) s = commit s (Revoke sid now s)"
| "reg_exec cr ta svc m (RegRotate capb capidb now sid) s =
     commit s (map_sum id snd (Rotate cr svc capb capidb now sid s))"

lemma Challenge_cases:
  obtains "snd (Challenge cr ta svc m idb codeb sidb now address s) = s"
  | canonical digest i s' where "snd (Challenge cr ta svc m idb codeb sidb now address s) = s'"
      "challenge_tx canonical (hex_encode idb) (hex_encode sidb) digest now s = Inr (i, s')"
  unfolding Challenge_def Let_def by (fastforce split: sum.splits option.splits prod.splits)

lemma reg_exec_keeps: "registry_ok s \<Longrightarrow> registry_ok (reg_exec cr ta svc m op s)"
proof (cases op)
  case (RegChallenge idb codeb sidb now address)
  assume ok: "registry_ok s"
  show ?thesis
    by (cases rule: Challenge_cases [of cr ta svc m idb codeb sidb now address s])
      (use ok RegChallenge challenge_tx_keeps in auto)
next
  case (RegActivate capb capidb now address code)
  assume "registry_ok s"
  with RegActivate show ?thesis
    by (cases "Activate cr ta svc capb capidb now address code s")
      (auto simp: commit_def Activate_def Let_def bind_res_Inr_iff dest: activate_tx_keeps)
next
  case (RegRevoke sid now)
  assume "registry_ok s"
  with RegRevoke show ?thesis by (simp add: commit_keeps Revoke_keeps)
next
  case (RegRotate capb capidb now sid)
  assume "registry_ok s"
  with RegRotate show ?thesis
    by (cases "Rotate cr svc capb capidb now sid s")
      (auto simp: commit_def Rotate_def Let_def bind_res_Inr_iff dest: rotate_tx_keeps)
qed

lemma registry_ok_Migrate: "registry_ok (Migrate now)"
  by (simp add: registry_ok_def submitters_unique_def active_caps_def Migrate_def)

definition registry_step :: "crypto \<Rightarrow> to_ascii \<Rightarrow> service \<Rightarrow> mailer option \<Rightarrow> db \<Rightarrow> db \<Rightarrow> bool" where
  "registry_step cr ta svc m s t = (\<exists>op. t = reg_exec cr ta svc m op s)"

interpretation registry_system: invariant_system queue_init "registry_step cr ta svc m" registry_ok
  by unfold_locales (auto simp: queue_init_def registry_step_def registry_ok_Migrate reg_exec_keeps)

section \<open>Properties of enrolment\<close>

lemma unique_active:
  assumes "submitters_unique t" "x \<in> set t" "y \<in> set t" "s_status x = s_status y"
    "s_canonical_address x = s_canonical_address y"
  shows "x = y"
  using assms key_inj [of "\<lambda>r. (s_canonical_address r, s_status r)" t x y] by (simp add: submitters_unique_def)

text \<open>
  C19: In every database that enrolment operations reach from a fresh one, an address has at
  most one active submitter, a submitter at most one active capability, every submitter
  that is active or revoked has one, and a pending submitter has none.
\<close>

theorem registry_reachable:
  assumes "reach queue_init (registry_step cr ta svc m) s"
  shows "(\<forall>x \<in> set (submitters s). \<forall>y \<in> set (submitters s).
      s_status x = Active \<and> s_status y = Active \<and> s_canonical_address x = s_canonical_address y \<longrightarrow> x = y) \<and>
    (\<forall>c \<in> set (submission_capabilities s). \<forall>d \<in> set (submission_capabilities s).
      c_revoked_at c = None \<and> c_revoked_at d = None \<and> c_submitter_id c = c_submitter_id d \<longrightarrow> c = d) \<and>
    (\<forall>r \<in> set (submitters s). cap_matches s r)"
proof -
  have ok: "registry_ok s" using registry_system.reach_inv [OF assms] .
  have "c = d" if "c \<in> set (submission_capabilities s)" "d \<in> set (submission_capabilities s)"
    "c_revoked_at c = None" "c_revoked_at d = None" "c_submitter_id c = c_submitter_id d" for c d
    using that ok key_inj [of c_submitter_id "active_caps (submission_capabilities s)" c d]
    by (simp add: registry_ok_def active_caps_def)
  moreover have "x = y" if "x \<in> set (submitters s)" "y \<in> set (submitters s)"
    "s_status x = Active" "s_status y = Active" "s_canonical_address x = s_canonical_address y" for x y
    using that ok unique_active [of "submitters s" x y] by (simp add: registry_ok_def)
  moreover have "\<forall>r \<in> set (submitters s). cap_matches s r" using ok by (simp add: registry_ok_def)
  ultimately show ?thesis by blast
qed

lemma Activate_Inr:
  assumes "Activate cr ta svc capb capidb now address code s = Inr (a, s')"
  obtains canonical r where "CanonicalAddress ta address = Inr canonical" "32 \<le> length (CapabilityKey svc)"
    "activate_tx svc canonical (hmac cr (CapabilityKey svc) code) (hmac cr (CapabilityKey svc) (b64_encode capb))
       (hex_encode capidb) now s = Inr (r, s')"
    "a = \<lparr>ac_ID = s_submitter_id r, ac_Address = canonical, ac_PolicyVersion = s_policy_version r,
             ac_CreatedAt = s_created_at r, ac_VerifiedAt = now,
             ac_SubmissionAddress = ''verify+'' @ b64_encode capb @ ''@'' @ svc_Domain svc\<rparr>"
  using assms that unfolding Activate_def Let_def bind_res_Inr_iff svc_digest_def by (auto split: if_splits)

text \<open>
  C12: Activation needs a proof of the mailbox and works once: it succeeds only for a pending
  submitter of that address with a challenge that is unused and unexpired and whose digest
  is the keyed digest of the code; afterwards the submitter is active, and the same code for
  the same address is refused (codes of different challenges having different digests).
\<close>

theorem Activate_once:
  assumes "registry_ok s" "distinct (map ch_code_digest (submitter_challenges s))"
    and "Activate cr ta svc capb capidb now address code s = Inr (a, s')"
  shows "(\<exists>r c. r \<in> set (submitters s) \<and> s_submitter_id r = ac_ID a \<and> s_canonical_address r = ac_Address a \<and>
      s_status r = Pending \<and> c \<in> set (submitter_challenges s) \<and> ch_submitter_id c = ac_ID a \<and>
      ch_code_digest c = hmac cr (CapabilityKey svc) code \<and> ch_consumed_at c = None \<and> now \<le> ch_expires_at c) \<and>
    (\<exists>r \<in> set (submitters s'). s_submitter_id r = ac_ID a \<and> s_status r = Active) \<and>
    (\<forall>capb' capidb' t. Activate cr ta svc capb' capidb' t address code s' = Inl ErrChallenge)"
proof (rule Activate_Inr [OF assms(3)])
  fix canonical r
  let ?d = "hmac cr (CapabilityKey svc) code"
  assume can: "CanonicalAddress ta address = Inr canonical" and key: "32 \<le> length (CapabilityKey svc)"
    and tx: "activate_tx svc canonical ?d (hmac cr (CapabilityKey svc) (b64_encode capb)) (hex_encode capidb) now s = Inr (r, s')"
    and a: "a = \<lparr>ac_ID = s_submitter_id r, ac_Address = canonical, ac_PolicyVersion = s_policy_version r,
             ac_CreatedAt = s_created_at r, ac_VerifiedAt = now,
             ac_SubmissionAddress = ''verify+'' @ b64_encode capb @ ''@'' @ svc_Domain svc\<rparr>"
  have pend: "s_status r = Pending" by (rule activate_tx_pending [OF assms(1) tx])
  show ?thesis
  proof (rule activate_tx_cases [OF tx])
    fix c s2
    assume c: "(r, c) \<in> set (open_challenges canonical ?d now s)"
      and subs: "submitters s2 = sql_update (\<lambda>x. s_submitter_id x = s_submitter_id r \<and> s_status x = Pending)
        (\<lambda>x. x\<lparr>s_status := Active, s_verified_at := Some now\<rparr>) (submitters s)"
      and chs: "submitter_challenges s2 = sql_update
         (\<lambda>x. ch_submitter_id x = s_submitter_id r \<and> ch_code_digest x = ?d \<and> ch_consumed_at x = None)
         (\<lambda>x. x\<lparr>ch_consumed_at := Some now\<rparr>) (submitter_challenges s)"
      and ins: "insert_capability \<lparr>c_capability_id = hex_encode capidb, c_submitter_id = s_submitter_id r,
         c_digest = hmac cr (CapabilityKey svc) (b64_encode capb), c_key_id = CapabilityKeyID svc, c_activated_at = now, c_revoked_at = None\<rparr> s2 = Inr s'"
    note cm = c [unfolded open_challenges_mem]
    have s': "submitters s' = submitters s2" "submitter_challenges s' = submitter_challenges s2"
      using insert_capability_Inr(1) [OF ins] by simp_all
    have "r\<lparr>s_status := Active, s_verified_at := Some now\<rparr> \<in> set (submitters s')"
      unfolding s' subs in_sql_update_iff using cm pend by (intro bexI [of _ r]) simp_all
    then have act: "\<exists>r' \<in> set (submitters s'). s_submitter_id r' = s_submitter_id r \<and> s_status r' = Active"
      by (rule rev_bexI) simp
    have used: "ch_consumed_at x \<noteq> None" if x: "x \<in> set (submitter_challenges s')" "ch_code_digest x = ?d" for x
    proof -
      from x(1) obtain y where y: "y \<in> set (submitter_challenges s)"
        "x = (if ch_submitter_id y = s_submitter_id r \<and> ch_code_digest y = ?d \<and> ch_consumed_at y = None
            then y\<lparr>ch_consumed_at := Some now\<rparr> else y)"
        unfolding s' chs in_sql_update_iff by blast
      have "ch_code_digest y = ch_code_digest c" using x(2) cm unfolding y(2) by (simp split: if_splits)
      then have "y = c" using key_inj [OF assms(2)] y(1) cm by blast
      then show ?thesis using cm unfolding y(2) by simp
    qed
    have "open_challenges canonical ?d t s' = []" for t
    proof (rule ccontr)
      assume "open_challenges canonical ?d t s' \<noteq> []"
      then obtain x where x: "x \<in> set (open_challenges canonical ?d t s')" by (metis last_in_set)
      from x [unfolded open_challenges_mem [of "fst x" "snd x", simplified]] used show False by metis
    qed
    then have "Activate cr ta svc capb' capidb' t address code s' = Inl ErrChallenge" for capb' capidb' t
      using can key by (simp add: Activate_def svc_digest_def activate_tx_def)
    with act cm pend a show ?thesis by auto
  qed
qed

lemma filter_not_updated:
  assumes "\<And>x. P x \<Longrightarrow> \<not> Q x \<and> \<not> Q (g x)"
  shows "filter Q (sql_update P g t) = filter Q t"
  using assms by (induction t) auto

text \<open>
  Rotation replaces the capability: after \<open>Rotate\<close> succeeded, the submitter's only active
  capability is the one with the digest of the address returned; every capability it had
  before is revoked, and other submitters' capabilities are untouched.
\<close>

theorem Rotate_replaces:
  assumes "Rotate cr svc capb capidb now sid s = Inr (addr, s')"
  shows "addr = ''verify+'' @ b64_encode capb @ ''@'' @ svc_Domain svc \<and>
    map c_digest (filter (\<lambda>c. c_submitter_id c = sid) (active_caps (submission_capabilities s'))) =
      [hmac cr (CapabilityKey svc) (b64_encode capb)] \<and>
    filter (\<lambda>c. c_submitter_id c \<noteq> sid) (submission_capabilities s') =
      filter (\<lambda>c. c_submitter_id c \<noteq> sid) (submission_capabilities s)"
proof -
  let ?P = "\<lambda>c. c_submitter_id c = sid \<and> c_revoked_at c = None"
  let ?row = "\<lparr>c_capability_id = hex_encode capidb, c_submitter_id = sid, c_digest = hmac cr (CapabilityKey svc) (b64_encode capb),
      c_key_id = CapabilityKeyID svc, c_activated_at = now, c_revoked_at = None\<rparr>"
  let ?t = "sql_update ?P (\<lambda>c. c\<lparr>c_revoked_at := Some now\<rparr>) (submission_capabilities s)"
  have "addr = ''verify+'' @ b64_encode capb @ ''@'' @ svc_Domain svc"
    and i: "insert_capability ?row (s\<lparr>submission_capabilities := ?t\<rparr>) = Inr s'"
    using assms by (auto simp: Rotate_def rotate_tx_def svc_digest_def Let_def bind_res_Inr_iff split: if_splits)
  moreover have caps: "submission_capabilities s' = ?t @ [?row]" using insert_capability_Inr(1) [OF i] by simp
  moreover have "filter (\<lambda>c. c_submitter_id c = sid) (active_caps ?t) = []"
    unfolding active_caps_revoke by (auto simp: filter_empty_conv active_caps_def)
  moreover have "filter (\<lambda>c. c_submitter_id c \<noteq> sid) ?t = filter (\<lambda>c. c_submitter_id c \<noteq> sid) (submission_capabilities s)"
    by (rule filter_not_updated) simp_all
  ultimately show ?thesis by (simp add: active_caps_append) (simp add: active_caps_def)
qed

text \<open>
  The schema's \<open>UNIQUE(canonical_address, status)\<close> also covers revoked rows: an address that
  has been revoked once can be enrolled again but not revoked again.
\<close>

lemma second_revocation_fails:
  assumes "old \<in> set (submitters s)" "s_status old = Revoked" "cur \<in> set (submitters s)" "s_status cur = Active"
    "s_canonical_address cur = s_canonical_address old"
  shows "\<exists>e. Revoke (s_submitter_id cur) now s = Inl e"
proof (rule ccontr)
  assume "\<nexists>e. Revoke (s_submitter_id cur) now s = Inl e"
  then obtain s' where "Revoke (s_submitter_id cur) now s = Inr s'" by (cases "Revoke (s_submitter_id cur) now s") auto
  note r = Revoke_Inr [OF this]
  let ?new = "cur\<lparr>s_status := Revoked, s_revoked_at := Some now\<rparr>"
  have subs: "submitters s' = sql_update (\<lambda>r. s_submitter_id r = s_submitter_id cur \<and> s_status r = Active)
       (\<lambda>r. r\<lparr>s_status := Revoked, s_revoked_at := Some now\<rparr>) (submitters s)" by (simp add: r(1))
  obtain i j where ij: "i < length (submitters s)" "j < length (submitters s)" "submitters s ! i = cur" "submitters s ! j = old"
    using assms by (metis in_set_conv_nth)
  have neq: "i \<noteq> j" using assms ij by auto
  have len: "length (submitters s') = length (submitters s)" by (simp add: subs)
  have eq: "s_canonical_address (submitters s' ! i) = s_canonical_address (submitters s' ! j)"
    "s_status (submitters s' ! i) = s_status (submitters s' ! j)"
    using ij assms by (simp_all add: subs sql_update_def)
  have "distinct (map (\<lambda>r. (s_canonical_address r, s_status r)) (submitters s'))"
    using r(2) by (simp add: submitters_unique_def)
  from nth_eq_iff_index_eq [OF this, of i j] eq ij(1,2) neq len show False by simp
qed

section \<open>Instances\<close>

definition example_service :: service where
  "example_service = \<lparr>CapabilityKey = replicate 32 (CHR ''k''), CapabilityKeyID = ''key1'', svc_Domain = ''mp.example''\<rparr>"

definition example_pending :: submitter where
  "example_pending = \<lparr>s_submitter_id = ''sub1'', s_canonical_address = ''a@b.c'', s_status = Pending, s_created_at = 0,
     s_verified_at = None, s_revoked_at = None, s_policy_version = ''v1'', s_minute_limit = 5, s_hour_limit = 30,
     s_day_limit = 100\<rparr>"

definition example_registry :: db where
  "example_registry = (Migrate 0)\<lparr>submitters := [example_pending],
     submitter_challenges := [\<lparr>ch_challenge_id = ''c1'', ch_submitter_id = ''sub1'',
       ch_code_digest = hmac example_crypto (CapabilityKey example_service) ''code'', ch_created_at = 0,
       ch_expires_at = 900, ch_consumed_at = None\<rparr>]\<rparr>"

lemma example_registry_ok: "registry_ok example_registry"
  by (simp add: registry_ok_def example_registry_def Migrate_def submitters_unique_def active_caps_def
      cap_matches_def example_pending_def)

lemma example_registry_tables:
  "submitters example_registry = [example_pending]" "submission_capabilities example_registry = []"
  "submitter_challenges example_registry = [\<lparr>ch_challenge_id = ''c1'', ch_submitter_id = ''sub1'',
       ch_code_digest = hmac example_crypto (CapabilityKey example_service) ''code'', ch_created_at = 0,
       ch_expires_at = 900, ch_consumed_at = None\<rparr>]"
  by (simp_all add: example_registry_def Migrate_def)

lemma example_canonical: "CanonicalAddress Some ''a@b.c'' = Inr ''a@b.c''"
  by code_simp

lemma example_activates:
  "\<exists>a s'. Activate example_crypto Some example_service ''x'' ''y'' 5 ''a@b.c'' ''code'' example_registry = Inr (a, s')"
proof -
  have "open_challenges ''a@b.c'' (hmac example_crypto (CapabilityKey example_service) ''code'') 5 example_registry =
      [(example_pending, hd (submitter_challenges example_registry))]"
    by (simp add: open_challenges_def example_registry_tables example_pending_def)
  then have tx: "\<exists>r s'. activate_tx example_service ''a@b.c'' (hmac example_crypto (CapabilityKey example_service) ''code'')
      d (hex_encode ''y'') 5 example_registry = Inr (r, s')" for d
    unfolding activate_tx_def
    by (simp add: example_registry_tables example_pending_def update_submitters_def insert_capability_def
        check_all.simps submitters_unique_def fresh_def parent_def active_caps_def bind_res_def)
  show ?thesis
    using tx [of "hmac example_crypto (CapabilityKey example_service) (b64_encode ''x'')"]
    by (auto simp: Activate_def example_canonical svc_digest_def Let_def example_service_def bind_res_def)
qed

theorem registry_reachable_witness:
  "\<exists>s. reach queue_init (registry_step example_crypto Some example_service (Some (\<lambda>to sub body. None))) s \<and>
     submitters s \<noteq> [] \<and> (\<forall>r \<in> set (submitters s). cap_matches s r)"
proof -
  let ?m = "Some (\<lambda>to sub body. None)"
  let ?s = "reg_exec example_crypto Some example_service ?m (RegChallenge ''i'' ''c'' ''s'' 1 ''a@b.c'') (Migrate 0)"
  have r: "reach queue_init (registry_step example_crypto Some example_service ?m) ?s"
    by (rule reach_step [OF reach_init [of _ "Migrate 0"]]) (unfold queue_init_def registry_step_def, blast+)
  have "submitters ?s \<noteq> []"
    by (simp add: Challenge_def example_canonical svc_digest_def example_service_def challenge_tx_def Migrate_def
        insert_submitter_def insert_challenge_def check_all.simps fresh_def parent_def submitters_unique_def Let_def)
  with registry_reachable [OF r] r show ?thesis by blast
qed

theorem Activate_once_witness:
  "\<exists>a s'. Activate example_crypto Some example_service ''x'' ''y'' 5 ''a@b.c'' ''code'' example_registry = Inr (a, s') \<and>
     (\<forall>capb' capidb' t. Activate example_crypto Some example_service capb' capidb' t ''a@b.c'' ''code'' s' = Inl ErrChallenge)"
proof -
  obtain a s' where a: "Activate example_crypto Some example_service ''x'' ''y'' 5 ''a@b.c'' ''code'' example_registry = Inr (a, s')"
    using example_activates by blast
  have "distinct (map ch_code_digest (submitter_challenges example_registry))" by (simp add: example_registry_tables)
  from Activate_once [OF example_registry_ok this a] a show ?thesis by blast
qed

definition example_enrolled :: db where
  "example_enrolled = (Migrate 0)\<lparr>submitters := [example_pending\<lparr>s_status := Active\<rparr>],
     submission_capabilities := [\<lparr>c_capability_id = ''cap1'', c_submitter_id = ''sub1'', c_digest = [],
        c_key_id = ''key1'', c_activated_at = 0, c_revoked_at = None\<rparr>]\<rparr>"

theorem Rotate_replaces_witness:
  "\<exists>addr s'. Rotate example_crypto example_service ''x'' ''y'' 5 ''sub1'' example_enrolled = Inr (addr, s') \<and>
     map c_digest (filter (\<lambda>c. c_submitter_id c = ''sub1'') (active_caps (submission_capabilities s'))) =
       [hmac example_crypto (CapabilityKey example_service) (b64_encode ''x'')]"
proof -
  have "\<exists>addr s'. Rotate example_crypto example_service ''x'' ''y'' 5 ''sub1'' example_enrolled = Inr (addr, s')"
    by (simp add: Rotate_def rotate_tx_def svc_digest_def Let_def example_service_def example_enrolled_def
        insert_capability_def check_all.simps fresh_def parent_def active_caps_def example_pending_def
        example_crypto_def)
  then obtain addr s' where r: "Rotate example_crypto example_service ''x'' ''y'' 5 ''sub1'' example_enrolled = Inr (addr, s')" by blast
  with Rotate_replaces [OF r] show ?thesis by (intro exI [of _ addr] exI [of _ s']) simp
qed

end
