(* ===== verification/Netip.thy ===== *)
theory Netip
  imports Codec
begin

text \<open>
  The part of Go's package \<open>net\<close> that admission uses: \<open>ParseIP\<close>, \<open>ParseCIDR\<close>,
  \<open>IP.To4\<close> and \<open>IPNet.Contains\<close>. An address is the list of its bytes, 16 of them as
  \<open>ParseIP\<close> returns it; an IPv4 address is the IPv4-mapped one.
\<close>

type_synonym ip = "nat list"

fun v4_octet :: "string \<Rightarrow> nat option" where
  "v4_octet s =
     (if s = [] \<or> (length s > 1 \<and> hd s = CHR ''0'') \<or> length s > 3 then None
      else case digits_value 0 s of None \<Rightarrow> None | Some n \<Rightarrow> if n \<le> 255 then Some n else None)"

fun all_some :: "'a option list \<Rightarrow> 'a list option" where
  "all_some [] = Some []"
| "all_some (None # xs) = None"
| "all_some (Some x # xs) = map_option (Cons x) (all_some xs)"

definition parse_v4 :: "string \<Rightarrow> nat list option" where
  "parse_v4 s = (let fs = Split (CHR ''.'') s in if length fs = 4 then all_some (map v4_octet fs) else None)"

definition v4_mapped :: "nat list \<Rightarrow> ip" where
  "v4_mapped b = replicate 10 0 @ [255, 255] @ b"

text \<open>The leading hexadecimal digits of a group: their value, their number and the rest.\<close>

fun hex_run :: "nat \<Rightarrow> nat \<Rightarrow> string \<Rightarrow> nat \<times> nat \<times> string" where
  "hex_run acc n [] = (acc, n, [])"
| "hex_run acc n (c # s) = (case hex_value c of None \<Rightarrow> (acc, n, c # s) | Some d \<Rightarrow> hex_run (16 * acc + d) (n + 1) s)"

lemma hex_run_shorter: "hex_run acc n s = (a, m, r) \<Longrightarrow> length r + m = length s + n"
  by (induction s arbitrary: acc n) (auto split: option.splits)

text \<open>
  The loop of \<open>netip.parseIPv6\<close>: the bytes so far and where the double colon stood, if it did.
\<close>

function v6_loop :: "nat list \<Rightarrow> nat option \<Rightarrow> string \<Rightarrow> (nat list \<times> nat option) option" where
  "v6_loop bytes ell s =
     (if length bytes \<ge> 16 then (if s = [] then Some (bytes, ell) else None)
      else case hex_run 0 0 s of (acc, n, rest) \<Rightarrow>
        if n = 0 \<or> n > 4 then None
        else if rest \<noteq> [] \<and> hd rest = CHR ''.'' then
          (if (ell = None \<and> length bytes \<noteq> 12) \<or> length bytes + 4 > 16 then None
           else (case parse_v4 s of None \<Rightarrow> None | Some b \<Rightarrow> Some (bytes @ b, ell)))
        else let bytes' = bytes @ [acc div 256, acc mod 256] in
          if rest = [] then Some (bytes', ell)
          else if hd rest \<noteq> CHR '':'' \<or> tl rest = [] then None
          else let s' = tl rest in
            if hd s' = CHR '':'' then
              (if ell \<noteq> None then None
               else if tl s' = [] then Some (bytes', Some (length bytes'))
               else v6_loop bytes' (Some (length bytes')) (tl s'))
            else v6_loop bytes' ell s')"
  by pat_completeness auto
termination
  by (relation "measure (\<lambda>(b, e, s). length s)") (auto dest!: hex_run_shorter [OF sym])

declare v6_loop.simps [simp del]

definition v6_expand :: "nat list \<Rightarrow> nat option \<Rightarrow> ip option" where
  "v6_expand bytes ell = (case ell of
       None \<Rightarrow> if length bytes = 16 then Some bytes else None
     | Some i \<Rightarrow> if length bytes < 16
         then Some (take i bytes @ replicate (16 - length bytes) 0 @ drop i bytes) else None)"

definition parse_v6 :: "string \<Rightarrow> ip option" where
  "parse_v6 s =
     (if HasPrefix s ''::'' then
        (if length s = 2 then Some (replicate 16 0)
         else Option.bind (v6_loop [] (Some 0) (drop 2 s)) (\<lambda>(b, e). v6_expand b e))
      else Option.bind (v6_loop [] None s) (\<lambda>(b, e). v6_expand b e))"

text \<open>\<open>net.ParseIP\<close>: the first dot or colon decides the family; a zone is refused.\<close>

definition ParseIP :: "string \<Rightarrow> ip option" where
  "ParseIP s = (case find (\<lambda>c. c = CHR ''.'' \<or> c = CHR '':'' \<or> c = CHR ''%'') s of
       None \<Rightarrow> None
     | Some c \<Rightarrow> if c = CHR ''.'' then map_option v4_mapped (parse_v4 s)
         else if c = CHR '':'' \<and> CHR ''%'' \<notin> set s then parse_v6 s else None)"

definition To4 :: "ip \<Rightarrow> nat list option" where
  "To4 a = (if length a = 4 then Some a
     else if length a = 16 \<and> take 12 a = replicate 10 0 @ [255, 255] then Some (drop 12 a) else None)"

record ipnet =
  net_ip :: "nat list"
  net_bits :: nat
  net_ones :: nat

definition byte_bits :: "nat \<Rightarrow> bool list" where
  "byte_bits b = map (\<lambda>i. odd (b div 2 ^ (7 - i))) [0..<8]"

definition ip_bits :: "nat list \<Rightarrow> bool list" where
  "ip_bits a = concat (map byte_bits a)"

text \<open>
  \<open>IPNet.Contains\<close>: both sides in their shortest form, compared under the mask; a 128-bit mask
  on an IPv4-mapped network is cut to its last 32 bits.
\<close>

definition ip_contains :: "ipnet \<Rightarrow> ip option \<Rightarrow> bool" where
  "ip_contains n ip = (case ip of
       None \<Rightarrow> False
     | Some a \<Rightarrow>
         let nip = (case To4 (net_ip n) of Some b \<Rightarrow> b | None \<Rightarrow> net_ip n);
             ones = (if length nip = 4 \<and> net_bits n = 128 then net_ones n - 96 else net_ones n);
             x = (case To4 a of Some b \<Rightarrow> b | None \<Rightarrow> a)
         in length x = length nip \<and> take ones (ip_bits x) = take ones (ip_bits nip))"

definition host_net :: "ip \<Rightarrow> ipnet" where
  "host_net a = (case To4 a of
       Some b \<Rightarrow> \<lparr>net_ip = b, net_bits = 32, net_ones = 32\<rparr>
     | None \<Rightarrow> \<lparr>net_ip = a, net_bits = 128, net_ones = 128\<rparr>)"

text \<open>\<open>IP.Mask\<close> with the mask of the first \<open>n\<close> bits: the bits after them are cleared.\<close>

fun mask_ip :: "nat \<Rightarrow> nat list \<Rightarrow> nat list" where
  "mask_ip n [] = []"
| "mask_ip n (b # bs) = (let k = 8 - min 8 n in b div 2 ^ k * 2 ^ k) # mask_ip (n - 8) bs"

text \<open>The network of a prefix is the masked address, so a short prefix of an IPv4-mapped address is no IPv4 network.\<close>

definition ParseCIDR :: "string \<Rightarrow> ipnet option" where
  "ParseCIDR s = (case Cut (CHR ''/'') s of
       None \<Rightarrow> None
     | Some (addr, len) \<Rightarrow> (case ParseIP addr of
         None \<Rightarrow> None
       | Some a \<Rightarrow> let v4 = (CHR '':'' \<notin> set addr); bits = (if v4 then 32 else 128) in
           (case (if len = [] then None else digits_value 0 len) of
             None \<Rightarrow> None
           | Some n \<Rightarrow> if n > bits then None
               else Some \<lparr>net_ip = mask_ip n (if v4 then drop 12 a else a), net_bits = bits, net_ones = n\<rparr>)))"

lemma length_mask_ip [simp]: "length (mask_ip n a) = length a"
  by (induction n a rule: mask_ip.induct) simp_all

lemma take_byte_bits_mask: "take n (byte_bits (let k = 8 - min 8 n in b div 2 ^ k * 2 ^ k)) = take n (byte_bits b)"
proof (rule nth_equalityI)
  fix i assume "i < length (take n (byte_bits (let k = 8 - min 8 n in b div 2 ^ k * 2 ^ k)))"
  then have i: "i < n" "i < 8" by (simp_all add: byte_bits_def)
  let ?k = "8 - min 8 n"
  have "(2 :: nat) ^ (7 - i) = 2 ^ ?k * 2 ^ (7 - i - ?k)" using i by (simp add: power_add [symmetric])
  then have "b div 2 ^ ?k * 2 ^ ?k div 2 ^ (7 - i) = b div 2 ^ (7 - i)" by (simp add: div_mult2_eq)
  then show "take n (byte_bits (let k = 8 - min 8 n in b div 2 ^ k * 2 ^ k)) ! i = take n (byte_bits b) ! i"
    using i by (simp add: byte_bits_def Let_def)
qed (simp add: byte_bits_def)

lemma byte_bits_length [simp]: "length (byte_bits b) = 8"
  by (simp add: byte_bits_def)

text \<open>Masking keeps the bits of the prefix.\<close>

lemma take_bits_mask: "take n (ip_bits (mask_ip n a)) = take n (ip_bits a)"
proof (induction n a rule: mask_ip.induct)
  case (2 n b bs)
  then show ?case using take_byte_bits_mask [of n b] by (simp add: ip_bits_def)
qed simp

lemma bits_refl_contains: "To4 a = Some b \<Longrightarrow> ip_contains (host_net a) (Some a)"
  by (auto simp: ip_contains_def host_net_def To4_def Let_def split: if_splits)

text \<open>A host rule blocks its own address.\<close>

lemma host_net_contains: "ip_contains (host_net a) (Some a)"
proof (cases "To4 a")
  case None
  then show ?thesis by (simp add: ip_contains_def host_net_def)
qed (rule bits_refl_contains)

end
