(* ===== verification/Admission.thy ===== *)
theory Admission
  imports Submitter Netip
begin

text \<open>
  \<open>internal/admission\<close>: the policy snapshot and its rules (\<open>admission.go\<close>), the Postfix
  policy request, the admission decision with its quota windows, the signed stamp and its
  single use (\<open>header.go\<close>) and the request server (\<open>server.go\<close>). The SPF evaluator
  \<open>github.com/migadu/spf\<close> and \<open>idna\<close> are parameters; the resolver is in theory \<open>Spf\<close>. The lemmas show that nothing is admitted without an
  active capability for the envelope, an SPF pass and room in every quota window, and that
  a stamp authorises one message of one queue id.
\<close>

section \<open>Policy snapshots\<close>

definition ErrMalformed :: err where
  "ErrMalformed = Err ''malformed policy request''"

record policy_rule =
  rule_ID :: string
  rule_ExpiresAt :: "time option"

definition rule_Active :: "policy_rule \<Rightarrow> time \<Rightarrow> bool" where
  "rule_Active r now = (case rule_ExpiresAt r of None \<Rightarrow> True | Some t \<Rightarrow> t = zero_time \<or> t > now)"

record submitter_policy =
  sp_ID :: string
  sp_Address :: string
  sp_Status :: sub_status
  sp_PolicyVersion :: string
  sp_Minute :: int
  sp_Hour :: int
  sp_Day :: int

record domain_rule =
  dom_Rule :: policy_rule
  dom_Domain :: string
  dom_Wildcard :: bool

record policy_snapshot =
  snap_Version :: int
  PeerCIDRs :: "(policy_rule \<times> ipnet) list"
  OuterDomains :: "string \<rightharpoonup> policy_rule"
  SubjectDomains :: "string \<rightharpoonup> policy_rule"
  SubjectAllow :: "domain_rule list"
  snap_Submitters :: "string \<rightharpoonup> submitter_policy"

definition load_rule :: "policy_rule_row \<Rightarrow> policy_snapshot \<Rightarrow> policy_snapshot res" where
  "load_rule row p =
     (let rule = \<lparr>rule_ID = pr_rule_id row, rule_ExpiresAt = pr_expires_at row\<rparr>; v = pr_value row in
      if pr_rule_type row = ''peer_block_put'' then
        (case ParseIP v of
           Some ip \<Rightarrow> Inr (p\<lparr>PeerCIDRs := PeerCIDRs p @ [(rule, host_net ip)]\<rparr>)
         | None \<Rightarrow> (case ParseCIDR v of
             None \<Rightarrow> Inl (Err ''invalid CIDR address'')
           | Some n \<Rightarrow> Inr (p\<lparr>PeerCIDRs := PeerCIDRs p @ [(rule, n)]\<rparr>)))
      else if pr_rule_type row = ''outer_domain_block_put'' then
        Inr (p\<lparr>OuterDomains := (OuterDomains p)(ToLower v \<mapsto> rule)\<rparr>)
      else if pr_rule_type row = ''subject_domain_block_put'' then
        Inr (p\<lparr>SubjectDomains := (SubjectDomains p)(ToLower v \<mapsto> rule)\<rparr>)
      else if pr_rule_type row = ''subject_allowlist_put'' then
        Inr (p\<lparr>SubjectAllow := SubjectAllow p @ [\<lparr>dom_Rule = rule, dom_Domain = TrimPrefix (ToLower v) ''*.'',
           dom_Wildcard = HasPrefix v ''*.''\<rparr>]\<rparr>)
      else Inr p)"

fun load_rules :: "policy_rule_row list \<Rightarrow> policy_snapshot \<Rightarrow> policy_snapshot res" where
  "load_rules [] p = Inr p"
| "load_rules (r # rs) p = bind_res (load_rule r p) (load_rules rs)"

text \<open>\<open>submission_capabilities JOIN submitters\<close>, unrevoked.\<close>

definition cap_rows :: "db \<Rightarrow> (string \<times> submitter_policy) list" where
  "cap_rows s = concat (map (\<lambda>c. map (\<lambda>r. (hex_encode (c_digest c),
       \<lparr>sp_ID = s_submitter_id r, sp_Address = s_canonical_address r, sp_Status = s_status r,
        sp_PolicyVersion = s_policy_version r, sp_Minute = s_minute_limit r, sp_Hour = s_hour_limit r,
        sp_Day = s_day_limit r\<rparr>))
     (filter (\<lambda>r. s_submitter_id r = c_submitter_id c) (submitters s))) (active_caps (submission_capabilities s)))"

definition LoadPolicySnapshot :: "db \<Rightarrow> policy_snapshot res" where
  "LoadPolicySnapshot s =
     (case map pv_version (policy_versions s) of
        [] \<Rightarrow> Inl (Err ''converting NULL to int64'')
      | v # vs \<Rightarrow>
          bind_res (load_rules (filter pr_enabled (policy_rules s))
            \<lparr>snap_Version = fold max vs v, PeerCIDRs = [], OuterDomains = Map.empty, SubjectDomains = Map.empty,
             SubjectAllow = [], snap_Submitters = Map.empty\<rparr>) (\<lambda>p.
          Inr (p\<lparr>snap_Submitters := fold (\<lambda>(d, item) m. m(d \<mapsto> item)) (cap_rows s) (snap_Submitters p)\<rparr>)))"

text \<open>\<open>SnapshotStore\<close>: the value of its atomic pointer. A failed refresh keeps the old snapshot.\<close>

definition Refresh :: "db \<Rightarrow> policy_snapshot option \<Rightarrow> unit res \<times> policy_snapshot option" where
  "Refresh s store = (case LoadPolicySnapshot s of Inl e \<Rightarrow> (Inl e, store) | Inr p \<Rightarrow> (Inr (), Some p))"

definition Current :: "db \<Rightarrow> policy_snapshot option \<Rightarrow> policy_snapshot res \<times> policy_snapshot option" where
  "Current s store = (case store of
       Some p \<Rightarrow> (Inr p, store)
     | None \<Rightarrow> (case LoadPolicySnapshot s of Inl e \<Rightarrow> (Inl e, store) | Inr p \<Rightarrow> (Inr p, Some p)))"

fun BlockedPeer :: "(policy_rule \<times> ipnet) list \<Rightarrow> string \<Rightarrow> time \<Rightarrow> policy_rule option" where
  "BlockedPeer [] raw now = None"
| "BlockedPeer ((rule, n) # rs) raw now =
     (if rule_Active rule now \<and> ip_contains n (ParseIP raw) then Some rule else BlockedPeer rs raw now)"

definition BlockedOuter :: "policy_snapshot \<Rightarrow> string \<Rightarrow> time \<Rightarrow> policy_rule option" where
  "BlockedOuter p domain now = (case OuterDomains p (ToLower domain) of
     None \<Rightarrow> None | Some rule \<Rightarrow> if rule_Active rule now then Some rule else None)"

definition BlockedSubject :: "policy_snapshot \<Rightarrow> string \<Rightarrow> time \<Rightarrow> policy_rule option" where
  "BlockedSubject p domain now = (case SubjectDomains p (ToLower domain) of
     None \<Rightarrow> None | Some rule \<Rightarrow> if rule_Active rule now then Some rule else None)"

definition allow_matches :: "string \<Rightarrow> string \<Rightarrow> bool" where
  "allow_matches domain raw = (let rule = ToLower (TrimSpace raw) in
     if HasPrefix rule ''*.'' then
       (let base = TrimPrefix rule ''*.'' in HasSuffix domain (''.'' @ base) \<and> domain \<noteq> base)
     else domain = rule)"

definition SelectedSubjectAllowed :: "to_ascii \<Rightarrow> string \<Rightarrow> string list \<Rightarrow> string \<times> bool" where
  "SelectedSubjectAllowed ta from allowlist = (case CanonicalAddress ta from of
       Inl e \<Rightarrow> ([], False)
     | Inr canonical \<Rightarrow>
         let domain = (case Cut (CHR ''@'') canonical of None \<Rightarrow> [] | Some (_, d) \<Rightarrow> d) in
         if allowlist = [] then (domain, True) else (domain, list_ex (allow_matches domain) allowlist))"

definition domain_rule_matches :: "string \<Rightarrow> time \<Rightarrow> domain_rule \<Rightarrow> bool" where
  "domain_rule_matches domain now r = (rule_Active (dom_Rule r) now \<and>
     ((\<not> dom_Wildcard r \<and> domain = dom_Domain r) \<or>
      (dom_Wildcard r \<and> domain \<noteq> dom_Domain r \<and> HasSuffix domain (''.'' @ dom_Domain r))))"

definition SubjectAllowed :: "to_ascii \<Rightarrow> policy_snapshot \<Rightarrow> string \<Rightarrow> string list \<Rightarrow> time \<Rightarrow> string \<times> bool \<times> string" where
  "SubjectAllowed ta p from allowlist now =
     (case SelectedSubjectAllowed ta from allowlist of (domain, ok) \<Rightarrow>
        if \<not> ok then (domain, False, [])
        else (case BlockedSubject p domain now of
            Some rule \<Rightarrow> (domain, False, rule_ID rule)
          | None \<Rightarrow>
              if SubjectAllow p = [] then (domain, True, [])
              else (case find (domain_rule_matches domain now) (SubjectAllow p) of
                  Some r \<Rightarrow> (domain, True, rule_ID (dom_Rule r))
                | None \<Rightarrow> (domain, False, []))))"

record preflight_decision =
  pf_Domain :: string
  pf_RuleID :: string
  pf_Allowed :: bool
  pf_PolicyVersion :: int

definition Preflight :: "to_ascii \<Rightarrow> policy_snapshot option \<Rightarrow> string \<Rightarrow> string list \<Rightarrow> time \<Rightarrow> preflight_decision" where
  "Preflight ta snap from allowlist now = (case snap of
       None \<Rightarrow> (case SelectedSubjectAllowed ta from allowlist of (domain, ok) \<Rightarrow>
         \<lparr>pf_Domain = domain, pf_RuleID = [], pf_Allowed = ok, pf_PolicyVersion = 0\<rparr>)
     | Some p \<Rightarrow> (case SubjectAllowed ta p from allowlist now of (domain, ok, ruleID) \<Rightarrow>
         \<lparr>pf_Domain = domain, pf_RuleID = ruleID, pf_Allowed = ok, pf_PolicyVersion = snap_Version p\<rparr>))"

definition policy_lines :: "string \<Rightarrow> string list" where
  "policy_lines raw = filter (\<lambda>l. l \<noteq> [] \<and> \<not> HasPrefix l ''#'') (map TrimSpace (Split (CHR 0x0A) raw))"

fun import_lines :: "to_ascii \<Rightarrow> time \<Rightarrow> (string \<times> string) list \<Rightarrow> db \<Rightarrow> db res" where
  "import_lines ta now [] s = Inr s"
| "import_lines ta now ((rid, line) # rest) s =
     (if \<not> snd (SelectedSubjectAllowed ta (''a@'' @ TrimPrefix line ''*.'') [line]) then Inl ErrMalformed
      else bind_res (insert_policy_rule \<lparr>pr_rule_id = rid, pr_version = 1, pr_rule_type = ''subject_allowlist_put'',
          pr_subject = [], pr_value = line, pr_enabled = True, pr_expires_at = None, pr_created_at = now\<rparr> s)
        (import_lines ta now rest))"

text \<open>The file's content is an argument; \<open>ids\<close> are the identifiers \<open>randomblob\<close> draws.\<close>

definition BootstrapImport :: "crypto \<Rightarrow> to_ascii \<Rightarrow> string \<Rightarrow> (nat \<Rightarrow> string) \<Rightarrow> time \<Rightarrow> db \<Rightarrow> db res" where
  "BootstrapImport cr ta raw ids now s =
     (if policy_bootstrap s \<noteq> None then Inr s
      else let sourceDigest = hex_encode (sha256 cr raw) in
        if sql_count (\<lambda>v. pv_version v > 0) (policy_versions s) \<noteq> 0 then
          Inr (s\<lparr>policy_bootstrap_observations := policy_bootstrap_observations s @
            [\<lparr>bo_observed_at = now, bo_source_digest = sourceDigest, bo_source_count = length (policy_lines raw),
              bo_outcome = ''managed_policy_exists''\<rparr>]\<rparr>)
        else bind_res (insert_policy_version \<lparr>pv_version = 1, pv_created_at = now,
               pv_command_id = ''bootstrap-import'', pv_digest = sourceDigest\<rparr> s) (\<lambda>s.
             bind_res (import_lines ta now (map (\<lambda>(i, l). (ids i, l)) (enumerate 0 (policy_lines raw))) s) (\<lambda>s.
             Inr (s\<lparr>policy_bootstrap := Some (now, sourceDigest)\<rparr>))))"

section \<open>Policy requests\<close>

record request =
  RequestType :: string
  Instance :: string
  QueueID :: string
  ProtocolState :: string
  ClientAddress :: string
  Helo :: string
  Sender :: string
  Recipient :: string

definition empty_request :: request where
  "empty_request = \<lparr>RequestType = [], Instance = [], QueueID = [], ProtocolState = [], ClientAddress = [],
     Helo = [], Sender = [], Recipient = []\<rparr>"

definition set_attribute :: "string \<Rightarrow> string \<Rightarrow> request \<Rightarrow> request" where
  "set_attribute key v r =
     (if key = ''request'' then r\<lparr>RequestType := v\<rparr>
      else if key = ''instance'' then r\<lparr>Instance := v\<rparr>
      else if key = ''queue_id'' then r\<lparr>QueueID := v\<rparr>
      else if key = ''protocol_state'' then r\<lparr>ProtocolState := v\<rparr>
      else if key = ''client_address'' then r\<lparr>ClientAddress := v\<rparr>
      else if key = ''helo_name'' then r\<lparr>Helo := v\<rparr>
      else if key = ''sender'' then r\<lparr>Sender := v\<rparr>
      else if key = ''recipient'' then r\<lparr>Recipient := v\<rparr>
      else r)"

fun parse_lines :: "string list \<Rightarrow> string list \<Rightarrow> request \<Rightarrow> request res" where
  "parse_lines [] seen r = Inr r"
| "parse_lines (l # ls) seen r =
     (let line = TrimSuffix l [CHR 0x0D] in
      if line = [] then parse_lines ls seen r
      else (case Cut (CHR ''='') line of
          None \<Rightarrow> Inl ErrMalformed
        | Some (key, v) \<Rightarrow>
            if key = [] \<or> length v > 1024 \<or> key \<in> set seen then Inl ErrMalformed
            else parse_lines ls (key # seen) (set_attribute key v r)))"

definition ParseRequest :: "string \<Rightarrow> request res" where
  "ParseRequest raw =
     (if raw = [] \<or> length raw > 16384 then Inl ErrMalformed
      else bind_res (parse_lines (Split (CHR 0x0A) raw) [] empty_request) (\<lambda>r.
        if RequestType r \<noteq> ''smtpd_access_policy'' \<or> ProtocolState r = [] \<or> Sender r = [] \<or> Recipient r = [] \<or>
           ParseIP (ClientAddress r) = None
        then Inl ErrMalformed else Inr r))"

section \<open>Decisions\<close>

record decision =
  dec_ID :: string
  dec_SubmitterID :: string
  dec_Envelope :: string
  dec_Recipient :: string
  dec_SPF :: string
  dec_Reason :: string
  dec_Stage :: string
  dec_PolicyVersion :: string
  dec_PolicyRuleID :: string
  dec_Stamp :: string
  dec_ExpiresAt :: "time option"

text \<open>
  What a caller of \<open>Admit\<close> sees: a decision and no error, a decision with \<open>ErrDenied\<close>, or
  \<open>ErrDeferred\<close>.
\<close>

datatype admit_result = Admitted decision | Denied decision | Deferred

record adm_service =
  adm_CapabilityKey :: string
  StampKey :: string
  adm_Domain :: string

type_synonym spf_check = "string \<Rightarrow> string \<Rightarrow> ip option \<Rightarrow> string res"

definition capability_of :: "string \<Rightarrow> string \<Rightarrow> string res" where
  "capability_of recipient domain =
     (if length recipient > 1024 \<or> count_list recipient (CHR ''@'') \<noteq> 1 then Inl ErrMalformed
      else case Cut (CHR ''@'') recipient of
          None \<Rightarrow> Inl ErrMalformed
        | Some (local, host) \<Rightarrow>
            if \<not> EqualFold host domain \<or> \<not> HasPrefix local ''verify+'' then Inl ErrMalformed
            else let cap = TrimPrefix local ''verify+'' in
              if length cap < 32 \<or> length cap > 128 then Inl ErrMalformed
              else (case b64_decode cap of
                  None \<Rightarrow> Inl ErrMalformed
                | Some decoded \<Rightarrow> if length decoded < 24 then Inl ErrMalformed else Inr cap))"

definition decisionOutcome :: "string \<Rightarrow> string" where
  "decisionOutcome reason = (if reason = ''admitted'' then ''admitted'' else ''rejected'')"

definition smtpClass :: "string \<Rightarrow> int" where
  "smtpClass reason = (if reason = ''admitted'' then 250 else 550)"

definition nilOr :: "string \<Rightarrow> string option" where
  "nilOr v = (if v = [] then None else Some v)"

definition decision_json :: "decision \<Rightarrow> time \<Rightarrow> string" where
  "decision_json d now = json_object
     [(''ID'', json_string (dec_ID d)), (''Outcome'', json_string (decisionOutcome (dec_Reason d))),
      (''Stage'', json_string (dec_Stage d)), (''Reason'', json_string (dec_Reason d)),
      (''Policy'', json_string (dec_PolicyVersion d)), (''RuleID'', json_string (dec_PolicyRuleID d)),
      (''occurred_at'', show_int now)]"

definition decision_row :: "crypto \<Rightarrow> adm_service \<Rightarrow> decision \<Rightarrow> request \<Rightarrow> string option \<Rightarrow> time \<Rightarrow> submission_decision" where
  "decision_row cr svc d r digest now = \<lparr>sd_decision_id = dec_ID d, sd_submitter_id = nilOr (dec_SubmitterID d),
     sd_capability_digest = digest, sd_envelope_sender = dec_Envelope d, sd_recipient = dec_Recipient d,
     sd_peer_ip = ClientAddress r, sd_helo = Helo r, sd_spf_outcome = dec_SPF d, sd_stage = dec_Stage d,
     sd_reason_code = dec_Reason d, sd_policy_version = dec_PolicyVersion d,
     sd_applied_rule_id = dec_PolicyRuleID d, sd_queue_id = Some (QueueID r),
     sd_stamp_mac = Some (hmac cr (StampKey svc) (dec_Stamp d)), sd_expires_at = dec_ExpiresAt d,
     sd_consumed_at = None, sd_created_at = now\<rparr>"

definition store_decision ::
  "crypto \<Rightarrow> adm_service \<Rightarrow> decision \<Rightarrow> request \<Rightarrow> string option \<Rightarrow> time \<Rightarrow> db \<Rightarrow> db res" where
  "store_decision cr svc d r digest now s =
     bind_res (insert_submission_decision (decision_row cr svc d r digest now) s) (\<lambda>s.
     bind_res (insert_decision_record \<lparr>dr_decision_id = dec_ID d, dr_submission_id = None, dr_delivery_id = None,
         dr_submitter_id = nilOr (dec_SubmitterID d), dr_occurred_at = now,
         dr_outcome = decisionOutcome (dec_Reason d), dr_stage = dec_Stage d, dr_reason_code = dec_Reason d,
         dr_policy_version = dec_PolicyVersion d, dr_selected_subject_domain = [], dr_applied_rule_id = dec_PolicyRuleID d,
         dr_smtp_class = smtpClass (dec_Reason d), dr_canonical_json = decision_json d now,
         dr_canonical_digest = hex_encode (sha256 cr (decision_json d now)), dr_notarization_status = ''queued''\<rparr> s) (\<lambda>s.
     bind_res (insert_signing_item \<lparr>ob_decision_id = dec_ID d, ob_state = ''pending'', ob_created_at = now\<rparr> s) (\<lambda>s.
     eventTx cr ''admission'' ''decision'' (dec_ID d) ''admission_decision'' (decisionOutcome (dec_Reason d)) now s)))"

definition reject ::
  "crypto \<Rightarrow> adm_service \<Rightarrow> request \<Rightarrow> string \<Rightarrow> string \<Rightarrow> string \<Rightarrow> int \<Rightarrow> string \<Rightarrow> string \<Rightarrow> time \<Rightarrow> db \<Rightarrow> admit_result \<times> db" where
  "reject cr svc r stage reason submitterID policyVersion ruleID id_bytes now s =
     (let d = \<lparr>dec_ID = hex_encode id_bytes, dec_SubmitterID = submitterID, dec_Envelope = Sender r,
            dec_Recipient = Recipient r, dec_SPF = [], dec_Reason = reason, dec_Stage = stage,
            dec_PolicyVersion = (if policyVersion > 0 then CHR ''v'' # show_int policyVersion else ''v1''),
            dec_PolicyRuleID = ruleID, dec_Stamp = [], dec_ExpiresAt = None\<rparr>
      in case store_decision cr svc d r None now s of
           Inl _ \<Rightarrow> (Deferred, s)
         | Inr s' \<Rightarrow> (Denied d, s'))"

definition admitted_since :: "string \<Rightarrow> time \<Rightarrow> db \<Rightarrow> nat" where
  "admitted_since sid t s = sql_count (\<lambda>e. ae_submitter_id e = sid \<and> ae_admitted_at e > t) (admission_events s)"

definition stamp_payload :: "decision \<Rightarrow> request \<Rightarrow> string" where
  "stamp_payload d r = Join ''|'' [''v1'', dec_ID d, dec_SubmitterID d, dec_Envelope d, dec_Recipient d,
     ClientAddress r, Helo r, dec_SPF d, dec_PolicyVersion d,
     show_int (case dec_ExpiresAt d of Some t \<Rightarrow> t | None \<Rightarrow> zero_time)]"

definition stamp_of :: "crypto \<Rightarrow> adm_service \<Rightarrow> decision \<Rightarrow> request \<Rightarrow> string" where
  "stamp_of cr svc d r = b64_encode (stamp_payload d r) @ ''.'' @ b64_encode (hmac cr (StampKey svc) (stamp_payload d r))"

definition admit_within ::
  "crypto \<Rightarrow> adm_service \<Rightarrow> request \<Rightarrow> string \<Rightarrow> string \<Rightarrow> string \<Rightarrow> string \<Rightarrow> int \<Rightarrow> int \<Rightarrow> int \<Rightarrow> string \<Rightarrow> time \<Rightarrow> db
   \<Rightarrow> admit_result \<times> db" where
  "admit_within cr svc r sid envelope policy digest minute hour day id_bytes now s =
     (let d = \<lparr>dec_ID = hex_encode id_bytes, dec_SubmitterID = sid, dec_Envelope = envelope,
            dec_Recipient = Recipient r, dec_SPF = ''pass'', dec_Reason = [], dec_Stage = [],
            dec_PolicyVersion = policy, dec_PolicyRuleID = [], dec_Stamp = [], dec_ExpiresAt = None\<rparr>
      in if list_ex (\<lambda>(seconds, n). int (admitted_since sid (now - seconds) s) \<ge> n) [(60, minute), (3600, hour), (86400, day)]
         then let d = d\<lparr>dec_Stage := ''quota'', dec_Reason := ''quota_exceeded''\<rparr> in
           (case store_decision cr svc d r (Some digest) now s of
              Inl _ \<Rightarrow> (Deferred, s)
            | Inr s' \<Rightarrow> (Denied d, s'))
         else let d = d\<lparr>dec_Stage := ''admission'', dec_Reason := ''admitted'', dec_ExpiresAt := Some (now + 600)\<rparr>;
                  d = d\<lparr>dec_Stamp := stamp_of cr svc d r\<rparr> in
           (case bind_res (store_decision cr svc d r (Some digest) now s)
                  (insert_admission_event \<lparr>ae_decision_id = dec_ID d, ae_submitter_id = sid, ae_admitted_at = now\<rparr>) of
              Inl _ \<Rightarrow> (Deferred, s)
            | Inr s' \<Rightarrow> (Admitted d, s')))"

definition Admit ::
  "crypto \<Rightarrow> to_ascii \<Rightarrow> spf_check \<Rightarrow> adm_service \<Rightarrow> policy_snapshot option \<Rightarrow> string \<Rightarrow> time \<Rightarrow> request \<Rightarrow> db
   \<Rightarrow> admit_result \<times> db" where
  "Admit cr ta spf svc snap id_bytes now r s =
     (let rej = (\<lambda>stage reason sid v ruleID. reject cr svc r stage reason sid v ruleID id_bytes now s) in
      if length (adm_CapabilityKey svc) < 32 \<or> length (StampKey svc) < 32 then (Deferred, s)
      else case snap of
          None \<Rightarrow> (Deferred, s)
        | Some p \<Rightarrow> (case BlockedPeer (PeerCIDRs p) (ClientAddress r) now of
            Some rule \<Rightarrow> rej ''policy'' ''peer_blocked'' [] (snap_Version p) (rule_ID rule)
          | None \<Rightarrow> (case CanonicalAddress ta (Sender r) of
              Inl _ \<Rightarrow> rej ''identity'' ''invalid_sender'' [] 0 []
            | Inr envelope \<Rightarrow> (case BlockedOuter p (Split (CHR ''@'') envelope ! 1) now of
                Some rule \<Rightarrow> rej ''policy'' ''outer_domain_blocked'' [] (snap_Version p) (rule_ID rule)
              | None \<Rightarrow> (case capability_of (Recipient r) (adm_Domain svc) of
                  Inl _ \<Rightarrow> rej ''identity'' ''invalid_capability'' [] 0 []
                | Inr cap \<Rightarrow>
                    let digest = hmac cr (adm_CapabilityKey svc) cap in
                    (case snap_Submitters p (hex_encode digest) of
                      None \<Rightarrow> rej ''identity'' ''unknown_capability'' [] 0 []
                    | Some item \<Rightarrow>
                        if sp_Status item \<noteq> Active then rej ''identity'' ''unknown_capability'' [] 0 []
                        else if envelope \<noteq> sp_Address item then rej ''identity'' ''envelope_mismatch'' (sp_ID item) 0 []
                        else (case spf envelope (Helo r) (ParseIP (ClientAddress r)) of
                            Inl _ \<Rightarrow> (Deferred, s)
                          | Inr outcome \<Rightarrow>
                              if outcome \<noteq> ''pass'' then rej ''spf'' (''spf_'' @ outcome) (sp_ID item) 0 []
                              else if sp_Minute item < 1 \<or> sp_Hour item < 1 \<or> sp_Day item < 1
                                then rej ''quota'' ''invalid_limit'' (sp_ID item) 0 []
                              else admit_within cr svc r (sp_ID item) envelope (CHR ''v'' # show_int (snap_Version p)) digest
                                (sp_Minute item) (sp_Hour item) (sp_Day item) id_bytes now s)))))))"

section \<open>Stamps\<close>

definition ErrStamp :: err where
  "ErrStamp = Err ''invalid admission stamp''"

fun stamp_header :: "string list \<Rightarrow> string \<Rightarrow> string res" where
  "stamp_header [] stamp = Inr stamp"
| "stamp_header (h # hs) stamp = (case Cut (CHR '':'') h of
       None \<Rightarrow> stamp_header hs stamp
     | Some (name, v) \<Rightarrow>
         if EqualFold (TrimSpace name) ''X-Mailproof-Admission'' then
           (if stamp \<noteq> [] \<or> length v > 2048 then Inl ErrStamp else stamp_header hs (TrimSpace v))
         else stamp_header hs stamp)"

text \<open>\<open>nil\<close> is the empty byte slice.\<close>

definition mustDecode :: "string \<Rightarrow> string" where
  "mustDecode v = (case b64_decode v of None \<Rightarrow> [] | Some b \<Rightarrow> if length b \<noteq> 32 then [] else b)"

definition stamp_parts :: "crypto \<Rightarrow> adm_service \<Rightarrow> string list \<Rightarrow> time \<Rightarrow> (string list \<times> int) res" where
  "stamp_parts cr svc headers now =
     bind_res (stamp_header headers []) (\<lambda>stamp.
     if stamp = [] then Inl ErrStamp
     else case Cut (CHR ''.'') stamp of
         None \<Rightarrow> Inl ErrStamp
       | Some (payload64, mac64) \<Rightarrow>
           if CHR ''.'' \<in> set mac64 then Inl ErrStamp
           else (case b64_decode payload64 of
               None \<Rightarrow> Inl ErrStamp
             | Some payload \<Rightarrow>
                 if hmac cr (StampKey svc) payload \<noteq> mustDecode mac64 then Inl ErrStamp
                 else let parts = Split (CHR ''|'') payload in
                   if length parts \<noteq> 10 \<or> parts ! 0 \<noteq> ''v1'' then Inl ErrStamp
                   else (case ParseInt (parts ! 9) of
                       None \<Rightarrow> Inl ErrStamp
                     | Some expires \<Rightarrow> if expires < now then Inl ErrStamp else Inr (parts, expires))))"

definition stamp_row :: "string \<Rightarrow> string \<Rightarrow> time \<Rightarrow> submission_decision \<Rightarrow> bool" where
  "stamp_row did queueID now row = (sd_decision_id row = did \<and> sd_consumed_at row = None \<and>
     (case sd_expires_at row of None \<Rightarrow> False | Some t \<Rightarrow> t \<ge> now) \<and> sd_queue_id row = Some queueID)"

text \<open>
  The scan of the returned row and its comparison with the stamp. A \<open>NULL\<close> submitter does not
  scan into a Go string.
\<close>

definition scan_stamp :: "string list \<Rightarrow> int \<Rightarrow> submission_decision \<Rightarrow> decision res" where
  "scan_stamp parts expires row = (case sd_submitter_id row of
       None \<Rightarrow> Inl ErrStamp
     | Some sid \<Rightarrow>
         if sd_decision_id row \<noteq> parts ! 1 \<or> sid \<noteq> parts ! 2 \<or> sd_envelope_sender row \<noteq> parts ! 3 \<or>
            sd_recipient row \<noteq> parts ! 4 \<or> sd_spf_outcome row \<noteq> parts ! 7 \<or>
            sd_policy_version row \<noteq> parts ! 8 \<or> sd_expires_at row \<noteq> Some expires
         then Inl ErrStamp
         else Inr \<lparr>dec_ID = sd_decision_id row, dec_SubmitterID = sid,
             dec_Envelope = sd_envelope_sender row, dec_Recipient = sd_recipient row,
             dec_SPF = sd_spf_outcome row, dec_Reason = sd_reason_code row, dec_Stage = sd_stage row,
             dec_PolicyVersion = sd_policy_version row, dec_PolicyRuleID = [], dec_Stamp = [],
             dec_ExpiresAt = sd_expires_at row\<rparr>)"

text \<open>
  The \<open>UPDATE \<dots> RETURNING\<close> marks the row before the scanned columns are compared, so a
  mismatch also uses the stamp up.
\<close>

definition ConsumeStamp :: "crypto \<Rightarrow> adm_service \<Rightarrow> string list \<Rightarrow> string \<Rightarrow> time \<Rightarrow> db \<Rightarrow> decision res \<times> db" where
  "ConsumeStamp cr svc headers queueID now s =
     (case stamp_parts cr svc headers now of
        Inl e \<Rightarrow> (Inl e, s)
      | Inr (parts, expires) \<Rightarrow>
          (case find (stamp_row (parts ! 1) queueID now) (submission_decisions s) of
             None \<Rightarrow> (Inl ErrStamp, s)
           | Some row \<Rightarrow> (scan_stamp parts expires row, s\<lparr>submission_decisions :=
               sql_update (stamp_row (parts ! 1) queueID now) (\<lambda>x. x\<lparr>sd_consumed_at := Some now\<rparr>) (submission_decisions s)\<rparr>)))"

section \<open>The request server\<close>

definition newline :: string where
  "newline = [CHR 0x0A]"

text \<open>
  The loop of \<open>Server.handle\<close> over the bytes a connection delivers: \<open>eof\<close> says whether they
  end with the end of the stream or with a read error.
\<close>

function read_request :: "bool \<Rightarrow> string \<Rightarrow> string \<Rightarrow> string option" where
  "read_request eof raw input = (case Cut (CHR 0x0A) input of
       Some (a, rest) \<Rightarrow>
         let line = a @ newline; raw = raw @ line in
         if length raw > 16384 then None
         else if length line = 1 \<or> line = [CHR 0x0D, CHR 0x0A] then Some raw
         else read_request eof raw rest
     | None \<Rightarrow>
         if length (raw @ input) > 16384 \<or> \<not> eof then None
         else if length input = 1 then Some (raw @ input) else None)"
  by pat_completeness auto
termination
  by (relation "measure (\<lambda>(e, r, i). length i)") (auto simp: Cut_Some_iff)

declare read_request.simps [simp del]

definition respond :: "string \<Rightarrow> string" where
  "respond action = action @ newline @ newline"

definition handle ::
  "crypto \<Rightarrow> to_ascii \<Rightarrow> spf_check \<Rightarrow> adm_service \<Rightarrow> policy_snapshot option \<Rightarrow> string \<Rightarrow> time \<Rightarrow> bool \<Rightarrow> string \<Rightarrow> db
   \<Rightarrow> string \<times> db" where
  "handle cr ta spf svc snap id_bytes now eof input s =
     (case read_request (eof \<or> length input > 16384) [] (take 16385 input) of
        None \<Rightarrow> (respond ''action=DEFER_IF_PERMIT 450 4.7.1 malformed policy request'', s)
      | Some raw \<Rightarrow> (case ParseRequest raw of
          Inl _ \<Rightarrow> (respond ''action=REJECT 550 5.7.1 invalid submission identity'', s)
        | Inr r \<Rightarrow> (case Admit cr ta spf svc snap id_bytes now r s of
            (Deferred, s') \<Rightarrow> (respond ''action=DEFER_IF_PERMIT 450 4.7.1 admission temporarily unavailable'', s')
          | (Denied d, s') \<Rightarrow> (respond ''action=REJECT 550 5.7.1 submission rejected'', s')
          | (Admitted d, s') \<Rightarrow> (respond (''action=PREPEND X-Mailproof-Admission: '' @ dec_Stamp d), s'))))"

section \<open>What a decision stores\<close>

lemma insert_submission_decision_Inr:
  assumes "insert_submission_decision row s = Inr s'"
  shows "s' = s\<lparr>submission_decisions := submission_decisions s @ [row]\<rparr>"
    "sd_decision_id row \<notin> sd_decision_id ` set (submission_decisions s)"
  using assms by (auto simp: insert_submission_decision_def fresh_def)

lemma insert_admission_event_Inr:
  assumes "insert_admission_event row s = Inr s'"
  shows "s' = s\<lparr>admission_events := admission_events s @ [row]\<rparr>"
  using assms by (auto simp: insert_admission_event_def)

lemma insert_decision_record_frame:
  "insert_decision_record row s = Inr s' \<Longrightarrow> s' = s\<lparr>decision_records := decision_records s'\<rparr>"
  by (auto simp: insert_decision_record_def split: if_splits)

lemma insert_signing_item_frame:
  "insert_signing_item row s = Inr s' \<Longrightarrow> s' = s\<lparr>decision_signing_outbox := decision_signing_outbox s'\<rparr>"
  by (auto simp: insert_signing_item_def split: if_splits)

lemma store_decision_Inr:
  assumes "store_decision cr svc d r digest now s = Inr s'"
  shows "submission_decisions s' = submission_decisions s @ [decision_row cr svc d r digest now]"
    "dec_ID d \<notin> sd_decision_id ` set (submission_decisions s)"
    "admission_events s' = admission_events s"
    "submitters s' = submitters s"
proof -
  obtain s1 s2 s3 where
    1: "insert_submission_decision (decision_row cr svc d r digest now) s = Inr s1" and
    2: "\<exists>row. insert_decision_record row s1 = Inr s2" and
    3: "\<exists>row. insert_signing_item row s2 = Inr s3" and
    4: "eventTx cr ''admission'' ''decision'' (dec_ID d) ''admission_decision'' (decisionOutcome (dec_Reason d)) now s3 = Inr s'"
    using assms by (auto simp: store_decision_def bind_res_Inr_iff)
  obtain a where a: "s2 = s1\<lparr>decision_records := a\<rparr>" using 2 insert_decision_record_frame by blast
  obtain b where b: "s3 = s2\<lparr>decision_signing_outbox := b\<rparr>" using 3 insert_signing_item_frame by blast
  obtain c where c: "s' = s3\<lparr>analytics_events := c\<rparr>" using eventTx_frame [OF 4] by blast
  note i = insert_submission_decision_Inr [OF 1]
  show "submission_decisions s' = submission_decisions s @ [decision_row cr svc d r digest now]"
    "admission_events s' = admission_events s" "submitters s' = submitters s"
    by (simp_all add: c b a i(1))
  show "dec_ID d \<notin> sd_decision_id ` set (submission_decisions s)"
    using i(2) by (simp add: decision_row_def)
qed

text \<open>
  The three outcomes of an admission, for every branch: nothing, one refused decision that
  opens no quota and no stamp, or one admitted decision with its quota event.
\<close>

definition admitted_decision :: "crypto \<Rightarrow> adm_service \<Rightarrow> request \<Rightarrow> string \<Rightarrow> string \<Rightarrow> string \<Rightarrow> string \<Rightarrow> time \<Rightarrow> decision" where
  "admitted_decision cr svc r sid envelope policy id_bytes now =
     (let d = \<lparr>dec_ID = hex_encode id_bytes, dec_SubmitterID = sid, dec_Envelope = envelope,
            dec_Recipient = Recipient r, dec_SPF = ''pass'', dec_Reason = ''admitted'', dec_Stage = ''admission'',
            dec_PolicyVersion = policy, dec_PolicyRuleID = [], dec_Stamp = [], dec_ExpiresAt = Some (now + 600)\<rparr>
      in d\<lparr>dec_Stamp := stamp_of cr svc d r\<rparr>)"

inductive outcome ::
  "crypto \<Rightarrow> adm_service \<Rightarrow> request \<Rightarrow> string \<Rightarrow> time \<Rightarrow> db \<Rightarrow> admit_result \<Rightarrow> db \<Rightarrow> bool"
  for cr svc r id_bytes now s where
  deferred: "outcome cr svc r id_bytes now s Deferred s"
| denied: "\<lbrakk>dec_ID d = hex_encode id_bytes; dec_ID d \<notin> sd_decision_id ` set (submission_decisions s);
     dec_ExpiresAt d = None; dec_Stamp d = []; dec_Reason d \<noteq> ''admitted'';
     submission_decisions s' = submission_decisions s @ [decision_row cr svc d r digest now];
     admission_events s' = admission_events s; submitters s' = submitters s\<rbrakk>
   \<Longrightarrow> outcome cr svc r id_bytes now s (Denied d) s'"
| admitted: "\<lbrakk>d = admitted_decision cr svc r sid envelope policy id_bytes now;
     hex_encode id_bytes \<notin> sd_decision_id ` set (submission_decisions s);
     submission_decisions s' = submission_decisions s @ [decision_row cr svc d r digest now];
     admission_events s' = admission_events s @
       [\<lparr>ae_decision_id = hex_encode id_bytes, ae_submitter_id = sid, ae_admitted_at = now\<rparr>];
     submitters s' = submitters s\<rbrakk>
   \<Longrightarrow> outcome cr svc r id_bytes now s (Admitted d) s'"

inductive_cases outcome_Admitted [elim!]: "outcome cr svc r id_bytes now s (Admitted d) s'"
inductive_cases outcome_Denied [elim!]: "outcome cr svc r id_bytes now s (Denied d) s'"
inductive_cases outcome_Deferred [elim!]: "outcome cr svc r id_bytes now s Deferred s'"

lemma reject_outcome:
  assumes "reason \<noteq> ''admitted''" "reject cr svc r stage reason sid v rule id_bytes now s = (res, s')"
  shows "outcome cr svc r id_bytes now s res s'"
proof -
  let ?d = "\<lparr>dec_ID = hex_encode id_bytes, dec_SubmitterID = sid, dec_Envelope = Sender r,
     dec_Recipient = Recipient r, dec_SPF = [], dec_Reason = reason, dec_Stage = stage,
     dec_PolicyVersion = (if v > 0 then CHR ''v'' # show_int v else ''v1''),
     dec_PolicyRuleID = rule, dec_Stamp = [], dec_ExpiresAt = None\<rparr>"
  show ?thesis
  proof (cases "store_decision cr svc ?d r None now s")
    case (Inl e)
    with assms(2) have "res = Deferred \<and> s' = s" unfolding reject_def Let_def by simp
    then show ?thesis by (auto intro: outcome.deferred)
  next
    case (Inr t)
    with assms(2) have "res = Denied ?d \<and> s' = t" unfolding reject_def Let_def by simp
    with store_decision_Inr [OF Inr] assms(1) show ?thesis by (auto intro!: outcome.denied)
  qed
qed

definition quota_room :: "string \<Rightarrow> int \<Rightarrow> int \<Rightarrow> int \<Rightarrow> time \<Rightarrow> db \<Rightarrow> bool" where
  "quota_room sid minute hour day now s =
     (int (admitted_since sid (now - 60) s) < minute \<and> int (admitted_since sid (now - 3600) s) < hour \<and>
      int (admitted_since sid (now - 86400) s) < day)"

lemma admit_within_outcome:
  assumes "admit_within cr svc r sid envelope policy digest minute hour day id_bytes now s = (res, s')"
  shows "outcome cr svc r id_bytes now s res s'"
    and "res = Admitted d \<Longrightarrow> quota_room sid minute hour day now s \<and>
       d = admitted_decision cr svc r sid envelope policy id_bytes now \<and>
       admission_events s' = admission_events s @
         [\<lparr>ae_decision_id = hex_encode id_bytes, ae_submitter_id = sid, ae_admitted_at = now\<rparr>] \<and>
       submission_decisions s' = submission_decisions s @ [decision_row cr svc d r (Some digest) now]"
proof -
  let ?b = "\<lparr>dec_ID = hex_encode id_bytes, dec_SubmitterID = sid, dec_Envelope = envelope,
     dec_Recipient = Recipient r, dec_SPF = ''pass'', dec_Reason = ''quota_exceeded'', dec_Stage = ''quota'',
     dec_PolicyVersion = policy, dec_PolicyRuleID = [], dec_Stamp = [], dec_ExpiresAt = None\<rparr>"
  let ?a = "admitted_decision cr svc r sid envelope policy id_bytes now"
  let ?e = "\<lparr>ae_decision_id = hex_encode id_bytes, ae_submitter_id = sid, ae_admitted_at = now\<rparr>"
  have eq: "(res, s') = (if \<not> quota_room sid minute hour day now s
      then (case store_decision cr svc ?b r (Some digest) now s of Inl _ \<Rightarrow> (Deferred, s) | Inr t \<Rightarrow> (Denied ?b, t))
      else (case bind_res (store_decision cr svc ?a r (Some digest) now s) (insert_admission_event ?e) of
          Inl _ \<Rightarrow> (Deferred, s) | Inr t \<Rightarrow> (Admitted ?a, t)))"
    unfolding assms [symmetric] admit_within_def Let_def
    by (simp add: admitted_decision_def quota_room_def not_less cong: sum.case_cong if_cong)
  have "outcome cr svc r id_bytes now s res s' \<and> (res = Admitted d \<longrightarrow> quota_room sid minute hour day now s \<and>
       d = ?a \<and> admission_events s' = admission_events s @ [?e] \<and>
       submission_decisions s' = submission_decisions s @ [decision_row cr svc d r (Some digest) now])" for d
  proof (cases "quota_room sid minute hour day now s")
    case False
    show ?thesis
    proof (cases "store_decision cr svc ?b r (Some digest) now s")
      case (Inl e)
      with eq False show ?thesis by (auto intro: outcome.deferred)
    next
      case (Inr t)
      with eq False have "res = Denied ?b" "s' = t" by simp_all
      with store_decision_Inr [OF Inr] show ?thesis by (auto intro!: outcome.denied)
    qed
  next
    case True
    show ?thesis
    proof (cases "bind_res (store_decision cr svc ?a r (Some digest) now s) (insert_admission_event ?e)")
      case (Inl e)
      with eq True show ?thesis by (auto intro: outcome.deferred)
    next
      case (Inr t)
      then obtain u where u: "store_decision cr svc ?a r (Some digest) now s = Inr u" "insert_admission_event ?e u = Inr t"
        by (auto simp: bind_res_Inr_iff)
      from eq True Inr have res: "res = Admitted ?a" "s' = t" by simp_all
      have id: "dec_ID ?a = hex_encode id_bytes" by (simp add: admitted_decision_def)
      note st = store_decision_Inr [OF u(1), unfolded id] and ev = insert_admission_event_Inr [OF u(2)]
      have t: "submission_decisions t = submission_decisions s @ [decision_row cr svc ?a r (Some digest) now]"
        "admission_events t = admission_events s @ [?e]" "submitters t = submitters s"
        using st ev by simp_all
      from outcome.admitted [OF refl st(2) t] True res t show ?thesis by simp
    qed
  qed
  then show "outcome cr svc r id_bytes now s res s'" and "res = Admitted d \<Longrightarrow> quota_room sid minute hour day now s \<and>
       d = ?a \<and> admission_events s' = admission_events s @ [?e] \<and>
       submission_decisions s' = submission_decisions s @ [decision_row cr svc d r (Some digest) now]" by blast+
qed

text \<open>What stands between a request and the quota check.\<close>

definition identified ::
  "crypto \<Rightarrow> to_ascii \<Rightarrow> spf_check \<Rightarrow> adm_service \<Rightarrow> policy_snapshot \<Rightarrow> time \<Rightarrow> request \<Rightarrow> string \<Rightarrow> string \<Rightarrow> submitter_policy \<Rightarrow> bool" where
  "identified cr ta spf svc p now r envelope cap item =
     (BlockedPeer (PeerCIDRs p) (ClientAddress r) now = None \<and>
      CanonicalAddress ta (Sender r) = Inr envelope \<and>
      BlockedOuter p (Split (CHR ''@'') envelope ! 1) now = None \<and>
      capability_of (Recipient r) (adm_Domain svc) = Inr cap \<and>
      snap_Submitters p (hex_encode (hmac cr (adm_CapabilityKey svc) cap)) = Some item \<and>
      sp_Status item = Active \<and> envelope = sp_Address item \<and>
      spf envelope (Helo r) (ParseIP (ClientAddress r)) = Inr ''pass'' \<and>
      sp_Minute item \<ge> 1 \<and> sp_Hour item \<ge> 1 \<and> sp_Day item \<ge> 1)"

lemma Admit_identified:
  assumes "length (adm_CapabilityKey svc) \<ge> 32" "length (StampKey svc) \<ge> 32"
    and "identified cr ta spf svc p now r envelope cap item"
  shows "Admit cr ta spf svc (Some p) id_bytes now r s =
    admit_within cr svc r (sp_ID item) envelope (CHR ''v'' # show_int (snap_Version p)) (hmac cr (adm_CapabilityKey svc) cap)
      (sp_Minute item) (sp_Hour item) (sp_Day item) id_bytes now s"
proof -
  note i = assms(3) [unfolded identified_def]
  have k: "\<not> (length (adm_CapabilityKey svc) < 32 \<or> length (StampKey svc) < 32)" using assms by simp
  have env: "sp_Address item = envelope" using i by simp
  have q: "\<not> (sp_Minute item < 1 \<or> sp_Hour item < 1 \<or> sp_Day item < 1)" using i by simp
  show ?thesis
    unfolding Admit_def Let_def using i
    by (simp only: k q env if_False option.case sum.case simp_thms)
qed

lemma Admit_branches:
  assumes a: "Admit cr ta spf svc snap id_bytes now r s = (res, s')"
  obtains (deferred) "res = Deferred" "s' = s"
  | (refused) stage reason sid v rule where "reason \<noteq> ''admitted''"
      "reject cr svc r stage reason sid v rule id_bytes now s = (res, s')"
  | (within) p envelope cap item where "snap = Some p" "length (adm_CapabilityKey svc) \<ge> 32" "length (StampKey svc) \<ge> 32"
      "identified cr ta spf svc p now r envelope cap item"
      "admit_within cr svc r (sp_ID item) envelope (CHR ''v'' # show_int (snap_Version p)) (hmac cr (adm_CapabilityKey svc) cap)
         (sp_Minute item) (sp_Hour item) (sp_Day item) id_bytes now s = (res, s')"
proof (rule ccontr)
  assume no: "\<not> thesis"
  have r: "reject cr svc r stage reason sid v rule id_bytes now s \<noteq> (res, s')" if "reason \<noteq> ''admitted''" for stage reason sid v rule
    using refused [OF that] no by blast
  have d: "(Deferred, s) \<noteq> (res, s')" using deferred no by auto
  obtain p envelope cap item where p: "snap = Some p" "length (adm_CapabilityKey svc) \<ge> 32" "length (StampKey svc) \<ge> 32"
    "identified cr ta spf svc p now r envelope cap item"
    using a unfolding Admit_def Let_def identified_def
    apply (simp only: r d append.simps list.inject char.inject simp_thms not_less split: if_split_asm option.split_asm sum.split_asm)
    subgoal premises prems for p envelope cap item
      by (rule prems(1) [of p "sp_Address item" cap item]) (use prems(2-) in simp_all)
    done
  show False
    using no within [OF p] a unfolding p(1) Admit_identified [OF p(2-4)] by blast
qed

section \<open>What a snapshot says of the registry\<close>

lemma fold_upd_Some:
  "fold (\<lambda>(d, item) m. m(d \<mapsto> item)) xs m k = Some item \<Longrightarrow> (k, item) \<in> set xs \<or> m k = Some item"
  by (induction xs arbitrary: m) (force split: if_splits)+

lemma load_rule_submitters: "load_rule row p = Inr p' \<Longrightarrow> snap_Submitters p' = snap_Submitters p \<and> snap_Version p' = snap_Version p"
  by (auto simp: load_rule_def Let_def split: if_splits option.splits)

lemma load_rules_submitters: "load_rules rows p = Inr p' \<Longrightarrow> snap_Submitters p' = snap_Submitters p \<and> snap_Version p' = snap_Version p"
  by (induction rows arbitrary: p) (auto simp: bind_res_Inr_iff dest!: load_rule_submitters)

lemma LoadPolicySnapshot_submitters:
  assumes "LoadPolicySnapshot s = Inr p"
  shows "snap_Submitters p = fold (\<lambda>(d, item) m. m(d \<mapsto> item)) (cap_rows s) Map.empty"
  using assms by (auto simp: LoadPolicySnapshot_def bind_res_Inr_iff split: list.splits dest!: load_rules_submitters)

lemma cap_rows_mem:
  "(k, item) \<in> set (cap_rows s) \<longleftrightarrow> (\<exists>c \<in> set (active_caps (submission_capabilities s)). \<exists>r \<in> set (submitters s).
     s_submitter_id r = c_submitter_id c \<and> k = hex_encode (c_digest c) \<and>
     item = \<lparr>sp_ID = s_submitter_id r, sp_Address = s_canonical_address r, sp_Status = s_status r,
        sp_PolicyVersion = s_policy_version r, sp_Minute = s_minute_limit r, sp_Hour = s_hour_limit r,
        sp_Day = s_day_limit r\<rparr>)"
  by (fastforce simp: cap_rows_def)

lemma snapshot_submitter:
  assumes "LoadPolicySnapshot s = Inr p" "snap_Submitters p (hex_encode d) = Some item"
  obtains c r where "c \<in> set (active_caps (submission_capabilities s))" "r \<in> set (submitters s)"
    "c_digest c = d" "c_submitter_id c = s_submitter_id r" "sp_ID item = s_submitter_id r"
    "sp_Address item = s_canonical_address r" "sp_Status item = s_status r" "sp_Minute item = s_minute_limit r"
    "sp_Hour item = s_hour_limit r" "sp_Day item = s_day_limit r"
proof -
  have "(hex_encode d, item) \<in> set (cap_rows s)"
    using fold_upd_Some [of "cap_rows s" Map.empty "hex_encode d" item] assms by (simp add: LoadPolicySnapshot_submitters)
  then show thesis unfolding cap_rows_mem using that by (auto simp: hexc.enc_eq_iff)
qed

section \<open>Soundness of admission\<close>

lemma admitted_since_append:
  "admission_events s' = admission_events s @ [e] \<Longrightarrow>
     admitted_since sid t s' = admitted_since sid t s + (if ae_submitter_id e = sid \<and> ae_admitted_at e > t then 1 else 0)"
  by (simp add: admitted_since_def)

lemma Admit_outcome:
  assumes "Admit cr ta spf svc snap id_bytes now r s = (res, s')"
  shows "outcome cr svc r id_bytes now s res s'"
  using assms
proof (cases rule: Admit_branches)
  case deferred
  then show ?thesis by (auto intro: outcome.deferred)
next
  case refused
  then show ?thesis by (rule reject_outcome)
next
  case within
  from within(5) show ?thesis by (rule admit_within_outcome(1))
qed

lemma Admit_admitted:
  assumes "Admit cr ta spf svc snap id_bytes now r s = (Admitted d, s')"
  obtains p envelope cap item where "snap = Some p" "length (adm_CapabilityKey svc) \<ge> 32" "length (StampKey svc) \<ge> 32"
    "identified cr ta spf svc p now r envelope cap item"
    "quota_room (sp_ID item) (sp_Minute item) (sp_Hour item) (sp_Day item) now s"
    "d = admitted_decision cr svc r (sp_ID item) envelope (CHR ''v'' # show_int (snap_Version p)) id_bytes now"
    "admission_events s' = admission_events s @
       [\<lparr>ae_decision_id = hex_encode id_bytes, ae_submitter_id = sp_ID item, ae_admitted_at = now\<rparr>]"
    "submission_decisions s' = submission_decisions s @
       [decision_row cr svc d r (Some (hmac cr (adm_CapabilityKey svc) cap)) now]"
  using assms
proof (cases rule: Admit_branches)
  case (refused stage reason sid v rule)
  then show ?thesis by (auto simp: reject_def Let_def split: sum.splits)
next
  case (within p envelope cap item)
  from admit_within_outcome(2) [OF within(5) refl] that [OF within(1-4)] show ?thesis by blast
qed simp

text \<open>
  C2: Nothing is admitted without an identity. If a request is admitted under a policy snapshot of
  the database, its peer and its envelope domain are not blocked, its recipient carries a capability
  whose keyed digest is that of an unrevoked capability of an active submitter, the canonical envelope
  is that submitter's address, SPF passes, and each of the three quota windows had room and holds
  at most the submitter's limit afterwards.
\<close>

theorem Admit_sound:
  assumes snap: "LoadPolicySnapshot s0 = Inr p"
    and adm: "Admit cr ta spf svc (Some p) id_bytes now r s = (Admitted d, s')"
  shows "\<exists>c sub cap.
     BlockedPeer (PeerCIDRs p) (ClientAddress r) now = None \<and>
     BlockedOuter p (Split (CHR ''@'') (dec_Envelope d) ! 1) now = None \<and>
     CanonicalAddress ta (Sender r) = Inr (dec_Envelope d) \<and>
     capability_of (Recipient r) (adm_Domain svc) = Inr cap \<and>
     c \<in> set (active_caps (submission_capabilities s0)) \<and> c_digest c = hmac cr (adm_CapabilityKey svc) cap \<and>
     sub \<in> set (submitters s0) \<and> s_submitter_id sub = c_submitter_id c \<and> s_status sub = Active \<and>
     s_canonical_address sub = dec_Envelope d \<and> dec_SubmitterID d = s_submitter_id sub \<and>
     spf (dec_Envelope d) (Helo r) (ParseIP (ClientAddress r)) = Inr ''pass'' \<and>
     int (admitted_since (s_submitter_id sub) (now - 60) s') \<le> s_minute_limit sub \<and>
     int (admitted_since (s_submitter_id sub) (now - 3600) s') \<le> s_hour_limit sub \<and>
     int (admitted_since (s_submitter_id sub) (now - 86400) s') \<le> s_day_limit sub"
proof -
  from adm obtain p' envelope cap item where p: "Some p = Some p'"
    and i: "identified cr ta spf svc p' now r envelope cap item"
    and room: "quota_room (sp_ID item) (sp_Minute item) (sp_Hour item) (sp_Day item) now s"
    and d: "d = admitted_decision cr svc r (sp_ID item) envelope (CHR ''v'' # show_int (snap_Version p')) id_bytes now"
    and ev: "admission_events s' = admission_events s @
       [\<lparr>ae_decision_id = hex_encode id_bytes, ae_submitter_id = sp_ID item, ae_admitted_at = now\<rparr>]"
    by (rule Admit_admitted)
  note i = i [unfolded identified_def, folded p [THEN option.inject [THEN iffD1]]]
  from i have "snap_Submitters p (hex_encode (hmac cr (adm_CapabilityKey svc) cap)) = Some item" by blast
  with snap obtain c sub where c: "c \<in> set (active_caps (submission_capabilities s0))" "sub \<in> set (submitters s0)"
    "c_digest c = hmac cr (adm_CapabilityKey svc) cap" "c_submitter_id c = s_submitter_id sub" "sp_ID item = s_submitter_id sub"
    "sp_Address item = s_canonical_address sub" "sp_Status item = s_status sub" "sp_Minute item = s_minute_limit sub"
    "sp_Hour item = s_hour_limit sub" "sp_Day item = s_day_limit sub"
    by (rule snapshot_submitter)
  have de: "dec_Envelope d = envelope" "dec_SubmitterID d = s_submitter_id sub"
    by (simp_all add: d admitted_decision_def Let_def c)
  have w: "int (admitted_since (s_submitter_id sub) (now - 60) s') \<le> s_minute_limit sub"
    "int (admitted_since (s_submitter_id sub) (now - 3600) s') \<le> s_hour_limit sub"
    "int (admitted_since (s_submitter_id sub) (now - 86400) s') \<le> s_day_limit sub"
    using room by (simp_all add: admitted_since_append [OF ev] quota_room_def c)
  have env: "envelope = s_canonical_address sub" "s_status sub = Active" using i c by simp_all
  from i have j: "BlockedPeer (PeerCIDRs p) (ClientAddress r) now = None"
    "BlockedOuter p (Split (CHR ''@'') envelope ! 1) now = None" "CanonicalAddress ta (Sender r) = Inr envelope"
    "capability_of (Recipient r) (adm_Domain svc) = Inr cap"
    "spf envelope (Helo r) (ParseIP (ClientAddress r)) = Inr ''pass''"
    by blast+
  show ?thesis
    unfolding de
    by (rule exI [of _ c], rule exI [of _ sub], rule exI [of _ cap],
        intro conjI c w env(2) refl j env(1) [symmetric] c(4) [symmetric])
qed

section \<open>A stamp is used once\<close>

datatype adm_op =
  DoAdmit "policy_snapshot option" string time request
| DoConsume "string list" string time

datatype adm_event = EvAdmit string | EvConsume string

text \<open>One call of the policy server or of ingress, and what it grants.\<close>

fun adm_exec :: "crypto \<Rightarrow> to_ascii \<Rightarrow> spf_check \<Rightarrow> adm_service \<Rightarrow> adm_op \<Rightarrow> db \<Rightarrow> adm_event list \<times> db" where
  "adm_exec cr ta spf svc (DoAdmit snap id_bytes now r) s =
     (case Admit cr ta spf svc snap id_bytes now r s of
        (Admitted d, s') \<Rightarrow> ([EvAdmit (dec_ID d)], s') | (_, s') \<Rightarrow> ([], s'))"
| "adm_exec cr ta spf svc (DoConsume headers queueID now) s =
     (case ConsumeStamp cr svc headers queueID now s of
        (Inr d, s') \<Rightarrow> ([EvConsume (dec_ID d)], s') | (Inl _, s') \<Rightarrow> ([], s'))"

fun adm_run :: "crypto \<Rightarrow> to_ascii \<Rightarrow> spf_check \<Rightarrow> adm_service \<Rightarrow> adm_op list \<Rightarrow> db \<Rightarrow> adm_event list \<times> db" where
  "adm_run cr ta spf svc [] s = ([], s)"
| "adm_run cr ta spf svc (op # ops) s =
     (case adm_exec cr ta spf svc op s of (e, s1) \<Rightarrow>
        (case adm_run cr ta spf svc ops s1 of (l, s2) \<Rightarrow> (e @ l, s2)))"

definition stamps_ok :: "adm_event list \<Rightarrow> db \<Rightarrow> bool" where
  "stamps_ok log s = (distinct (map sd_decision_id (submission_decisions s)) \<and>
     (\<forall>row \<in> set (submission_decisions s). sd_expires_at row \<noteq> None \<longrightarrow> EvAdmit (sd_decision_id row) \<in> set log) \<and>
     (\<forall>row \<in> set (submission_decisions s). EvConsume (sd_decision_id row) \<in> set log \<longrightarrow> sd_consumed_at row \<noteq> None) \<and>
     (\<forall>i. EvConsume i \<in> set log \<longrightarrow> i \<in> sd_decision_id ` set (submission_decisions s)))"

lemma stamps_okD:
  assumes "stamps_ok log s"
  shows "distinct (map sd_decision_id (submission_decisions s))"
    "row \<in> set (submission_decisions s) \<Longrightarrow> sd_expires_at row \<noteq> None \<Longrightarrow> EvAdmit (sd_decision_id row) \<in> set log"
    "row \<in> set (submission_decisions s) \<Longrightarrow> EvConsume (sd_decision_id row) \<in> set log \<Longrightarrow> sd_consumed_at row \<noteq> None"
    "EvConsume i \<in> set log \<Longrightarrow> i \<in> sd_decision_id ` set (submission_decisions s)"
  using assms unfolding stamps_ok_def by blast+

abbreviation consume_rows :: "string \<Rightarrow> string \<Rightarrow> time \<Rightarrow> submission_decision list \<Rightarrow> submission_decision list" where
  "consume_rows i q now \<equiv> sql_update (stamp_row i q now) (\<lambda>x. x\<lparr>sd_consumed_at := Some now\<rparr>)"

lemma find_SomeD: "find P t = Some x \<Longrightarrow> x \<in> set t \<and> P x"
  by (auto simp: find_Some_iff)

lemma scan_stamp_Inr:
  assumes "scan_stamp parts expires row = Inr d"
  shows "dec_ID d = sd_decision_id row" "sd_submitter_id row = Some (dec_SubmitterID d)"
    "dec_Envelope d = sd_envelope_sender row" "dec_Recipient d = sd_recipient row" "dec_ExpiresAt d = sd_expires_at row"
  using assms by (auto simp: scan_stamp_def split: option.splits if_splits)

lemma ConsumeStamp_cases:
  assumes "ConsumeStamp cr svc headers queueID now s = (res, s')"
  obtains (same) e where "res = Inl e" "s' = s"
  | (burnt) e i where "res = Inl e" "submission_decisions s' = consume_rows i queueID now (submission_decisions s)"
  | (used) d row where "res = Inr d" "row \<in> set (submission_decisions s)" "stamp_row (dec_ID d) queueID now row"
      "submission_decisions s' = consume_rows (dec_ID d) queueID now (submission_decisions s)"
      "sd_submitter_id row = Some (dec_SubmitterID d)" "dec_Envelope d = sd_envelope_sender row"
      "dec_Recipient d = sd_recipient row" "dec_ExpiresAt d = sd_expires_at row"
proof (cases "stamp_parts cr svc headers now")
  case (Inl e)
  then show ?thesis using assms same [of e] by (simp add: ConsumeStamp_def)
next
  case (Inr pe)
  obtain parts expires where pe: "pe = (parts, expires)" by (cases pe)
  show ?thesis
  proof (cases "find (stamp_row (parts ! 1) queueID now) (submission_decisions s)")
    case None
    with Inr pe show ?thesis using assms same [of ErrStamp] by (simp add: ConsumeStamp_def del: One_nat_def)
  next
    case (Some row)
    note row = find_SomeD [OF Some]
    then have id: "sd_decision_id row = parts ! 1" by (simp add: stamp_row_def)
    have eq: "res = scan_stamp parts expires row"
      "submission_decisions s' = consume_rows (parts ! 1) queueID now (submission_decisions s)"
      using assms unfolding ConsumeStamp_def Inr pe by (auto simp: Some simp del: One_nat_def)
    show ?thesis
    proof (cases res)
      case (Inl e)
      from burnt [OF Inl eq(2)] show ?thesis .
    next
      case (Inr d)
      note d = scan_stamp_Inr [OF eq(1) [symmetric, unfolded Inr]]
      from d(1) id have "dec_ID d = parts ! 1" by simp
      with used [OF Inr row [THEN conjunct1] _ _ d(2-5)] row eq(2) show ?thesis by (simp del: One_nat_def)
    qed
  qed
qed

lemma consume_rows_mem:
  assumes "row \<in> set (consume_rows i q now t)"
  obtains row0 where "row0 \<in> set t" "sd_decision_id row = sd_decision_id row0" "sd_expires_at row = sd_expires_at row0"
    "sd_consumed_at row = (if stamp_row i q now row0 then Some now else sd_consumed_at row0)"
proof -
  obtain row0 where r: "row0 \<in> set t" "row = (if stamp_row i q now row0 then row0\<lparr>sd_consumed_at := Some now\<rparr> else row0)"
    using assms unfolding in_sql_update_iff by blast
  show thesis
    by (rule that [OF r(1)]) (simp_all add: r(2))
qed

lemma consume_rows_keys: "map sd_decision_id (consume_rows i q now t) = map sd_decision_id t"
  by simp

lemma consume_rows_ids: "sd_decision_id ` set (consume_rows i q now t) = sd_decision_id ` set t"
  by (metis consume_rows_keys set_map)

lemma stamps_ok_burnt:
  assumes ok: "stamps_ok log s" and s': "submission_decisions s' = consume_rows i q now (submission_decisions s)"
  shows "stamps_ok log s'"
  unfolding stamps_ok_def s' consume_rows_ids consume_rows_keys
proof (intro conjI ballI impI allI)
  fix row assume r: "row \<in> set (consume_rows i q now (submission_decisions s))"
  then obtain row0 where r0: "row0 \<in> set (submission_decisions s)" "sd_decision_id row = sd_decision_id row0"
    "sd_expires_at row = sd_expires_at row0"
    "sd_consumed_at row = (if stamp_row i q now row0 then Some now else sd_consumed_at row0)"
    by (rule consume_rows_mem)
  show "EvAdmit (sd_decision_id row) \<in> set log" if "sd_expires_at row \<noteq> None"
    using that r0 stamps_okD(2) [OF ok r0(1)] by simp
  show "sd_consumed_at row \<noteq> None" if "EvConsume (sd_decision_id row) \<in> set log"
    using that r0 stamps_okD(3) [OF ok r0(1)] by simp
qed (use stamps_okD(1,4) [OF ok] in blast)+

lemma stamps_ok_used:
  assumes ok: "stamps_ok log s" and row: "row \<in> set (submission_decisions s)" "stamp_row i q now row"
    and s': "submission_decisions s' = consume_rows i q now (submission_decisions s)"
  shows "stamps_ok (log @ [EvConsume i]) s'" "EvAdmit i \<in> set log" "EvConsume i \<notin> set log"
proof -
  have r: "sd_decision_id row = i" "sd_consumed_at row = None" "sd_expires_at row \<noteq> None"
    using row(2) by (auto simp: stamp_row_def split: option.splits)
  show "EvAdmit i \<in> set log" "EvConsume i \<notin> set log"
    using stamps_okD(2,3) [OF ok row(1)] r by auto
  have one: "x = row" if "x \<in> set (submission_decisions s)" "sd_decision_id x = i" for x
    using key_inj [OF stamps_okD(1) [OF ok] that(1) row(1)] that(2) r(1) by simp
  have "sd_consumed_at x \<noteq> None" if x: "x \<in> set (submission_decisions s')" "sd_decision_id x = i" for x
    using x(1) unfolding s' by (rule consume_rows_mem) (use x(2) one row(2) in auto)
  moreover have "i \<in> sd_decision_id ` set (submission_decisions s')"
    unfolding s' consume_rows_ids using row(1) r(1) by blast
  ultimately show "stamps_ok (log @ [EvConsume i]) s'"
    using stamps_ok_burnt [OF ok s'] by (auto simp: stamps_ok_def)
qed

lemma stamps_ok_stored:
  assumes ok: "stamps_ok log s" and s': "submission_decisions s' = submission_decisions s @ [row]"
    and new: "sd_decision_id row \<notin> sd_decision_id ` set (submission_decisions s)"
    and ev: "sd_expires_at row = None \<or> EvAdmit (sd_decision_id row) \<in> set ev" "\<forall>i. EvConsume i \<notin> set ev"
  shows "stamps_ok (log @ ev) s'"
proof -
  have "EvConsume (sd_decision_id row) \<notin> set log" using stamps_okD(4) [OF ok] new by blast
  then show ?thesis using ok new ev unfolding stamps_ok_def s' by auto
qed

lemma adm_exec_stamps:
  assumes ok: "stamps_ok log s" and ex: "adm_exec cr ta spf svc op s = (ev, s')"
  shows "stamps_ok (log @ ev) s' \<and>
    (ev = [] \<or> (\<exists>i. ev = [EvAdmit i]) \<or> (\<exists>i. ev = [EvConsume i] \<and> EvAdmit i \<in> set log \<and> EvConsume i \<notin> set log))"
proof (cases op)
  case (DoAdmit snap id_bytes now r)
  obtain res t where a: "Admit cr ta spf svc snap id_bytes now r s = (res, t)" by (cases "Admit cr ta spf svc snap id_bytes now r s")
  from Admit_outcome [OF a] show ?thesis
  proof cases
    case deferred
    with a ex DoAdmit ok show ?thesis by simp
  next
    case (denied d digest)
    with a ex DoAdmit stamps_ok_stored [OF ok, of s' _ "[]"] show ?thesis by (simp add: decision_row_def)
  next
    case (admitted d sid envelope policy digest)
    have id: "sd_decision_id (decision_row cr svc d r digest now) = hex_encode id_bytes" "dec_ID d = hex_encode id_bytes"
      unfolding admitted(2) by (simp_all add: decision_row_def admitted_decision_def Let_def)
    have ev: "ev = [EvAdmit (hex_encode id_bytes)]" "s' = t" using a ex admitted(1) id(2) DoAdmit by simp_all
    show ?thesis
      using stamps_ok_stored [OF ok admitted(4), unfolded id, OF admitted(3), of ev] by (simp add: ev)
  qed
next
  case (DoConsume headers queueID now)
  obtain res t where c: "ConsumeStamp cr svc headers queueID now s = (res, t)" by (cases "ConsumeStamp cr svc headers queueID now s")
  from c show ?thesis
  proof (cases rule: ConsumeStamp_cases)
    case same
    with c ex DoConsume ok show ?thesis by simp
  next
    case (burnt e i)
    with c ex DoConsume stamps_ok_burnt [OF ok burnt(2)] show ?thesis by simp
  next
    case (used d row)
    have ev: "ev = [EvConsume (dec_ID d)]" "s' = t" using c ex used(1) DoConsume by simp_all
    with stamps_ok_used [OF ok used(2-4)] show ?thesis by blast
  qed
qed

lemma adm_run_stamps:
  assumes "stamps_ok log s" "fst (adm_run cr ta spf svc ops s) = xs @ EvConsume i # ys"
  shows "EvAdmit i \<in> set (log @ xs) \<and> EvConsume i \<notin> set (log @ xs)"
  using assms
proof (induction ops arbitrary: log s xs)
  case (Cons op ops)
  obtain ev s1 where ex: "adm_exec cr ta spf svc op s = (ev, s1)" by (cases "adm_exec cr ta spf svc op s")
  have log: "ev @ fst (adm_run cr ta spf svc ops s1) = xs @ EvConsume i # ys"
    using Cons.prems(2) ex by (simp add: case_prod_beta)
  note st = adm_exec_stamps [OF Cons.prems(1) ex]
  show ?case
  proof (cases "length xs < length ev")
    case True
    with st log have "xs = []" "ev = [EvConsume i]" by (auto simp: append_eq_Cons_conv)
    with st show ?thesis by simp
  next
    case False
    with log obtain zs where zs: "xs = ev @ zs" "fst (adm_run cr ta spf svc ops s1) = zs @ EvConsume i # ys"
      by (auto simp: append_eq_append_conv2 append_eq_Cons_conv)
    from Cons.IH [OF st [THEN conjunct1] zs(2)] show ?thesis by (simp add: zs(1))
  qed
qed simp

text \<open>
  C13: A stamp authorises one message. In every sequence of admissions and ingress calls on a new
  database, whatever headers, queue ids and clocks they come with, each accepted stamp names a
  decision that was admitted before and whose stamp was not accepted before.
\<close>

theorem stamp_once:
  assumes "submission_decisions s = []"
    and "fst (adm_run cr ta spf svc ops s) = xs @ EvConsume i # ys"
  shows "EvAdmit i \<in> set xs \<and> EvConsume i \<notin> set xs"
  using adm_run_stamps [of "[]", OF _ assms(2)] assms(1) by (simp add: stamps_ok_def)

section \<open>Refusals\<close>

text \<open>
  A refusal spends nothing. A deferred request leaves the database as it was; a denied one
  stores one decision under a new identifier, uses no quota, and no header list and no queue id
  ever makes ingress accept it.
\<close>

theorem refusal_inert:
  assumes "Admit cr ta spf svc snap id_bytes now r s = (res, s')" "\<forall>d. res \<noteq> Admitted d"
  shows "admission_events s' = admission_events s \<and> (res = Deferred \<longrightarrow> s' = s) \<and>
    (\<forall>d. res = Denied d \<longrightarrow> (\<exists>row. submission_decisions s' = submission_decisions s @ [row] \<and>
       sd_decision_id row = dec_ID d \<and> dec_ID d \<notin> sd_decision_id ` set (submission_decisions s) \<and>
       (\<forall>headers q t d' s''. ConsumeStamp cr svc headers q t s' = (Inr d', s'') \<longrightarrow> dec_ID d' \<noteq> dec_ID d)))"
  using Admit_outcome [OF assms(1)]
proof cases
  case (denied d digest)
  let ?row = "decision_row cr svc d r digest now"
  have id: "sd_decision_id ?row = dec_ID d" "sd_expires_at ?row = None" using denied by (simp_all add: decision_row_def)
  have "dec_ID d' \<noteq> dec_ID d" if c: "ConsumeStamp cr svc headers q t s' = (Inr d', s'')" for headers q t d' s''
    using c
  proof (cases rule: ConsumeStamp_cases)
    case (used d2 row2)
    have "sd_decision_id row2 = dec_ID d'" "sd_expires_at row2 \<noteq> None"
      using used(1,3) by (auto simp: stamp_row_def split: option.splits)
    with used(2) denied(3,7) id show ?thesis by (auto simp: image_iff)
  qed auto
  with denied id show ?thesis by (simp add: exI [of _ ?row]) blast
qed (use assms(2) in auto)

section \<open>Stamps round trip\<close>

lemma no_bar [simp]: "\<not> is_hex_char (CHR ''|'')" "\<not> is_decimal_char (CHR ''|'')"
  by (simp_all add: is_hex_char_def is_decimal_char_def Let_def)

lemma b64_not_space: "is_b64_char c \<Longrightarrow> \<not> is_space c"
  by (auto simp: is_b64_char_def b64_value_def is_space_def Let_def split: if_splits)

lemma dropWhile_none: "\<forall>c \<in> set s. \<not> P c \<Longrightarrow> dropWhile P s = s"
  by (cases s) auto

lemma TrimSpace_padded: "\<forall>c \<in> set s. \<not> is_space c \<Longrightarrow> TrimSpace (CHR '' '' # s) = s"
  by (simp add: TrimSpace_def dropWhile_none is_space_def)

lemma stamp_of_chars: "c \<in> set (stamp_of cr svc d r) \<Longrightarrow> is_b64_char c \<or> c = CHR ''.''"
  using b64c.enc_alphabet [OF TrueI] by (auto simp: stamp_of_def)

definition stamp_line :: "string \<Rightarrow> string" where
  "stamp_line stamp = ''X-Mailproof-Admission: '' @ stamp"

lemma stamp_header_line:
  assumes "length (stamp_of cr svc d r) < 2048"
  shows "stamp_header [stamp_line (stamp_of cr svc d r)] [] = Inr (stamp_of cr svc d r)"
proof -
  have "\<not> is_space c" if "c \<in> set (stamp_of cr svc d r)" for c
    using stamp_of_chars [OF that] by (elim disjE) (erule b64_not_space, simp add: is_space_def)
  then have "TrimSpace (CHR '' '' # stamp_of cr svc d r) = stamp_of cr svc d r"
    by (simp add: TrimSpace_padded)
  moreover have "EqualFold (TrimSpace ''X-Mailproof-Admission'') ''X-Mailproof-Admission''"
    by code_simp
  ultimately show ?thesis using assms by (simp add: stamp_line_def)
qed

lemma stamp_parts_line:
  assumes "length (stamp_of cr svc d r) < 2048" "length (hmac cr (StampKey svc) (stamp_payload d r)) = 32"
  shows "stamp_parts cr svc [stamp_line (stamp_of cr svc d r)] now =
    (let parts = Split (CHR ''|'') (stamp_payload d r) in
     if length parts \<noteq> 10 \<or> parts ! 0 \<noteq> ''v1'' then Inl ErrStamp
     else (case ParseInt (parts ! 9) of None \<Rightarrow> Inl ErrStamp
       | Some expires \<Rightarrow> if expires < now then Inl ErrStamp else Inr (parts, expires)))"
proof -
  let ?m = "hmac cr (StampKey svc) (stamp_payload d r)"
  have ne: "stamp_of cr svc d r \<noteq> []" by (simp add: stamp_of_def)
  have cut: "Cut (CHR ''.'') (stamp_of cr svc d r) = Some (b64_encode (stamp_payload d r), b64_encode ?m)"
    unfolding stamp_of_def using b64c.Cut_enc [OF TrueI dot_not_b64] by simp
  have dot: "CHR ''.'' \<notin> set (b64_encode ?m)" by (rule b64c.not_in_enc [OF TrueI dot_not_b64])
  have must: "mustDecode (b64_encode ?m) = ?m" using assms(2) by (simp add: mustDecode_def b64c.dec_enc)
  show ?thesis
    unfolding stamp_parts_def stamp_header_line [OF assms(1)] bind_res_simps
    by (simp only: ne cut dot must b64c.dec_enc if_False option.case prod.case simp_thms)
qed

definition no_bars :: "decision \<Rightarrow> request \<Rightarrow> bool" where
  "no_bars d r = (\<forall>x \<in> set [dec_SubmitterID d, dec_Envelope d, dec_Recipient d, ClientAddress r, Helo r]. CHR ''|'' \<notin> set x)"

lemma admitted_decision_fields:
  assumes "d = admitted_decision cr svc r sid envelope policy id_bytes now"
  shows "dec_ID d = hex_encode id_bytes" "dec_SubmitterID d = sid" "dec_Envelope d = envelope" "dec_Recipient d = Recipient r"
    "dec_SPF d = ''pass''" "dec_PolicyVersion d = policy" "dec_ExpiresAt d = Some (now + 600)"
    "dec_Stamp d = stamp_of cr svc d r"
  using assms by (simp_all add: admitted_decision_def Let_def stamp_of_def stamp_payload_def)

lemma Split_payload:
  assumes "d = admitted_decision cr svc r sid envelope (CHR ''v'' # show_int v) id_bytes now" "no_bars d r"
    "int64_ok v" "int64_ok (now + 600)"
  shows "Split (CHR ''|'') (stamp_payload d r) = [''v1'', dec_ID d, dec_SubmitterID d, dec_Envelope d, dec_Recipient d,
     ClientAddress r, Helo r, ''pass'', dec_PolicyVersion d, show_int (now + 600)]"
proof -
  note d = admitted_decision_fields [OF assms(1)]
  have "CHR ''|'' \<notin> set (hex_encode id_bytes)" by (rule hexc.not_in_enc) simp_all
  moreover have "CHR ''|'' \<notin> set (show_int v)" "CHR ''|'' \<notin> set (show_int (now + 600))"
    by (rule decc.not_in_enc; simp add: assms(3,4))+
  ultimately show ?thesis
    unfolding stamp_payload_def d option.case
    by (intro Split_Join) (use assms(2) in \<open>simp_all add: no_bars_def d\<close>)
qed

lemma Admit_fresh:
  assumes "Admit cr ta spf svc snap id_bytes now r s = (Admitted d, s')"
  shows "hex_encode id_bytes \<notin> sd_decision_id ` set (submission_decisions s)"
  using Admit_outcome [OF assms] by blast

lemma find_last: "\<forall>x \<in> set t. \<not> P x \<Longrightarrow> P row \<Longrightarrow> find P (t @ [row]) = Some row"
  by (induction t) auto

lemma stamp_accepted:
  assumes adm: "Admit cr ta spf svc (Some p) id_bytes now r s = (Admitted d, s')"
    and fields: "no_bars d r" "dec_SubmitterID d \<noteq> []" "length (dec_Stamp d) < 2048"
    and mac: "\<And>k m. length (hmac cr k m) = 32"
    and range: "int64_ok (snap_Version p)" "int64_ok (now + 600)"
    and t: "t \<le> now + 600"
  shows "\<exists>d' s''. ConsumeStamp cr svc [stamp_line (dec_Stamp d)] (QueueID r) t s' = (Inr d', s'') \<and>
     dec_ID d' = dec_ID d \<and> dec_SubmitterID d' = dec_SubmitterID d \<and> dec_Envelope d' = dec_Envelope d \<and>
     dec_Recipient d' = dec_Recipient d \<and> dec_ExpiresAt d' = dec_ExpiresAt d"
proof -
  from adm obtain p' envelope cap item where p: "Some p = Some p'"
    and "identified cr ta spf svc p' now r envelope cap item"
    and d: "d = admitted_decision cr svc r (sp_ID item) envelope (CHR ''v'' # show_int (snap_Version p')) id_bytes now"
    and sd: "submission_decisions s' = submission_decisions s @
       [decision_row cr svc d r (Some (hmac cr (adm_CapabilityKey svc) cap)) now]"
    by (rule Admit_admitted)
  let ?row = "decision_row cr svc d r (Some (hmac cr (adm_CapabilityKey svc) cap)) now"
  let ?parts = "[''v1'', dec_ID d, dec_SubmitterID d, dec_Envelope d, dec_Recipient d,
     ClientAddress r, Helo r, ''pass'', dec_PolicyVersion d, show_int (now + 600)]"
  note f = admitted_decision_fields [OF d]
  from p range(1) have "int64_ok (snap_Version p')" by simp
  from Split_payload [OF d fields(1) this range(2)]
  have split: "Split (CHR ''|'') (stamp_payload d r) = ?parts" .
  have parts: "stamp_parts cr svc [stamp_line (dec_Stamp d)] t = Inr (?parts, now + 600)"
    unfolding f(8) using stamp_parts_line [of cr svc d r t] fields(3) mac t decc.dec_enc [OF range(2)]
    unfolding f(8) split by simp
  have "\<not> stamp_row (dec_ID d) (QueueID r) t x" if "x \<in> set (submission_decisions s)" for x
    using Admit_fresh [OF adm] that by (auto simp: stamp_row_def f(1) image_iff)
  moreover have "stamp_row (dec_ID d) (QueueID r) t ?row" using t f(7) by (simp add: stamp_row_def decision_row_def)
  ultimately have find: "find (stamp_row (dec_ID d) (QueueID r) t) (submission_decisions s') = Some ?row"
    unfolding sd by (intro find_last) blast+
  have scan: "\<exists>d'. scan_stamp ?parts (now + 600) ?row = Inr d' \<and> dec_ID d' = dec_ID d \<and> dec_SubmitterID d' = dec_SubmitterID d \<and>
      dec_Envelope d' = dec_Envelope d \<and> dec_Recipient d' = dec_Recipient d \<and> dec_ExpiresAt d' = dec_ExpiresAt d"
    using fields(2) f(5,7) by (simp add: scan_stamp_def decision_row_def nilOr_def)
  show ?thesis
    unfolding ConsumeStamp_def parts using scan find by auto
qed

text \<open>
  Ingress reads at most 2048 bytes after the colon, one of them the space of the prepended line. The
  stamp encodes the whole envelope, so its length grows with the sender and the HELO name.
\<close>

lemma stamp_refused_long:
  assumes "2048 \<le> length (stamp_of cr svc d r)"
  shows "ConsumeStamp cr svc' [stamp_line (stamp_of cr svc d r)] q t s = (Inl ErrStamp, s)"
proof -
  have "EqualFold (TrimSpace ''X-Mailproof-Admission'') ''X-Mailproof-Admission''"
    by code_simp
  then show ?thesis using assms by (simp add: ConsumeStamp_def stamp_parts_def stamp_line_def)
qed

lemma stamp_length:
  assumes "length (hmac cr (StampKey svc) (stamp_payload d r)) = 32"
  shows "length (stamp_of cr svc d r) = (4 * length (stamp_payload d r) + 2) div 3 + 44"
  using assms by (simp add: stamp_of_def length_b64_encode)

text \<open>
  C31: Which stamps are accepted. When a request is admitted and no field of it contains the stamp's
  separator (the submitter has an identifier, a message code has 32 bytes, version and times fit in 64 bits), then until the stamp expires and under the same queue id ingress accepts the header the policy server prepends exactly when the stamp,
  which encodes the envelope and the HELO name, has fewer than 2048 characters. An accepted stamp gives back the decision's identifier, submitter,
  envelope and recipient; a longer one is refused although the message was admitted, and no row changes.
\<close>

theorem stamp_roundtrip:
  assumes adm: "Admit cr ta spf svc (Some p) id_bytes now r s = (Admitted d, s')"
    and fields: "no_bars d r" "dec_SubmitterID d \<noteq> []"
    and mac: "\<And>k m. length (hmac cr k m) = 32"
    and range: "int64_ok (snap_Version p)" "int64_ok (now + 600)"
    and t: "t \<le> now + 600"
  shows "length (dec_Stamp d) = (4 * length (stamp_payload d r) + 2) div 3 + 44 \<and>
    (if length (dec_Stamp d) < 2048 then
       \<exists>d' s''. ConsumeStamp cr svc [stamp_line (dec_Stamp d)] (QueueID r) t s' = (Inr d', s'') \<and>
         dec_ID d' = dec_ID d \<and> dec_SubmitterID d' = dec_SubmitterID d \<and> dec_Envelope d' = dec_Envelope d \<and>
         dec_Recipient d' = dec_Recipient d \<and> dec_ExpiresAt d' = dec_ExpiresAt d
     else ConsumeStamp cr svc [stamp_line (dec_Stamp d)] (QueueID r) t s' = (Inl ErrStamp, s'))"
proof -
  from adm obtain sid envelope policy where "d = admitted_decision cr svc r sid envelope policy id_bytes now"
    by (rule Admit_admitted) blast
  note f = admitted_decision_fields [OF this]
  have "ConsumeStamp cr svc [stamp_line (dec_Stamp d)] (QueueID r) t s' = (Inl ErrStamp, s')" if "\<not> length (dec_Stamp d) < 2048"
    using stamp_refused_long [of cr svc d r svc "QueueID r" t s'] that f(8) by simp
  then show ?thesis using stamp_accepted [OF adm fields _ mac range t] stamp_length [OF mac, where d = d and r = r and svc = svc] f(8) by auto
qed

text \<open>A HELO name with the separator in it gives an admitted message whose stamp is never accepted.\<close>

lemma bar_in_helo_unusable:
  assumes "Admit cr ta spf svc snap id_bytes now r s = (Admitted d, s')" "CHR ''|'' \<in> set (Helo r)"
    and "length (dec_Stamp d) < 2048" "length (hmac cr (StampKey svc) (stamp_payload d r)) = 32"
  shows "ConsumeStamp cr svc [stamp_line (dec_Stamp d)] q t s' = (Inl ErrStamp, s')"
proof -
  from assms(1) obtain sid envelope policy where "d = admitted_decision cr svc r sid envelope policy id_bytes now"
    by (rule Admit_admitted) blast
  note f = admitted_decision_fields [OF this]
  have "count_list (Helo r) (CHR ''|'') > 0" using assms(2) by (metis count_list_0_iff neq0_conv)
  then have "length (Split (CHR ''|'') (stamp_payload d r)) \<noteq> 10"
    unfolding length_Split stamp_payload_def by simp
  with stamp_parts_line [of cr svc d r t] assms(3,4) show ?thesis by (simp add: ConsumeStamp_def f(8))
qed

section \<open>The protocol with Postfix\<close>

lemma stamp_of_no_newline: "CHR 0x0A \<notin> set (stamp_of cr svc d r)"
proof
  assume "CHR 0x0A \<in> set (stamp_of cr svc d r)"
  from stamp_of_chars [OF this] show False by (simp add: is_b64_char_def b64_value_def Let_def)
qed

text \<open>
  Whatever bytes a client sends, the policy server answers with one action line followed by an
  empty line; the line prepends a header only when the parsed request is admitted, and then the header
  is that decision's stamp and nothing else.
\<close>

theorem handle_response:
  "\<exists>action. fst (handle cr ta spf svc snap id_bytes now eof input s) = action @ [CHR 0x0A, CHR 0x0A] \<and>
     CHR 0x0A \<notin> set action \<and>
     (HasPrefix action ''action=PREPEND'' \<longleftrightarrow> (\<exists>raw r d s'.
        read_request (eof \<or> length input > 16384) [] (take 16385 input) = Some raw \<and> ParseRequest raw = Inr r \<and>
        Admit cr ta spf svc snap id_bytes now r s = (Admitted d, s') \<and>
        action = ''action=PREPEND '' @ stamp_line (dec_Stamp d)))"
proof (cases "read_request (eof \<or> length input > 16384) [] (take 16385 input)")
  case None
  then show ?thesis by (simp add: handle_def respond_def newline_def HasPrefix_def)
next
  case (Some raw)
  show ?thesis
  proof (cases "ParseRequest raw")
    case (Inl e)
    with Some show ?thesis by (simp add: handle_def respond_def newline_def HasPrefix_def)
  next
    case (Inr r)
    obtain res s' where a: "Admit cr ta spf svc snap id_bytes now r s = (res, s')"
      by (cases "Admit cr ta spf svc snap id_bytes now r s")
    show ?thesis
    proof (cases res)
      case (Admitted d)
      from a Admitted have "dec_Stamp d = stamp_of cr svc d r"
        by (auto elim!: Admit_admitted intro: admitted_decision_fields(8))
      then have "CHR 0x0A \<notin> set (dec_Stamp d)" using stamp_of_no_newline by simp
      with Some Inr a Admitted show ?thesis
        by (simp add: handle_def respond_def newline_def HasPrefix_def stamp_line_def)
    qed (use Some Inr a in \<open>simp_all add: handle_def respond_def newline_def HasPrefix_def\<close>)
  qed
qed

lemma set_attribute_bound:
  assumes "length v \<le> n" "\<forall>x \<in> {RequestType r, Instance r, QueueID r, ProtocolState r, ClientAddress r, Helo r, Sender r, Recipient r}. length x \<le> n"
  shows "\<forall>x \<in> {RequestType (set_attribute k v r), Instance (set_attribute k v r), QueueID (set_attribute k v r),
    ProtocolState (set_attribute k v r), ClientAddress (set_attribute k v r), Helo (set_attribute k v r),
    Sender (set_attribute k v r), Recipient (set_attribute k v r)}. length x \<le> n"
  using assms by (simp add: set_attribute_def)

definition attribute_keys :: "string \<Rightarrow> string list" where
  "attribute_keys raw = map (\<lambda>l. case Cut (CHR ''='') (TrimSuffix l [CHR 0x0D]) of None \<Rightarrow> [] | Some (k, v) \<Rightarrow> k)
     (filter (\<lambda>l. TrimSuffix l [CHR 0x0D] \<noteq> []) (Split (CHR 0x0A) raw))"

lemma parse_lines_keys:
  assumes "parse_lines ls seen r = Inr r'" "distinct seen"
  shows "distinct (rev seen @ map (\<lambda>l. case Cut (CHR ''='') (TrimSuffix l [CHR 0x0D]) of None \<Rightarrow> [] | Some (k, v) \<Rightarrow> k)
     (filter (\<lambda>l. TrimSuffix l [CHR 0x0D] \<noteq> []) ls))"
  using assms
proof (induction ls seen r rule: parse_lines.induct)
  case (2 l ls seen r)
  show ?case
  proof (cases "TrimSuffix l [CHR 0x0D] = []")
    case True
    with 2 show ?thesis by simp
  next
    case False
    then obtain k v where kv: "Cut (CHR ''='') (TrimSuffix l [CHR 0x0D]) = Some (k, v)" "k \<notin> set seen"
      "parse_lines ls (k # seen) (set_attribute k v r) = Inr r'"
      using 2(3) by (auto simp: Let_def split: option.splits if_splits)
    have "distinct (rev (k # seen) @ map (\<lambda>l. case Cut (CHR ''='') (TrimSuffix l [CHR 0x0D]) of None \<Rightarrow> [] | Some (k, v) \<Rightarrow> k)
       (filter (\<lambda>l. TrimSuffix l [CHR 0x0D] \<noteq> []) ls))"
      using 2(3) 2(4) False kv by (intro 2(2) [OF refl False kv(1) refl]) auto
    with False kv(1) show ?thesis by simp
  qed
qed simp

definition fields_of :: "request \<Rightarrow> string list" where
  "fields_of r = [RequestType r, Instance r, QueueID r, ProtocolState r, ClientAddress r, Helo r, Sender r, Recipient r]"

lemma parse_lines_bound:
  assumes "parse_lines ls seen r = Inr r'" "\<forall>x \<in> set (fields_of r). length x \<le> 1024"
  shows "\<forall>x \<in> set (fields_of r'). length x \<le> 1024"
  using assms
proof (induction ls seen r rule: parse_lines.induct)
  case (2 l ls seen r)
  show ?case
  proof (cases "TrimSuffix l [CHR 0x0D] = []")
    case True
    with 2 show ?thesis by simp
  next
    case False
    then obtain k v where kv: "Cut (CHR ''='') (TrimSuffix l [CHR 0x0D]) = Some (k, v)" "length v \<le> 1024"
      "\<not> (k = [] \<or> length v > 1024 \<or> k \<in> set seen)" "parse_lines ls (k # seen) (set_attribute k v r) = Inr r'"
      using 2(3) by (auto simp: Let_def split: option.splits if_splits)
    from 2(4) kv(2) have "\<forall>x \<in> set (fields_of (set_attribute k v r)). length x \<le> 1024"
      by (simp add: fields_of_def set_attribute_def)
    from 2(2) [OF refl False kv(1) refl kv(3,4) this] show ?thesis .
  qed
qed (simp add: fields_of_def)

text \<open>
  C33: An accepted policy request is small and unambiguous: at most 16384 bytes, no attribute
  given twice, every field at most 1024 bytes, with sender, recipient and protocol state present and a
  client address that is an IP address.
\<close>

theorem ParseRequest_bounds:
  assumes "ParseRequest raw = Inr r"
  shows "length raw \<le> 16384 \<and> distinct (attribute_keys raw) \<and> (\<forall>x \<in> set (fields_of r). length x \<le> 1024) \<and>
    RequestType r = ''smtpd_access_policy'' \<and> ProtocolState r \<noteq> [] \<and> Sender r \<noteq> [] \<and> Recipient r \<noteq> [] \<and>
    ParseIP (ClientAddress r) \<noteq> None"
proof -
  have p: "length raw \<le> 16384" "parse_lines (Split (CHR 0x0A) raw) [] empty_request = Inr r"
    "RequestType r = ''smtpd_access_policy'' \<and> ProtocolState r \<noteq> [] \<and> Sender r \<noteq> [] \<and> Recipient r \<noteq> [] \<and>
     ParseIP (ClientAddress r) \<noteq> None"
    using assms by (auto simp: ParseRequest_def bind_res_Inr_iff split: if_splits)
  have "\<forall>x \<in> set (fields_of empty_request). length x \<le> 1024" by (simp add: fields_of_def empty_request_def)
  from parse_lines_bound [OF p(2) this] parse_lines_keys [OF p(2)] p(1,3) show ?thesis
    by (simp add: attribute_keys_def)
qed

section \<open>Preflight\<close>

lemma BlockedSubject_Some: "BlockedSubject p domain now \<noteq> None \<longleftrightarrow>
  (\<exists>rule. SubjectDomains p (ToLower domain) = Some rule \<and> rule_Active rule now)"
  by (auto simp: BlockedSubject_def split: option.splits)

text \<open>
  A selected subject passes the managed preflight exactly when its From is a canonical address
  whose domain is on the configured allowlist (if one is configured), no active rule blocks the domain,
  and some active managed allow rule matches it (if the policy has any); a block wins over every allow.
\<close>

theorem Preflight_iff:
  "pf_Allowed (Preflight ta (Some p) from allowlist now) \<longleftrightarrow>
     (\<exists>canonical domain. CanonicalAddress ta from = Inr canonical \<and>
        domain = (case Cut (CHR ''@'') canonical of None \<Rightarrow> [] | Some (l, d) \<Rightarrow> d) \<and>
        (allowlist = [] \<or> (\<exists>a \<in> set allowlist. allow_matches domain a)) \<and>
        \<not> (\<exists>rule. SubjectDomains p (ToLower domain) = Some rule \<and> rule_Active rule now) \<and>
        (SubjectAllow p = [] \<or> (\<exists>a \<in> set (SubjectAllow p). domain_rule_matches domain now a)))"
proof (cases "CanonicalAddress ta from")
  case (Inl e)
  then show ?thesis by (simp add: Preflight_def SubjectAllowed_def SelectedSubjectAllowed_def)
next
  case (Inr canonical)
  define domain where "domain = (case Cut (CHR ''@'') canonical of None \<Rightarrow> [] | Some (l, d) \<Rightarrow> d)"
  have sel: "SelectedSubjectAllowed ta from allowlist =
      (domain, allowlist = [] \<or> (\<exists>a \<in> set allowlist. allow_matches domain a))"
    by (simp add: SelectedSubjectAllowed_def Inr domain_def list_ex_iff Let_def)
  have "pf_Allowed (Preflight ta (Some p) from allowlist now) \<longleftrightarrow>
     (allowlist = [] \<or> (\<exists>a \<in> set allowlist. allow_matches domain a)) \<and> BlockedSubject p domain now = None \<and>
     (SubjectAllow p = [] \<or> find (domain_rule_matches domain now) (SubjectAllow p) \<noteq> None)"
    by (simp add: Preflight_def SubjectAllowed_def sel split: option.split)
  also have "\<dots> \<longleftrightarrow> (allowlist = [] \<or> (\<exists>a \<in> set allowlist. allow_matches domain a)) \<and>
     \<not> (\<exists>rule. SubjectDomains p (ToLower domain) = Some rule \<and> rule_Active rule now) \<and>
     (SubjectAllow p = [] \<or> (\<exists>a \<in> set (SubjectAllow p). domain_rule_matches domain now a))"
    using BlockedSubject_Some [of p domain now] by (auto simp: find_None_iff)
  finally show ?thesis by (simp add: Inr domain_def)
qed

section \<open>The legacy policy file\<close>

lemma import_lines_Inr:
  assumes "import_lines ta now rows s = Inr s'"
  shows "policy_bootstrap s' = policy_bootstrap s \<and> policy_versions s' = policy_versions s \<and>
    map pr_value (policy_rules s') = map pr_value (policy_rules s) @ map snd rows"
  using assms
proof (induction rows arbitrary: s)
  case (Cons row rows)
  obtain rid line where row: "row = (rid, line)" by (cases row)
  obtain s1 where s1: "insert_policy_rule \<lparr>pr_rule_id = rid, pr_version = 1, pr_rule_type = ''subject_allowlist_put'',
      pr_subject = [], pr_value = line, pr_enabled = True, pr_expires_at = None, pr_created_at = now\<rparr> s = Inr s1"
    "import_lines ta now rows s1 = Inr s'"
    using Cons.prems by (auto simp: row bind_res_Inr_iff split: if_splits)
  from Cons.IH [OF s1(2)] s1(1) show ?case by (auto simp: row insert_policy_rule_def)
qed simp

text \<open>
  The legacy policy file is imported at most once: an import into a database without managed
  policy adds one allow rule per policy line of the file, in order, and after it every further import,
  of any file, changes nothing.
\<close>

theorem BootstrapImport_once:
  assumes "BootstrapImport cr ta raw ids now s = Inr s'" "policy_bootstrap s = None"
    and "\<forall>v \<in> set (policy_versions s). pv_version v \<le> 0"
  shows "map pr_value (policy_rules s') = map pr_value (policy_rules s) @ policy_lines raw \<and>
    (\<forall>raw' ids' now'. BootstrapImport cr ta raw' ids' now' s' = Inr s')"
proof (intro conjI allI)
  have none: "sql_count (\<lambda>v. pv_version v > 0) (policy_versions s) = 0" using assms(3) by (auto simp: not_less)
  obtain s1 s2 where s1: "insert_policy_version \<lparr>pv_version = 1, pv_created_at = now,
        pv_command_id = ''bootstrap-import'', pv_digest = hex_encode (sha256 cr raw)\<rparr> s = Inr s1"
    and s2: "import_lines ta now (map (\<lambda>(i, l). (ids i, l)) (enumerate 0 (policy_lines raw))) s1 = Inr s2"
    and s': "s' = s2\<lparr>policy_bootstrap := Some (now, hex_encode (sha256 cr raw))\<rparr>"
    using assms(1,2) none unfolding BootstrapImport_def Let_def by (auto simp: bind_res_Inr_iff)
  have rules: "policy_rules s1 = policy_rules s" using s1 by (auto simp: insert_policy_version_def)
  have "map snd (map (\<lambda>(i, l). (ids i, l)) (enumerate 0 (policy_lines raw))) = policy_lines raw"
    by (simp add: enumerate_eq_zip case_prod_beta comp_def flip: snd_def)
  with import_lines_Inr [OF s2] rules show "map pr_value (policy_rules s') = map pr_value (policy_rules s) @ policy_lines raw"
    by (simp add: s')
  show "BootstrapImport cr ta raw' ids' now' s' = Inr s'" for raw' ids' now' by (simp add: BootstrapImport_def s')
qed

section \<open>Completeness of admission\<close>

lemma store_decision_total:
  assumes "dec_ID d \<notin> sd_decision_id ` set (submission_decisions s)" "dec_ID d \<noteq> []"
    and "dec_SubmitterID d = [] \<or> dec_SubmitterID d \<in> s_submitter_id ` set (submitters s)"
  shows "\<exists>s'. store_decision cr svc d r digest now s = Inr s'"
proof -
  let ?row = "decision_row cr svc d r digest now"
  let ?s1 = "s\<lparr>submission_decisions := submission_decisions s @ [?row]\<rparr>"
  have 1: "insert_submission_decision ?row s = Inr ?s1"
    using assms by (auto simp: insert_submission_decision_def fresh_def parent_opt_def parent_def decision_row_def nilOr_def)
  have 2: "\<exists>s2. insert_decision_record dr ?s1 = Inr s2 \<and> dr_decision_id dr \<in> dr_decision_id ` set (decision_records s2)"
    if "dr_decision_id dr = dec_ID d" "dr_outcome dr \<in> {''admitted'', ''rejected''}" "dr_notarization_status dr = ''queued''"
      "dr_delivery_id dr = None" for dr
    using that by (auto simp: insert_decision_record_def fresh_def parent_def parent_opt_def decision_row_def)
  have 3: "\<exists>s3. insert_signing_item ob s2 = Inr s3" if "ob_decision_id ob \<in> dr_decision_id ` set (decision_records s2)" for ob s2
    using that by (auto simp: insert_signing_item_def parent_def)
  have out: "decisionOutcome (dec_Reason d) \<in> {''admitted'', ''rejected''}" by (simp add: decisionOutcome_def)
  have 4: "\<exists>s4. eventTx cr ''admission'' ''decision'' (dec_ID d) ''admission_decision'' (decisionOutcome (dec_Reason d)) now s3 = Inr s4" for s3
    using out assms(2) by (intro eventTx_total) (auto simp: analytics_allowed_def)
  let ?dr = "\<lparr>dr_decision_id = dec_ID d, dr_submission_id = None, dr_delivery_id = None,
         dr_submitter_id = nilOr (dec_SubmitterID d), dr_occurred_at = now,
         dr_outcome = decisionOutcome (dec_Reason d), dr_stage = dec_Stage d, dr_reason_code = dec_Reason d,
         dr_policy_version = dec_PolicyVersion d, dr_selected_subject_domain = [], dr_applied_rule_id = dec_PolicyRuleID d,
         dr_smtp_class = smtpClass (dec_Reason d), dr_canonical_json = decision_json d now,
         dr_canonical_digest = hex_encode (sha256 cr (decision_json d now)), dr_notarization_status = ''queued''\<rparr>"
  obtain s2 where s2: "insert_decision_record ?dr ?s1 = Inr s2" "dec_ID d \<in> dr_decision_id ` set (decision_records s2)"
    using 2 [of ?dr] out by auto
  obtain s3 where s3: "insert_signing_item \<lparr>ob_decision_id = dec_ID d, ob_state = ''pending'', ob_created_at = now\<rparr> s2 = Inr s3"
    using 3 [of "\<lparr>ob_decision_id = dec_ID d, ob_state = ''pending'', ob_created_at = now\<rparr>" s2] s2(2) by auto
  show ?thesis using 4 [of s3] by (simp add: store_decision_def 1 s2(1) s3)
qed

lemma admit_within_total:
  assumes room: "quota_room sid minute hour day now s"
    and new: "hex_encode id_bytes \<notin> sd_decision_id ` set (submission_decisions s)"
      "hex_encode id_bytes \<notin> ae_decision_id ` set (admission_events s)" "id_bytes \<noteq> []"
    and sid: "sid \<in> s_submitter_id ` set (submitters s)"
  shows "\<exists>s'. admit_within cr svc r sid envelope policy digest minute hour day id_bytes now s =
    (Admitted (admitted_decision cr svc r sid envelope policy id_bytes now), s')"
proof -
  let ?d = "admitted_decision cr svc r sid envelope policy id_bytes now"
  note f = admitted_decision_fields [OF refl, of cr svc r sid envelope policy id_bytes now]
  let ?e = "\<lparr>ae_decision_id = dec_ID ?d, ae_submitter_id = sid, ae_admitted_at = now\<rparr>"
  have ne: "hex_encode id_bytes \<noteq> []" using new(3) by (cases id_bytes) simp_all
  obtain u where u: "store_decision cr svc ?d r (Some digest) now s = Inr u"
    using store_decision_total [of ?d s cr svc r "Some digest" now] new(1) ne sid by (auto simp: f)
  note st = store_decision_Inr [OF u]
  have "insert_admission_event ?e u = Inr (u\<lparr>admission_events := admission_events u @ [?e]\<rparr>)"
    using new(2) sid by (simp add: insert_admission_event_def fresh_def parent_def st f decision_row_def)
  moreover have "\<not> list_ex (\<lambda>(seconds, n). int (admitted_since sid (now - seconds) s) \<ge> n) [(60, minute), (3600, hour), (86400, day)]"
    using room by (simp add: quota_room_def)
  moreover have d: "\<lparr>dec_ID = hex_encode id_bytes, dec_SubmitterID = sid, dec_Envelope = envelope,
            dec_Recipient = Recipient r, dec_SPF = ''pass'', dec_Reason = ''admitted'', dec_Stage = ''admission'',
            dec_PolicyVersion = policy, dec_PolicyRuleID = [], dec_Stamp = stamp_of cr svc \<lparr>dec_ID = hex_encode id_bytes, dec_SubmitterID = sid, dec_Envelope = envelope,
            dec_Recipient = Recipient r, dec_SPF = ''pass'', dec_Reason = ''admitted'', dec_Stage = ''admission'',
            dec_PolicyVersion = policy, dec_PolicyRuleID = [], dec_Stamp = [], dec_ExpiresAt = Some (now + 600)\<rparr> r, dec_ExpiresAt = Some (now + 600)\<rparr> = ?d"
    by (simp add: admitted_decision_def)
  ultimately show ?thesis
    using u unfolding admit_within_def Let_def by (simp only: if_False decision.update_convs d bind_res_simps sum.case) simp
qed

lemma capability_of_address:
  assumes "24 \<le> length bytes" "length bytes \<le> 96" "CHR ''@'' \<notin> set domain" "length domain \<le> 800"
  shows "capability_of (''verify+'' @ b64_encode bytes @ ''@'' @ domain) domain = Inr (b64_encode bytes)"
proof -
  have at: "\<not> is_b64_char (CHR ''@'')" by (simp add: is_b64_char_def b64_value_def Let_def)
  have na: "CHR ''@'' \<notin> set (''verify+'' @ b64_encode bytes)"
    using b64c.not_in_enc [OF TrueI at] by simp
  have len: "32 \<le> length (b64_encode bytes)" "length (b64_encode bytes) \<le> 128"
    using assms(1,2) by (auto simp: length_b64_encode)
  have cut: "Cut (CHR ''@'') (''verify+'' @ b64_encode bytes @ ''@'' @ domain) = Some (''verify+'' @ b64_encode bytes, domain)"
    using Cut_append [OF na, of domain] by simp
  have one: "count_list (''verify+'' @ b64_encode bytes @ ''@'' @ domain) (CHR ''@'') = 1"
    using na assms(3) by (simp add: count_list_0_iff)
  have "\<not> length (''verify+'' @ b64_encode bytes @ ''@'' @ domain) > 1024" using len assms(4) by simp
  with one cut len assms(1) show ?thesis
    unfolding capability_of_def
    by (simp only: EqualFold_def HasPrefix_append TrimPrefix_append b64c.dec_enc Let_def option.case prod.case if_False simp_thms) simp
qed

section \<open>Examples\<close>

definition example_mac :: crypto where
  "example_mac = \<lparr>sha256 = (\<lambda>s. take 4 s), hmac = (\<lambda>k m. take 32 (m @ replicate 32 (CHR ''x'')))\<rparr>"

definition example_cap :: string where
  "example_cap = b64_encode (replicate 24 (CHR ''c''))"

definition example_adm :: adm_service where
  "example_adm = \<lparr>adm_CapabilityKey = CapabilityKey example_service, StampKey = replicate 32 (CHR ''s''),
     adm_Domain = ''mp.example''\<rparr>"

definition example_adm_db :: db where
  "example_adm_db = (Migrate 0)\<lparr>submitters := [example_pending\<lparr>s_status := Active\<rparr>],
     submission_capabilities := [\<lparr>c_capability_id = ''cap1'', c_submitter_id = ''sub1'',
        c_digest = hmac example_mac (CapabilityKey example_service) example_cap,
        c_key_id = ''key1'', c_activated_at = 0, c_revoked_at = None\<rparr>]\<rparr>"

definition example_request :: request where
  "example_request = \<lparr>RequestType = ''smtpd_access_policy'', Instance = [], QueueID = ''Q1'', ProtocolState = ''RCPT'',
     ClientAddress = ''192.0.2.1'', Helo = ''h'', Sender = ''a@b.c'', Recipient = ''verify+'' @ example_cap @ ''@'' @ ''mp.example''\<rparr>"

definition example_item :: submitter_policy where
  "example_item = \<lparr>sp_ID = ''sub1'', sp_Address = ''a@b.c'', sp_Status = Active, sp_PolicyVersion = ''v1'',
     sp_Minute = 5, sp_Hour = 30, sp_Day = 100\<rparr>"

definition example_snapshot :: policy_snapshot where
  "example_snapshot = \<lparr>snap_Version = 0, PeerCIDRs = [], OuterDomains = Map.empty, SubjectDomains = Map.empty,
     SubjectAllow = [], snap_Submitters = [hex_encode (hmac example_mac (CapabilityKey example_service) example_cap) \<mapsto> example_item]\<rparr>"

definition example_spf :: spf_check where
  "example_spf e h a = Inr ''pass''"

lemma example_adm_tables:
  "submitters example_adm_db = [example_pending\<lparr>s_status := Active\<rparr>]" "submission_decisions example_adm_db = []"
  "admission_events example_adm_db = []" "policy_rules example_adm_db = []"
  "map pv_version (policy_versions example_adm_db) = [0]"
  "submission_capabilities example_adm_db = [\<lparr>c_capability_id = ''cap1'', c_submitter_id = ''sub1'',
        c_digest = hmac example_mac (CapabilityKey example_service) example_cap,
        c_key_id = ''key1'', c_activated_at = 0, c_revoked_at = None\<rparr>]"
  by (simp_all add: example_adm_db_def Migrate_def)

lemma example_loads: "LoadPolicySnapshot example_adm_db = Inr example_snapshot"
  unfolding LoadPolicySnapshot_def cap_rows_def example_adm_tables
  by (simp add: active_caps_def example_pending_def example_snapshot_def example_item_def)

lemma example_identified:
  "identified example_mac Some example_spf example_adm example_snapshot 5 example_request ''a@b.c'' example_cap example_item"
proof -
  have "capability_of (Recipient example_request) (adm_Domain example_adm) = Inr example_cap"
    using capability_of_address [of "replicate 24 (CHR ''c'')" "''mp.example''"]
    by (simp add: example_request_def example_adm_def example_cap_def)
  moreover have "CanonicalAddress Some (Sender example_request) = Inr ''a@b.c''"
    using example_canonical by (simp add: example_request_def)
  ultimately show ?thesis
    unfolding identified_def
    by (simp add: example_snapshot_def example_item_def example_spf_def BlockedOuter_def example_adm_def)
qed

lemma example_admits:
  "\<exists>d s'. Admit example_mac Some example_spf example_adm (Some example_snapshot) ''id'' 5 example_request example_adm_db = (Admitted d, s') \<and>
     d = admitted_decision example_mac example_adm example_request ''sub1'' ''a@b.c'' (CHR ''v'' # show_int 0) ''id'' 5"
proof -
  have k: "32 \<le> length (adm_CapabilityKey example_adm)" "32 \<le> length (StampKey example_adm)"
    by (simp_all add: example_adm_def example_service_def)
  have "\<exists>s'. admit_within example_mac example_adm example_request ''sub1'' ''a@b.c'' (CHR ''v'' # show_int 0)
      (hmac example_mac (adm_CapabilityKey example_adm) example_cap) 5 30 100 ''id'' 5 example_adm_db =
    (Admitted (admitted_decision example_mac example_adm example_request ''sub1'' ''a@b.c'' (CHR ''v'' # show_int 0) ''id'' 5), s')"
    by (rule admit_within_total) (simp_all add: quota_room_def admitted_since_def example_adm_tables example_pending_def)
  then show ?thesis
    unfolding Admit_identified [OF k example_identified] by (simp add: example_item_def example_snapshot_def)
qed

theorem Admit_sound_witness:
  "\<exists>d s'. Admit example_mac Some example_spf example_adm (Some example_snapshot) ''id'' 5 example_request example_adm_db = (Admitted d, s') \<and>
     (\<exists>sub \<in> set (submitters example_adm_db). s_status sub = Active \<and> s_canonical_address sub = dec_Envelope d)"
proof -
  obtain d s' where a: "Admit example_mac Some example_spf example_adm (Some example_snapshot) ''id'' 5 example_request example_adm_db = (Admitted d, s')"
    using example_admits by blast
  from Admit_sound [OF example_loads a] a show ?thesis by blast
qed

theorem refusal_inert_witness:
  "\<exists>d s'. Admit example_mac Some example_spf example_adm None ''id'' 5 example_request example_adm_db = (Deferred, example_adm_db) \<and>
     admission_events example_adm_db = []"
proof -
  have a: "Admit example_mac Some example_spf example_adm None ''id'' 5 example_request example_adm_db = (Deferred, example_adm_db)"
    by (simp add: Admit_def)
  from refusal_inert [OF a] a show ?thesis by (simp add: example_adm_tables)
qed

lemma example_mac_length: "length (hmac example_mac k m) = 32"
  by (simp add: example_mac_def)

lemma example_no_bar: "CHR ''|'' \<notin> set example_cap"
  unfolding example_cap_def by (rule b64c.not_in_enc) (simp_all add: is_b64_char_def b64_value_def Let_def)

abbreviation example_decision :: decision where
  "example_decision \<equiv> admitted_decision example_mac example_adm example_request ''sub1'' ''a@b.c'' (CHR ''v'' # show_int 0) ''id'' 5"

lemma example_stamp_short: "length (stamp_of example_mac example_adm example_decision example_request) < 2048"
proof -
  have "length (show_int 605) = 3" "length (show_int 0) = 1" by code_simp+
  then have "length (stamp_payload example_decision example_request) < 200"
    by (simp add: stamp_payload_def admitted_decision_fields [OF refl] example_request_def example_cap_def length_b64_encode)
  then show ?thesis by (simp add: stamp_of_def length_b64_encode example_mac_length)
qed

lemma example_fields:
  "no_bars example_decision example_request" "int64_ok (snap_Version example_snapshot)" "int64_ok (5 + 600)"
  "QueueID example_request = ''Q1''"
  using example_no_bar
  by (simp_all add: no_bars_def admitted_decision_fields [OF refl] example_request_def example_snapshot_def int64_ok_def)

theorem stamp_roundtrip_witness:
  "\<exists>d s'. Admit example_mac Some example_spf example_adm (Some example_snapshot) ''id'' 5 example_request example_adm_db = (Admitted d, s') \<and>
     (\<exists>d' s''. ConsumeStamp example_mac example_adm [stamp_line (dec_Stamp d)] ''Q1'' 600 s' = (Inr d', s'') \<and> dec_ID d' = dec_ID d)"
proof -
  obtain s' where a: "Admit example_mac Some example_spf example_adm (Some example_snapshot) ''id'' 5 example_request example_adm_db = (Admitted example_decision, s')"
    using example_admits by blast
  note f = admitted_decision_fields [OF refl, of example_mac example_adm example_request "''sub1''" "''a@b.c''" "CHR ''v'' # show_int 0" "''id''" 5]
  have sid: "dec_SubmitterID example_decision \<noteq> []" by (simp add: f(2))
  have short: "length (dec_Stamp example_decision) < 2048" using example_stamp_short by (simp add: f(8))
  from stamp_roundtrip [OF a example_fields(1) sid example_mac_length example_fields(2,3), of 600, unfolded example_fields(4)] short
  obtain d' s'' where c: "ConsumeStamp example_mac example_adm [stamp_line (dec_Stamp example_decision)] ''Q1'' 600 s' = (Inr d', s'')"
    "dec_ID d' = dec_ID example_decision" by auto
  show ?thesis
    by (rule exI [of _ example_decision], rule exI [of _ s'], rule conjI [OF a], rule exI [of _ d'], rule exI [of _ s''], rule conjI [OF c])
qed

theorem stamp_once_witness:
  "EvAdmit (hex_encode ''id'') \<in> set [EvAdmit (hex_encode ''id'')] \<and>
   fst (adm_run example_mac Some example_spf example_adm [DoAdmit (Some example_snapshot) ''id'' 5 example_request,
     DoConsume [stamp_line (dec_Stamp example_decision)] ''Q1'' 600] example_adm_db) =
   [EvAdmit (hex_encode ''id''), EvConsume (hex_encode ''id'')]"
proof -
  obtain s' where a: "Admit example_mac Some example_spf example_adm (Some example_snapshot) ''id'' 5 example_request example_adm_db = (Admitted example_decision, s')"
    using example_admits by blast
  note f = admitted_decision_fields [OF refl, of example_mac example_adm example_request "''sub1''" "''a@b.c''" "CHR ''v'' # show_int 0" "''id''" 5]
  have sid: "dec_SubmitterID example_decision \<noteq> []" by (simp add: f(2))
  have short: "length (dec_Stamp example_decision) < 2048" using example_stamp_short by (simp add: f(8))
  from stamp_accepted [OF a example_fields(1) sid short example_mac_length example_fields(2,3), of 600, unfolded example_fields(4)]
  obtain d' s'' where c: "ConsumeStamp example_mac example_adm [stamp_line (dec_Stamp example_decision)] ''Q1'' 600 s' = (Inr d', s'')"
    "dec_ID d' = dec_ID example_decision" by auto
  have run: "fst (adm_run example_mac Some example_spf example_adm [DoAdmit (Some example_snapshot) ''id'' 5 example_request,
     DoConsume [stamp_line (dec_Stamp example_decision)] ''Q1'' 600] example_adm_db) =
   [EvAdmit (hex_encode ''id'')] @ EvConsume (hex_encode ''id'') # []"
    using c(2) by (simp add: a c(1) f(1) del: hex_encode.simps)
  from stamp_once [OF example_adm_tables(2) this] run show ?thesis by (simp del: hex_encode.simps)
qed

theorem ParseRequest_bounds_witness:
  "\<exists>r. ParseRequest (Join [CHR 0x0A] [''request=smtpd_access_policy'', ''protocol_state=RCPT'', ''sender=a@b'',
      ''recipient=c@d'', ''client_address=192.0.2.1'']) = Inr r \<and> (\<forall>x \<in> set (fields_of r). length x \<le> 1024)"
proof -
  have "\<exists>r. ParseRequest (Join [CHR 0x0A] [''request=smtpd_access_policy'', ''protocol_state=RCPT'', ''sender=a@b'',
      ''recipient=c@d'', ''client_address=192.0.2.1'']) = Inr r"
    by (rule exI [of _ "\<lparr>RequestType = ''smtpd_access_policy'', Instance = [], QueueID = [], ProtocolState = ''RCPT'',
      ClientAddress = ''192.0.2.1'', Helo = [], Sender = ''a@b'', Recipient = ''c@d''\<rparr>"]) code_simp
  with ParseRequest_bounds show ?thesis by blast
qed

theorem BootstrapImport_once_witness:
  "\<exists>s'. BootstrapImport example_mac Some ''b.c'' (\<lambda>i. [CHR ''r'']) 0 (Migrate 0) = Inr s' \<and>
     map pr_value (policy_rules s') = policy_lines ''b.c'' \<and> BootstrapImport example_mac Some ''d.e'' (\<lambda>i. []) 9 s' = Inr s'"
proof -
  have "policy_lines ''b.c'' = [''b.c'']" "SelectedSubjectAllowed Some (''a@'' @ TrimPrefix ''b.c'' ''*.'') [''b.c''] = (''b.c'', True)"
    by code_simp+
  then have "\<exists>s'. BootstrapImport example_mac Some ''b.c'' (\<lambda>i. [CHR ''r'']) 0 (Migrate 0) = Inr s'"
    unfolding BootstrapImport_def
    by (simp add: Migrate_def insert_policy_version_def insert_policy_rule_def check_all.simps fresh_def parent_def Let_def sql_count_def)
  then obtain s' where b: "BootstrapImport example_mac Some ''b.c'' (\<lambda>i. [CHR ''r'']) 0 (Migrate 0) = Inr s'" by blast
  have m: "policy_bootstrap (Migrate 0) = None" "\<forall>v \<in> set (policy_versions (Migrate 0)). pv_version v \<le> 0" "policy_rules (Migrate 0) = []"
    by (simp_all add: Migrate_def)
  from BootstrapImport_once [OF b m(1,2)] b m(3) show ?thesis by auto
qed

end
