(* ===== verification/Spf.thy ===== *)
theory Spf
  imports Admission
begin

text \<open>
  \<open>internal/admission/spf.go\<close>: the resolver handed to the SPF evaluator. The DNS client
  \<open>github.com/miekg/dns\<close> (one exchange over UDP or TCP, the text of a response code, the
  reverse name of an address) and the evaluator \<open>github.com/migadu/spf\<close> are parameters. The
  lemmas give the result of a lookup for every content of the DNS: the records found by following
  aliases for at most ten hops, or an error exactly when an exchange on the way fails or some path of aliases,
  a loop for instance, is longer.
\<close>

datatype dns_rr = TXT "string list" | MX string | A ip | AAAA ip | CNAME string | PTR string | OtherRR

record dns_msg =
  Truncated :: bool
  Rcode :: nat
  Answer :: "dns_rr list"

datatype qtype = TypeTXT | TypeMX | TypeA | TypeAAAA | TypePTR

record dns_client =
  dns_exchange :: "bool \<Rightarrow> string \<Rightarrow> string \<Rightarrow> qtype \<Rightarrow> dns_msg res"
  RcodeToString :: "nat \<Rightarrow> string"
  ReverseAddr :: "ip \<Rightarrow> string res"

definition maxDNSCNAMEHops :: nat where
  "maxDNSCNAMEHops = 10"

text \<open>The first argument of \<open>dns_exchange\<close> selects TCP; \<open>NOERROR\<close> is 0, \<open>SERVFAIL\<close> 2, \<open>NXDOMAIN\<close> 3.\<close>

definition exchange :: "dns_client \<Rightarrow> string \<Rightarrow> string \<Rightarrow> qtype \<Rightarrow> dns_msg res" where
  "exchange c srv name q =
     (let server = (if srv = [] then ''unbound:53'' else srv) in
      bind_res (dns_exchange c False server name q) (\<lambda>response.
      bind_res (if Truncated response then dns_exchange c True server name q else Inr response) (\<lambda>response.
      if Rcode response = 0 \<or> Rcode response = 3 then Inr response
      else if Rcode response = 2 then Inl (Err ''resolver failure'')
      else Inl (Err (''resolver response: '' @ RcodeToString c (Rcode response))))))"

text \<open>
  The loop over the answers of a response that \<open>lookupTXT\<close>, \<open>lookupMX\<close> and \<open>lookupIP\<close> share:
  values in order, a CNAME replaced by what its target gives, the first error returned.
\<close>

fun answers :: "(dns_rr \<Rightarrow> 'v list) \<Rightarrow> (string \<Rightarrow> 'v list res) \<Rightarrow> dns_rr list \<Rightarrow> 'v list \<Rightarrow> 'v list res" where
  "answers pick child [] vs = Inr vs"
| "answers pick child (CNAME t # rs) vs = bind_res (child t) (\<lambda>c. answers pick child rs (vs @ c))"
| "answers pick child (r # rs) vs = answers pick child rs (vs @ pick r)"

fun pick_TXT :: "dns_rr \<Rightarrow> string list" where
  "pick_TXT (TXT t) = [concat t]"
| "pick_TXT _ = []"

fun pick_MX :: "dns_rr \<Rightarrow> string list" where
  "pick_MX (MX m) = [m]"
| "pick_MX _ = []"

fun pick_IP :: "qtype \<Rightarrow> dns_rr \<Rightarrow> ip list" where
  "pick_IP q (A a) = (if q = TypeA then [a] else [])"
| "pick_IP q (AAAA a) = (if q = TypeAAAA then [a] else [])"
| "pick_IP q _ = []"

function lookupTXT :: "dns_client \<Rightarrow> string \<Rightarrow> string \<Rightarrow> nat \<Rightarrow> string list res" where
  "lookupTXT c srv domain depth =
     (if depth > maxDNSCNAMEHops then Inl (Err ''SPF TXT CNAME limit exceeded'')
      else bind_res (exchange c srv domain TypeTXT) (\<lambda>response.
        answers pick_TXT (\<lambda>t. lookupTXT c srv t (depth + 1)) (Answer response) []))"
  by pat_completeness auto
termination by (relation "measure (\<lambda>(c, s, d, n). 11 - n)") (auto simp: maxDNSCNAMEHops_def)

function lookupMX :: "dns_client \<Rightarrow> string \<Rightarrow> string \<Rightarrow> nat \<Rightarrow> string list res" where
  "lookupMX c srv domain depth =
     (if depth > maxDNSCNAMEHops then Inl (Err ''SPF MX CNAME limit exceeded'')
      else bind_res (exchange c srv domain TypeMX) (\<lambda>response.
        answers pick_MX (\<lambda>t. lookupMX c srv t (depth + 1)) (Answer response) []))"
  by pat_completeness auto
termination by (relation "measure (\<lambda>(c, s, d, n). 11 - n)") (auto simp: maxDNSCNAMEHops_def)

function lookupIP :: "dns_client \<Rightarrow> string \<Rightarrow> string \<Rightarrow> qtype \<Rightarrow> nat \<Rightarrow> ip list res" where
  "lookupIP c srv domain q depth =
     (if depth > maxDNSCNAMEHops then Inl (Err ''SPF address CNAME limit exceeded'')
      else bind_res (exchange c srv domain q) (\<lambda>response.
        answers (pick_IP q) (\<lambda>t. lookupIP c srv t q (depth + 1)) (Answer response) []))"
  by pat_completeness auto
termination by (relation "measure (\<lambda>(c, s, d, q, n). 11 - n)") (auto simp: maxDNSCNAMEHops_def)

declare lookupTXT.simps [simp del] lookupMX.simps [simp del] lookupIP.simps [simp del]

definition LookupPTR_of :: "dns_client \<Rightarrow> string \<Rightarrow> ip \<Rightarrow> string list res" where
  "LookupPTR_of c srv a =
     bind_res (ReverseAddr c a) (\<lambda>reverse.
     bind_res (exchange c srv reverse TypePTR) (\<lambda>response.
     Inr (concat (map (\<lambda>r. case r of PTR p \<Rightarrow> [p] | _ \<Rightarrow> []) (Answer response)))))"

record spf_resolver =
  LookupTXT :: "string \<Rightarrow> string list res"
  LookupMX :: "string \<Rightarrow> string list res"
  LookupA :: "string \<Rightarrow> ip list res"
  LookupAAAA :: "string \<Rightarrow> ip list res"
  LookupPTR :: "ip \<Rightarrow> string list res"

definition spfResolver :: "dns_client \<Rightarrow> string \<Rightarrow> spf_resolver" where
  "spfResolver c srv = \<lparr>LookupTXT = (\<lambda>d. lookupTXT c srv d 0), LookupMX = (\<lambda>d. lookupMX c srv d 0),
     LookupA = (\<lambda>d. lookupIP c srv d TypeA 0), LookupAAAA = (\<lambda>d. lookupIP c srv d TypeAAAA 0),
     LookupPTR = LookupPTR_of c srv\<rparr>"

text \<open>
  \<open>check_host resolver peer domain envelope helo\<close> is \<open>CheckHostWithResolver\<close>: the text of its
  result and whether it is \<open>TempError\<close>.
\<close>

definition Check ::
  "(spf_resolver \<Rightarrow> ip \<Rightarrow> string \<Rightarrow> string \<Rightarrow> string \<Rightarrow> string \<times> bool) \<Rightarrow> dns_client \<Rightarrow> string \<Rightarrow> spf_check" where
  "Check check_host c srv envelope helo peer = (case peer of
       None \<Rightarrow> Inl (Err ''invalid peer'')
     | Some a \<Rightarrow> (case Cut (CHR ''@'') envelope of
         None \<Rightarrow> Inl (Err ''invalid envelope'')
       | Some (_, domain) \<Rightarrow>
           if domain = [] then Inl (Err ''invalid envelope'')
           else (case check_host (spfResolver c srv) a domain envelope helo of (text, temp) \<Rightarrow>
             if temp then Inl (Err ''temporary SPF DNS failure'') else Inr (ToLower text))))"

section \<open>What a lookup collects\<close>

text \<open>
  The specification of a lookup: the values of the records of an answer in their order, an alias replaced by what its
  target gives, where \<open>n\<close> is the number of aliases that may still be followed; and the paths of aliases of length \<open>n\<close>.
\<close>

inductive resolves :: "(string \<Rightarrow> dns_msg res) \<Rightarrow> (dns_rr \<Rightarrow> 'v list) \<Rightarrow> nat \<Rightarrow> string \<Rightarrow> 'v list \<Rightarrow> bool"
  and collects :: "(string \<Rightarrow> dns_msg res) \<Rightarrow> (dns_rr \<Rightarrow> 'v list) \<Rightarrow> nat \<Rightarrow> dns_rr list \<Rightarrow> 'v list \<Rightarrow> bool" for ex pick where
  answer: "ex d = Inr m \<Longrightarrow> collects ex pick n (Answer m) vs \<Longrightarrow> resolves ex pick n d vs"
| none: "collects ex pick n [] []"
| plain: "\<forall>t. r \<noteq> CNAME t \<Longrightarrow> collects ex pick n rs vs \<Longrightarrow> collects ex pick n (r # rs) (pick r @ vs)"
| aliased: "resolves ex pick n t us \<Longrightarrow> collects ex pick (Suc n) rs vs \<Longrightarrow> collects ex pick (Suc n) (CNAME t # rs) (us @ vs)"

inductive_simps resolves_iff: "resolves ex pick n d vs"
inductive_simps collects_simps:
  "collects ex pick n [] vs" "collects ex pick n (CNAME t # rs) vs" "collects ex pick n (r # rs) vs"

inductive hops :: "(string \<Rightarrow> dns_msg res) \<Rightarrow> nat \<Rightarrow> string \<Rightarrow> string \<Rightarrow> bool" for ex where
  here: "hops ex 0 d d"
| follow: "ex d = Inr m \<Longrightarrow> CNAME t \<in> set (Answer m) \<Longrightarrow> hops ex n t d' \<Longrightarrow> hops ex (Suc n) d d'"

lemma hops_add: "hops ex n d d' \<Longrightarrow> hops ex k d' d'' \<Longrightarrow> hops ex (n + k) d d''"
  by (induction rule: hops.induct) (auto intro: follow)

lemma hops_prefix: "hops ex n d d' \<Longrightarrow> k \<le> n \<Longrightarrow> \<exists>t. hops ex k d t"
proof (induction arbitrary: k rule: hops.induct)
  case (follow d m t n d')
  show ?case
  proof (cases k)
    case (Suc k')
    with follow obtain x where "hops ex k' t x" by auto
    with follow(1,2) Suc show ?thesis by (blast intro: hops.follow)
  qed (auto intro: here)
qed (auto intro: here)

lemma loop_unbounded: "hops ex n d d \<Longrightarrow> 0 < n \<Longrightarrow> \<exists>t. hops ex k d t"
proof -
  assume loop: "hops ex n d d" "0 < n"
  have "hops ex (i * n) d d" for i by (induction i) (auto intro: here hops_add [OF loop(1)])
  moreover have "k \<le> k * n" using loop(2) by simp
  ultimately show ?thesis using hops_prefix by blast
qed

text \<open>The three lookups satisfy the same recursion; what follows is proved once for any such function.\<close>

locale cname_lookup =
  fixes lookup :: "string \<Rightarrow> nat \<Rightarrow> 'v list res" and ex :: "string \<Rightarrow> dns_msg res"
    and pick :: "dns_rr \<Rightarrow> 'v list" and limit :: err
  assumes lookup_eq: "lookup domain depth = (if depth > maxDNSCNAMEHops then Inl limit
      else bind_res (ex domain) (\<lambda>response. answers pick (\<lambda>t. lookup t (depth + 1)) (Answer response) []))"
begin

lemma lookup_over: "lookup t (Suc maxDNSCNAMEHops) = Inl limit"
  by (subst lookup_eq) simp

lemma lookup_exchange: "depth \<le> maxDNSCNAMEHops \<Longrightarrow>
    lookup d depth = bind_res (ex d) (\<lambda>m. answers pick (\<lambda>t. lookup t (depth + 1)) (Answer m) [])"
  by (subst lookup_eq) simp

lemma answers_collects:
  assumes "\<And>t us. child t = Inr us \<longleftrightarrow> (\<exists>k. n = Suc k \<and> resolves ex pick k t us)"
  shows "answers pick child rs acc = Inr vs \<longleftrightarrow> (\<exists>us. vs = acc @ us \<and> collects ex pick n rs us)"
proof (induction rs arbitrary: acc)
  case (Cons r rs)
  show ?case
  proof (cases "\<exists>t. r = CNAME t")
    case True
    then obtain t where r: "r = CNAME t" by blast
    show ?thesis by (auto simp: r bind_res_Inr_iff Cons.IH assms collects_simps)
  next
    case False
    then have "answers pick child (r # rs) acc = answers pick child rs (acc @ pick r)" by (cases r) simp_all
    then show ?thesis using False by (auto simp: Cons.IH collects_simps(3))
  qed
qed (auto simp: collects_simps)

lemma lookup_resolves:
  assumes "depth + n = maxDNSCNAMEHops"
  shows "lookup d depth = Inr vs \<longleftrightarrow> resolves ex pick n d vs"
  using assms
proof (induction n arbitrary: d depth vs)
  case 0
  have "answers pick (\<lambda>t. lookup t (depth + 1)) rs [] = Inr vs \<longleftrightarrow> collects ex pick 0 rs vs" for rs
    by (subst answers_collects [where n = 0]) (use 0 in \<open>simp_all add: lookup_over\<close>)
  then show ?case using 0 by (simp add: lookup_exchange bind_res_Inr_iff resolves_iff)
next
  case (Suc n)
  have "answers pick (\<lambda>t. lookup t (depth + 1)) rs [] = Inr vs \<longleftrightarrow> collects ex pick (Suc n) rs vs" for rs
    by (subst answers_collects [where n = "Suc n"]) (use Suc in simp_all)
  then show ?case using Suc.prems by (simp add: lookup_exchange bind_res_Inr_iff resolves_iff)
qed

lemma answers_Inl: "answers pick child rs acc = Inl e \<Longrightarrow> \<exists>t. CNAME t \<in> set rs \<and> child t = Inl e"
  by (induction pick child rs acc rule: answers.induct) (auto simp: bind_res_def split: sum.splits)

lemma answers_fail: "CNAME t \<in> set rs \<Longrightarrow> child t = Inl e \<Longrightarrow> \<exists>e'. answers pick child rs acc = Inl e'"
  by (induction pick child rs acc rule: answers.induct) (auto simp: bind_res_def split: sum.splits)

lemma lookup_error:
  assumes "lookup d depth = Inl e" "depth \<le> Suc maxDNSCNAMEHops"
  shows "\<exists>n d'. hops ex n d d' \<and> (depth + n \<le> maxDNSCNAMEHops \<and> ex d' = Inl e \<or> depth + n = Suc maxDNSCNAMEHops \<and> e = limit)"
  using assms
proof (induction "Suc maxDNSCNAMEHops - depth" arbitrary: d depth)
  case 0
  then have "depth = Suc maxDNSCNAMEHops" by simp
  with 0 show ?case by (intro exI [of _ 0] exI [of _ d]) (simp add: lookup_over here)
next
  case (Suc k)
  then have le: "depth \<le> maxDNSCNAMEHops" by simp
  show ?case
  proof (cases "ex d")
    case (Inl x)
    then show ?thesis using Suc.prems(1) le by (intro exI [of _ 0] exI [of _ d]) (simp add: lookup_exchange bind_res_def here)
  next
    case (Inr m)
    then obtain t where t: "CNAME t \<in> set (Answer m)" "lookup t (depth + 1) = Inl e"
      using answers_Inl [of "\<lambda>t. lookup t (depth + 1)" "Answer m" "[]" e] Suc.prems(1) le by (auto simp: lookup_exchange bind_res_def)
    have "k = Suc maxDNSCNAMEHops - (depth + 1)" using Suc.hyps(2) by linarith
    with t obtain n d' where n: "hops ex n t d'"
      "depth + 1 + n \<le> maxDNSCNAMEHops \<and> ex d' = Inl e \<or> depth + 1 + n = Suc maxDNSCNAMEHops \<and> e = limit"
      using Suc.hyps(1) [of "depth + 1" t] le by auto
    from hops.follow [where ex = ex, OF Inr t(1) n(1)] n(2) show ?thesis by (intro exI [of _ "Suc n"] exI [of _ d']) simp
  qed
qed

lemma lookup_fails:
  assumes "hops ex n d d'" "depth + n = Suc maxDNSCNAMEHops \<or> depth + n \<le> maxDNSCNAMEHops \<and> ex d' = Inl x"
  shows "\<exists>e. lookup d depth = Inl e"
  using assms
proof (induction arbitrary: depth rule: hops.induct)
  case (here d)
  then show ?case by (auto simp: lookup_over lookup_exchange bind_res_def)
next
  case (follow d m t n d')
  from follow.prems have "depth + 1 + n = Suc maxDNSCNAMEHops \<or> depth + 1 + n \<le> maxDNSCNAMEHops \<and> ex d' = Inl x" and le: "depth \<le> maxDNSCNAMEHops"
    by auto
  then obtain e where "lookup t (depth + 1) = Inl e" using follow.IH [of "depth + 1"] by blast
  with answers_fail [OF follow.hyps(2), where child = "\<lambda>t. lookup t (depth + 1)" and acc = "[]"] follow.hyps(1) le show ?case
    by (simp add: lookup_exchange bind_res_def)
qed

end

interpretation txt_chain: cname_lookup "lookupTXT c srv" "\<lambda>d. exchange c srv d TypeTXT" pick_TXT "Err ''SPF TXT CNAME limit exceeded''"
  by unfold_locales (rule lookupTXT.simps)

interpretation mx_chain: cname_lookup "lookupMX c srv" "\<lambda>d. exchange c srv d TypeMX" pick_MX "Err ''SPF MX CNAME limit exceeded''"
  by unfold_locales (rule lookupMX.simps)

interpretation ip_chain: cname_lookup "\<lambda>d. lookupIP c srv d q" "\<lambda>d. exchange c srv d q" "pick_IP q" "Err ''SPF address CNAME limit exceeded''"
  by unfold_locales (rule lookupIP.simps)

text \<open>
  C34: The result of a TXT lookup, for every content of the DNS. It succeeds with the texts of the records
  in their order, each alias replaced by what its target gives, when that takes at most ten hops on every path. It fails
  exactly when some path of at most ten aliases ends in a failing exchange, or some path has eleven;
  the error returned is the one of such an exchange, or the limit error. So a lookup of a name on a loop of aliases always fails.
\<close>

theorem lookupTXT_chain:
  fixes c srv d
  defines "ex \<equiv> \<lambda>d. exchange c srv d TypeTXT" and "result \<equiv> LookupTXT (spfResolver c srv) d"
  shows "(\<forall>vs. result = Inr vs \<longleftrightarrow> resolves ex pick_TXT 10 d vs) \<and>
    ((\<exists>e. result = Inl e) \<longleftrightarrow> (\<exists>n d'. hops ex n d d' \<and> (n = 11 \<or> n \<le> 10 \<and> (\<exists>e. ex d' = Inl e)))) \<and>
    (\<forall>e. result = Inl e \<longrightarrow> (\<exists>n d'. hops ex n d d' \<and> (n = 11 \<and> e = Err ''SPF TXT CNAME limit exceeded'' \<or> n \<le> 10 \<and> ex d' = Inl e))) \<and>
    (\<forall>n. 0 < n \<and> hops ex n d d \<longrightarrow> (\<exists>e. result = Inl e))"
proof -
  have r: "result = lookupTXT c srv d 0" by (simp add: result_def spfResolver_def)
  have err: "\<exists>n d'. hops ex n d d' \<and> (n = 11 \<and> e = Err ''SPF TXT CNAME limit exceeded'' \<or> n \<le> 10 \<and> ex d' = Inl e)" if "result = Inl e" for e
    using txt_chain.lookup_error [of c srv d 0 e] that unfolding r ex_def maxDNSCNAMEHops_def by auto
  have fails: "\<exists>e. result = Inl e" if "hops ex n d d'" "n = 11 \<or> n \<le> 10 \<and> ex d' = Inl x" for n d' x
    using txt_chain.lookup_fails [of c srv n d d' 0 x] that unfolding r ex_def maxDNSCNAMEHops_def by auto
  have "result = Inr vs \<longleftrightarrow> resolves ex pick_TXT 10 d vs" for vs
    using txt_chain.lookup_resolves [of 0 10 c srv d vs] unfolding r ex_def maxDNSCNAMEHops_def by simp
  moreover have "\<exists>e. result = Inl e" if "0 < n" "hops ex n d d" for n
    using loop_unbounded [OF that(2,1), of 11] fails by blast
  moreover have "(\<exists>e. result = Inl e) \<longleftrightarrow> (\<exists>n d'. hops ex n d d' \<and> (n = 11 \<or> n \<le> 10 \<and> (\<exists>e. ex d' = Inl e)))"
  proof
    assume "\<exists>n d'. hops ex n d d' \<and> (n = 11 \<or> n \<le> 10 \<and> (\<exists>e. ex d' = Inl e))"
    then obtain n d' x where "hops ex n d d'" "n = 11 \<or> n \<le> 10 \<and> ex d' = Inl x" by blast
    then show "\<exists>e. result = Inl e" by (rule fails)
  qed (auto dest!: err)
  ultimately show ?thesis using err by (intro conjI) auto
qed

definition example_dns :: dns_client where
  "example_dns = \<lparr>dns_exchange = (\<lambda>tcp server name q. Inr \<lparr>Truncated = False, Rcode = 0,
       Answer = (if name = ''loop'' then [TXT [''t''], CNAME ''loop''] else if name = ''alias'' then [CNAME ''end'', TXT [''v=spf1 '', ''-all'']] else [TXT [''v=spf1 '', ''-all'']])\<rparr>),
     RcodeToString = (\<lambda>n. []), ReverseAddr = (\<lambda>a. Inl (Err []))\<rparr>"

lemma example_exchange:
  "exchange example_dns [] ''loop'' TypeTXT = Inr \<lparr>Truncated = False, Rcode = 0, Answer = [TXT [''t''], CNAME ''loop'']\<rparr>"
  "exchange example_dns [] ''alias'' TypeTXT = Inr \<lparr>Truncated = False, Rcode = 0, Answer = [CNAME ''end'', TXT [''v=spf1 '', ''-all'']]\<rparr>"
  "exchange example_dns [] ''end'' TypeTXT = Inr \<lparr>Truncated = False, Rcode = 0, Answer = [TXT [''v=spf1 '', ''-all'']]\<rparr>"
  by (simp_all add: exchange_def example_dns_def)

theorem lookupTXT_chain_witness:
  "(\<exists>e. LookupTXT (spfResolver example_dns []) ''loop'' = Inl e) \<and>
   LookupTXT (spfResolver example_dns []) ''alias'' = Inr [''v=spf1 -all'', ''v=spf1 -all'']"
proof -
  let ?ex = "\<lambda>d. exchange example_dns [] d TypeTXT"
  have "hops ?ex (Suc 0) ''loop'' ''loop''" by (rule follow [where ex = ?ex, OF example_exchange(1) _ here]) simp
  then have loop: "\<exists>e. LookupTXT (spfResolver example_dns []) ''loop'' = Inl e"
    using lookupTXT_chain [of example_dns "[]" "''loop''"] by blast
  have "resolves ?ex pick_TXT 9 ''end'' [''v=spf1 -all'']"
    using example_exchange(3) by (simp add: resolves_iff collects_simps)
  then have "resolves ?ex pick_TXT 10 ''alias'' [''v=spf1 -all'', ''v=spf1 -all'']"
    using example_exchange(2) aliased [where ex = ?ex and n = 9 and pick = pick_TXT and t = "''end''"]
    by (simp add: resolves_iff [of _ _ 10] collects_simps)
  with loop show ?thesis using lookupTXT_chain [of example_dns "[]" "''alias''"] by blast
qed

text \<open>
  The answer of a recursive resolver holds the alias and the records of its target together. The lookup
  takes the records from that answer and once more from the answer for the target, so an aliased policy arrives twice.
\<close>

lemma recursive_answer_doubled:
  assumes "exchange c srv d TypeTXT = Inr m" "Answer m = CNAME t # rs" "\<forall>r \<in> set rs. \<forall>x. r \<noteq> CNAME x"
    and "exchange c srv t TypeTXT = Inr m'" "Answer m' = rs"
  shows "LookupTXT (spfResolver c srv) d = Inr (concat (map pick_TXT rs) @ concat (map pick_TXT rs))"
proof -
  have "collects (\<lambda>d. exchange c srv d TypeTXT) pick_TXT n rs (concat (map pick_TXT rs))" for n
    using assms(3) by (induction rs) (auto intro: resolves_collects.intros)
  moreover have "resolves (\<lambda>d. exchange c srv d TypeTXT) pick_TXT 9 t (concat (map pick_TXT rs))"
    by (rule answer [where ex = "\<lambda>d. exchange c srv d TypeTXT", OF assms(4)]) (simp add: assms(5) calculation)
  ultimately have "resolves (\<lambda>d. exchange c srv d TypeTXT) pick_TXT 10 d (concat (map pick_TXT rs) @ concat (map pick_TXT rs))"
    using aliased [where ex = "\<lambda>d. exchange c srv d TypeTXT" and pick = pick_TXT and n = 9 and t = t and rs = rs] by (intro answer [where ex = "\<lambda>d. exchange c srv d TypeTXT", OF assms(1)]) (simp add: assms(2))
  then show ?thesis using txt_chain.lookup_resolves [of 0 10 c srv d] by (simp add: spfResolver_def maxDNSCNAMEHops_def)
qed

end
