(* ===== verification/Files.thy ===== *)
theory Files
  imports Codec
begin

text \<open>
  The artifact tree: \<open>filepath.Clean\<close> and \<open>filepath.Join\<close> of the standard library, the write-once
  publication used by \<open>internal/report/render.go\<close> and \<open>internal/evidence/publish.go\<close>, and the
  content-addressed message store of \<open>internal/artifact/store.go\<close>. The file system is a map from
  clean paths to contents; temporary files are removed before a call returns and are not part of it,
  and input/output errors other than an existing target are not modelled.
\<close>

type_synonym files = "string \<rightharpoonup> string"

section \<open>Paths\<close>

fun clean_parts :: "bool \<Rightarrow> string list \<Rightarrow> string list \<Rightarrow> string list" where
  "clean_parts rooted stack [] = stack"
| "clean_parts rooted stack (p # ps) =
     (if p = [] \<or> p = ''.'' then clean_parts rooted stack ps
      else if p = ''..'' then
        (if stack \<noteq> [] \<and> last stack \<noteq> ''..'' then clean_parts rooted (butlast stack) ps
         else if rooted then clean_parts rooted stack ps
         else clean_parts rooted (stack @ [p]) ps)
      else clean_parts rooted (stack @ [p]) ps)"

definition Clean :: "string \<Rightarrow> string" where
  "Clean p =
     (let rooted = HasPrefix p ''/'';
          q = (if rooted then ''/'' else []) @ Join ''/'' (clean_parts rooted [] (Split (CHR ''/'') p)) in
      if q = [] then ''.'' else q)"

definition path_Join :: "string list \<Rightarrow> string" where
  "path_Join elems = (let es = filter (\<lambda>e. e \<noteq> []) elems in if es = [] then [] else Clean (Join ''/'' es))"

text \<open>A name that is one component of a path.\<close>

definition plain :: "string \<Rightarrow> bool" where
  "plain n = (n \<noteq> [] \<and> n \<noteq> ''.'' \<and> n \<noteq> ''..'' \<and> CHR ''/'' \<notin> set n)"

lemma clean_parts_append: "clean_parts rooted stack (ps @ qs) = clean_parts rooted (clean_parts rooted stack ps) qs"
  by (induction rooted stack ps rule: clean_parts.induct) auto

lemma Split_plain: "CHR ''/'' \<notin> set n \<Longrightarrow> Split (CHR ''/'') n = [n]"
  by (induction n) auto

lemma Split_nonempty [simp]: "Split c s \<noteq> []"
  by (cases s) (auto split: list.splits)

lemma Split_append: "Split c (s @ c # t) = Split c s @ Split c t"
  by (induction s) (auto split: list.splits simp: Cons_eq_append_conv)

lemma Join_snoc: "xs \<noteq> [] \<Longrightarrow> Join sep (xs @ [x]) = Join sep xs @ sep @ x"
  by (induction sep xs rule: Join.induct) auto

lemma Clean_child:
  assumes "plain n" "d \<noteq> []"
  shows "Clean (d @ CHR ''/'' # n) =
    (let rooted = HasPrefix d ''/''; st = clean_parts rooted [] (Split (CHR ''/'') d) in
     (if rooted then ''/'' else []) @ Join ''/'' (st @ [n]))"
proof -
  have "HasPrefix (d @ CHR ''/'' # n) ''/'' = HasPrefix d ''/''" using assms(2) by (cases d) (auto simp: HasPrefix_def)
  moreover have "Split (CHR ''/'') (d @ CHR ''/'' # n) = Split (CHR ''/'') d @ [n]"
    using assms(1) by (simp add: Split_append Split_plain plain_def)
  moreover have "Join ''/'' (st @ [n]) \<noteq> []" for st using assms(1) by (cases "st = []") (auto simp: Join_snoc plain_def)
  ultimately show ?thesis using assms(1) by (simp add: Clean_def Let_def clean_parts_append plain_def)
qed

lemma path_Join_inj:
  assumes "plain m" "plain n" "d \<noteq> []" "path_Join [d, m] = path_Join [d, n]"
  shows "m = n"
proof -
  have "m \<noteq> []" "n \<noteq> []" using assms(1,2) by (auto simp: plain_def)
  then have eq: "Clean (d @ CHR ''/'' # m) = Clean (d @ CHR ''/'' # n)" using assms(3,4) by (simp add: path_Join_def)
  let ?st = "clean_parts (HasPrefix d ''/'') [] (Split (CHR ''/'') d)"
  have "Join ''/'' (?st @ [m]) = Join ''/'' (?st @ [n])"
    using eq unfolding Clean_child [OF assms(1,3)] Clean_child [OF assms(2,3)] by (simp add: Let_def split: if_splits)
  then show ?thesis by (cases "?st = []") (auto simp: Join_snoc)
qed

section \<open>Write-once publication\<close>

definition publish :: "string \<Rightarrow> string \<Rightarrow> string \<Rightarrow> files \<Rightarrow> files res" where
  "publish dir name contents fs =
     (let target = path_Join [dir, name] in
      if fs target \<noteq> None then Inl (Err (''refuse to overwrite '' @ name)) else Inr (fs(target \<mapsto> contents)))"

lemma publish_Inr:
  "publish dir name contents fs = Inr fs' \<longleftrightarrow> fs (path_Join [dir, name]) = None \<and> fs' = fs(path_Join [dir, name] \<mapsto> contents)"
  by (auto simp: publish_def Let_def)

text \<open>\<open>publishJSON\<close> of the worker: an existing file is left as it is.\<close>

definition publishJSON :: "string \<Rightarrow> string \<Rightarrow> files \<Rightarrow> files" where
  "publishJSON path json fs = (if fs path \<noteq> None then fs else fs(path \<mapsto> json @ [CHR 0x0A]))"

section \<open>The content-addressed store\<close>

text \<open>
  What \<open>Seal\<close> observes of its source: whether \<open>Lstat\<close> finds a regular file, the chunks its reads
  return, and the identity and size the second \<open>Stat\<close> reports.
\<close>

record source =
  so_regular :: bool
  so_chunks :: "string list"
  so_same_file :: bool
  so_final_size :: int

definition ErrUnsafeSource :: err where "ErrUnsafeSource = Err ''unsafe source file''"
definition ErrSourceChanged :: err where "ErrSourceChanged = Err ''source file changed while sealing''"

definition message_path :: "string \<Rightarrow> string \<Rightarrow> string" where
  "message_path root digest = path_Join [path_Join [root, ''messages''], digest @ ''.eml'']"

definition Seal :: "crypto \<Rightarrow> string \<Rightarrow> source option \<Rightarrow> files \<Rightarrow> ((string \<times> int) \<times> files) res" where
  "Seal cr root src fs = (case src of
       None \<Rightarrow> Inl (Err ''stat source'')
     | Some src \<Rightarrow>
         if \<not> so_regular src then Inl ErrUnsafeSource
         else let contents = concat (so_chunks src); written = int (length contents) in
           if \<not> so_same_file src \<or> so_final_size src \<noteq> written then Inl ErrSourceChanged
           else let digest = hex_encode (sha256 cr contents); target = message_path root digest in
             Inr ((digest, written), if fs target \<noteq> None then fs else fs(target \<mapsto> contents)))"

definition store_ok :: "crypto \<Rightarrow> string \<Rightarrow> files \<Rightarrow> bool" where
  "store_ok cr root fs = (\<forall>digest contents. hex_decode digest \<noteq> None \<longrightarrow> fs (message_path root digest) = Some contents \<longrightarrow>
     digest = hex_encode (sha256 cr contents))"

lemma plain_eml: "hex_decode d \<noteq> None \<Longrightarrow> plain (d @ ''.eml'')"
proof -
  assume "hex_decode d \<noteq> None"
  then have "CHR ''/'' \<notin> set d"
    by (induction d rule: hex_decode.induct) (auto simp: hex_value_def Let_def split: option.splits)
  then show ?thesis by (auto simp: plain_def)
qed

lemma path_Join_nonempty: "plain n \<Longrightarrow> path_Join [d, n] \<noteq> []"
  by (auto simp: path_Join_def Clean_def Let_def plain_def)

lemma message_path_inj:
  assumes "message_path root d = message_path root d'" "hex_decode d \<noteq> None" "hex_decode d' \<noteq> None"
  shows "d = d'"
proof -
  have "path_Join [root, ''messages''] \<noteq> []" by (rule path_Join_nonempty) (simp add: plain_def)
  from path_Join_inj [OF plain_eml [OF assms(2)] plain_eml [OF assms(3)] this] assms(1)
  show ?thesis by (simp add: message_path_def)
qed

text \<open>
  C40: The message store is content-addressed and immutable. Sealing keeps the invariant that every
  \<open>messages/<digest>.eml\<close> has the SHA-256 it is named after, never changes a file that exists, and
  after it the sealed bytes are readable under the digest returned, unless another text with the
  same SHA-256 was already there.
\<close>

theorem Seal_content_addressed:
  assumes ok: "store_ok cr root fs" and seal: "Seal cr root src fs = Inr ((digest, n), fs')"
  shows "store_ok cr root fs' \<and> (\<forall>p. fs p \<noteq> None \<longrightarrow> fs' p = fs p) \<and>
    (\<exists>s contents. src = Some s \<and> digest = hex_encode (sha256 cr (concat (so_chunks s))) \<and> n = int (length (concat (so_chunks s))) \<and>
       fs' (message_path root digest) = Some contents \<and> sha256 cr contents = sha256 cr (concat (so_chunks s)))"
proof -
  obtain s where s: "src = Some s" "digest = hex_encode (sha256 cr (concat (so_chunks s)))" "n = int (length (concat (so_chunks s)))"
    "fs' = (if fs (message_path root digest) \<noteq> None then fs else fs(message_path root digest \<mapsto> concat (so_chunks s)))"
    using seal by (auto simp: Seal_def Let_def split: option.splits if_splits)
  have hex: "hex_decode digest \<noteq> None" by (simp add: s(2) hexc.dec_enc)
  show ?thesis
  proof (cases "fs (message_path root digest)")
    case None
    then have fs': "fs' = fs(message_path root digest \<mapsto> concat (so_chunks s))" using s(4) by simp
    have "store_ok cr root fs'"
      unfolding store_ok_def
    proof (intro allI impI)
      fix d contents
      assume d: "hex_decode d \<noteq> None" "fs' (message_path root d) = Some contents"
      show "d = hex_encode (sha256 cr contents)"
      proof (cases "message_path root d = message_path root digest")
        case True
        with d(2) fs' have "contents = concat (so_chunks s)" by simp
        with message_path_inj [OF True d(1) hex] s(2) show ?thesis by simp
      next
        case False
        with d ok fs' show ?thesis by (simp add: store_ok_def)
      qed
    qed
    then show ?thesis using s None by auto
  next
    case (Some contents)
    then have "digest = hex_encode (sha256 cr contents)" using ok hex by (auto simp: store_ok_def)
    then have "sha256 cr contents = sha256 cr (concat (so_chunks s))" using s(2) by (simp add: hexc.enc_eq_iff)
    then show ?thesis using ok s Some by auto
  qed
qed

theorem Seal_content_addressed_witness:
  "\<exists>digest n fs'. Seal \<lparr>sha256 = (\<lambda>s. s), hmac = (\<lambda>k s. s)\<rparr> ''/a''
      (Some \<lparr>so_regular = True, so_chunks = [''x'', ''y''], so_same_file = True, so_final_size = 2\<rparr>) Map.empty = Inr ((digest, n), fs') \<and>
     fs' (message_path ''/a'' digest) = Some ''xy''"
proof -
  let ?cr = "\<lparr>sha256 = (\<lambda>s. s), hmac = (\<lambda>k s. s)\<rparr>" and ?s = "\<lparr>so_regular = True, so_chunks = [''x'', ''y''], so_same_file = True, so_final_size = 2\<rparr>"
  obtain digest n fs' where s: "Seal ?cr ''/a'' (Some ?s) Map.empty = Inr ((digest, n), fs')"
    by (simp add: Seal_def Let_def)
  have "store_ok ?cr ''/a'' Map.empty" by (simp add: store_ok_def)
  from Seal_content_addressed [OF this s] s show ?thesis by auto
qed

end
