(* ===== verification/Http.thy ===== *)
theory Http
  imports Files
begin

text \<open>
  What the HTTP adapters use of \<open>net/http\<close> and \<open>net/url\<close>: the values of a query, a form or a header,
  requests, percent-decoding, and the dispatch of \<open>http.ServeMux\<close>. A pattern is a method and the
  segments of a path; a last segment that is empty stands for a subtree. An exact pattern is more
  specific than a subtree, a longer subtree more specific than a shorter one; \<open>GET\<close> also serves
  \<open>HEAD\<close>. The locale \<open>bearer_gate\<close> states what both internal APIs promise of their bearer token.
\<close>

section \<open>Values\<close>

type_synonym url_values = "(string \<times> string list) list"

definition query_get :: "string \<Rightarrow> url_values \<Rightarrow> string" where
  "query_get k q = (case map_of q k of Some (v # _) \<Rightarrow> v | _ \<Rightarrow> [])"

definition query_set :: "string \<Rightarrow> string \<Rightarrow> url_values \<Rightarrow> url_values" where
  "query_set k v q = (k, [v]) # filter (\<lambda>(k', _). k' \<noteq> k) q"

lemma query_get_set [simp]: "query_get k (query_set k' v q) = (if k = k' then v else query_get k q)"
proof -
  have "map_of (filter (\<lambda>(x, _). x \<noteq> k') q) k = map_of q k" if "k \<noteq> k'"
    using that by (induction q) auto
  then show ?thesis by (auto simp: query_get_def query_set_def)
qed

lemma prefix_TrimPrefix: "HasPrefix s p \<Longrightarrow> s = p @ TrimPrefix s p"
  unfolding TrimPrefix_def HasPrefix_def by (metis append_take_drop_id)

section \<open>Requests\<close>

text \<open>
  \<open>rq_EscapedPath\<close> is \<open>URL.EscapedPath()\<close>; a request whose path has a malformed escape is refused by
  the server before any handler runs. \<open>rq_Form\<close> is what \<open>FormValue\<close> reads.
\<close>

record http_request =
  rq_Method :: string
  rq_Host :: string
  rq_EscapedPath :: string
  rq_Query :: url_values
  rq_Header :: url_values
  rq_Form :: url_values
  rq_Cookies :: "(string \<times> string) list"

fun PathUnescape :: "string \<Rightarrow> string option" where
  "PathUnescape [] = Some []"
| "PathUnescape (c # s) =
     (if c = CHR ''%'' then
        (case s of a # b # r \<Rightarrow>
           (case (hex_value a, hex_value b) of
              (Some x, Some y) \<Rightarrow> map_option (Cons (char_of (16 * x + y))) (PathUnescape r)
            | _ \<Rightarrow> None)
         | _ \<Rightarrow> None)
      else map_option (Cons c) (PathUnescape s))"

definition url_Path :: "http_request \<Rightarrow> string" where
  "url_Path r = (case PathUnescape (rq_EscapedPath r) of None \<Rightarrow> [] | Some p \<Rightarrow> p)"

section \<open>Dispatch\<close>

definition cleanPath :: "string \<Rightarrow> string" where
  "cleanPath p =
     (if p = [] then ''/''
      else let q = (if hd p = CHR ''/'' then p else CHR ''/'' # p); np = Clean q in
        if last q = CHR ''/'' \<and> np \<noteq> ''/'' then np @ ''/'' else np)"

text \<open>The segments the dispatcher compares: each is unescaped on its own and left as it is when that fails.\<close>

definition path_segments :: "string \<Rightarrow> string list" where
  "path_segments p = map (\<lambda>x. case PathUnescape x of None \<Rightarrow> x | Some y \<Rightarrow> y) (tl (Split (CHR ''/'') p))"

datatype 'h mux_reply = Handled 'h | Redirected | MethodNotAllowed | NotFound

type_synonym 'h route = "string \<times> string \<times> 'h"

definition pattern_segments :: "'h route \<Rightarrow> string list" where
  "pattern_segments r = tl (Split (CHR ''/'') (fst (snd r)))"

definition exact_match :: "string list \<Rightarrow> 'h route \<Rightarrow> bool" where
  "exact_match segs r = (pattern_segments r = segs \<and> last segs \<noteq> [])"

definition subtree_match :: "string list \<Rightarrow> 'h route \<Rightarrow> bool" where
  "subtree_match segs r = (let ps = pattern_segments r in
     last ps = [] \<and> length ps \<le> length segs \<and> take (length ps - 1) segs = butlast ps)"

definition most_specific :: "string list \<Rightarrow> 'h route list \<Rightarrow> 'h route option" where
  "most_specific segs rs = (case find (exact_match segs) rs of
       Some r \<Rightarrow> Some r
     | None \<Rightarrow> last_max (\<lambda>r. length (pattern_segments r)) (filter (subtree_match segs) rs))"

definition serves :: "string \<Rightarrow> 'h route \<Rightarrow> bool" where
  "serves method r = (fst r = method \<or> fst r = ''GET'' \<and> method = ''HEAD'')"

definition ServeMux :: "'h route list \<Rightarrow> http_request \<Rightarrow> 'h mux_reply" where
  "ServeMux routes r =
     (if rq_Method r \<noteq> ''CONNECT'' \<and> cleanPath (rq_EscapedPath r) \<noteq> rq_EscapedPath r then Redirected
      else let segs = path_segments (rq_EscapedPath r) in
        case most_specific segs (filter (serves (rq_Method r)) routes) of
          Some (_, _, h) \<Rightarrow> Handled h
        | None \<Rightarrow> if most_specific segs routes = None then NotFound else MethodNotAllowed)"

lemma slash_unescaped:
  assumes "PathUnescape s = Some t" "CHR ''/'' \<notin> set t"
  shows "CHR ''/'' \<notin> set s"
  using assms
proof (induction s arbitrary: t rule: PathUnescape.induct)
  case (2 c s)
  show ?case
  proof (cases "c = CHR ''%''")
    case True
    with 2(3) obtain a b r x y u where s: "s = a # b # r" "hex_value a = Some x" "hex_value b = Some y"
      "PathUnescape r = Some u" "t = char_of (16 * x + y) # u"
      by (auto split: list.splits option.splits)
    moreover have "CHR ''/'' \<notin> set r" using 2(1) [OF True s(1) refl refl s(2,3,4)] s(5) 2(4) by auto
    moreover have "a \<noteq> CHR ''/''" "b \<noteq> CHR ''/''" using s(2,3) by (auto simp: hex_value_def split: if_splits)
    ultimately show ?thesis using True by auto
  next
    case False
    with 2 show ?thesis by auto
  qed
qed simp

lemma path_segments_plain:
  assumes "PathUnescape p = Some (CHR ''/'' # w)" "hd p = CHR ''/''" "CHR ''/'' \<notin> set w"
  shows "path_segments p = [w]"
proof -
  from assms(1) have "p \<noteq> []" by auto
  with assms(2) obtain q where p: "p = CHR ''/'' # q" by (cases p) auto
  with assms(1) have q: "PathUnescape q = Some w" by auto
  with assms(3) have "CHR ''/'' \<notin> set q" by (rule slash_unescaped [rotated])
  then show ?thesis using q by (simp add: p path_segments_def Split_plain)
qed

section \<open>Bearer tokens\<close>

text \<open>
  The gate in front of an internal API: \<open>/healthz\<close> is open, and every other path needs the configured
  token, compared through its digest; a token of fewer than 32 bytes opens nothing.
\<close>

locale bearer_gate =
  fixes pass :: "crypto \<Rightarrow> string \<Rightarrow> string \<Rightarrow> string \<Rightarrow> bool"
  assumes pass_health: "pass cr token ''/healthz'' authorization"
    and pass_bearer: "path \<noteq> ''/healthz'' \<Longrightarrow> pass cr token path authorization \<longleftrightarrow>
      32 \<le> length token \<and> HasPrefix authorization ''Bearer '' \<and> sha256 cr token = sha256 cr (TrimPrefix authorization ''Bearer '')"
begin

lemma short_token_closed: "path \<noteq> ''/healthz'' \<Longrightarrow> length token < 32 \<Longrightarrow> \<not> pass cr token path authorization"
  by (simp add: pass_bearer)

lemma only_the_token:
  assumes "path \<noteq> ''/healthz''" "sha256 cr token = sha256 cr (TrimPrefix authorization ''Bearer '') \<Longrightarrow> TrimPrefix authorization ''Bearer '' = token"
  shows "pass cr token path authorization \<longleftrightarrow> 32 \<le> length token \<and> authorization = ''Bearer '' @ token"
proof -
  have "authorization = ''Bearer '' @ TrimPrefix authorization ''Bearer ''" if "HasPrefix authorization ''Bearer ''"
    using that by (rule prefix_TrimPrefix)
  moreover have "HasPrefix (''Bearer '' @ token) ''Bearer ''" "TrimPrefix (''Bearer '' @ token) ''Bearer '' = token"
    by (simp_all add: HasPrefix_def TrimPrefix_def)
  ultimately show ?thesis unfolding pass_bearer [OF assms(1)] using assms(2) by metis
qed

end

end
