(* ===== verification/Control.thy ===== *)
theory Control
  imports Admission Http
begin

text \<open>
  \<open>internal/control\<close>: the two-phase policy commands. \<open>Preview\<close> validates a command, computes
  the digest of the effective policy before and after it and stores a single-use confirmation
  token; \<open>Confirm\<close> consumes the token, applies the command under a new policy version,
  recomputes the digest and appends the command and audit rows. \<open>http.go\<close> authenticates the
  caller and maps errors to status codes.

  A command's JSON object is represented by the members the program reads (\<open>payload\<close>;
  \<open>None\<close> when \<open>json.Unmarshal\<close> rejects it), in the request and in the stored
  \<open>command_json\<close>, which holds the same object; no member of it is itself called
  \<open>command\<close>. \<open>sort.Slice\<close> is a stable sort, as it is up to twelve elements. A Go slice that may be
  \<open>nil\<close> is an optional list, because \<open>json.Marshal\<close> writes \<open>null\<close> for it.
\<close>

definition ctl_SchemaVersion :: string where
  "ctl_SchemaVersion = ''mailproof.control/v1''"

definition ErrInvalid :: err where "ErrInvalid = Err ''invalid_request''"
definition ErrExpired :: err where "ErrExpired = Err ''preview_expired''"
definition ErrConflict :: err where "ErrConflict = Err ''policy_version_conflict''"
definition ErrReplay :: err where "ErrReplay = Err ''idempotency_replayed''"
definition ErrUnsupported :: err where "ErrUnsupported = Err ''unsupported_command''"

record ctl_service =
  ConfirmationKey :: string
  ctl_CapabilityKey :: string
  CapabilityDomain :: string

record command =
  cmd_SchemaVersion :: string
  cmd_CommandID :: string
  cmd_CommandType :: string
  cmd_ExpectedVersion :: int
  cmd_Reason :: string
  cmd_IdempotencyKey :: string
  cmd_Command :: "payload option"

record preview =
  pv_ConfirmationToken :: string
  pv_BeforeDigest :: string
  pv_AfterDigest :: string
  pv_ExpiresAt :: time
  pv_Normalized :: payload
  pv_CurrentVersion :: int
  pv_NextVersion :: int

record confirmation =
  cf_SchemaVersion :: string
  cf_CommandID :: string
  cf_ExpectedVersion :: int
  cf_IdempotencyKey :: string
  cf_ConfirmationToken :: string
  cf_BeforeDigest :: string
  cf_AfterDigest :: string
  cf_Reason :: string
  cf_SessionID :: string

record ctl_result =
  cr_CommandID :: string
  cr_PolicyVersion :: int
  cr_ResultCode :: string
  cr_Capability :: string

section \<open>Validation\<close>

definition rule_types :: "string list" where
  "rule_types = [''subject_allowlist_put'', ''peer_block_put'', ''outer_domain_block_put'', ''subject_domain_block_put'']"

definition ctl_allowed :: "string \<Rightarrow> bool" where
  "ctl_allowed t = (t \<in> set ([''quota_change'', ''submitter_suspend'', ''submitter_reactivate'', ''capability_rotate''] @ rule_types))"

definition validDomainRule :: "string \<Rightarrow> bool \<Rightarrow> bool" where
  "validDomainRule v wildcard =
     (let ok = (\<lambda>v. v \<noteq> [] \<and> \<not> ContainsAny v '' /@'' \<and> Contains v ''.'') in
      if wildcard \<and> HasPrefix v ''*.'' then ok (TrimPrefix v ''*.'')
      else if HasPrefix v ''*.'' then False else ok v)"

definition validateOperation :: "string \<Rightarrow> payload \<Rightarrow> unit res" where
  "validateOperation typ v =
     (if typ = ''quota_change'' then
        (if p_submitter_id v = [] \<or> p_minute_limit v < 1 \<or> p_hour_limit v < 1 \<or> p_day_limit v < 1 then Inl ErrInvalid else Inr ())
      else if typ = ''submitter_suspend'' \<or> typ = ''submitter_reactivate'' \<or> typ = ''capability_rotate'' then
        (if p_submitter_id v = [] then Inl ErrInvalid else Inr ())
      else if typ \<in> set rule_types then
        (if p_enabled v = Some False then (if p_rule_id v = [] then Inl ErrInvalid else Inr ())
         else if p_value v = [] then Inl ErrInvalid
         else if typ = ''peer_block_put'' \<and> ParseIP (p_value v) = None \<and> ParseCIDR (p_value v) = None then Inl ErrInvalid
         else if typ \<noteq> ''peer_block_put'' \<and> \<not> validDomainRule (p_value v) (typ = ''subject_allowlist_put'') then Inl ErrInvalid
         else if p_expiry v \<noteq> [] \<and> (parse_rfc3339 (p_expiry v) = None \<or> \<not> HasSuffix (p_expiry v) ''Z'') then Inl ErrInvalid
         else Inr ())
      else Inl ErrUnsupported)"

definition ctl_canonical :: "command \<Rightarrow> payload res" where
  "ctl_canonical c =
     (if cmd_SchemaVersion c \<noteq> ctl_SchemaVersion \<or> \<not> ctl_allowed (cmd_CommandType c) \<or>
         length (cmd_CommandID c) < 16 \<or> length (cmd_CommandID c) > 128 \<or>
         length (cmd_IdempotencyKey c) < 16 \<or> length (cmd_IdempotencyKey c) > 128 \<or>
         length (TrimSpace (cmd_Reason c)) < 8 \<or> length (cmd_Reason c) > 512 \<or> cmd_ExpectedVersion c < 0
      then Inl ErrInvalid
      else case cmd_Command c of
          None \<Rightarrow> Inl ErrInvalid
        | Some v \<Rightarrow> bind_res (validateOperation (cmd_CommandType c) v) (\<lambda>_. Inr v))"

section \<open>The effective policy\<close>

type_synonym 'a slice = "'a list option"

definition elems :: "'a slice \<Rightarrow> 'a list" where
  "elems xs = (case xs of None \<Rightarrow> [] | Some ys \<Rightarrow> ys)"

text \<open>What a loop of \<open>append\<close> over rows builds: \<open>nil\<close> when there are none.\<close>

definition slice_of :: "'a list \<Rightarrow> 'a slice" where
  "slice_of xs = (if xs = [] then None else Some xs)"

definition slice_append :: "'a slice \<Rightarrow> 'a \<Rightarrow> 'a slice" where
  "slice_append xs x = Some (elems xs @ [x])"

text \<open>Removal of the first element that matches, by \<open>append(xs[:i], xs[i+1:]...)\<close>.\<close>

fun remove_first :: "('a \<Rightarrow> bool) \<Rightarrow> 'a list \<Rightarrow> 'a list" where
  "remove_first P [] = []"
| "remove_first P (x # xs) = (if P x then xs else x # remove_first P xs)"

record eff_rule =
  er_ID :: string
  er_Type :: string
  er_Subject :: string
  er_Value :: string
  er_ExpiresAt :: "int option"

record eff_submitter =
  es_ID :: string
  es_Status :: string
  es_Minute :: int
  es_Hour :: int
  es_Day :: int

record eff_cap =
  ec_SubmitterID :: string
  ec_Digest :: string

record eff_policy =
  ep_Rules :: "eff_rule slice"
  ep_Submitters :: "eff_submitter slice"
  ep_Capabilities :: "eff_cap slice"

fun status_text :: "sub_status \<Rightarrow> string" where
  "status_text Pending = ''pending''"
| "status_text Active = ''active''"
| "status_text Revoked = ''revoked''"

definition rule_live :: "time \<Rightarrow> policy_rule_row \<Rightarrow> bool" where
  "rule_live now r = (pr_enabled r \<and> (case pr_expires_at r of None \<Rightarrow> True | Some t \<Rightarrow> t > now))"

definition eff_rule_of :: "policy_rule_row \<Rightarrow> eff_rule" where
  "eff_rule_of r = \<lparr>er_ID = pr_rule_id r, er_Type = pr_rule_type r, er_Subject = pr_subject r, er_Value = pr_value r,
     er_ExpiresAt = pr_expires_at r\<rparr>"

definition eff_submitter_of :: "submitter \<Rightarrow> eff_submitter" where
  "eff_submitter_of r = \<lparr>es_ID = s_submitter_id r, es_Status = status_text (s_status r), es_Minute = s_minute_limit r,
     es_Hour = s_hour_limit r, es_Day = s_day_limit r\<rparr>"

definition effectivePolicyState :: "time \<Rightarrow> db \<Rightarrow> eff_policy" where
  "effectivePolicyState now s = \<lparr>
     ep_Rules = slice_of (map eff_rule_of (sort_key (\<lambda>r. (pr_rule_type r, pr_subject r, pr_value r, pr_rule_id r))
       (filter (rule_live now) (policy_rules s)))),
     ep_Submitters = slice_of (map eff_submitter_of (sort_key s_submitter_id (submitters s))),
     ep_Capabilities = slice_of (map (\<lambda>c. \<lparr>ec_SubmitterID = c_submitter_id c, ec_Digest = hex_encode (c_digest c)\<rparr>)
       (sort_key (\<lambda>c. (c_submitter_id c, c_digest c)) (active_caps (submission_capabilities s))))\<rparr>"

section \<open>The projected digest\<close>

definition update_submitter :: "string \<Rightarrow> (eff_submitter \<Rightarrow> eff_submitter) \<Rightarrow> eff_policy \<Rightarrow> eff_policy" where
  "update_submitter sid f st = st\<lparr>ep_Submitters := map_option (map (\<lambda>x. if es_ID x = sid then f x else x)) (ep_Submitters st)\<rparr>"

definition remove_slice :: "('a \<Rightarrow> bool) \<Rightarrow> 'a slice \<Rightarrow> 'a slice" where
  "remove_slice P xs = map_option (remove_first P) xs"

definition project_command :: "string \<Rightarrow> payload \<Rightarrow> string \<Rightarrow> eff_policy \<Rightarrow> eff_policy res" where
  "project_command typ v capabilityDigest st =
     (if typ = ''quota_change'' then
        Inr (update_submitter (p_submitter_id v)
          (\<lambda>x. x\<lparr>es_Minute := p_minute_limit v, es_Hour := p_hour_limit v, es_Day := p_day_limit v\<rparr>) st)
      else if typ = ''submitter_suspend'' then Inr (update_submitter (p_submitter_id v) (\<lambda>x. x\<lparr>es_Status := ''revoked''\<rparr>) st)
      else if typ = ''submitter_reactivate'' then Inr (update_submitter (p_submitter_id v) (\<lambda>x. x\<lparr>es_Status := ''active''\<rparr>) st)
      else if typ \<in> set rule_types then
        (if p_enabled v = Some False then
           Inr (st\<lparr>ep_Rules := remove_slice (\<lambda>r. er_ID r = p_rule_id v) (ep_Rules st)\<rparr>)
         else if p_expiry v \<noteq> [] \<and> parse_rfc3339 (p_expiry v) = None then Inl ErrInvalid
         else Inr (st\<lparr>ep_Rules := slice_append (ep_Rules st) \<lparr>er_ID = [], er_Type = typ, er_Subject = p_subject v,
           er_Value = p_value v, er_ExpiresAt = (if p_expiry v = [] then None else parse_rfc3339 (p_expiry v))\<rparr>\<rparr>))
      else if typ = ''capability_rotate'' then
        (if capabilityDigest = [] then Inl ErrInvalid
         else Inr (st\<lparr>ep_Capabilities := slice_append
           (remove_slice (\<lambda>c. ec_SubmitterID c = p_submitter_id v) (ep_Capabilities st))
           \<lparr>ec_SubmitterID = p_submitter_id v, ec_Digest = capabilityDigest\<rparr>\<rparr>))
      else Inr st)"

definition rule_sort_key :: "eff_rule \<Rightarrow> string" where
  "rule_sort_key r = er_Type r @ er_Subject r @ er_Value r"

definition blank_ID :: "eff_rule \<Rightarrow> eff_rule" where
  "blank_ID r = r\<lparr>er_ID := []\<rparr>"

definition normalize :: "eff_policy \<Rightarrow> eff_policy" where
  "normalize st = \<lparr>
     ep_Rules = map_option (\<lambda>xs. sort_key rule_sort_key (map blank_ID xs)) (ep_Rules st),
     ep_Submitters = map_option (sort_key es_ID) (ep_Submitters st),
     ep_Capabilities = map_option (sort_key (\<lambda>c. ec_SubmitterID c @ ec_Digest c)) (ep_Capabilities st)\<rparr>"

definition json_slice :: "('a \<Rightarrow> string) \<Rightarrow> 'a slice \<Rightarrow> string" where
  "json_slice f xs = (case xs of None \<Rightarrow> ''null'' | Some ys \<Rightarrow> ''['' @ Join '','' (map f ys) @ '']'')"

definition rule_json :: "eff_rule \<Rightarrow> string" where
  "rule_json r = json_object ([(''ID'', json_string (er_ID r)), (''Type'', json_string (er_Type r)),
     (''Subject'', json_string (er_Subject r)), (''Value'', json_string (er_Value r))] @
     (case er_ExpiresAt r of None \<Rightarrow> [] | Some t \<Rightarrow> [(''expires_at'', show_int t)]))"

definition policy_json :: "eff_policy \<Rightarrow> string" where
  "policy_json st = json_object
     [(''rules'', json_slice rule_json (ep_Rules st)),
      (''submitters'', json_slice (\<lambda>x. json_object [(''ID'', json_string (es_ID x)), (''Status'', json_string (es_Status x)),
         (''Minute'', show_int (es_Minute x)), (''Hour'', show_int (es_Hour x)), (''Day'', show_int (es_Day x))]) (ep_Submitters st)),
      (''capabilities'', json_slice (\<lambda>c. json_object [(''SubmitterID'', json_string (ec_SubmitterID c)),
         (''Digest'', json_string (ec_Digest c))]) (ep_Capabilities st))]"

text \<open>
  The digest, and what the call leaves in the caller's slices: identifiers are cleared and the
  slices sorted in place.
\<close>

definition projectedPolicyDigest :: "crypto \<Rightarrow> eff_policy \<Rightarrow> string \<Rightarrow> payload \<Rightarrow> string \<Rightarrow> (string \<times> eff_policy) res" where
  "projectedPolicyDigest cr st typ v capabilityDigest =
     bind_res (project_command typ v capabilityDigest st) (\<lambda>st.
       Inr (hex_encode (sha256 cr (policy_json (normalize st))), normalize st))"

definition empty_payload :: payload where
  "empty_payload = \<lparr>p_submitter_id = [], p_rule_id = [], p_value = [], p_subject = [], p_expiry = [], p_enabled = None,
     p_minute_limit = 0, p_hour_limit = 0, p_day_limit = 0\<rparr>"

definition rotatedCapability :: "crypto \<Rightarrow> string \<Rightarrow> string \<Rightarrow> string" where
  "rotatedCapability cr key token = b64_encode (hmac cr key (''control-rotate:'' @ token))"

definition digestCapability :: "crypto \<Rightarrow> string \<Rightarrow> string \<Rightarrow> string" where
  "digestCapability cr key cap = hex_encode (hmac cr key cap)"

definition current_version :: "db \<Rightarrow> int res" where
  "current_version s = (case map pv_version (policy_versions s) of
     [] \<Rightarrow> Inl (Err ''converting NULL to int64'') | v # vs \<Rightarrow> Inr (fold max vs v))"

section \<open>Preview\<close>

definition Preview :: "crypto \<Rightarrow> ctl_service \<Rightarrow> string \<Rightarrow> command \<Rightarrow> string \<Rightarrow> time \<Rightarrow> db \<Rightarrow> (preview \<times> db) res" where
  "Preview cr svc session c token_bytes now s =
     (if length (ConfirmationKey svc) < 32 \<or> length session < 16 then Inl ErrInvalid
      else bind_res (ctl_canonical c) (\<lambda>b.
      bind_res (current_version s) (\<lambda>version.
      if version \<noteq> cmd_ExpectedVersion c then Inl ErrConflict
      else let raw = b64_encode token_bytes in
      bind_res (projectedPolicyDigest cr (effectivePolicyState now s) [] empty_payload []) (\<lambda>(before, state).
      let capabilityDigest = (if cmd_CommandType c = ''capability_rotate''
            then digestCapability cr (ctl_CapabilityKey svc) (rotatedCapability cr (ctl_CapabilityKey svc) raw) else []) in
      bind_res (projectedPolicyDigest cr state (cmd_CommandType c) b capabilityDigest) (\<lambda>(after, _).
      bind_res (insert_confirmation_token \<lparr>ct_token_digest = hmac cr (ConfirmationKey svc) raw, ct_command_digest = after,
          ct_session_id = session, ct_expected_version = version, ct_expires_at = now + 300, ct_consumed_at = None,
          ct_command_json = b, ct_command_type = cmd_CommandType c, ct_command_id = cmd_CommandID c,
          ct_idempotency_key = cmd_IdempotencyKey c, ct_reason = cmd_Reason c, ct_before_digest = before\<rparr> s) (\<lambda>s'.
      Inr (\<lparr>pv_ConfirmationToken = raw, pv_BeforeDigest = before, pv_AfterDigest = after, pv_ExpiresAt = now + 300,
            pv_Normalized = b, pv_CurrentVersion = version, pv_NextVersion = version + 1\<rparr>, s')))))))"

section \<open>Confirmation\<close>

definition rotate :: "crypto \<Rightarrow> payload \<Rightarrow> string \<Rightarrow> string \<Rightarrow> string \<Rightarrow> time \<Rightarrow> string \<Rightarrow> db \<Rightarrow> (string \<times> db) res" where
  "rotate cr v key domain id_bytes now secret s =
     (if length key < 32 \<or> domain = [] then Inl ErrInvalid
      else if p_submitter_id v = [] then Inl ErrInvalid
      else if secret = [] then Inl ErrInvalid
      else let P = (\<lambda>c. c_submitter_id c = p_submitter_id v \<and> c_revoked_at c = None) in
        if sql_count P (submission_capabilities s) \<noteq> 1 then Inl ErrInvalid
        else bind_res (insert_capability \<lparr>c_capability_id = b64_encode id_bytes, c_submitter_id = p_submitter_id v,
              c_digest = hmac cr key secret, c_key_id = ''control'', c_activated_at = now, c_revoked_at = None\<rparr>
            (s\<lparr>submission_capabilities := sql_update P (\<lambda>c. c\<lparr>c_revoked_at := Some now\<rparr>) (submission_capabilities s)\<rparr>)) (\<lambda>s'.
          Inr (''verify+'' @ secret @ ''@'' @ domain, s')))"

text \<open>An update of \<open>submitters\<close> that must change exactly one row.\<close>

definition update_one_submitter :: "(submitter \<Rightarrow> bool) \<Rightarrow> (submitter \<Rightarrow> submitter) \<Rightarrow> db \<Rightarrow> db res" where
  "update_one_submitter P f s = bind_res (update_submitters P f s) (\<lambda>s'.
     if sql_count P (submitters s) \<noteq> 1 then Inl ErrInvalid else Inr s')"

text \<open>\<open>rid\<close> is the identifier \<open>randomblob(16)\<close> draws.\<close>

definition apply_command :: "string \<Rightarrow> payload \<Rightarrow> int \<Rightarrow> time \<Rightarrow> string \<Rightarrow> db \<Rightarrow> db res" where
  "apply_command typ v version now rid s =
     (if typ = ''quota_change'' then
        (if p_submitter_id v = [] \<or> p_minute_limit v < 1 \<or> p_hour_limit v < 1 \<or> p_day_limit v < 1 then Inl ErrInvalid
         else update_one_submitter (\<lambda>r. s_submitter_id r = p_submitter_id v)
           (\<lambda>r. r\<lparr>s_minute_limit := p_minute_limit v, s_hour_limit := p_hour_limit v, s_day_limit := p_day_limit v,
                s_policy_version := CHR ''v'' # show_int version\<rparr>) s)
      else if typ = ''submitter_suspend'' then
        update_one_submitter (\<lambda>r. s_submitter_id r = p_submitter_id v \<and> s_status r = Active)
          (\<lambda>r. r\<lparr>s_status := Revoked, s_revoked_at := Some now\<rparr>) s
      else if typ = ''submitter_reactivate'' then
        update_one_submitter (\<lambda>r. s_submitter_id r = p_submitter_id v \<and> s_status r = Revoked)
          (\<lambda>r. r\<lparr>s_status := Active, s_revoked_at := None\<rparr>) s
      else if typ \<in> set rule_types then
        (if p_enabled v = Some False then
           (if p_rule_id v = [] then Inl ErrInvalid
            else let P = (\<lambda>r. pr_rule_id r = p_rule_id v \<and> pr_rule_type r = typ \<and> pr_enabled r) in
              if sql_count P (policy_rules s) \<noteq> 1 then Inl ErrInvalid
              else Inr (s\<lparr>policy_rules := sql_update P (\<lambda>r. r\<lparr>pr_enabled := False, pr_version := version\<rparr>) (policy_rules s)\<rparr>))
         else if p_value v = [] then Inl ErrInvalid
         else if p_expiry v \<noteq> [] \<and> (case parse_rfc3339 (p_expiry v) of None \<Rightarrow> True | Some t \<Rightarrow> t \<le> now) then Inl ErrInvalid
         else insert_policy_rule \<lparr>pr_rule_id = rid, pr_version = version, pr_rule_type = typ, pr_subject = p_subject v,
             pr_value = p_value v, pr_enabled = True,
             pr_expires_at = (if p_expiry v = [] then None else parse_rfc3339 (p_expiry v)), pr_created_at = now\<rparr> s)
      else Inl ErrUnsupported)"

definition confirm_effect ::
  "crypto \<Rightarrow> ctl_service \<Rightarrow> confirmation_token \<Rightarrow> string \<Rightarrow> int \<Rightarrow> string \<Rightarrow> string \<Rightarrow> time \<Rightarrow> db \<Rightarrow> (string \<times> db) res" where
  "confirm_effect cr svc t token version capid_bytes rid now s =
     (if ct_command_type t = ''capability_rotate'' then
        rotate cr (ct_command_json t) (ctl_CapabilityKey svc) (CapabilityDomain svc) capid_bytes now
          (rotatedCapability cr (ctl_CapabilityKey svc) token) s
      else bind_res (apply_command (ct_command_type t) (ct_command_json t) version now rid s) (\<lambda>s'. Inr ([], s')))"

definition token_matches :: "confirmation_token \<Rightarrow> confirmation \<Rightarrow> bool" where
  "token_matches t x = (ct_session_id t = cf_SessionID x \<and> ct_expected_version t = cf_ExpectedVersion x \<and>
     ct_command_digest t = cf_AfterDigest x \<and> ct_command_id t = cf_CommandID x \<and>
     ct_idempotency_key t = cf_IdempotencyKey x \<and> ct_reason t = cf_Reason x \<and> ct_before_digest t = cf_BeforeDigest x)"

definition consume_token :: "string \<Rightarrow> time \<Rightarrow> db \<Rightarrow> db" where
  "consume_token d now s = s\<lparr>confirmation_tokens := sql_update (\<lambda>t. ct_token_digest t = d \<and> ct_consumed_at t = None)
     (\<lambda>t. t\<lparr>ct_consumed_at := Some now\<rparr>) (confirmation_tokens s)\<rparr>"

definition record_confirmation :: "confirmation_token \<Rightarrow> string \<Rightarrow> int \<Rightarrow> time \<Rightarrow> db \<Rightarrow> db res" where
  "record_confirmation t token_digest current now s =
     bind_res (insert_control_command \<lparr>cc_command_id = ct_command_id t, cc_idempotency_key = ct_idempotency_key t,
         cc_command_type = ct_command_type t, cc_command_digest = ct_command_digest t, cc_expected_version = current,
         cc_result_version = current + 1, cc_result_code = ''applied'', cc_created_at = now\<rparr> s) (\<lambda>s.
     insert_audit_event \<lparr>au_command_id = ct_command_id t, au_actor = ''unauthenticated-local'',
         au_session_id = ct_session_id t, au_command_type = ct_command_type t, au_result_code = ''applied'',
         au_before_digest = ct_before_digest t, au_after_digest = ct_command_digest t, au_reason = ct_reason t,
         au_created_at = now\<rparr> (consume_token token_digest now s))"

definition Confirm ::
  "crypto \<Rightarrow> ctl_service \<Rightarrow> confirmation \<Rightarrow> string \<Rightarrow> string \<Rightarrow> time \<Rightarrow> db \<Rightarrow> (ctl_result \<times> db) res" where
  "Confirm cr svc x capid_bytes rid now s =
     (let d = hmac cr (ConfirmationKey svc) (cf_ConfirmationToken x) in
      if length (ConfirmationKey svc) < 32 \<or> cf_SchemaVersion x \<noteq> ctl_SchemaVersion \<or> length (cf_SessionID x) < 16 \<or>
         length (cf_ConfirmationToken x) < 32 \<or> length (TrimSpace (cf_Reason x)) < 8 then Inl ErrInvalid
      else case row_by ct_token_digest d (confirmation_tokens s) of
          None \<Rightarrow> Inl ErrExpired
        | Some t \<Rightarrow>
            if now > ct_expires_at t then Inl ErrExpired
            else if ct_consumed_at t \<noteq> None then Inl ErrReplay
            else if \<not> token_matches t x then Inl ErrExpired
            else bind_res (current_version s) (\<lambda>current.
              if current \<noteq> ct_expected_version t then Inl ErrConflict
              else if sql_count (\<lambda>c. cc_idempotency_key c = ct_idempotency_key t) (control_commands s) \<noteq> 0 then Inl ErrReplay
              else bind_res (insert_policy_version \<lparr>pv_version = current + 1, pv_created_at = now,
                     pv_command_id = ct_command_id t, pv_digest = ct_command_digest t\<rparr> s) (\<lambda>s1.
              bind_res (confirm_effect cr svc t (cf_ConfirmationToken x) (current + 1) capid_bytes rid now s1) (\<lambda>(capability, s2).
              bind_res (projectedPolicyDigest cr (effectivePolicyState now s2) [] empty_payload []) (\<lambda>(actualAfter, _).
              if actualAfter \<noteq> ct_command_digest t then Inl ErrConflict
              else bind_res (record_confirmation t d current now s2) (\<lambda>s3.
              Inr (\<lparr>cr_CommandID = ct_command_id t, cr_PolicyVersion = current + 1, cr_ResultCode = ''applied'',
                    cr_Capability = capability\<rparr>, s3)))))))"

section \<open>The HTTP adapter\<close>

text \<open>
  A response is a status with an error code or a value. The body of a request is what the JSON
  decoder makes of it: \<open>None\<close> stands for every way \<open>Decode\<close> fails (malformed, an unknown field,
  more than 64 KiB, a second value).
\<close>

type_synonym 'a http = "int \<times> (string + 'a)"

definition failure :: "int \<Rightarrow> string \<Rightarrow> 'a http" where
  "failure status code = (status, Inl code)"

definition writeError :: "err \<Rightarrow> 'a http" where
  "writeError e = (if e = ErrInvalid then failure 400 ''invalid_request''
     else if e = ErrExpired then failure 409 ''preview_expired''
     else if e = ErrConflict then failure 409 ''policy_version_conflict''
     else if e = ErrReplay then failure 409 ''idempotency_replayed''
     else if e = ErrUnsupported then failure 400 ''unsupported_command''
     else failure 500 ''internal_error'')"

definition decode_body :: "string \<Rightarrow> 'a option \<Rightarrow> 'a res" where
  "decode_body content_type body =
     (if \<not> HasPrefix content_type ''application/json'' then Inl ErrInvalid
      else case body of None \<Rightarrow> Inl ErrInvalid | Some v \<Rightarrow> Inr v)"

definition ctl_auth :: "crypto \<Rightarrow> string \<Rightarrow> string \<Rightarrow> string \<Rightarrow> bool" where
  "ctl_auth cr token path authorization =
     (path = ''/healthz'' \<or>
      (length token \<ge> 32 \<and> HasPrefix authorization ''Bearer '' \<and>
       sha256 cr token = sha256 cr (TrimPrefix authorization ''Bearer '')))"

interpretation control_gate: bearer_gate ctl_auth
  by unfold_locales (auto simp: ctl_auth_def)

definition http_preview ::
  "crypto \<Rightarrow> ctl_service \<Rightarrow> string \<Rightarrow> (string \<times> command) option \<Rightarrow> string \<Rightarrow> time \<Rightarrow> db \<Rightarrow> preview http \<times> db" where
  "http_preview cr svc content_type body token_bytes now s = (case decode_body content_type body of
       Inl e \<Rightarrow> (writeError e, s)
     | Inr (session, c) \<Rightarrow> (case Preview cr svc session c token_bytes now s of
         Inl e \<Rightarrow> (writeError e, s) | Inr (p, s') \<Rightarrow> ((200, Inr p), s')))"

definition http_confirm ::
  "crypto \<Rightarrow> ctl_service \<Rightarrow> string \<Rightarrow> confirmation option \<Rightarrow> string \<Rightarrow> string \<Rightarrow> time \<Rightarrow> db \<Rightarrow> ctl_result http \<times> db" where
  "http_confirm cr svc content_type body capid_bytes rid now s = (case decode_body content_type body of
       Inl e \<Rightarrow> (writeError e, s)
     | Inr x \<Rightarrow> (case Confirm cr svc x capid_bytes rid now s of
         Inl e \<Rightarrow> (writeError e, s) | Inr (r, s') \<Rightarrow> ((200, Inr r), s')))"

definition boundedQuery :: "string \<Rightarrow> url_values \<Rightarrow> bool" where
  "boundedQuery allowed q =
     (list_all (\<lambda>(k, v). k = allowed \<and> length v = 1) q \<and>
      (let raw = query_get ''limit'' q in
       raw = [] \<or> (case ParseInt raw of None \<Rightarrow> False | Some n \<Rightarrow> n > 0 \<and> n \<le> 100)))"

definition query_limit :: "url_values \<Rightarrow> nat" where
  "query_limit q = (let raw = query_get ''limit'' q in
     if raw = [] then 50 else case ParseInt raw of None \<Rightarrow> 0 | Some n \<Rightarrow> nat n)"

record policy_view =
  vw_policy_version :: int
  vw_items :: "policy_rule_row list"
  vw_submitters :: "submitter list"
  vw_bootstrap :: "(time \<times> string) option"
  vw_observation :: "bootstrap_observation option"

definition http_policy :: "url_values \<Rightarrow> time \<Rightarrow> db \<Rightarrow> policy_view http" where
  "http_policy q now s =
     (if \<not> boundedQuery ''limit'' q then failure 400 ''invalid_filter''
      else case current_version s of
          Inl _ \<Rightarrow> failure 500 ''internal_error''
        | Inr v \<Rightarrow> (200, Inr \<lparr>vw_policy_version = v,
            vw_items = take (query_limit q) (sort_key (\<lambda>r. (pr_rule_type r, pr_rule_id r)) (filter (rule_live now) (policy_rules s))),
            vw_submitters = take (query_limit q) (sort_key s_submitter_id (submitters s)),
            vw_bootstrap = policy_bootstrap s,
            vw_observation = (if policy_bootstrap_observations s = [] then None else Some (last (policy_bootstrap_observations s)))\<rparr>))"

definition http_audit :: "url_values \<Rightarrow> db \<Rightarrow> audit_event list http" where
  "http_audit q s =
     (if \<not> boundedQuery ''limit'' q then failure 400 ''invalid_filter''
      else (200, Inr (take (query_limit q) (rev (audit_events s)))))"

section \<open>What a confirmation does\<close>

lemma confirm_effect_frame:
  assumes "confirm_effect cr svc t token v capidb rid now s = Inr (cap, s')"
  shows "policy_versions s' = policy_versions s" "confirmation_tokens s' = confirmation_tokens s"
    "control_commands s' = control_commands s" "audit_events s' = audit_events s"
proof -
  have "policy_versions s' = policy_versions s \<and> confirmation_tokens s' = confirmation_tokens s \<and>
    control_commands s' = control_commands s \<and> audit_events s' = audit_events s"
  proof (cases "ct_command_type t = ''capability_rotate''")
    case True
    with assms show ?thesis
      by (auto simp: confirm_effect_def rotate_def Let_def bind_res_Inr_iff insert_capability_def split: if_splits)
  next
    case False
    with assms have "apply_command (ct_command_type t) (ct_command_json t) v now rid s = Inr s'"
      by (auto simp: confirm_effect_def bind_res_Inr_iff)
    then show ?thesis
      by (auto simp: apply_command_def update_one_submitter_def update_submitters_def insert_policy_rule_def
          bind_res_Inr_iff Let_def split: if_splits)
  qed
  then show "policy_versions s' = policy_versions s" "confirmation_tokens s' = confirmation_tokens s"
    "control_commands s' = control_commands s" "audit_events s' = audit_events s" by blast+
qed

lemma record_confirmation_Inr:
  assumes "record_confirmation t d current now s = Inr s'"
  shows "control_commands s' = control_commands s @ [\<lparr>cc_command_id = ct_command_id t, cc_idempotency_key = ct_idempotency_key t,
         cc_command_type = ct_command_type t, cc_command_digest = ct_command_digest t, cc_expected_version = current,
         cc_result_version = current + 1, cc_result_code = ''applied'', cc_created_at = now\<rparr>]"
    "audit_events s' = audit_events s @ [\<lparr>au_command_id = ct_command_id t, au_actor = ''unauthenticated-local'',
         au_session_id = ct_session_id t, au_command_type = ct_command_type t, au_result_code = ''applied'',
         au_before_digest = ct_before_digest t, au_after_digest = ct_command_digest t, au_reason = ct_reason t,
         au_created_at = now\<rparr>]"
    "confirmation_tokens s' = confirmation_tokens (consume_token d now s)"
    "policy_versions s' = policy_versions s" "policy_rules s' = policy_rules s" "submitters s' = submitters s"
    "submission_capabilities s' = submission_capabilities s"
  using assms by (auto simp: record_confirmation_def insert_control_command_def insert_audit_event_def consume_token_def
      bind_res_Inr_iff)

lemma Confirm_Inr:
  assumes "Confirm cr svc x capidb rid now s = Inr (r, s')"
  obtains t current s1 s2 where
    "row_by ct_token_digest (hmac cr (ConfirmationKey svc) (cf_ConfirmationToken x)) (confirmation_tokens s) = Some t"
    "now \<le> ct_expires_at t" "ct_consumed_at t = None" "token_matches t x" "current_version s = Inr current"
    "ct_expected_version t = current" "\<forall>c \<in> set (control_commands s). cc_idempotency_key c \<noteq> ct_idempotency_key t"
    "insert_policy_version \<lparr>pv_version = current + 1, pv_created_at = now,
       pv_command_id = ct_command_id t, pv_digest = ct_command_digest t\<rparr> s = Inr s1"
    "confirm_effect cr svc t (cf_ConfirmationToken x) (current + 1) capidb rid now s1 = Inr (cr_Capability r, s2)"
    "ct_command_digest t = hex_encode (sha256 cr (policy_json (normalize (effectivePolicyState now s2))))"
    "record_confirmation t (hmac cr (ConfirmationKey svc) (cf_ConfirmationToken x)) current now s2 = Inr s'"
    "cr_PolicyVersion r = current + 1" "cr_CommandID r = ct_command_id t"
proof -
  let ?d = "hmac cr (ConfirmationKey svc) (cf_ConfirmationToken x)"
  obtain t where t: "row_by ct_token_digest ?d (confirmation_tokens s) = Some t" "now \<le> ct_expires_at t"
    "ct_consumed_at t = None" "token_matches t x"
    using assms unfolding Confirm_def Let_def by (auto split: if_splits option.splits)
  obtain current where c: "current_version s = Inr current" "ct_expected_version t = current"
    "\<forall>c \<in> set (control_commands s). cc_idempotency_key c \<noteq> ct_idempotency_key t"
    using assms t unfolding Confirm_def Let_def by (auto simp: bind_res_Inr_iff split: if_splits)
  obtain s1 where s1: "insert_policy_version \<lparr>pv_version = current + 1, pv_created_at = now,
       pv_command_id = ct_command_id t, pv_digest = ct_command_digest t\<rparr> s = Inr s1"
    using assms t c unfolding Confirm_def Let_def by (auto simp: bind_res_Inr_iff split: if_splits)
  obtain cap s2 where s2: "confirm_effect cr svc t (cf_ConfirmationToken x) (current + 1) capidb rid now s1 = Inr (cap, s2)"
    "ct_command_digest t = hex_encode (sha256 cr (policy_json (normalize (effectivePolicyState now s2))))"
    "record_confirmation t ?d current now s2 = Inr s'"
    "r = \<lparr>cr_CommandID = ct_command_id t, cr_PolicyVersion = current + 1, cr_ResultCode = ''applied'', cr_Capability = cap\<rparr>"
    using assms t c s1 unfolding Confirm_def Let_def
    by (auto simp: bind_res_Inr_iff projectedPolicyDigest_def project_command_def rule_types_def split: if_splits)
  show thesis
    by (rule that [OF t c s1 _ s2(2,3)]) (simp_all add: s2)
qed

definition policy_digest :: "crypto \<Rightarrow> time \<Rightarrow> db \<Rightarrow> string" where
  "policy_digest cr now s = hex_encode (sha256 cr (policy_json (normalize (effectivePolicyState now s))))"

lemma effectivePolicyState_cong:
  "policy_rules s' = policy_rules s \<Longrightarrow> submitters s' = submitters s \<Longrightarrow> submission_capabilities s' = submission_capabilities s \<Longrightarrow>
     effectivePolicyState now s' = effectivePolicyState now s"
  by (simp add: effectivePolicyState_def)

lemma fold_max_absorb: "(a::int) \<le> b \<Longrightarrow> \<forall>x \<in> set vs. x \<le> b \<Longrightarrow> fold max vs (max a b) = b"
  by (induction vs) auto

lemma current_version_append:
  assumes "current_version s = Inr v" "policy_versions s' = policy_versions s @ [row]" "pv_version row = v + 1"
  shows "current_version s' = Inr (v + 1)"
proof (cases "map pv_version (policy_versions s)")
  case Nil
  with assms(1) show ?thesis by (simp add: current_version_def)
next
  case (Cons u us)
  with assms have "current_version s' = Inr (max (v + 1) v)"
    by (simp add: current_version_def)
  then show ?thesis by simp
qed

lemma current_version_fresh:
  assumes "current_version s = Inr v"
  shows "v + 1 \<notin> pv_version ` set (policy_versions s)"
proof
  assume a: "v + 1 \<in> pv_version ` set (policy_versions s)"
  then obtain u us where "map pv_version (policy_versions s) = u # us" by (cases "policy_versions s") auto
  then have "v = Max (set (map pv_version (policy_versions s)))"
    using assms by (simp add: current_version_def Max.set_eq_fold [symmetric])
  moreover from a have "v + 1 \<le> Max (set (map pv_version (policy_versions s)))" by (intro Max_ge) auto
  ultimately have "v + 1 \<le> v" by simp
  then show False by simp
qed

text \<open>
  C16: A confirmation changes the policy only as previewed. When it succeeds, its token was issued for
  this session, is unexpired and unused; the policy version goes up by one; the digest recorded
  for the new version is the digest of the policy now in force, and is the one the preview
  announced; and exactly one command row and one audit row are appended.
\<close>

theorem Confirm_sound:
  assumes c: "Confirm cr svc x capidb rid now s = Inr (r, s')"
  shows "\<exists>t current cmd a. t \<in> set (confirmation_tokens s) \<and>
     ct_token_digest t = hmac cr (ConfirmationKey svc) (cf_ConfirmationToken x) \<and> ct_consumed_at t = None \<and>
     now \<le> ct_expires_at t \<and> ct_session_id t = cf_SessionID x \<and>
     current_version s = Inr current \<and> cr_PolicyVersion r = current + 1 \<and> current_version s' = Inr (current + 1) \<and>
     policy_versions s' = policy_versions s @ [\<lparr>pv_version = current + 1, pv_created_at = now,
        pv_command_id = ct_command_id t, pv_digest = policy_digest cr now s'\<rparr>] \<and>
     cf_AfterDigest x = policy_digest cr now s' \<and>
     control_commands s' = control_commands s @ [cmd] \<and> cc_idempotency_key cmd = cf_IdempotencyKey x \<and>
     (\<forall>o' \<in> set (control_commands s). cc_idempotency_key o' \<noteq> cf_IdempotencyKey x) \<and>
     audit_events s' = audit_events s @ [a] \<and> au_command_id a = cf_CommandID x \<and>
     au_before_digest a = cf_BeforeDigest x \<and> au_after_digest a = policy_digest cr now s'"
proof -
  from c obtain t current s1 s2 where
    t: "row_by ct_token_digest (hmac cr (ConfirmationKey svc) (cf_ConfirmationToken x)) (confirmation_tokens s) = Some t"
    "now \<le> ct_expires_at t" "ct_consumed_at t = None" "token_matches t x" and v: "current_version s = Inr current"
    "ct_expected_version t = current" "\<forall>c \<in> set (control_commands s). cc_idempotency_key c \<noteq> ct_idempotency_key t" and
    s1: "insert_policy_version \<lparr>pv_version = current + 1, pv_created_at = now,
       pv_command_id = ct_command_id t, pv_digest = ct_command_digest t\<rparr> s = Inr s1" and
    s2: "confirm_effect cr svc t (cf_ConfirmationToken x) (current + 1) capidb rid now s1 = Inr (cr_Capability r, s2)"
    "ct_command_digest t = hex_encode (sha256 cr (policy_json (normalize (effectivePolicyState now s2))))"
    "record_confirmation t (hmac cr (ConfirmationKey svc) (cf_ConfirmationToken x)) current now s2 = Inr s'" and
    r: "cr_PolicyVersion r = current + 1" "cr_CommandID r = ct_command_id t"
    by (rule Confirm_Inr)
  note rec = record_confirmation_Inr [OF s2(3)] and fr = confirm_effect_frame [OF s2(1)]
  have one: "s1 = s\<lparr>policy_versions := policy_versions s @ [\<lparr>pv_version = current + 1, pv_created_at = now,
       pv_command_id = ct_command_id t, pv_digest = ct_command_digest t\<rparr>]\<rparr>"
    using s1 by (auto simp: insert_policy_version_def)
  have dig: "ct_command_digest t = policy_digest cr now s'"
    using s2(2) effectivePolicyState_cong [OF rec(5-7)] by (simp add: policy_digest_def)
  have pv: "policy_versions s' = policy_versions s @ [\<lparr>pv_version = current + 1, pv_created_at = now,
        pv_command_id = ct_command_id t, pv_digest = policy_digest cr now s'\<rparr>]"
    by (simp add: rec(4) fr(1) one dig)
  from row_by_Some [OF t(1)] t(2-4) v r pv rec(1,2) fr(3,4) dig one current_version_append [OF v(1) pv]
  show ?thesis by (auto simp: token_matches_def)
qed

section \<open>Tokens are used once\<close>

datatype ctl_op =
  DoPreview string command string time
| DoConfirm confirmation string string time

fun ctl_exec :: "crypto \<Rightarrow> ctl_service \<Rightarrow> ctl_op \<Rightarrow> db \<Rightarrow> db" where
  "ctl_exec cr svc (DoPreview session c tb now) s = (case Preview cr svc session c tb now s of Inl _ \<Rightarrow> s | Inr (_, s') \<Rightarrow> s')"
| "ctl_exec cr svc (DoConfirm x capidb rid now) s = (case Confirm cr svc x capidb rid now s of Inl _ \<Rightarrow> s | Inr (_, s') \<Rightarrow> s')"

definition token_spent :: "string \<Rightarrow> db \<Rightarrow> bool" where
  "token_spent d s = (\<exists>t. row_by ct_token_digest d (confirmation_tokens s) = Some t \<and> ct_consumed_at t \<noteq> None)"

lemma Preview_Inr:
  assumes "Preview cr svc session c tb now s = Inr (p, s')"
  obtains v before after where "ctl_canonical c = Inr v" "current_version s = Inr (cmd_ExpectedVersion c)"
    "before = policy_digest cr now s"
    "\<exists>st cap. projectedPolicyDigest cr (normalize (effectivePolicyState now s)) (cmd_CommandType c) v cap = Inr (after, st) \<and>
       (cmd_CommandType c \<noteq> ''capability_rotate'' \<longrightarrow> cap = [])"
    "insert_confirmation_token \<lparr>ct_token_digest = hmac cr (ConfirmationKey svc) (b64_encode tb), ct_command_digest = after,
          ct_session_id = session, ct_expected_version = cmd_ExpectedVersion c, ct_expires_at = now + 300, ct_consumed_at = None,
          ct_command_json = v, ct_command_type = cmd_CommandType c, ct_command_id = cmd_CommandID c,
          ct_idempotency_key = cmd_IdempotencyKey c, ct_reason = cmd_Reason c, ct_before_digest = before\<rparr> s = Inr s'"
    "p = \<lparr>pv_ConfirmationToken = b64_encode tb, pv_BeforeDigest = before, pv_AfterDigest = after, pv_ExpiresAt = now + 300,
            pv_Normalized = v, pv_CurrentVersion = cmd_ExpectedVersion c, pv_NextVersion = cmd_ExpectedVersion c + 1\<rparr>"
    "32 \<le> length (ConfirmationKey svc)" "16 \<le> length session"
proof -
  have first: "projectedPolicyDigest cr st [] empty_payload [] =
      Inr (hex_encode (sha256 cr (policy_json (normalize st))), normalize st)" for st
    by (simp add: projectedPolicyDigest_def project_command_def rule_types_def)
  define cap where "cap = (if cmd_CommandType c = ''capability_rotate''
      then digestCapability cr (ctl_CapabilityKey svc) (rotatedCapability cr (ctl_CapabilityKey svc) (b64_encode tb)) else [])"
  obtain v after st where v: "ctl_canonical c = Inr v" "current_version s = Inr (cmd_ExpectedVersion c)"
    "projectedPolicyDigest cr (normalize (effectivePolicyState now s)) (cmd_CommandType c) v cap = Inr (after, st)"
    "insert_confirmation_token \<lparr>ct_token_digest = hmac cr (ConfirmationKey svc) (b64_encode tb), ct_command_digest = after,
          ct_session_id = session, ct_expected_version = cmd_ExpectedVersion c, ct_expires_at = now + 300, ct_consumed_at = None,
          ct_command_json = v, ct_command_type = cmd_CommandType c, ct_command_id = cmd_CommandID c,
          ct_idempotency_key = cmd_IdempotencyKey c, ct_reason = cmd_Reason c, ct_before_digest = policy_digest cr now s\<rparr> s = Inr s'"
    "p = \<lparr>pv_ConfirmationToken = b64_encode tb, pv_BeforeDigest = policy_digest cr now s, pv_AfterDigest = after, pv_ExpiresAt = now + 300,
            pv_Normalized = v, pv_CurrentVersion = cmd_ExpectedVersion c, pv_NextVersion = cmd_ExpectedVersion c + 1\<rparr>"
    "32 \<le> length (ConfirmationKey svc)" "16 \<le> length session"
    using assms unfolding Preview_def Let_def first policy_digest_def [symmetric] cap_def [symmetric]
    by (auto simp: bind_res_Inr_iff split: if_splits)
  have "cmd_CommandType c \<noteq> ''capability_rotate'' \<longrightarrow> cap = []" by (simp add: cap_def)
  with v show thesis by (intro that [OF v(1,2) refl _ v(4,5)]) blast+
qed

lemma Preview_token_row:
  assumes "Preview cr svc session c tb now s = Inr (p, s')"
  obtains t where "s' = s\<lparr>confirmation_tokens := confirmation_tokens s @ [t]\<rparr>"
    "ct_token_digest t \<notin> ct_token_digest ` set (confirmation_tokens s)"
    "ct_token_digest t = hmac cr (ConfirmationKey svc) (pv_ConfirmationToken p)"
    "ct_command_type t = cmd_CommandType c" "ct_command_json t = pv_Normalized p" "ct_command_digest t = pv_AfterDigest p"
  using assms
proof (cases rule: Preview_Inr)
  case (1 v before after)
  let ?t = "\<lparr>ct_token_digest = hmac cr (ConfirmationKey svc) (b64_encode tb), ct_command_digest = after,
          ct_session_id = session, ct_expected_version = cmd_ExpectedVersion c, ct_expires_at = now + 300, ct_consumed_at = None,
          ct_command_json = v, ct_command_type = cmd_CommandType c, ct_command_id = cmd_CommandID c,
          ct_idempotency_key = cmd_IdempotencyKey c, ct_reason = cmd_Reason c, ct_before_digest = before\<rparr>"
  from 1(5) have "s' = s\<lparr>confirmation_tokens := confirmation_tokens s @ [?t]\<rparr>"
    "ct_token_digest ?t \<notin> ct_token_digest ` set (confirmation_tokens s)"
    by (simp_all add: insert_confirmation_token_def fresh_def)
  then show ?thesis by (rule that) (simp_all add: 1(6))
qed

lemma Confirm_tokens:
  assumes "Confirm cr svc x capidb rid now s = Inr (r, s')"
  shows "confirmation_tokens s' = sql_update (\<lambda>t. ct_token_digest t = hmac cr (ConfirmationKey svc) (cf_ConfirmationToken x) \<and>
     ct_consumed_at t = None) (\<lambda>t. t\<lparr>ct_consumed_at := Some now\<rparr>) (confirmation_tokens s)"
  using assms
proof (cases rule: Confirm_Inr)
  case (1 t current s1 s2)
  have "confirmation_tokens s1 = confirmation_tokens s" using 1(8) by (auto simp: insert_policy_version_def)
  with record_confirmation_Inr(3) [OF 1(11)] confirm_effect_frame(2) [OF 1(9)] show ?thesis
    by (simp add: consume_token_def)
qed

lemma token_spent_exec:
  assumes "token_spent d s"
  shows "token_spent d (ctl_exec cr svc op s)"
proof (cases op)
  case (DoPreview session c tb now)
  show ?thesis
  proof (cases "Preview cr svc session c tb now s")
    case (Inr ps)
    then obtain p s' where ps: "Preview cr svc session c tb now s = Inr (p, s')" by (cases ps) simp
    then obtain t where "s' = s\<lparr>confirmation_tokens := confirmation_tokens s @ [t]\<rparr>" by (rule Preview_token_row)
    with assms ps DoPreview show ?thesis by (auto simp: token_spent_def row_by_append)
  qed (use assms DoPreview in simp)
next
  case (DoConfirm x capidb rid now)
  show ?thesis
  proof (cases "Confirm cr svc x capidb rid now s")
    case (Inr rs)
    then obtain r s' where rs: "Confirm cr svc x capidb rid now s = Inr (r, s')" by (cases rs) simp
    from assms obtain t where t: "row_by ct_token_digest d (confirmation_tokens s) = Some t" "ct_consumed_at t \<noteq> None"
      unfolding token_spent_def by blast
    then have "row_by ct_token_digest d (confirmation_tokens s') = Some t"
      by (simp add: Confirm_tokens [OF rs] row_by_sql_update)
    with t(2) rs DoConfirm show ?thesis by (simp add: token_spent_def)
  qed (use assms DoConfirm in simp)
qed

lemma token_spent_exec_all: "token_spent d s \<Longrightarrow> token_spent d (fold (ctl_exec cr svc) ops s)"
  by (induction ops arbitrary: s) (auto intro: token_spent_exec)

lemma Confirm_spends:
  assumes "Confirm cr svc x capidb rid now s = Inr (r, s')"
  shows "token_spent (hmac cr (ConfirmationKey svc) (cf_ConfirmationToken x)) s'"
  using assms
proof (cases rule: Confirm_Inr)
  case (1 t current s1 s2)
  have "ct_token_digest t = hmac cr (ConfirmationKey svc) (cf_ConfirmationToken x)" using row_by_Some [OF 1(1)] by simp
  with 1(1,3) show ?thesis by (simp add: token_spent_def Confirm_tokens [OF assms] row_by_sql_update)
qed

text \<open>
  A confirmation token works once: after it was confirmed, no later confirmation with the same
  token succeeds, whatever previews and confirmations come in between.
\<close>

theorem Confirm_once:
  assumes c: "Confirm cr svc x capidb rid now s = Inr (r, s')"
    and same: "cf_ConfirmationToken y = cf_ConfirmationToken x"
  shows "\<exists>e. Confirm cr svc y capidb' rid' now' (fold (ctl_exec cr svc) ops s') = Inl e"
proof (cases "Confirm cr svc y capidb' rid' now' (fold (ctl_exec cr svc) ops s')")
  case (Inr rs)
  then obtain r2 s2 where "Confirm cr svc y capidb' rid' now' (fold (ctl_exec cr svc) ops s') = Inr (r2, s2)" by (cases rs) simp
  then show ?thesis
  proof (cases rule: Confirm_Inr)
    case (1 t current s1 s2')
    with token_spent_exec_all [OF Confirm_spends [OF c], of cr svc ops] same show ?thesis by (auto simp: token_spent_def)
  qed
qed simp

section \<open>A preview predicts its confirmation\<close>

lemma sort_key_Nil_iff: "sort_key k xs = [] \<longleftrightarrow> xs = []"
  by (metis length_0_conv length_sort)

lemma insort_key_map: "(\<And>y. k (h y) = k y) \<Longrightarrow> insort_key k (h x) (map h xs) = map h (insort_key k x xs)"
  by (induction xs) auto

lemma sort_key_map: "(\<And>y. k (h y) = k y) \<Longrightarrow> sort_key k (map h xs) = map h (sort_key k xs)"
  by (induction xs) (auto simp: insort_key_map)

lemma sort_key_mset_eq: "mset xs = mset ys \<Longrightarrow> inj_on k (set xs) \<Longrightarrow> sort_key k xs = sort_key k ys"
  by (rule sort_key_inj_key_eq) (auto simp: sorted_sort_key)

lemma blank_ID_simps [simp]: "blank_ID (blank_ID r) = blank_ID r" "rule_sort_key (blank_ID r) = rule_sort_key r"
  by (simp_all add: blank_ID_def rule_sort_key_def)

lemma normalize_idem: "normalize (normalize st) = normalize st"
proof -
  have "map blank_ID (sort_key rule_sort_key (map blank_ID xs)) = sort_key rule_sort_key (map blank_ID xs)" for xs
    by (simp add: sort_key_map [symmetric] comp_def)
  then show ?thesis
    by (cases st) (auto simp: normalize_def sort_key_id_if_sorted sorted_sort_key option.map_comp comp_def
        intro!: option.map_cong)
qed

lemma eff_submitters_sorted:
  "sort_key es_ID (map eff_submitter_of (sort_key s_submitter_id t)) = map eff_submitter_of (sort_key s_submitter_id t)"
proof -
  have "map es_ID (map eff_submitter_of ts) = map s_submitter_id ts" for ts by (simp add: eff_submitter_of_def)
  then show ?thesis by (simp only: sort_key_id_if_sorted sorted_sort_key)
qed

lemma update_submitters_eff:
  assumes d: "distinct (map s_submitter_id t)"
    and P: "\<And>x. P x \<Longrightarrow> s_submitter_id x = sid" "sql_count P t = 1"
    and f: "\<And>x. s_submitter_id (f x) = s_submitter_id x" "\<And>x. P x \<Longrightarrow> eff_submitter_of (f x) = g (eff_submitter_of x)"
  shows "map eff_submitter_of (sort_key s_submitter_id (sql_update P f t)) =
    map (\<lambda>x. if es_ID x = sid then g x else x) (map eff_submitter_of (sort_key s_submitter_id t))"
proof -
  obtain r where r: "r \<in> set t" "P r" using sql_count_pos_ex [OF P(2)] by blast
  have all: "P x \<longleftrightarrow> s_submitter_id x = sid" if "x \<in> set t" for x
    using P(1) r key_inj [OF d that r(1)] by metis
  have "sort_key s_submitter_id (sql_update P f t) = map (\<lambda>x. if P x then f x else x) (sort_key s_submitter_id t)"
    unfolding sql_update_def by (rule sort_key_map) (simp add: f(1))
  moreover have "es_ID (eff_submitter_of x) = s_submitter_id x" for x by (simp add: eff_submitter_of_def)
  ultimately show ?thesis by (auto simp: all f(2))
qed

lemma update_one_submitter_Inr:
  assumes "update_one_submitter P f s = Inr s'"
  shows "s' = s\<lparr>submitters := sql_update P f (submitters s)\<rparr>" "sql_count P (submitters s) = 1"
  using assms by (auto simp: update_one_submitter_def bind_res_Inr_iff dest!: update_submitters_Inr(1) split: if_splits)

lemma submitter_command_matches:
  assumes d: "distinct (map s_submitter_id (submitters s))"
    and u: "update_one_submitter P f s = Inr s2"
    and P: "\<And>x. P x \<Longrightarrow> s_submitter_id x = sid"
    and f: "\<And>x. s_submitter_id (f x) = s_submitter_id x" "\<And>x. P x \<Longrightarrow> eff_submitter_of (f x) = g (eff_submitter_of x)"
      "\<And>x. es_ID (g x) = es_ID x"
    and live: "\<forall>r \<in> set (policy_rules s). rule_live now r = rule_live now' r"
  shows "normalize (update_submitter sid g (normalize (effectivePolicyState now s))) = normalize (effectivePolicyState now' s2)"
proof -
  note u = update_one_submitter_Inr [OF u]
  let ?E = "map eff_submitter_of (sort_key s_submitter_id (submitters s))"
  let ?U = "map (\<lambda>x. if es_ID x = sid then g x else x)"
  have e2: "map eff_submitter_of (sort_key s_submitter_id (submitters s2)) = ?U ?E"
    unfolding u(1) using update_submitters_eff [OF d P u(2) f(1,2)] by simp
  have rules: "filter (rule_live now') (policy_rules s2) = filter (rule_live now) (policy_rules s)"
    using live by (simp add: u(1) cong: filter_cong)
  have c: "map_option (sort_key es_ID) (map_option ?U (map_option (sort_key es_ID) (slice_of ?E))) =
      map_option (sort_key es_ID) (slice_of (?U ?E))"
    by (simp add: slice_of_def eff_submitters_sorted)
  have "normalize (update_submitter sid g (normalize st)) = (normalize st)\<lparr>ep_Submitters :=
      map_option (sort_key es_ID) (map_option ?U (ep_Submitters (normalize st)))\<rparr>" for st
    using normalize_idem [of st] by (cases "normalize st") (simp add: normalize_def update_submitter_def)
  note upd = this
  show ?thesis
    unfolding upd using c by (simp add: effectivePolicyState_def normalize_def e2 rules) (simp add: u(1))
qed

text \<open>The confirmation a client sends for a preview it received.\<close>

definition confirmation_of :: "string \<Rightarrow> command \<Rightarrow> preview \<Rightarrow> confirmation" where
  "confirmation_of session c p = \<lparr>cf_SchemaVersion = ctl_SchemaVersion, cf_CommandID = cmd_CommandID c,
     cf_ExpectedVersion = cmd_ExpectedVersion c, cf_IdempotencyKey = cmd_IdempotencyKey c,
     cf_ConfirmationToken = pv_ConfirmationToken p, cf_BeforeDigest = pv_BeforeDigest p, cf_AfterDigest = pv_AfterDigest p,
     cf_Reason = cmd_Reason c, cf_SessionID = session\<rparr>"

definition submitter_command :: "string \<Rightarrow> bool" where
  "submitter_command typ = (typ = ''quota_change'' \<or> typ = ''submitter_suspend'' \<or> typ = ''submitter_reactivate'')"

lemma submitter_command_projected:
  assumes ty: "submitter_command typ" and d: "distinct (map s_submitter_id (submitters s))"
    and u: "apply_command typ v ver now' rid s = Inr s2"
    and live: "\<forall>r \<in> set (policy_rules s). rule_live now r = rule_live now' r"
  shows "\<exists>st. project_command typ v [] (normalize (effectivePolicyState now s)) = Inr st \<and>
    normalize st = normalize (effectivePolicyState now' s2)"
proof -
  note m = submitter_command_matches [OF d _ _ _ _ _ live]
  consider "typ = ''quota_change''" | "typ = ''submitter_suspend''" | "typ = ''submitter_reactivate''"
    using ty by (auto simp: submitter_command_def)
  then show ?thesis
  proof cases
    case 1
    with u show ?thesis
      by (auto simp: project_command_def apply_command_def eff_submitter_of_def split: if_splits intro!: m)
  next
    case 2
    with u show ?thesis
      by (auto simp: project_command_def apply_command_def eff_submitter_of_def split: if_splits intro!: m)
  next
    case 3
    with u show ?thesis
      by (auto simp: project_command_def apply_command_def eff_submitter_of_def split: if_splits intro!: m)
  qed
qed

lemma update_one_submitter_frame:
  assumes "update_one_submitter P f s = Inr s2" "submitters s' = submitters s"
  shows "update_one_submitter P f s' = Inr (s'\<lparr>submitters := submitters s2\<rparr>)"
proof -
  have "submitters_unique (sql_update P f (submitters s))" "submitters s2 = sql_update P f (submitters s)"
    "sql_count P (submitters s) = 1"
    using assms(1) update_one_submitter_Inr [OF assms(1)]
    by (auto simp: update_one_submitter_def update_submitters_def Let_def bind_res_Inr_iff)
  then show ?thesis by (simp add: update_one_submitter_def update_submitters_def Let_def assms(2) bind_res_Inr_iff)
qed

lemma apply_submitter_update:
  assumes "submitter_command typ" "apply_command typ v ver now rid s = Inr s2"
  obtains P f where "\<And>s. apply_command typ v ver now rid s = update_one_submitter P f s"
proof -
  consider "typ = ''quota_change''" | "typ = ''submitter_suspend''" | "typ = ''submitter_reactivate''"
    using assms(1) by (auto simp: submitter_command_def)
  then show thesis
  proof cases
    case 1
    with assms(2) have "\<not> (p_submitter_id v = [] \<or> p_minute_limit v < 1 \<or> p_hour_limit v < 1 \<or> p_day_limit v < 1)"
      by (simp add: apply_command_def split: if_splits)
    with 1 show thesis by (intro that) (simp add: apply_command_def)
  next
    case 2
    then show thesis by (intro that) (simp add: apply_command_def)
  next
    case 3
    then show thesis by (intro that) (simp add: apply_command_def)
  qed
qed

lemma apply_submitter_frame:
  assumes "submitter_command typ" "apply_command typ v ver now rid s = Inr s2" "submitters s' = submitters s"
  shows "apply_command typ v ver now rid s' = Inr (s'\<lparr>submitters := submitters s2\<rparr>)"
  by (rule apply_submitter_update [OF assms(1,2)]) (use assms(2,3) update_one_submitter_frame in metis)

lemma apply_submitter_others:
  assumes "submitter_command typ" "apply_command typ v ver now rid s = Inr s2"
  shows "policy_rules s2 = policy_rules s" "submission_capabilities s2 = submission_capabilities s"
  by (rule apply_submitter_update [OF assms]; use assms(2) update_one_submitter_Inr(1) in fastforce)+

text \<open>The tables the control service reads and writes, apart from the log of its commands; the other tables may change between a preview and its confirmation.\<close>

definition same_control :: "db \<Rightarrow> db \<Rightarrow> bool" where
  "same_control s t = (confirmation_tokens t = confirmation_tokens s \<and> policy_versions t = policy_versions s \<and> policy_rules t = policy_rules s \<and>
     submitters t = submitters s \<and> submission_capabilities t = submission_capabilities s \<and> control_commands t = control_commands s)"

lemma preview_confirmable_later:
  assumes p: "Preview cr svc session c tb now s = Inr (p, s1)" and tb: "24 \<le> length tb"
    and ty: "submitter_command (cmd_CommandType c)" and d: "distinct (map s_submitter_id (submitters s))"
    and ap: "apply_command (cmd_CommandType c) (pv_Normalized p) (pv_NextVersion p) now' rid s = Inr sa"
    and fresh: "cmd_CommandID c \<notin> pv_command_id ` set (policy_versions s)"
      "cmd_CommandID c \<notin> cc_command_id ` set (control_commands s)"
      "cmd_IdempotencyKey c \<notin> cc_idempotency_key ` set (control_commands s)"
    and time: "now' \<le> now + 300" and live: "\<forall>r \<in> set (policy_rules s). rule_live now r = rule_live now' r"
    and same: "same_control s1 u"
  shows "\<exists>r s'. Confirm cr svc (confirmation_of session c p) capidb rid now' u = Inr (r, s') \<and>
     cr_CommandID r = cmd_CommandID c \<and> cr_ResultCode r = ''applied'' \<and>
     cr_PolicyVersion r = cmd_ExpectedVersion c + 1 \<and> submitters s' = submitters sa"
  using p
proof (cases rule: Preview_Inr)
  case (1 v before after)
  let ?d = "hmac cr (ConfirmationKey svc) (b64_encode tb)" and ?V = "cmd_ExpectedVersion c"
  let ?t = "\<lparr>ct_token_digest = ?d, ct_command_digest = after,
          ct_session_id = session, ct_expected_version = ?V, ct_expires_at = now + 300, ct_consumed_at = None,
          ct_command_json = v, ct_command_type = cmd_CommandType c, ct_command_id = cmd_CommandID c,
          ct_idempotency_key = cmd_IdempotencyKey c, ct_reason = cmd_Reason c, ct_before_digest = before\<rparr>"
  let ?row = "\<lparr>pv_version = ?V + 1, pv_created_at = now', pv_command_id = cmd_CommandID c, pv_digest = after\<rparr>"
  have s1: "s1 = s\<lparr>confirmation_tokens := confirmation_tokens s @ [?t]\<rparr>" "?d \<notin> ct_token_digest ` set (confirmation_tokens s)"
    using 1(5) by (auto simp: insert_confirmation_token_def fresh_def)
  have u: "confirmation_tokens u = confirmation_tokens s @ [?t]" "policy_versions u = policy_versions s" "policy_rules u = policy_rules s"
    "submitters u = submitters s" "submission_capabilities u = submission_capabilities s" "control_commands u = control_commands s"
    using same by (simp_all add: same_control_def s1)
  let ?s2 = "u\<lparr>policy_versions := policy_versions s @ [?row]\<rparr>"
  have tok: "row_by ct_token_digest ?d (confirmation_tokens u) = Some ?t"
    using s1(2) by (simp add: u(1) row_by_append row_by_None [THEN iffD2])
  have cur: "current_version u = Inr ?V" using 1(2) by (simp add: u(2) current_version_def)
  have ins: "insert_policy_version ?row u = Inr ?s2"
    using fresh(1) current_version_fresh [OF 1(2)] by (simp add: insert_policy_version_def fresh_def u(2))
  have eff: "confirm_effect cr svc ?t (b64_encode tb) (?V + 1) capidb rid now' ?s2 = Inr ([], ?s2\<lparr>submitters := submitters sa\<rparr>)"
    using apply_submitter_frame [OF ty ap, of ?s2] ty 1(6) u(4) by (auto simp: confirm_effect_def submitter_command_def)
  have after: "after = policy_digest cr now' sa"
    using 1(4) submitter_command_projected [OF ty d ap live] ty 1(6)
    by (auto simp: projectedPolicyDigest_def policy_digest_def submitter_command_def)
  have "effectivePolicyState now' (?s2\<lparr>submitters := submitters sa\<rparr>) = effectivePolicyState now' sa"
    by (rule effectivePolicyState_cong) (simp_all add: u apply_submitter_others [OF ty ap])
  then have dig: "projectedPolicyDigest cr (effectivePolicyState now' (?s2\<lparr>submitters := submitters sa\<rparr>)) [] empty_payload [] =
      Inr (after, normalize (effectivePolicyState now' sa))"
    by (simp add: after policy_digest_def projectedPolicyDigest_def project_command_def rule_types_def)
  obtain s3 where rec: "record_confirmation ?t ?d ?V now' (?s2\<lparr>submitters := submitters sa\<rparr>) = Inr s3"
    using fresh by (fastforce simp: record_confirmation_def insert_control_command_def insert_audit_event_def
        bind_res_Inr_iff fresh_def parent_def consume_token_def u)
  have sub: "submitters s3 = submitters sa" using record_confirmation_Inr(6) [OF rec] by simp
  have reason: "8 \<le> length (TrimSpace (cmd_Reason c))" using 1(1) by (auto simp: ctl_canonical_def split: if_splits)
  have "sql_count (\<lambda>r. cc_idempotency_key r = cmd_IdempotencyKey c) (control_commands u) = 0"
    using fresh(3) by (auto simp: u(6) image_iff)
  then have "Confirm cr svc (confirmation_of session c p) capidb rid now' u = Inr (\<lparr>cr_CommandID = cmd_CommandID c,
      cr_PolicyVersion = ?V + 1, cr_ResultCode = ''applied'', cr_Capability = []\<rparr>, s3)"
    using 1(7,8) tb time reason
    by (simp add: Confirm_def confirmation_of_def 1(6) Let_def length_b64_encode tok token_matches_def cur ins eff dig rec)
  with sub show ?thesis by simp
qed

lemma preview_confirmable:
  assumes p: "Preview cr svc session c tb now s = Inr (p, s1)" and tb: "24 \<le> length tb"
    and ty: "submitter_command (cmd_CommandType c)" and d: "distinct (map s_submitter_id (submitters s))"
    and ap: "apply_command (cmd_CommandType c) (pv_Normalized p) (pv_NextVersion p) now' rid s = Inr sa"
    and fresh: "cmd_CommandID c \<notin> pv_command_id ` set (policy_versions s)"
      "cmd_CommandID c \<notin> cc_command_id ` set (control_commands s)"
      "cmd_IdempotencyKey c \<notin> cc_idempotency_key ` set (control_commands s)"
    and time: "now' \<le> now + 300" and live: "\<forall>r \<in> set (policy_rules s). rule_live now r = rule_live now' r"
  shows "\<exists>r s'. Confirm cr svc (confirmation_of session c p) capidb rid now' s1 = Inr (r, s') \<and>
     cr_PolicyVersion r = cmd_ExpectedVersion c + 1 \<and> submitters s' = submitters sa"
  using preview_confirmable_later [OF assms, of s1 capidb] by (simp add: same_control_def) blast

text \<open>
  A preview predicts its confirmation. When a quota change, suspension or reactivation was
  previewed and the command applies to the policy that was previewed (it changes exactly one
  row), the confirmation sent for the preview within five minutes succeeds: the digest computed
  from the changed tables is the one the preview announced. The command identifier and the
  idempotency key must not have been used, the token must have at least 24 random bytes (the code
  draws 32) and no rule may expire in between.
\<close>

theorem Preview_then_Confirm:
  assumes p: "Preview cr svc session c tb now s = Inr (p, s1)" and tb: "24 \<le> length tb"
    and ty: "submitter_command (cmd_CommandType c)" and d: "distinct (map s_submitter_id (submitters s))"
    and ap: "apply_command (cmd_CommandType c) (pv_Normalized p) (pv_NextVersion p) now' rid s = Inr sa"
    and fresh: "cmd_CommandID c \<notin> pv_command_id ` set (policy_versions s)"
      "cmd_CommandID c \<notin> cc_command_id ` set (control_commands s)"
      "cmd_IdempotencyKey c \<notin> cc_idempotency_key ` set (control_commands s)"
    and time: "now' \<le> now + 300" and live: "\<forall>r \<in> set (policy_rules s). rule_live now r = rule_live now' r"
  shows "\<exists>r s'. Confirm cr svc (confirmation_of session c p) capidb rid now' s1 = Inr (r, s') \<and>
     cr_PolicyVersion r = cmd_ExpectedVersion c + 1 \<and> submitters s' = submitters sa"
  using assms by (rule preview_confirmable)

section \<open>Disabling a rule\<close>

lemma length_Join: "xs \<noteq> [] \<Longrightarrow> length (Join '','' xs) + 1 = (\<Sum>x\<leftarrow>xs. length x + 1)"
  by (induction xs rule: induct_list012) auto

definition slice_size :: "('a \<Rightarrow> string) \<Rightarrow> 'a list \<Rightarrow> nat" where
  "slice_size f xs = (\<Sum>x\<leftarrow>xs. length (f x) + 1)"

lemma length_json_slice:
  "length (json_slice f (slice_of xs)) = (if xs = [] then 4 else 1 + slice_size f xs)"
  using length_Join [of "map f xs"] by (auto simp: json_slice_def slice_of_def slice_size_def comp_def)

lemma slice_size_mset: "mset xs = mset ys \<Longrightarrow> slice_size f xs = slice_size f ys"
  unfolding slice_size_def by (metis mset_map sum_mset_sum_list)

lemma slice_size_sort [simp]: "slice_size f (sort_key k xs) = slice_size f xs"
  by (rule slice_size_mset) simp

lemma slice_size_map: "slice_size f (map h xs) = slice_size (\<lambda>x. f (h x)) xs"
  by (simp add: slice_size_def comp_def)

lemma slice_size_dropped:
  assumes "\<And>x. P x \<Longrightarrow> \<not> L (f x)"
  shows "slice_size h (filter L (sql_update P f t)) \<le> slice_size h (filter L t)"
    "x \<in> set t \<Longrightarrow> P x \<Longrightarrow> L x \<Longrightarrow>
       slice_size h (filter L (sql_update P f t)) + length (h x) + 1 \<le> slice_size h (filter L t)"
proof -
  show le: "slice_size h (filter L (sql_update P f t)) \<le> slice_size h (filter L t)" for t
    by (induction t) (auto simp: slice_size_def assms)
  show "x \<in> set t \<Longrightarrow> P x \<Longrightarrow> L x \<Longrightarrow>
       slice_size h (filter L (sql_update P f t)) + length (h x) + 1 \<le> slice_size h (filter L t)"
  proof (induction t)
    case (Cons y t)
    with assms le [of t] show ?case by (auto simp: slice_size_def)
  qed simp
qed

definition live_size :: "time \<Rightarrow> db \<Rightarrow> nat" where
  "live_size now s = slice_size (\<lambda>r. rule_json (blank_ID (eff_rule_of r))) (filter (rule_live now) (policy_rules s))"

lemma length_rules_json:
  "length (json_slice rule_json (ep_Rules (normalize (effectivePolicyState now s)))) =
     (if filter (rule_live now) (policy_rules s) = [] then 4 else 1 + live_size now s)"
proof -
  define xs where "xs = map eff_rule_of (sort_key (\<lambda>r. (pr_rule_type r, pr_subject r, pr_value r, pr_rule_id r))
     (filter (rule_live now) (policy_rules s)))"
  have "ep_Rules (normalize (effectivePolicyState now s)) = slice_of (sort_key rule_sort_key (map blank_ID xs))"
    by (simp add: normalize_def effectivePolicyState_def xs_def [symmetric] slice_of_def sort_key_Nil_iff)
  moreover have "slice_size rule_json (sort_key rule_sort_key (map blank_ID xs)) = live_size now s"
    by (simp add: xs_def live_size_def slice_size_map)
  moreover have "sort_key rule_sort_key (map blank_ID xs) = [] \<longleftrightarrow> filter (rule_live now) (policy_rules s) = []"
    by (simp add: xs_def sort_key_Nil_iff)
  ultimately show ?thesis by (simp add: length_json_slice)
qed

lemma policy_json_shrinks:
  assumes "submitters s2 = submitters s" "submission_capabilities s2 = submission_capabilities s"
    and r: "policy_rules s2 = sql_update P f (policy_rules s)" "\<And>x. P x \<Longrightarrow> \<not> rule_live now (f x)"
      "r \<in> set (policy_rules s)" "P r" "rule_live now r"
  shows "policy_json (normalize (effectivePolicyState now s2)) \<noteq> policy_json (normalize (effectivePolicyState now s))"
proof -
  let ?l = "\<lambda>s. length (json_slice rule_json (ep_Rules (normalize (effectivePolicyState now s))))"
  have "live_size now s2 + 5 \<le> live_size now s"
    using slice_size_dropped(2) [of P "rule_live now" f r "policy_rules s" "\<lambda>r. rule_json (blank_ID (eff_rule_of r))"] r
    by (auto simp: live_size_def rule_json_def json_object_def)
  moreover have "filter (rule_live now) (policy_rules s) \<noteq> []" using r(3,5) by (auto simp: filter_empty_conv)
  ultimately have "?l s2 < ?l s" by (auto simp: length_rules_json)
  moreover have "ep_Submitters (normalize (effectivePolicyState now s2)) = ep_Submitters (normalize (effectivePolicyState now s))"
    "ep_Capabilities (normalize (effectivePolicyState now s2)) = ep_Capabilities (normalize (effectivePolicyState now s))"
    by (simp_all add: normalize_def effectivePolicyState_def assms(1,2))
  ultimately have "length (policy_json (normalize (effectivePolicyState now s2))) < length (policy_json (normalize (effectivePolicyState now s)))"
    by (simp add: policy_json_def json_object_def)
  then show ?thesis by auto
qed

lemma remove_first_id: "(\<And>x. x \<in> set xs \<Longrightarrow> \<not> P x) \<Longrightarrow> remove_first P xs = xs"
  by (induction xs) simp_all

lemma blanked_rule_not_found:
  assumes "rid \<noteq> []"
  shows "remove_slice (\<lambda>r. er_ID r = rid) (ep_Rules (normalize st)) = ep_Rules (normalize st)"
proof -
  have "remove_first (\<lambda>r. er_ID r = rid) (sort_key rule_sort_key (map blank_ID xs)) = sort_key rule_sort_key (map blank_ID xs)" for xs
    by (rule remove_first_id) (use assms in \<open>auto simp: blank_ID_def\<close>)
  then show ?thesis by (cases "ep_Rules st") (simp_all add: remove_slice_def normalize_def)
qed

lemma rule_types_other:
  assumes "typ \<in> set rule_types"
  shows "typ \<noteq> ''quota_change''" "typ \<noteq> ''submitter_suspend''" "typ \<noteq> ''submitter_reactivate''" "typ \<noteq> ''capability_rotate''"
  using assms by (auto simp: rule_types_def)

lemma apply_disable:
  assumes "apply_command typ v ver now rid s = Inr s2" "typ \<in> set rule_types" "p_enabled v = Some False"
  shows "s2 = s\<lparr>policy_rules := sql_update (\<lambda>q. pr_rule_id q = p_rule_id v \<and> pr_rule_type q = typ \<and> pr_enabled q)
     (\<lambda>q. q\<lparr>pr_enabled := False, pr_version := ver\<rparr>) (policy_rules s)\<rparr>"
  using assms by (simp add: apply_command_def rule_types_other Let_def split: if_splits)

lemma disable_preview_digest:
  assumes p: "Preview cr svc session c tb now s = Inr (p, s1)"
    and ty: "cmd_CommandType c \<in> set rule_types" and dis: "p_enabled (pv_Normalized p) = Some False"
  shows "pv_AfterDigest p = policy_digest cr now s \<and> p_rule_id (pv_Normalized p) \<noteq> []"
  using p
proof (cases rule: Preview_Inr)
  case (1 v before after)
  note nr = rule_types_other [OF ty]
  have dis: "p_enabled v = Some False" using dis 1(6) by simp
  then have rid: "p_rule_id v \<noteq> []"
    using 1(1) ty nr by (auto simp: ctl_canonical_def bind_res_Inr_iff validateOperation_def split: if_splits option.splits)
  then have "after = policy_digest cr now s"
    using 1(4) nr ty dis
    by (auto simp: projectedPolicyDigest_def project_command_def blanked_rule_not_found normalize_idem policy_digest_def)
  then show ?thesis using 1(6) rid by simp
qed

text \<open>
  C29: Disabling a rule in force cannot be confirmed. \<open>Preview\<close> computes the digest before the command
  with a call that clears the rule identifiers in the slice the second call then searches, so the
  digest it announces still has the rule; \<open>Confirm\<close> compares it with the digest of the policy
  without the rule and refuses. The hypothesis on \<open>sha256\<close> is that no other text has the digest of
  this policy.
\<close>

theorem disabled_rule_never_confirms:
  assumes p: "Preview cr svc session c tb now s = Inr (p, s1)"
    and ty: "cmd_CommandType c \<in> set rule_types" and dis: "p_enabled (pv_Normalized p) = Some False"
    and rule: "r \<in> set (policy_rules s)" "pr_rule_id r = p_rule_id (pv_Normalized p)" "pr_rule_type r = cmd_CommandType c"
      "rule_live now' r"
    and live: "\<forall>q \<in> set (policy_rules s). rule_live now q = rule_live now' q"
    and sha: "\<forall>b. sha256 cr b = sha256 cr (policy_json (normalize (effectivePolicyState now s))) \<longrightarrow>
       b = policy_json (normalize (effectivePolicyState now s))"
    and tok: "cf_ConfirmationToken x = pv_ConfirmationToken p"
  shows "\<exists>e. Confirm cr svc x capidb rid now' s1 = Inl e"
proof (rule ccontr)
  assume "\<nexists>e. Confirm cr svc x capidb rid now' s1 = Inl e"
  then obtain res s' where c: "Confirm cr svc x capidb rid now' s1 = Inr (res, s')"
    by (cases "Confirm cr svc x capidb rid now' s1") auto
  let ?P = "\<lambda>q. pr_rule_id q = p_rule_id (pv_Normalized p) \<and> pr_rule_type q = cmd_CommandType c \<and> pr_enabled q"
  have same: "effectivePolicyState now' s = effectivePolicyState now s"
    using live by (simp add: effectivePolicyState_def cong: filter_cong)
  from c show False
  proof (cases rule: Confirm_Inr)
    case (1 t current sv s2)
    obtain st where st: "s1 = s\<lparr>confirmation_tokens := confirmation_tokens s @ [st]\<rparr>"
      "ct_token_digest st \<notin> ct_token_digest ` set (confirmation_tokens s)"
      "ct_token_digest st = hmac cr (ConfirmationKey svc) (pv_ConfirmationToken p)"
      "ct_command_type st = cmd_CommandType c" "ct_command_json st = pv_Normalized p" "ct_command_digest st = pv_AfterDigest p"
      using p by (rule Preview_token_row)
    have t: "t = st" using 1(1) st(1-3) tok by (auto simp: row_by_append row_by_None [THEN iffD2])
    have sv: "policy_rules sv = policy_rules s" "submitters sv = submitters s" "submission_capabilities sv = submission_capabilities s"
      using 1(8) st(1) by (auto simp: insert_policy_version_def)
    have s2: "policy_rules s2 = sql_update ?P (\<lambda>q. q\<lparr>pr_enabled := False, pr_version := current + 1\<rparr>) (policy_rules s)"
      "submitters s2 = submitters s" "submission_capabilities s2 = submission_capabilities s"
      using 1(9) rule_types_other(4) [OF ty] sv
      by (auto simp: confirm_effect_def t st(4,5) bind_res_Inr_iff dest!: apply_disable [OF _ ty dis])
    have "policy_json (normalize (effectivePolicyState now' s2)) \<noteq> policy_json (normalize (effectivePolicyState now' s))"
      by (rule policy_json_shrinks [OF s2(2,3,1) _ rule(1)]) (use rule in \<open>auto simp: rule_live_def\<close>)
    moreover have "policy_digest cr now' s2 = policy_digest cr now s"
      using 1(10) disable_preview_digest [OF p ty dis] by (simp add: policy_digest_def t st(6))
    ultimately show False using sha same by (auto simp: policy_digest_def hexc.enc_eq_iff)
  qed
qed

section \<open>Confirmed rules always load\<close>

definition loadable :: "string \<Rightarrow> string \<Rightarrow> bool" where
  "loadable typ v = (typ = ''peer_block_put'' \<longrightarrow> ParseIP v \<noteq> None \<or> ParseCIDR v \<noteq> None)"

definition ctl_ok :: "db \<Rightarrow> bool" where
  "ctl_ok s = ((\<forall>t \<in> set (confirmation_tokens s). validateOperation (ct_command_type t) (ct_command_json t) = Inr ()) \<and>
     (\<forall>r \<in> set (policy_rules s). pr_enabled r \<longrightarrow> loadable (pr_rule_type r) (pr_value r)) \<and> policy_versions s \<noteq> [])"

lemma load_rules_total:
  "\<forall>r \<in> set rs. loadable (pr_rule_type r) (pr_value r) \<Longrightarrow> \<exists>p. load_rules rs p0 = Inr p"
proof (induction rs arbitrary: p0)
  case (Cons r rs)
  then have "\<exists>p. load_rule r p0 = Inr p" by (auto simp: load_rule_def Let_def loadable_def split: option.splits)
  with Cons show ?case by (auto simp: bind_res_Inr_iff)
qed simp

lemma ctl_ok_loads: "ctl_ok s \<Longrightarrow> \<exists>p. LoadPolicySnapshot s = Inr p"
proof -
  assume "ctl_ok s"
  then obtain v vs where "map pv_version (policy_versions s) = v # vs"
    and "\<forall>r \<in> set (filter pr_enabled (policy_rules s)). loadable (pr_rule_type r) (pr_value r)"
    by (cases "policy_versions s") (auto simp: ctl_ok_def)
  then show ?thesis using load_rules_total by (fastforce simp: LoadPolicySnapshot_def bind_res_Inr_iff)
qed

lemma confirm_effect_rules:
  assumes e: "confirm_effect cr svc t token ver capidb rid now s = Inr (cap, s')"
    and v: "validateOperation (ct_command_type t) (ct_command_json t) = Inr ()"
    and ok: "\<forall>r \<in> set (policy_rules s). pr_enabled r \<longrightarrow> loadable (pr_rule_type r) (pr_value r)"
  shows "\<forall>r \<in> set (policy_rules s'). pr_enabled r \<longrightarrow> loadable (pr_rule_type r) (pr_value r)"
proof (cases "ct_command_type t = ''capability_rotate''")
  case True
  with e have "policy_rules s' = policy_rules s"
    by (auto simp: confirm_effect_def rotate_def Let_def bind_res_Inr_iff insert_capability_def split: if_splits)
  with ok show ?thesis by simp
next
  case False
  let ?ty = "ct_command_type t" and ?v = "ct_command_json t"
  from e False have a: "apply_command ?ty ?v ver now rid s = Inr s'" by (auto simp: confirm_effect_def bind_res_Inr_iff)
  show ?thesis
  proof (cases "submitter_command ?ty")
    case True
    with apply_submitter_others [OF True a] ok show ?thesis by simp
  next
    case sub: False
    then have ty: "?ty \<in> set rule_types" using v False by (auto simp: validateOperation_def submitter_command_def split: if_splits)
    show ?thesis
    proof (cases "p_enabled ?v = Some False")
      case True
      with ok apply_disable [OF a ty True] show ?thesis by (auto simp: sql_update_def)
    next
      case en: False
      have "loadable ?ty (p_value ?v)"
        using v ty en by (auto simp: validateOperation_def rule_types_other loadable_def split: if_splits)
      moreover obtain row where "policy_rules s' = policy_rules s @ [row]" "pr_rule_type row = ?ty" "pr_value row = p_value ?v"
        using a en ty by (auto simp: apply_command_def rule_types_other insert_policy_rule_def split: if_splits)
      ultimately show ?thesis using ok by auto
    qed
  qed
qed

lemma ctl_ok_exec:
  assumes "ctl_ok s"
  shows "ctl_ok (ctl_exec cr svc op s)"
proof (cases op)
  case (DoPreview session c tb now)
  show ?thesis
  proof (cases "Preview cr svc session c tb now s")
    case (Inr ps)
    then obtain p s' where ps: "Preview cr svc session c tb now s = Inr (p, s')" by (cases ps) simp
    then obtain t where t: "s' = s\<lparr>confirmation_tokens := confirmation_tokens s @ [t]\<rparr>"
      "ct_command_type t = cmd_CommandType c" "ct_command_json t = pv_Normalized p" by (rule Preview_token_row)
    from ps have "validateOperation (cmd_CommandType c) (pv_Normalized p) = Inr ()"
      by (cases rule: Preview_Inr) (auto simp: ctl_canonical_def bind_res_Inr_iff split: if_splits option.splits)
    with t assms ps DoPreview show ?thesis by (auto simp: ctl_ok_def)
  qed (use assms DoPreview in simp)
next
  case (DoConfirm x capidb rid now)
  show ?thesis
  proof (cases "Confirm cr svc x capidb rid now s")
    case (Inr rs)
    then obtain r s' where rs: "Confirm cr svc x capidb rid now s = Inr (r, s')" by (cases rs) simp
    from rs have "ctl_ok s'"
    proof (cases rule: Confirm_Inr)
      case (1 t current s1 s2)
      have s1: "s1 = s\<lparr>policy_versions := policy_versions s1\<rparr>" "policy_versions s1 \<noteq> []"
        using 1(8) by (auto simp: insert_policy_version_def)
      have "\<forall>r \<in> set (policy_rules s2). pr_enabled r \<longrightarrow> loadable (pr_rule_type r) (pr_value r)"
        by (rule confirm_effect_rules [OF 1(9)], use assms row_by_Some [OF 1(1)] in \<open>auto simp: ctl_ok_def\<close>) (subst (asm) s1, auto)
      moreover have "\<forall>t \<in> set (confirmation_tokens s'). validateOperation (ct_command_type t) (ct_command_json t) = Inr ()"
        using assms by (auto simp: Confirm_tokens [OF rs] sql_update_def ctl_ok_def)
      ultimately show ?thesis
        using record_confirmation_Inr(4,5) [OF 1(11)] confirm_effect_frame(1) [OF 1(9)] s1(2) by (simp add: ctl_ok_def)
    qed
    with rs DoConfirm show ?thesis by simp
  qed (use assms DoConfirm in simp)
qed

text \<open>
  C28: The policy that admission loads never becomes unreadable: from a database whose stored previews
  are valid and whose enabled rules parse, any sequence of previews and confirmations leads to one
  from which \<open>LoadPolicySnapshot\<close> succeeds, because \<open>validateOperation\<close> accepts for a peer block
  only what \<open>LoadPolicySnapshot\<close> can parse.
\<close>

theorem control_keeps_policy_loadable:
  assumes "ctl_ok s"
  shows "ctl_ok (fold (ctl_exec cr svc) ops s) \<and> (\<exists>p. LoadPolicySnapshot (fold (ctl_exec cr svc) ops s) = Inr p)"
proof -
  have "ctl_ok (fold (ctl_exec cr svc) ops s)"
    using assms by (induction ops arbitrary: s) (auto intro: ctl_ok_exec)
  then show ?thesis using ctl_ok_loads by blast
qed

section \<open>Examples\<close>

definition example_ctl_crypto :: crypto where
  "example_ctl_crypto = \<lparr>sha256 = (\<lambda>s. s), hmac = (\<lambda>k s. s @ k)\<rparr>"

definition example_ctl :: ctl_service where
  "example_ctl = \<lparr>ConfirmationKey = replicate 32 (CHR ''k''), ctl_CapabilityKey = replicate 32 (CHR ''c''), CapabilityDomain = ''mail.test''\<rparr>"

definition example_ctl_rule :: policy_rule_row where
  "example_ctl_rule = \<lparr>pr_rule_id = ''rule1'', pr_version = 0, pr_rule_type = ''outer_domain_block_put'', pr_subject = [],
     pr_value = ''bad.test'', pr_enabled = True, pr_expires_at = None, pr_created_at = 0\<rparr>"

definition example_ctl_db :: db where
  "example_ctl_db = example_adm_db\<lparr>policy_rules := [example_ctl_rule]\<rparr>"

definition example_suspend :: command where
  "example_suspend = \<lparr>cmd_SchemaVersion = ctl_SchemaVersion, cmd_CommandID = ''command-00000001'', cmd_CommandType = ''submitter_suspend'',
     cmd_ExpectedVersion = 0, cmd_Reason = ''left the company'', cmd_IdempotencyKey = ''idempotent-00001'',
     cmd_Command = Some (empty_payload\<lparr>p_submitter_id := ''sub1''\<rparr>)\<rparr>"

definition example_disable :: command where
  "example_disable = example_suspend\<lparr>cmd_CommandType := ''outer_domain_block_put'',
     cmd_Command := Some (empty_payload\<lparr>p_rule_id := ''rule1'', p_enabled := Some False\<rparr>)\<rparr>"

abbreviation example_session :: string where
  "example_session \<equiv> ''session-00000001''"

abbreviation example_token :: string where
  "example_token \<equiv> replicate 24 (CHR ''t'')"

lemma example_ctl_tables:
  "submitters example_ctl_db = [example_pending\<lparr>s_status := Active\<rparr>]" "policy_rules example_ctl_db = [example_ctl_rule]"
  "map pv_version (policy_versions example_ctl_db) = [0]" "map pv_command_id (policy_versions example_ctl_db) = [''bootstrap'']"
  "control_commands example_ctl_db = []" "confirmation_tokens example_ctl_db = []"
  by (simp_all add: example_ctl_db_def example_adm_db_def Migrate_def)

lemma example_suspend_preview:
  "\<exists>p s1. Preview cr example_ctl example_session example_suspend tb 0 example_ctl_db = Inr (p, s1) \<and>
     pv_Normalized p = empty_payload\<lparr>p_submitter_id := ''sub1''\<rparr> \<and> pv_NextVersion p = 1"
  by (simp add: Preview_def example_ctl_def ctl_canonical_def example_suspend_def ctl_SchemaVersion_def ctl_allowed_def
      validateOperation_def empty_payload_def current_version_def example_ctl_tables projectedPolicyDigest_def
      project_command_def rule_types_def insert_confirmation_token_def fresh_def Let_def TrimSpace_def is_space_def bind_res_Inr_iff)

lemma example_disable_preview:
  "\<exists>p s1. Preview example_ctl_crypto example_ctl example_session example_disable example_token 0 example_ctl_db = Inr (p, s1) \<and>
     pv_Normalized p = empty_payload\<lparr>p_rule_id := ''rule1'', p_enabled := Some False\<rparr>"
  by (simp add: Preview_def example_ctl_def ctl_canonical_def example_suspend_def example_disable_def ctl_SchemaVersion_def ctl_allowed_def
      validateOperation_def empty_payload_def current_version_def example_ctl_tables projectedPolicyDigest_def
      project_command_def rule_types_def insert_confirmation_token_def fresh_def Let_def TrimSpace_def is_space_def bind_res_Inr_iff)

lemma example_suspend_applies:
  "\<exists>sa. apply_command ''submitter_suspend'' (empty_payload\<lparr>p_submitter_id := ''sub1''\<rparr>) 1 10 rid example_ctl_db = Inr sa"
  by (simp add: apply_command_def update_one_submitter_def update_submitters_def Let_def bind_res_Inr_iff example_ctl_tables
      empty_payload_def example_pending_def submitters_unique_def)

lemma example_suspend_hyps:
  "submitter_command (cmd_CommandType example_suspend)" "distinct (map s_submitter_id (submitters example_ctl_db))"
  "cmd_CommandID example_suspend \<notin> pv_command_id ` set (policy_versions example_ctl_db)"
  "cmd_CommandID example_suspend \<notin> cc_command_id ` set (control_commands example_ctl_db)"
  "cmd_IdempotencyKey example_suspend \<notin> cc_idempotency_key ` set (control_commands example_ctl_db)"
  "\<forall>r \<in> set (policy_rules example_ctl_db). rule_live 0 r = rule_live 10 r"
  by (auto simp: submitter_command_def example_suspend_def example_ctl_tables example_ctl_rule_def rule_live_def
      example_ctl_db_def example_adm_db_def Migrate_def)

lemma example_suspend_confirmed:
  "\<exists>p s1 r s'. Preview example_ctl_crypto example_ctl example_session example_suspend example_token 0 example_ctl_db = Inr (p, s1) \<and>
     Confirm example_ctl_crypto example_ctl (confirmation_of example_session example_suspend p) [] rid 10 s1 = Inr (r, s')"
proof -
  obtain p s1 where p: "Preview example_ctl_crypto example_ctl example_session example_suspend example_token 0 example_ctl_db = Inr (p, s1)"
    "pv_Normalized p = empty_payload\<lparr>p_submitter_id := ''sub1''\<rparr>" "pv_NextVersion p = 1"
    using example_suspend_preview by blast
  obtain sa where "apply_command (cmd_CommandType example_suspend) (pv_Normalized p) (pv_NextVersion p) 10 rid example_ctl_db = Inr sa"
    using example_suspend_applies p(2,3) by (auto simp: example_suspend_def)
  from preview_confirmable [OF p(1) _ example_suspend_hyps(1,2) this example_suspend_hyps(3-5) _ example_suspend_hyps(6)] p(1)
  show ?thesis by fastforce
qed

theorem Confirm_sound_witness:
  "\<exists>x s r s'. Confirm example_ctl_crypto example_ctl x [] [] 10 s = Inr (r, s') \<and> cf_AfterDigest x = policy_digest example_ctl_crypto 10 s'"
  using example_suspend_confirmed [of "[]"] Confirm_sound [of example_ctl_crypto example_ctl _ "[]" "[]" 10] by blast

theorem Confirm_once_witness:
  "\<exists>x s r s' e. Confirm example_ctl_crypto example_ctl x [] [] 10 s = Inr (r, s') \<and>
     Confirm example_ctl_crypto example_ctl x [] [] 11 s' = Inl e"
  using example_suspend_confirmed [of "[]"] Confirm_once [of example_ctl_crypto example_ctl _ "[]" "[]" 10 _ _ _ _ "[]" "[]" 11 "[]"]
  by (metis fold_simps(1))

theorem Preview_then_Confirm_witness:
  "\<exists>p s1 r s'. Preview example_ctl_crypto example_ctl example_session example_suspend example_token 0 example_ctl_db = Inr (p, s1) \<and>
     Confirm example_ctl_crypto example_ctl (confirmation_of example_session example_suspend p) [] [] 10 s1 = Inr (r, s') \<and>
     cr_PolicyVersion r = 1"
proof -
  obtain p s1 where p: "Preview example_ctl_crypto example_ctl example_session example_suspend example_token 0 example_ctl_db = Inr (p, s1)"
    "pv_Normalized p = empty_payload\<lparr>p_submitter_id := ''sub1''\<rparr>" "pv_NextVersion p = 1"
    using example_suspend_preview by blast
  obtain sa where "apply_command (cmd_CommandType example_suspend) (pv_Normalized p) (pv_NextVersion p) 10 [] example_ctl_db = Inr sa"
    using example_suspend_applies p(2,3) by (auto simp: example_suspend_def)
  from Preview_then_Confirm [OF p(1) _ example_suspend_hyps(1,2) this example_suspend_hyps(3-5) _ example_suspend_hyps(6)] p(1)
  show ?thesis by (fastforce simp: example_suspend_def)
qed

theorem disabled_rule_never_confirms_witness:
  "\<exists>p s1 e. Preview example_ctl_crypto example_ctl example_session example_disable example_token 0 example_ctl_db = Inr (p, s1) \<and>
     Confirm example_ctl_crypto example_ctl (confirmation_of example_session example_disable p) [] [] 10 s1 = Inl e"
proof -
  obtain p s1 where p: "Preview example_ctl_crypto example_ctl example_session example_disable example_token 0 example_ctl_db = Inr (p, s1)"
    "pv_Normalized p = empty_payload\<lparr>p_rule_id := ''rule1'', p_enabled := Some False\<rparr>"
    using example_disable_preview by blast
  have "\<exists>e. Confirm example_ctl_crypto example_ctl (confirmation_of example_session example_disable p) [] [] 10 s1 = Inl e"
    by (rule disabled_rule_never_confirms [OF p(1), of example_ctl_rule])
      (simp_all add: p(2) example_disable_def rule_types_def example_ctl_tables example_ctl_rule_def rule_live_def
        example_ctl_crypto_def confirmation_of_def)
  with p(1) show ?thesis by blast
qed

lemma example_ctl_ok: "ctl_ok example_ctl_db"
  using example_ctl_tables(3) by (auto simp: ctl_ok_def example_ctl_tables(2,6) loadable_def example_ctl_rule_def)

theorem control_keeps_policy_loadable_witness:
  "\<exists>p. LoadPolicySnapshot (fold (ctl_exec example_ctl_crypto example_ctl)
     [DoPreview example_session example_suspend example_token 0] example_ctl_db) = Inr p"
  using control_keeps_policy_loadable [OF example_ctl_ok] by blast

end
