(* ===== verification/Campaign.thy ===== *)
theory Campaign
  imports Admission
begin

text \<open>
  \<open>internal/intel/projector.go\<close>, the walk of \<open>RebuildComponents\<close>: runs and strong grouping keys
  form a bipartite graph, and a campaign is a connected component of its runs. The Go map
  \<open>runKeys\<close> is iterated in no fixed order; the order is a parameter of the model, and the theorems
  hold for every order.
\<close>

section \<open>The walk\<close>

text \<open>An edge is a run and a grouping key, as selected from \<open>run_grouping_edges\<close>.\<close>

type_synonym edges = "(string \<times> string) list"

definition run_keys :: "edges \<Rightarrow> string \<Rightarrow> string list" where
  "run_keys es r = map snd (filter (\<lambda>e. fst e = r) es)"

definition key_runs :: "edges \<Rightarrow> string \<Rightarrow> string list" where
  "key_runs es k = map fst (filter (\<lambda>e. snd e = k) es)"

fun add_runs :: "string list \<Rightarrow> string set \<Rightarrow> string list \<Rightarrow> string set \<times> string list" where
  "add_runs [] seen queue = (seen, queue)"
| "add_runs (r # rs) seen queue =
     (if r \<in> seen then add_runs rs seen queue else add_runs rs (insert r seen) (queue @ [r]))"

text \<open>\<open>seenKey\<close> holds exactly the keys collected so far.\<close>

fun visit_keys :: "edges \<Rightarrow> string list \<Rightarrow> string set \<Rightarrow> string list \<Rightarrow> string list \<Rightarrow> string set \<times> string list \<times> string list" where
  "visit_keys es [] seen queue keys = (seen, queue, keys)"
| "visit_keys es (k # ks) seen queue keys =
     (if k \<in> set keys then visit_keys es ks seen queue keys
      else case add_runs (key_runs es k) seen queue of (seen', queue') \<Rightarrow> visit_keys es ks seen' queue' (keys @ [k]))"

lemma add_runs_spec:
  assumes "add_runs rs seen queue = (seen', queue')"
  obtains new where "queue' = queue @ new" "distinct new" "set new = set rs - seen" "seen' = seen \<union> set rs"
proof -
  have "\<exists>new. queue' = queue @ new \<and> distinct new \<and> set new = set rs - seen \<and> seen' = seen \<union> set rs"
    using assms
  proof (induction rs seen queue rule: add_runs.induct)
    case (2 r rs seen queue)
    show ?case
    proof (cases "r \<in> seen")
      case True
      with 2 show ?thesis by auto
    next
      case False
      with 2 obtain new where "queue' = (queue @ [r]) @ new" "distinct new" "set new = set rs - insert r seen"
        "seen' = insert r seen \<union> set rs" by auto
      with False show ?thesis by (intro exI [of _ "r # new"]) auto
    qed
  qed simp
  then show thesis using that by blast
qed

lemma visit_keys_spec:
  assumes "visit_keys es ks seen queue keys = (seen', queue', keys')"
  obtains newq newk where "queue' = queue @ newq" "distinct newq" "set newq = (\<Union>k \<in> set newk. set (key_runs es k)) - seen"
    "keys' = keys @ newk" "distinct newk" "set newk = set ks - set keys" "seen' = seen \<union> (\<Union>k \<in> set newk. set (key_runs es k))"
proof -
  have "\<exists>newq newk. queue' = queue @ newq \<and> distinct newq \<and> set newq = (\<Union>k \<in> set newk. set (key_runs es k)) - seen \<and>
    keys' = keys @ newk \<and> distinct newk \<and> set newk = set ks - set keys \<and> seen' = seen \<union> (\<Union>k \<in> set newk. set (key_runs es k))"
    using assms
  proof (induction es ks seen queue keys rule: visit_keys.induct)
    case (2 es k ks seen queue keys)
    show ?case
    proof (cases "k \<in> set keys")
      case True
      with 2 show ?thesis by auto
    next
      case False
      obtain s1 q1 where a: "add_runs (key_runs es k) seen queue = (s1, q1)" by fastforce
      then obtain new where new: "q1 = queue @ new" "distinct new" "set new = set (key_runs es k) - seen" "s1 = seen \<union> set (key_runs es k)"
        by (rule add_runs_spec)
      have v: "visit_keys es ks s1 q1 (keys @ [k]) = (seen', queue', keys')" using 2(3) False a by simp
      obtain newq newk where n: "queue' = q1 @ newq" "distinct newq" "set newq = (\<Union>k \<in> set newk. set (key_runs es k)) - s1"
        "keys' = (keys @ [k]) @ newk" "distinct newk" "set newk = set ks - set (keys @ [k])" "seen' = s1 \<union> (\<Union>k \<in> set newk. set (key_runs es k))"
        using 2(2) [OF False a [symmetric] v] by blast
      show ?thesis
        by (rule exI [of _ "new @ newq"], rule exI [of _ "k # newk"]) (use new n False in auto)
    qed
  qed simp
  then show thesis using that by blast
qed

lemma key_runs_sub: "set (key_runs es k) \<subseteq> fst ` set es"
  by (auto simp: key_runs_def)

function (sequential) walk :: "edges \<Rightarrow> string list \<Rightarrow> string set \<Rightarrow> string list \<Rightarrow> string list \<Rightarrow> string list \<times> string list \<times> string set" where
  "walk es [] seen rs keys = (rs, keys, seen)"
| "walk es (r # queue) seen rs keys = (case visit_keys es (run_keys es r) seen queue keys of
     (seen', queue', keys') \<Rightarrow> walk es queue' seen' (rs @ [r]) keys')"
  by pat_completeness auto
termination
proof (relation "measure (\<lambda>(es, queue, seen, rs, keys). length queue + card (fst ` set es - seen))", simp)
  fix es r queue seen rs keys seen' y queue' keys'
  assume "(seen', y) = visit_keys es (run_keys es r) seen queue keys" "(queue', keys') = y"
  then have "visit_keys es (run_keys es r) seen queue keys = (seen', queue', keys')" by simp
  then obtain newq newk where n: "queue' = queue @ newq" "distinct newq" "set newq = (\<Union>k \<in> set newk. set (key_runs es k)) - seen"
    "keys' = keys @ newk" "distinct newk" "set newk = set (run_keys es r) - set keys"
    "seen' = seen \<union> (\<Union>k \<in> set newk. set (key_runs es k))"
    by (rule visit_keys_spec)
  have sub: "set newq \<subseteq> fst ` set es - seen" using n(3) key_runs_sub by blast
  have "fst ` set es - seen' = (fst ` set es - seen) - set newq" using n(3,7) by blast
  then have "card (fst ` set es - seen') + length newq = card (fst ` set es - seen)"
    using sub card_Diff_subset [of "set newq" "fst ` set es - seen"] card_mono [OF _ sub] by (simp add: distinct_card [OF n(2)])
  then show "((es, queue', seen', rs @ [r], keys'), (es, r # queue, seen, rs, keys))
      \<in> measure (\<lambda>(es, queue, seen, rs, keys). length queue + card (fst ` set es - seen))"
    by (simp add: n(1))
qed

fun components :: "edges \<Rightarrow> string list \<Rightarrow> string set \<Rightarrow> (string list \<times> string list) list" where
  "components es [] seen = []"
| "components es (start # rest) seen =
     (if start \<in> seen then components es rest seen
      else case walk es [start] (insert start seen) [] [] of
        (rs, keys, seen') \<Rightarrow> (sort rs, sort keys) # components es rest seen')"

section \<open>Connected components\<close>

text \<open>The reference: two runs are linked when they share a key; a component is closed under links.\<close>

definition links :: "edges \<Rightarrow> (string \<times> string) set" where
  "links es = {(r, r'). \<exists>k. (r, k) \<in> set es \<and> (r', k) \<in> set es}"

definition component :: "edges \<Rightarrow> string \<Rightarrow> string set" where
  "component es r = (links es)\<^sup>* `` {r}"

definition keys_of :: "edges \<Rightarrow> string set \<Rightarrow> string set" where
  "keys_of es R = {k. \<exists>r \<in> R. (r, k) \<in> set es}"

definition closed :: "edges \<Rightarrow> string set \<Rightarrow> bool" where
  "closed es S = (\<forall>r \<in> S. \<forall>r'. (r, r') \<in> links es \<longrightarrow> r' \<in> S)"

lemma in_run_keys [simp]: "k \<in> set (run_keys es r) \<longleftrightarrow> (r, k) \<in> set es"
  by (force simp: run_keys_def)

lemma in_key_runs [simp]: "r \<in> set (key_runs es k) \<longleftrightarrow> (r, k) \<in> set es"
  by (force simp: key_runs_def)

lemma links_sym: "(r, r') \<in> links es \<Longrightarrow> (r', r) \<in> links es"
  by (auto simp: links_def)

lemma links_rtrancl_sym: "(r, r') \<in> (links es)\<^sup>* \<Longrightarrow> (r', r) \<in> (links es)\<^sup>*"
  by (rule symD [OF sym_rtrancl]) (auto intro: symI links_sym)

lemma component_refl [simp]: "r \<in> component es r"
  by (simp add: component_def)

lemma component_closed: "closed es (component es r)"
  by (auto simp: closed_def component_def intro: rtrancl.rtrancl_into_rtrancl)

lemma component_least: "r \<in> S \<Longrightarrow> closed es S \<Longrightarrow> component es r \<subseteq> S"
proof
  fix x assume "r \<in> S" "closed es S" "x \<in> component es r"
  then have "(r, x) \<in> (links es)\<^sup>*" by (simp add: component_def)
  then show "x \<in> S" using \<open>r \<in> S\<close> \<open>closed es S\<close> by (induction rule: rtrancl_induct) (auto simp: closed_def)
qed

lemma component_eq: "r' \<in> component es r \<Longrightarrow> component es r' = component es r"
  unfolding component_def using links_rtrancl_sym by (auto intro: rtrancl_trans)

lemma closed_disjoint: "closed es S \<Longrightarrow> r \<notin> S \<Longrightarrow> component es r \<inter> S = {}"
proof (rule ccontr)
  assume a: "closed es S" "r \<notin> S" "component es r \<inter> S \<noteq> {}"
  then obtain x where x: "x \<in> component es r" "x \<in> S" by blast
  from component_least [OF x(2) a(1)] have "component es r \<subseteq> S" by (simp add: component_eq [OF x(1)])
  with a(2) show False using component_refl by blast
qed

definition walk_inv :: "edges \<Rightarrow> string \<Rightarrow> string set \<Rightarrow> string list \<Rightarrow> string set \<Rightarrow> string list \<Rightarrow> string list \<Rightarrow> bool" where
  "walk_inv es start S0 queue seen rs keys =
     (set rs \<union> set queue \<subseteq> component es start \<and> start \<in> set rs \<union> set queue \<and>
      seen = S0 \<union> set rs \<union> set queue \<and> distinct (rs @ queue) \<and> distinct keys \<and>
      set keys = keys_of es (set rs) \<and> (\<forall>k \<in> set keys. set (key_runs es k) \<subseteq> seen))"

lemma walk_inv_step:
  assumes S0: "component es start \<inter> S0 = {}" and inv: "walk_inv es start S0 (r # queue) seen rs keys"
    and v: "visit_keys es (run_keys es r) seen queue keys = (seen', queue', keys')"
  shows "walk_inv es start S0 queue' seen' (rs @ [r]) keys'"
proof -
  from v obtain newq newk where n: "queue' = queue @ newq" "distinct newq" "set newq = (\<Union>k \<in> set newk. set (key_runs es k)) - seen"
    "keys' = keys @ newk" "distinct newk" "set newk = set (run_keys es r) - set keys"
    "seen' = seen \<union> (\<Union>k \<in> set newk. set (key_runs es k))"
    by (rule visit_keys_spec)
  have r: "r \<in> component es start" using inv by (simp add: walk_inv_def)
  have "(\<Union>k \<in> set newk. set (key_runs es k)) \<subseteq> component es start"
  proof
    fix x assume "x \<in> (\<Union>k \<in> set newk. set (key_runs es k))"
    then have "(r, x) \<in> links es" using n(6) by (auto simp: links_def)
    then show "x \<in> component es start" using r component_closed by (auto simp: closed_def)
  qed
  moreover have "set keys' = keys_of es (set (rs @ [r]))"
    using inv n(4,6) by (auto simp: walk_inv_def keys_of_def)
  moreover have "set (key_runs es k) \<subseteq> seen'" if "k \<in> set keys'" for k
  proof (cases "k \<in> set keys")
    case True
    with inv have "set (key_runs es k) \<subseteq> seen" unfolding walk_inv_def by blast
    then show ?thesis by (simp add: n(7) le_supI1)
  next
    case False
    with that show ?thesis by (auto simp: n(4,7))
  qed
  moreover have "seen' = S0 \<union> set (rs @ [r]) \<union> set queue'" using inv n(1,3,7) by (auto simp: walk_inv_def)
  moreover have "distinct ((rs @ [r]) @ queue')" using inv n(1-3) by (auto simp: walk_inv_def)
  moreover have "distinct keys'" using inv n(4-6) by (auto simp: walk_inv_def)
  moreover have "set (rs @ [r]) \<union> set queue' \<subseteq> component es start"
    using inv calculation(1) n(1,3) by (auto simp: walk_inv_def)
  moreover have "start \<in> set (rs @ [r]) \<union> set queue'" using inv n(1) by (auto simp: walk_inv_def)
  ultimately show ?thesis unfolding walk_inv_def by blast
qed

lemma walk_correct:
  assumes "closed es S0" "start \<notin> S0"
    and "walk_inv es start S0 queue seen rs keys" "walk es queue seen rs keys = (rs', keys', seen')"
  shows "set rs' = component es start \<and> distinct rs' \<and> distinct keys' \<and> set keys' = keys_of es (component es start) \<and>
    seen' = S0 \<union> component es start"
  using assms
proof (induction es queue seen rs keys rule: walk.induct)
  case (1 es seen rs keys)
  have "closed es (set rs)"
    unfolding closed_def
  proof (intro ballI allI impI)
    fix r r' assume r: "r \<in> set rs" "(r, r') \<in> links es"
    then obtain k where k: "(r, k) \<in> set es" "(r', k) \<in> set es" by (auto simp: links_def)
    from k(1) r(1) 1(3) have "set (key_runs es k) \<subseteq> S0 \<union> set rs" by (auto simp: walk_inv_def keys_of_def)
    then have "r' \<in> S0 \<union> set rs" using k(2) by (meson in_key_runs subsetD)
    moreover have "r' \<notin> S0"
    proof
      assume "r' \<in> S0"
      with 1(1) links_sym [OF r(2)] have "r \<in> S0" unfolding closed_def by blast
      moreover have "r \<in> component es start" using r(1) 1(3) unfolding walk_inv_def by blast
      ultimately show False using closed_disjoint [OF 1(1,2)] by blast
    qed
    ultimately show "r' \<in> set rs" by simp
  qed
  with 1 component_least [of start "set rs" es] show ?case by (auto simp: walk_inv_def)
next
  case (2 es r queue seen rs keys)
  obtain seen1 queue1 keys1 where v: "visit_keys es (run_keys es r) seen queue keys = (seen1, queue1, keys1)"
    by (metis surj_pair)
  show ?case
    by (rule 2(1) [OF v [symmetric] refl 2(2,3) walk_inv_step [OF closed_disjoint [OF 2(2,3)] 2(4) v]])
      (use 2(5) v in simp)
qed

text \<open>What the loop body makes of one component.\<close>

definition component_entry :: "edges \<Rightarrow> string set \<Rightarrow> string list \<times> string list" where
  "component_entry es R = (sorted_list_of_set R, sorted_list_of_set (keys_of es R))"

lemma sort_distinct: "distinct xs \<Longrightarrow> sort xs = sorted_list_of_set (set xs)"
  by (simp add: sorted_list_of_set_sort_remdups distinct_remdups_id)

lemma walk_start:
  assumes "closed es S" "start \<notin> S" "walk es [start] (insert start S) [] [] = (rs, keys, S')"
  shows "(sort rs, sort keys) = component_entry es (component es start)" "S' = S \<union> component es start"
    "finite (component es start)"
proof -
  have "walk_inv es start S [start] (insert start S) [] []" by (simp add: walk_inv_def keys_of_def)
  note w = walk_correct [OF assms(1,2) this assms(3)]
  then show "(sort rs, sort keys) = component_entry es (component es start)" "S' = S \<union> component es start"
    by (auto simp: component_entry_def sort_distinct)
  from w show "finite (component es start)" by (metis List.finite_set)
qed

lemma closed_Un: "closed es S \<Longrightarrow> closed es T \<Longrightarrow> closed es (S \<union> T)"
  by (auto simp: closed_def)

lemma components_set:
  assumes "closed es S"
  shows "set (components es order S) = (\<lambda>r. component_entry es (component es r)) ` (set order - S)"
    "distinct (map fst (components es order S))"
    "\<forall>r \<in> set order - S. finite (component es r)"
proof -
  have "set (components es order S) = (\<lambda>r. component_entry es (component es r)) ` (set order - S) \<and>
    distinct (map fst (components es order S)) \<and> (\<forall>r \<in> set order - S. finite (component es r))"
    using assms
  proof (induction es order S rule: components.induct)
    case (2 es start rest S)
    show ?case
    proof (cases "start \<in> S")
      case True
      with 2 show ?thesis by (auto simp: insert_Diff_if)
    next
      case False
      obtain rs keys S' where w: "walk es [start] (insert start S) [] [] = (rs, keys, S')" by (metis surj_pair)
      note ws = walk_start [OF 2(3) False w]
      have cl: "closed es S'" unfolding ws(2) by (rule closed_Un [OF 2(3) component_closed])
      note IH = 2(2) [OF False w [symmetric] refl cl]
      have c: "components es (start # rest) S = component_entry es (component es start) # components es rest S'"
        using False w ws(1) by simp
      let ?e = "\<lambda>r. component_entry es (component es r)"
      have same: "?e r = ?e start \<and> finite (component es r)" if "r \<in> component es start" for r
        using component_eq [OF that] ws(3) by simp
      have "set (start # rest) - S \<subseteq> insert start ((set rest - S') \<union> component es start)" unfolding ws(2) by auto
      moreover have "?e ` component es start \<subseteq> {?e start}" using same by blast
      moreover have "insert start (set rest - S') \<subseteq> set (start # rest) - S" using False unfolding ws(2) by auto
      ultimately have "?e ` (set (start # rest) - S) = insert (?e start) (?e ` (set rest - S'))" by blast
      moreover have "\<forall>r \<in> set (start # rest) - S. finite (component es r)"
        using IH same ws(3) unfolding ws(2) by auto
      moreover have "fst (?e start) \<notin> fst ` set (components es rest S')"
      proof
        assume "fst (?e start) \<in> fst ` set (components es rest S')"
        then obtain r where r: "r \<in> set rest - S'" "sorted_list_of_set (component es start) = sorted_list_of_set (component es r)"
          using IH by (auto simp: component_entry_def)
        then have "component es start = component es r" using ws(3) IH by (metis sorted_list_of_set.set_sorted_key_list_of_set)
        then have "r \<in> component es start" by simp
        with r(1) show False by (simp add: ws(2))
      qed
      ultimately show ?thesis unfolding c using IH by simp
    qed
  qed simp
  then show "set (components es order S) = (\<lambda>r. component_entry es (component es r)) ` (set order - S)"
    "distinct (map fst (components es order S))" "\<forall>r \<in> set order - S. finite (component es r)" by blast+
qed

lemma closed_empty [simp]: "closed es {}"
  by (simp add: closed_def)

lemma components_order:
  assumes "set order' = set order"
  shows "mset (components es order' {}) = mset (components es order {})"
proof (rule set_eq_iff_mset_eq_distinct [THEN iffD1])
  show "set (components es order' {}) = set (components es order {})"
    by (simp only: components_set(1) [OF closed_empty] assms)
  show "distinct (components es order' {})" "distinct (components es order {})"
    using components_set(2) [OF closed_empty] by (simp_all only: distinct_map)
qed

text \<open>
  Campaign grouping computes the connected components. For any order in which the runs are
  visited, the walk terminates and yields, exactly once each, the sorted runs of every class of
  runs connected through shared strong keys, together with the sorted keys incident to it; the
  order of the visit does not change the result.
\<close>

theorem components_correct:
  "set (components es order {}) = (\<lambda>r. component_entry es (component es r)) ` set order \<and>
   distinct (map fst (components es order {})) \<and>
   (set order' = set order \<longrightarrow> mset (components es order' {}) = mset (components es order {}))"
  using components_set(1,2) [of es "{}" order] components_order [of order' order es] by auto

theorem components_correct_witness:
  "\<exists>es order order'. order \<noteq> order' \<and> mset (components es order' {}) = mset (components es order {}) \<and>
     components es order {} = [([''a'', ''b''], [''k'']), ([''c''], [])]"
proof -
  let ?es = "[(''a'', ''k''), (''b'', ''k'')]"
  have "mset (components ?es [''c'', ''b'', ''a''] {}) = mset (components ?es [''a'', ''b'', ''c''] {})"
    using components_correct [of ?es "[''a'', ''b'', ''c'']" "[''c'', ''b'', ''a'']"] by (simp add: insert_commute)
  moreover have "components ?es [''a'', ''b'', ''c''] {} = [([''a'', ''b''], [''k'']), ([''c''], [])]"
    by (simp add: run_keys_def key_runs_def)
  moreover have "[''a'', ''b'', ''c''] \<noteq> [''c'', ''b'', ''a'']" by simp
  ultimately show ?thesis by metis
qed

end
