(* ===== verification/Evidence.thy ===== *)
theory Evidence
  imports Files
begin

text \<open>
  \<open>internal/evidence\<close>: the vocabulary of evidence and the verdict policy (\<open>types.go\<close>,
  \<open>policy.go\<close>), sender ambiguities (\<open>projection.go\<close>), forwarding provenance (\<open>provenance.go\<close>),
  the bounded adapter runner (\<open>runner.go\<close>) and the write-once publication of an analysis
  (\<open>publish.go\<close>). \<open>Project\<close> and \<open>SelectTopLevelRFC822\<close>, which rest on a third-party mail parser, are in
  theory \<open>Collector\<close>.
\<close>

section \<open>Vocabulary\<close>

abbreviation Observed :: string where "Observed \<equiv> ''observed''"
abbreviation CleanConfirmed :: string where "CleanConfirmed \<equiv> ''clean_confirmed''"
abbreviation NotApplicable :: string where "NotApplicable \<equiv> ''not_applicable''"
abbreviation Unavailable :: string where "Unavailable \<equiv> ''unavailable''"
abbreviation Failed :: string where "Failed \<equiv> ''failed''"
abbreviation Skipped :: string where "Skipped \<equiv> ''skipped''"
abbreviation Unknown :: string where "Unknown \<equiv> ''unknown''"

abbreviation Authoritative :: string where "Authoritative \<equiv> ''authoritative''"
abbreviation Strong :: string where "Strong \<equiv> ''strong''"
abbreviation Supporting :: string where "Supporting \<equiv> ''supporting''"
abbreviation Weak :: string where "Weak \<equiv> ''weak''"

abbreviation LocalIngress :: string where "LocalIngress \<equiv> ''local_ingress''"
abbreviation Detached :: string where "Detached \<equiv> ''detached''"

abbreviation Verified :: string where "Verified \<equiv> ''VERIFIED''"
abbreviation AuthenticatedButSuspicious :: string where "AuthenticatedButSuspicious \<equiv> ''AUTHENTICATED_BUT_SUSPICIOUS''"
abbreviation Suspicious :: string where "Suspicious \<equiv> ''SUSPICIOUS''"
abbreviation KnownMalicious :: string where "KnownMalicious \<equiv> ''KNOWN_MALICIOUS''"
abbreviation Indeterminate :: string where "Indeterminate \<equiv> ''INDETERMINATE''"

record evidence =
  ev_ID :: string
  ev_Category :: string
  ev_Adapter :: string
  ev_AdapterVersion :: string
  ev_ConfigDigest :: string
  ev_SubjectDigest :: string
  ev_InputDigest :: string
  ev_ResponseDigest :: string
  ev_ObservedAt :: time
  ev_Value :: string
  ev_RawResponsePath :: string
  ev_Status :: string
  ev_Limitations :: "string list"
  ev_Authority :: string
  ev_Error :: string

record contradiction =
  co_ID :: string
  co_EvidenceIDs :: "string list"
  co_Reason :: string
  co_Material :: bool

record verdict =
  vd_Category :: string
  vd_Technical :: string
  vd_Behavior :: string
  vd_Support :: "string list"
  vd_Contradictions :: "string list"
  vd_Unavailable :: "string list"
  vd_Rules :: "string list"

definition validStatus :: "string \<Rightarrow> bool" where
  "validStatus s = (s \<in> set [Observed, CleanConfirmed, NotApplicable, Unavailable, Failed, Skipped, Unknown])"

definition validAuthority :: "string \<Rightarrow> bool" where
  "validAuthority a = (a \<in> set [Authoritative, Strong, Supporting, Weak])"

definition evidence_Validate :: "evidence \<Rightarrow> unit res" where
  "evidence_Validate e =
     (if ev_ID e = [] \<or> ev_Category e = [] \<or> ev_Adapter e = [] \<or> ev_SubjectDigest e = []
      then Inl (Err ''evidence requires id, category, adapter, and subject digest'')
      else if \<not> validStatus (ev_Status e) \<or> \<not> validAuthority (ev_Authority e) then Inl (Err ''invalid evidence status or authority'')
      else if ev_Status e = CleanConfirmed \<and> ev_Value e = [] then Inl (Err ''clean confirmation requires execution proof'')
      else if ev_Error e \<noteq> [] \<and> length (ev_Error e) > 1024 then Inl (Err ''evidence error exceeds bound'')
      else Inr ())"

section \<open>The verdict\<close>

record decide_flags =
  df_authenticated :: bool
  df_malicious :: bool
  df_suspicious :: bool
  df_complete :: bool
  df_support :: "string list"
  df_unavailable :: "string list"

definition not_conclusive :: "evidence \<Rightarrow> bool" where
  "not_conclusive e = (ev_Status e \<in> set [Failed, Unavailable, Skipped, Unknown])"

definition authenticates :: "evidence \<Rightarrow> bool" where
  "authenticates e = (ev_Category e = ''authentication'' \<and> ev_Status e = Observed \<and>
     (ev_Authority e = Authoritative \<or> ev_Authority e = Strong))"

definition proves_malice :: "evidence \<Rightarrow> bool" where
  "proves_malice e = ((ev_Category e = ''malware'' \<or> ev_Category e = ''yara'' \<or> ev_Category e = ''threat_feed'') \<and>
     ev_Status e = Observed \<and> ev_Authority e = Authoritative)"

definition shows_behavior :: "evidence \<Rightarrow> bool" where
  "shows_behavior e = (ev_Category e = ''behavior'' \<and> ev_Status e = Observed)"

definition decide_item :: "evidence \<Rightarrow> decide_flags \<Rightarrow> decide_flags" where
  "decide_item e f =
     (let f = (if not_conclusive e then f\<lparr>df_complete := False, df_unavailable := df_unavailable f @ [ev_ID e]\<rparr> else f);
          f = (if authenticates e then f\<lparr>df_authenticated := True\<rparr> else f);
          f = (if proves_malice e then f\<lparr>df_malicious := True, df_support := df_support f @ [ev_ID e]\<rparr> else f) in
      if shows_behavior e then f\<lparr>df_suspicious := True, df_support := df_support f @ [ev_ID e]\<rparr> else f)"

definition classify :: "string \<Rightarrow> decide_flags \<Rightarrow> bool \<Rightarrow> verdict \<Rightarrow> verdict" where
  "classify scope f material v =
     (let v = (if df_malicious f then v\<lparr>vd_Category := KnownMalicious, vd_Behavior := ''known_malicious'', vd_Rules := [''authoritative-malware'']\<rparr>
            else if df_authenticated f \<and> df_suspicious f then v\<lparr>vd_Category := AuthenticatedButSuspicious,
              vd_Technical := ''authenticated'', vd_Behavior := ''suspicious'', vd_Rules := [''authenticated-suspicious'']\<rparr>
            else if df_authenticated f \<and> df_complete f \<and> \<not> material then v\<lparr>vd_Category := Verified,
              vd_Technical := ''authenticated'', vd_Behavior := ''no_material_signal'', vd_Rules := [''complete-authentication'']\<rparr>
            else if df_suspicious f \<or> material then v\<lparr>vd_Category := Suspicious, vd_Behavior := ''suspicious'',
              vd_Rules := [''suspicion-or-contradiction'']\<rparr>
            else v) in
      if scope = Detached \<and> \<not> df_authenticated f \<and> vd_Category v = Verified then v\<lparr>vd_Category := Indeterminate\<rparr> else v)"

definition Decide :: "string \<Rightarrow> evidence list \<Rightarrow> contradiction list \<Rightarrow> verdict" where
  "Decide scope es cs =
     (let f = fold decide_item es \<lparr>df_authenticated = False, df_malicious = False, df_suspicious = False, df_complete = True,
            df_support = [], df_unavailable = []\<rparr>;
          v = classify scope f (list_ex co_Material cs)
            \<lparr>vd_Category = Indeterminate, vd_Technical = ''indeterminate'', vd_Behavior = ''indeterminate'',
             vd_Support = df_support f, vd_Contradictions = map co_ID (filter co_Material cs),
             vd_Unavailable = df_unavailable f, vd_Rules = []\<rparr> in
      v\<lparr>vd_Support := sort (vd_Support v), vd_Contradictions := sort (vd_Contradictions v),
        vd_Unavailable := sort (vd_Unavailable v), vd_Rules := sort (vd_Rules v)\<rparr>)"

lemma decide_item_fields:
  "decide_item e f = \<lparr>df_authenticated = df_authenticated f \<or> authenticates e,
     df_malicious = df_malicious f \<or> proves_malice e, df_suspicious = df_suspicious f \<or> shows_behavior e,
     df_complete = (df_complete f \<and> \<not> not_conclusive e),
     df_support = df_support f @ (if proves_malice e \<or> shows_behavior e then [ev_ID e] else []),
     df_unavailable = df_unavailable f @ (if not_conclusive e then [ev_ID e] else [])\<rparr>"
proof -
  have "\<not> (proves_malice e \<and> shows_behavior e)" by (auto simp: proves_malice_def shows_behavior_def)
  then show ?thesis by (cases f) (auto simp: decide_item_def Let_def)
qed

lemma fold_decide:
  "fold decide_item es f = \<lparr>df_authenticated = df_authenticated f \<or> list_ex authenticates es,
     df_malicious = df_malicious f \<or> list_ex proves_malice es, df_suspicious = df_suspicious f \<or> list_ex shows_behavior es,
     df_complete = (df_complete f \<and> \<not> list_ex not_conclusive es),
     df_support = df_support f @ map ev_ID (filter (\<lambda>e. proves_malice e \<or> shows_behavior e) es),
     df_unavailable = df_unavailable f @ map ev_ID (filter not_conclusive es)\<rparr>"
proof (induction es arbitrary: f)
  case Nil
  show ?case by (cases f) simp
next
  case (Cons e es)
  show ?case unfolding fold_simps Cons by (simp add: decide_item_fields)
qed

text \<open>The verdict as a table of the four facts it rests on.\<close>

definition category_of :: "bool \<Rightarrow> bool \<Rightarrow> bool \<Rightarrow> bool \<Rightarrow> bool \<Rightarrow> string" where
  "category_of malicious authenticated suspicious complete material =
     (if malicious then KnownMalicious
      else if authenticated then
        (if suspicious then AuthenticatedButSuspicious
         else if complete \<and> \<not> material then Verified else if material then Suspicious else Indeterminate)
      else if suspicious \<or> material then Suspicious else Indeterminate)"

lemma classify_lists:
  "vd_Support (classify scope f material v) = vd_Support v"
  "vd_Contradictions (classify scope f material v) = vd_Contradictions v"
  "vd_Unavailable (classify scope f material v) = vd_Unavailable v"
  by (simp_all add: classify_def Let_def)

lemma classify_category:
  assumes "vd_Category v = Indeterminate"
  shows "vd_Category (classify scope f material v) =
     category_of (df_malicious f) (df_authenticated f) (df_suspicious f) (df_complete f) material"
  using assms unfolding classify_def Let_def category_of_def
  by (cases "df_malicious f"; cases "df_authenticated f"; cases "df_suspicious f"; cases "df_complete f"; cases material; simp)

lemma Decide_fields:
  "vd_Category (Decide scope es cs) = category_of (list_ex proves_malice es) (list_ex authenticates es)
     (list_ex shows_behavior es) (\<not> list_ex not_conclusive es) (list_ex co_Material cs)"
  "vd_Support (Decide scope es cs) = sort (map ev_ID (filter (\<lambda>e. proves_malice e \<or> shows_behavior e) es))"
  "vd_Contradictions (Decide scope es cs) = sort (map co_ID (filter co_Material cs))"
  "vd_Unavailable (Decide scope es cs) = sort (map ev_ID (filter not_conclusive es))"
  by (simp_all add: Decide_def fold_decide Let_def classify_category classify_lists)

lemma classify_sorted:
  assumes "sort (vd_Rules v) = vd_Rules v"
    and "df_malicious g = df_malicious f" "df_authenticated g = df_authenticated f" "df_suspicious g = df_suspicious f"
      "df_complete g = df_complete f"
  shows "(classify scope f m v)\<lparr>vd_Support := a, vd_Contradictions := b, vd_Unavailable := c, vd_Rules := sort (vd_Rules (classify scope f m v))\<rparr> =
     classify scope g m (v\<lparr>vd_Support := a, vd_Contradictions := b, vd_Unavailable := c\<rparr>)"
  using assms unfolding classify_def Let_def
  by (cases v; cases "df_malicious f"; cases "df_authenticated f"; cases "df_suspicious f"; cases "df_complete f"; cases m; simp)

lemma Decide_sorted:
  "Decide scope es cs = classify scope \<lparr>df_authenticated = list_ex authenticates es, df_malicious = list_ex proves_malice es,
       df_suspicious = list_ex shows_behavior es, df_complete = (\<not> list_ex not_conclusive es), df_support = [], df_unavailable = []\<rparr>
     (list_ex co_Material cs)
     \<lparr>vd_Category = Indeterminate, vd_Technical = ''indeterminate'', vd_Behavior = ''indeterminate'',
      vd_Support = sort (map ev_ID (filter (\<lambda>e. proves_malice e \<or> shows_behavior e) es)),
      vd_Contradictions = sort (map co_ID (filter co_Material cs)),
      vd_Unavailable = sort (map ev_ID (filter not_conclusive es)), vd_Rules = []\<rparr>"
  unfolding Decide_def Let_def classify_lists by (subst classify_sorted) (simp_all add: fold_decide)

lemma list_ex_mset: "mset xs = mset ys \<Longrightarrow> list_ex P xs = list_ex P ys"
  unfolding list_ex_iff by (drule mset_eq_setD) simp

lemma sort_map_mset: "mset xs = mset ys \<Longrightarrow> sort (map f (filter P xs)) = sort (map f (filter P ys))"
  by (rule properties_for_sort) (simp_all add: mset_filter)

text \<open>
  C38: A message is called verified only on complete evidence. The verdict is VERIFIED exactly when some
  authoritative or strong authentication was observed, no analyzer failed, was unavailable,
  skipped or unknown, no contradiction is material, no authoritative detection and no suspicious
  behaviour was observed; the identifiers reported as unavailable are exactly those of the
  analyzers without a result; and the order of the evidence and of the contradictions has no
  influence.
\<close>

theorem Decide_correct:
  "(vd_Category (Decide scope es cs) = Verified \<longleftrightarrow>
      (\<exists>e \<in> set es. authenticates e) \<and> (\<forall>e \<in> set es. \<not> not_conclusive e \<and> \<not> proves_malice e \<and> \<not> shows_behavior e) \<and>
      (\<forall>c \<in> set cs. \<not> co_Material c)) \<and>
   (vd_Category (Decide scope es cs) = KnownMalicious \<longleftrightarrow> (\<exists>e \<in> set es. proves_malice e)) \<and>
   set (vd_Unavailable (Decide scope es cs)) = ev_ID ` {e \<in> set es. not_conclusive e} \<and>
   (mset es' = mset es \<longrightarrow> mset cs' = mset cs \<longrightarrow> Decide scope es' cs' = Decide scope es cs)"
proof -
  have "Decide scope es' cs' = Decide scope es cs" if m: "mset es' = mset es" "mset cs' = mset cs"
    unfolding Decide_sorted list_ex_mset [OF m(1)] list_ex_mset [OF m(2)] sort_map_mset [OF m(1)] sort_map_mset [OF m(2)] ..
  moreover have "vd_Category (Decide scope es cs) = Verified \<longleftrightarrow>
      list_ex authenticates es \<and> \<not> list_ex not_conclusive es \<and> \<not> list_ex proves_malice es \<and> \<not> list_ex shows_behavior es \<and>
      \<not> list_ex co_Material cs"
    "vd_Category (Decide scope es cs) = KnownMalicious \<longleftrightarrow> list_ex proves_malice es"
    by (simp_all add: Decide_fields category_of_def)
  moreover have "set (vd_Unavailable (Decide scope es cs)) = ev_ID ` {e \<in> set es. not_conclusive e}"
    by (simp add: Decide_fields)
  ultimately show ?thesis unfolding list_ex_iff by blast
qed

theorem Decide_correct_witness:
  "\<exists>scope es es'. es \<noteq> es' \<and> mset es' = mset es \<and> vd_Category (Decide scope es []) = Verified \<and> Decide scope es' [] = Decide scope es []"
proof -
  define e where "e = \<lparr>ev_ID = ''spf'', ev_Category = ''authentication'', ev_Adapter = ''a'', ev_AdapterVersion = [], ev_ConfigDigest = [],
    ev_SubjectDigest = ''d'', ev_InputDigest = [], ev_ResponseDigest = [], ev_ObservedAt = 0, ev_Value = [], ev_RawResponsePath = [],
    ev_Status = Observed, ev_Limitations = [], ev_Authority = Strong, ev_Error = []\<rparr>"
  let ?es = "[e, e\<lparr>ev_ID := ''dkim''\<rparr>]" and ?es' = "[e\<lparr>ev_ID := ''dkim''\<rparr>, e]"
  have ne: "?es \<noteq> ?es'" by (simp add: e_def)
  have m: "mset ?es' = mset ?es" by (simp add: add_mset_commute)
  have e: "authenticates e" "\<not> not_conclusive e" "\<not> proves_malice e" "\<not> shows_behavior e"
    "\<not> not_conclusive (e\<lparr>ev_ID := ''dkim''\<rparr>)" "\<not> proves_malice (e\<lparr>ev_ID := ''dkim''\<rparr>)" "\<not> shows_behavior (e\<lparr>ev_ID := ''dkim''\<rparr>)"
    by (simp_all add: e_def authenticates_def not_conclusive_def proves_malice_def shows_behavior_def)
  note c = Decide_correct [of Detached ?es "[]" ?es' "[]"]
  have "vd_Category (Decide Detached ?es []) = Verified" by (rule c [THEN conjunct1, THEN iffD2]) (use e in simp)
  moreover have "Decide Detached ?es' [] = Decide Detached ?es []"
    by (rule c [THEN conjunct2, THEN conjunct2, THEN conjunct2, THEN mp, OF m, THEN mp, OF refl])
  ultimately have "?es \<noteq> ?es' \<and> mset ?es' = mset ?es \<and> vd_Category (Decide Detached ?es []) = Verified \<and>
      Decide Detached ?es' [] = Decide Detached ?es []" using ne m by (intro conjI)
  then show ?thesis by (intro exI)
qed

section \<open>The canonical decision\<close>

text \<open>\<open>CanonicalDecision\<close>: the bytes of a verdict with its lists sorted, and their digest; JSON is a parameter.\<close>

definition sorted_verdict :: "verdict \<Rightarrow> verdict" where
  "sorted_verdict v = v\<lparr>vd_Support := sort (vd_Support v), vd_Contradictions := sort (vd_Contradictions v),
     vd_Unavailable := sort (vd_Unavailable v), vd_Rules := sort (vd_Rules v)\<rparr>"

definition CanonicalDecision :: "crypto \<Rightarrow> (verdict \<Rightarrow> string) \<Rightarrow> verdict \<Rightarrow> string \<times> string" where
  "CanonicalDecision cr json v = (let b = json (sorted_verdict v) in (b, hex_encode (sha256 cr b)))"

text \<open>The order of the lists of a verdict does not show in its canonical form.\<close>

lemma CanonicalDecision_order:
  assumes "vd_Category v = vd_Category v'" "vd_Technical v = vd_Technical v'" "vd_Behavior v = vd_Behavior v'"
    and "mset (vd_Support v) = mset (vd_Support v')" "mset (vd_Contradictions v) = mset (vd_Contradictions v')"
    and "mset (vd_Unavailable v) = mset (vd_Unavailable v')" "mset (vd_Rules v) = mset (vd_Rules v')"
  shows "CanonicalDecision cr json v = CanonicalDecision cr json v'"
proof -
  have srt: "sort xs = sort ys" if "mset xs = mset ys" for xs ys :: "string list"
    using that by (intro properties_for_sort) simp_all
  have "sorted_verdict v = sorted_verdict v'"
    using assms(1-3) srt [OF assms(4)] srt [OF assms(5)] srt [OF assms(6)] srt [OF assms(7)]
    by (cases v; cases v') (simp add: sorted_verdict_def)
  then show ?thesis by (simp add: CanonicalDecision_def)
qed

section \<open>Sender ambiguities\<close>

record header =
  h_Name :: string
  h_Raw :: string
  h_Normalized :: string
  h_Position :: int

text \<open>NUL, U+200B and U+202E as they stand in UTF-8.\<close>

definition unsafe_raw :: "string \<Rightarrow> bool" where
  "unsafe_raw s = (CHR 0x00 \<in> set s \<or> Contains s [CHR 0xE2, CHR 0x80, CHR 0x8B] \<or> Contains s [CHR 0xE2, CHR 0x80, CHR 0xAE])"

definition SenderAmbiguities :: "header list \<Rightarrow> contradiction list" where
  "SenderAmbiguities hs =
     (let from = filter (\<lambda>h. EqualFold (h_Name h) ''From'') hs in
      (if length from > 1 then [\<lparr>co_ID = ''multiple-from'', co_EvidenceIDs = [], co_Reason = ''multiple From header fields'', co_Material = True\<rparr>] else []) @
      map (\<lambda>h. \<lparr>co_ID = ''unsafe-from-'' @ show_int (h_Position h), co_EvidenceIDs = [],
          co_Reason = ''control or bidi character in From'', co_Material = True\<rparr>) (filter (\<lambda>h. unsafe_raw (h_Raw h)) from))"

lemma ambiguous_sender_not_verified:
  assumes "length (filter (\<lambda>h. EqualFold (h_Name h) ''From'') hs) > 1 \<or>
     (\<exists>h \<in> set hs. EqualFold (h_Name h) ''From'' \<and> unsafe_raw (h_Raw h))"
  shows "vd_Category (Decide scope es (SenderAmbiguities hs)) \<noteq> Verified"
proof -
  have "SenderAmbiguities hs \<noteq> []"
    using assms by (auto simp: SenderAmbiguities_def Let_def filter_empty_conv)
  moreover have "\<forall>c \<in> set (SenderAmbiguities hs). co_Material c" by (auto simp: SenderAmbiguities_def Let_def)
  ultimately have "list_ex co_Material (SenderAmbiguities hs)" by (cases "SenderAmbiguities hs") auto
  then show ?thesis by (simp add: Decide_fields category_of_def)
qed

section \<open>Forwarding provenance\<close>

record provenance =
  pr_Mode :: string
  pr_Reasons :: "string list"
  pr_Received :: "string list"
  pr_ARCTrusted :: bool
  pr_TrustRuleID :: string

definition ClassifyForwarding :: "string list \<Rightarrow> bool \<Rightarrow> string \<Rightarrow> provenance" where
  "ClassifyForwarding received arcValidated trustRuleID =
     (let p = (\<lambda>mode reason. \<lparr>pr_Mode = mode, pr_Reasons = [reason], pr_Received = received,
            pr_ARCTrusted = (arcValidated \<and> trustRuleID \<noteq> []), pr_TrustRuleID = trustRuleID\<rparr>) in
      if received = [] then p ''unknown'' ''no Received chain retained''
      else if length received = 1 then p ''PMF-like'' ''single observed delivery hop''
      else if arcValidated \<and> trustRuleID \<noteq> [] then p ''MFEF-like'' ''validated ARC with explicit trust rule''
      else if list_ex (\<lambda>hop. Contains (ToLower hop) ''list-id'') received then p ''REM+MOD-like'' ''list rewrite marker observed''
      else p ''REM-like'' ''multiple Received hops without trusted ARC'')"

section \<open>The adapter runner\<close>

record limited_buffer =
  lb_b :: string
  lb_n :: int
  lb_hit :: bool

definition lb_Write :: "string \<Rightarrow> limited_buffer \<Rightarrow> limited_buffer" where
  "lb_Write p b =
     (if int (length (lb_b b) + length p) > lb_n b then
        let remain = lb_n b - int (length (lb_b b)) in
        b\<lparr>lb_b := (if remain > 0 then lb_b b @ take (nat remain) p else lb_b b), lb_hit := True\<rparr>
      else b\<lparr>lb_b := lb_b b @ p\<rparr>)"

lemma lb_Write_take:
  assumes "0 \<le> n" "lb_b b = take (nat n) s" "lb_n b = n" "lb_hit b = (int (length s) > n)"
  shows "lb_b (lb_Write p b) = take (nat n) (s @ p)" "lb_n (lb_Write p b) = n"
    "lb_hit (lb_Write p b) = (int (length (s @ p)) > n)"
  using assms by (auto simp: lb_Write_def Let_def nat_diff_distrib min_def)

lemma lb_writes:
  assumes "0 \<le> n"
  shows "fold lb_Write ps \<lparr>lb_b = [], lb_n = n, lb_hit = False\<rparr> =
     \<lparr>lb_b = take (nat n) (concat ps), lb_n = n, lb_hit = (int (length (concat ps)) > n)\<rparr>"
proof (induction ps rule: rev_induct)
  case (snoc p ps)
  let ?b = "\<lparr>lb_b = take (nat n) (concat ps), lb_n = n, lb_hit = (int (length (concat ps)) > n)\<rparr>"
  have "lb_Write p ?b = \<lparr>lb_b = take (nat n) (concat ps @ p), lb_n = n, lb_hit = (int (length (concat ps @ p)) > n)\<rparr>"
    using lb_Write_take [OF assms, of ?b "concat ps" p] by (cases "lb_Write p ?b") simp
  with snoc show ?case by simp
qed (use assms in simp)

record adapter_command =
  ac_Path :: string
  ac_Args :: "string list"
  ac_Timeout :: int
  ac_StdoutLimit :: int
  ac_StderrLimit :: int

text \<open>What the child process does: the chunks it writes, whether the deadline passed, and how it ended.\<close>

datatype exit_state = ExitOK | ExitCode int | ExitOther string

record child =
  ch_stdout :: "string list"
  ch_stderr :: "string list"
  ch_deadline :: bool
  ch_exit :: exit_state

record command_result =
  rs_Status :: string
  rs_ExitCode :: int
  rs_Stdout :: string
  rs_Stderr :: string
  rs_StdoutDigest :: string
  rs_StderrDigest :: string
  rs_Error :: string

definition Run :: "crypto \<Rightarrow> string set \<Rightarrow> adapter_command \<Rightarrow> child \<Rightarrow> command_result" where
  "Run cr allowed c p =
     (let r = \<lparr>rs_Status = Failed, rs_ExitCode = 0, rs_Stdout = [], rs_Stderr = [], rs_StdoutDigest = [], rs_StderrDigest = [], rs_Error = []\<rparr> in
      if ac_Path c \<notin> allowed \<or> \<not> HasPrefix (ac_Path c) ''/'' then r\<lparr>rs_Error := ''executable is not allowed''\<rparr>
      else if ac_Timeout c \<le> 0 then r\<lparr>rs_Error := ''timeout must be positive''\<rparr>
      else
        let out = fold lb_Write (ch_stdout p) \<lparr>lb_b = [], lb_n = ac_StdoutLimit c, lb_hit = False\<rparr>;
            errb = fold lb_Write (ch_stderr p) \<lparr>lb_b = [], lb_n = ac_StderrLimit c, lb_hit = False\<rparr>;
            r = r\<lparr>rs_Stdout := lb_b out, rs_Stderr := lb_b errb,
                  rs_StdoutDigest := hex_encode (sha256 cr (lb_b out)), rs_StderrDigest := hex_encode (sha256 cr (lb_b errb))\<rparr> in
        if ch_deadline p then r\<lparr>rs_Error := ''adapter timed out''\<rparr>
        else if lb_hit out \<or> lb_hit errb then r\<lparr>rs_Error := ''adapter output limit exceeded''\<rparr>
        else case ch_exit p of
            ExitOK \<Rightarrow> r\<lparr>rs_Status := Observed\<rparr>
          | ExitCode n \<Rightarrow> r\<lparr>rs_ExitCode := n, rs_Error := ''adapter exited '' @ show_int n\<rparr>
          | ExitOther e \<Rightarrow> r\<lparr>rs_Error := ''run adapter: '' @ e\<rparr>)"

text \<open>
  An adapter's output counts only when it is whole. The runner reports a result as observed exactly
  when the executable is on the allow list, the process ended normally before its deadline, and
  both streams stayed within their limits; then the bytes kept are all the bytes written. In every
  case no more bytes are kept than the limits allow.
\<close>

theorem Run_bounded:
  assumes "0 \<le> ac_StdoutLimit c" "0 \<le> ac_StderrLimit c"
  shows "(rs_Status (Run cr allowed c p) = Observed \<longleftrightarrow>
      ac_Path c \<in> allowed \<and> HasPrefix (ac_Path c) ''/'' \<and> ac_Timeout c > 0 \<and> \<not> ch_deadline p \<and> ch_exit p = ExitOK \<and>
      int (length (concat (ch_stdout p))) \<le> ac_StdoutLimit c \<and> int (length (concat (ch_stderr p))) \<le> ac_StderrLimit c) \<and>
    (rs_Status (Run cr allowed c p) = Observed \<longrightarrow>
      rs_Stdout (Run cr allowed c p) = concat (ch_stdout p) \<and> rs_Stderr (Run cr allowed c p) = concat (ch_stderr p)) \<and>
    int (length (rs_Stdout (Run cr allowed c p))) \<le> ac_StdoutLimit c \<and> int (length (rs_Stderr (Run cr allowed c p))) \<le> ac_StderrLimit c"
  using assms by (auto simp: Run_def Let_def lb_writes split: exit_state.splits)

theorem Run_bounded_witness:
  "\<exists>c p. rs_Status (Run \<lparr>sha256 = (\<lambda>s. s), hmac = (\<lambda>k s. s)\<rparr> {''/bin/x''} c p) = Observed \<and>
     rs_Stdout (Run \<lparr>sha256 = (\<lambda>s. s), hmac = (\<lambda>k s. s)\<rparr> {''/bin/x''} c p) = ''ab''"
proof -
  let ?c = "\<lparr>ac_Path = ''/bin/x'', ac_Args = [], ac_Timeout = 1, ac_StdoutLimit = 2, ac_StderrLimit = 0\<rparr>"
    and ?p = "\<lparr>ch_stdout = [''a'', ''b''], ch_stderr = [], ch_deadline = False, ch_exit = ExitOK\<rparr>"
  from Run_bounded [of ?c "\<lparr>sha256 = (\<lambda>s. s), hmac = (\<lambda>k s. s)\<rparr>" "{''/bin/x''}" ?p] show ?thesis
    by (intro exI [of _ ?c] exI [of _ ?p]) (simp add: HasPrefix_def)
qed

section \<open>Publication of an analysis\<close>

text \<open>The JSON texts of the evidence and of the verdict are parameters.\<close>

definition PublishAnalysis :: "string \<Rightarrow> string \<Rightarrow> string \<Rightarrow> string \<Rightarrow> files \<Rightarrow> files res \<times> files" where
  "PublishAnalysis root runID evidence_json verdict_json fs =
     (let dir = path_Join [root, ''runs'', runID, ''analysis''] in
      case publish dir ''evidence.json'' evidence_json fs of
        Inl e \<Rightarrow> (Inl e, fs)
      | Inr fs1 \<Rightarrow> (case publish dir ''verdict.json'' verdict_json fs1 of Inl e \<Rightarrow> (Inl e, fs1) | Inr fs2 \<Rightarrow> (Inr fs2, fs2)))"

end
