(* ===== verification/Report.thy ===== *)
theory Report
  imports Evidence Calendar
begin

text \<open>
  \<open>internal/report\<close>: the campaign evidence sealed in a report (\<open>campaign_evidence.go\<close>), the text
  report (\<open>render.go\<close>), and the signed manifest and its verification (\<open>signing.go\<close>). The reply mail and the
  key files are in theory \<open>Delivery\<close>. Ed25519, the DER encoding of keys and \<open>html/template\<close> are parameters; so are the texts \<open>encoding/json\<close> produces for a manifest and a document, and
  their decoding.
\<close>

section \<open>Campaign evidence\<close>

definition CampaignEvidenceSchema :: string where
  "CampaignEvidenceSchema = ''mailproof.campaign-evidence/v1''"

record campaign_evidence =
  ce_Schema :: string
  ce_NormalizationVersion :: string
  ce_PolicyVersion :: string
  ce_KeyID :: string
  ce_SourceArtifactDigest :: string
  ce_Indicators :: "(string \<times> string) list"
  ce_Availability :: "(string \<times> string) list"
  ce_Truncation :: "(string \<times> int) list"

definition hexDigest :: "string \<Rightarrow> bool" where
  "hexDigest v = (length v = 64 \<and> hex_decode v \<noteq> None)"

definition safeValue :: "string \<Rightarrow> bool" where
  "safeValue v = (length v > 0 \<and> length v \<le> 255 \<and>
     \<not> ContainsAny v ([CHR 0x00, CHR 0x0D, CHR 0x0A, CHR 0x09] @ '' ?@#'') \<and> \<not> Contains v ''://'')"

definition safeToken :: "string \<Rightarrow> bool" where
  "safeToken v = (length v > 0 \<and> length v \<le> 64 \<and> \<not> ContainsAny v ([CHR 0x00, CHR 0x0D, CHR 0x0A, CHR 0x09] @ '' ''))"

definition indicator_types :: "string list" where
  "indicator_types = [''risky_landing_domain'', ''redirect_domain'', ''selected_from_domain'', ''dkim_domain'',
     ''attachment_sha256'', ''attachment_mime'', ''filename_extension'', ''subject_fingerprint'',
     ''impersonated_organization'', ''network_asn'', ''reply_domain_mismatch'']"

fun valid_indicators :: "string \<Rightarrow> (string \<times> string) list \<Rightarrow> unit res" where
  "valid_indicators kid [] = Inr ()"
| "valid_indicators kid ((t, v) # is) =
     (if t \<notin> set indicator_types \<or> \<not> safeValue v then Inl (Err ''invalid campaign indicator'')
      else if t = ''subject_fingerprint'' \<and> (\<not> hexDigest v \<or> kid = []) then Inl (Err ''invalid subject fingerprint'')
      else valid_indicators kid is)"

definition ce_Validate :: "campaign_evidence \<Rightarrow> unit res" where
  "ce_Validate v =
     (if ce_Schema v \<noteq> CampaignEvidenceSchema \<or> ce_NormalizationVersion v = [] \<or> ce_PolicyVersion v = [] \<or>
         \<not> hexDigest (ce_SourceArtifactDigest v) then Inl (Err ''invalid campaign evidence envelope'')
      else if length (ce_Indicators v) > 160 \<or> length (ce_Availability v) > 16 \<or> length (ce_Truncation v) > 16
        then Inl (Err ''campaign evidence exceeds bounds'')
      else bind_res (valid_indicators (ce_KeyID v) (ce_Indicators v)) (\<lambda>_.
        if list_ex (\<lambda>(t, r). t \<notin> set indicator_types \<or> \<not> safeToken r) (ce_Availability v) then Inl (Err ''invalid campaign availability'')
        else if list_ex (\<lambda>(t, d). t \<notin> set indicator_types \<or> d < 0) (ce_Truncation v) then Inl (Err ''invalid campaign truncation'')
        else Inr ()))"

section \<open>The text report\<close>

text \<open>\<open>utf8.DecodeRune\<close>: a code point and its width; an invalid byte is U+FFFD of width 1.\<close>

definition cont :: "char \<Rightarrow> nat \<Rightarrow> nat \<Rightarrow> bool" where
  "cont c lo hi = (lo \<le> of_char c \<and> of_char c \<le> hi)"

fun decode_rune :: "string \<Rightarrow> nat \<times> nat" where
  "decode_rune [] = (65533, 0)"
| "decode_rune (a # s) =
     (let x = (of_char a :: nat); bad = (65533, 1) in
      if x < 128 then (x, 1)
      else if 194 \<le> x \<and> x \<le> 223 then
        (case s of b # _ \<Rightarrow> if cont b 128 191 then ((x - 192) * 64 + (of_char b - 128), 2) else bad | _ \<Rightarrow> bad)
      else if 224 \<le> x \<and> x \<le> 239 then
        (case s of b # c # _ \<Rightarrow>
           if cont b (if x = 224 then 160 else 128) (if x = 237 then 159 else 191) \<and> cont c 128 191
           then ((x - 224) * 4096 + (of_char b - 128) * 64 + (of_char c - 128), 3) else bad
         | _ \<Rightarrow> bad)
      else if 240 \<le> x \<and> x \<le> 244 then
        (case s of b # c # d # _ \<Rightarrow>
           if cont b (if x = 240 then 144 else 128) (if x = 244 then 143 else 191) \<and> cont c 128 191 \<and> cont d 128 191
           then ((x - 240) * 262144 + (of_char b - 128) * 4096 + (of_char c - 128) * 64 + (of_char d - 128), 4) else bad
         | _ \<Rightarrow> bad)
      else bad)"

lemma decode_rune_width: "s \<noteq> [] \<Longrightarrow> 0 < snd (decode_rune s)"
  by (cases s) (auto simp: Let_def split: list.splits)

function (sequential) runes :: "string \<Rightarrow> nat list" where
  "runes [] = []"
| "runes s = fst (decode_rune s) # runes (drop (snd (decode_rune s)) s)"
  by pat_completeness auto
termination
  by (relation "measure length") (auto simp del: decode_rune.simps simp: decode_rune_width)

definition encode_rune :: "nat \<Rightarrow> string" where
  "encode_rune r =
     (if r < 128 then [char_of r]
      else if r < 2048 then [char_of (192 + r div 64), char_of (128 + r mod 64)]
      else if r < 65536 then [char_of (224 + r div 4096), char_of (128 + r div 64 mod 64), char_of (128 + r mod 64)]
      else [char_of (240 + r div 262144), char_of (128 + r div 4096 mod 64), char_of (128 + r div 64 mod 64), char_of (128 + r mod 64)])"

definition visible :: "nat \<Rightarrow> nat" where
  "visible r = (if r < 32 \<or> r = 127 \<or> (8234 \<le> r \<and> r \<le> 8238) \<or> (8294 \<le> r \<and> r \<le> 8297) then 65533 else r)"

definition safe :: "string \<Rightarrow> string" where
  "safe value =
     (let v = concat (map (\<lambda>r. encode_rune (visible r)) (runes value)) in
      if length v > 4096 then take 4096 v @ [CHR 0xE2, CHR 0x80, CHR 0xA6] @ ''[truncated]'' else v)"

definition printable :: "char \<Rightarrow> bool" where
  "printable c = (32 \<le> (of_char c :: nat) \<and> of_char c \<noteq> (127 :: nat))"

lemma cont_bound: "(of_char c :: nat) - 128 \<le> 127"
  using of_char_less_256 [of c] by linarith

lemma rune_bounds:
  "(x :: nat) \<le> 223 \<Longrightarrow> (x - 192) * 64 + (of_char b - 128) \<le> 1577023"
  "(x :: nat) \<le> 239 \<Longrightarrow> (x - 224) * 4096 + (of_char b - 128) * 64 + (of_char c - 128) \<le> 1577023"
  "(x :: nat) \<le> 244 \<Longrightarrow> (x - 240) * 262144 + (of_char b - 128) * 4096 + (of_char c - 128) * 64 + (of_char d - 128) \<le> 1577023"
  using cont_bound [of b] cont_bound [of c] cont_bound [of d] by linarith+

lemma fst_if_le: "(P \<Longrightarrow> fst A \<le> n) \<Longrightarrow> (\<not> P \<Longrightarrow> fst B \<le> n) \<Longrightarrow> fst (if P then A else B) \<le> n"
  by simp

lemma fst_case_le: "fst A \<le> n \<Longrightarrow> (\<And>x xs. fst (f x xs) \<le> n) \<Longrightarrow> fst (case ys of [] \<Rightarrow> A | x # xs \<Rightarrow> f x xs) \<le> n"
  by (cases ys) simp_all

lemma decode_rune_bound: "fst (decode_rune s) \<le> 1577023"
proof (cases s)
  case (Cons a t)
  show ?thesis
    unfolding Cons decode_rune.simps Let_def
    by (intro fst_if_le fst_case_le) (simp_all add: rune_bounds)
qed simp

lemma runes_bound: "r \<in> set (runes s) \<Longrightarrow> r \<le> 1577023"
  by (induction s rule: runes.induct) (use decode_rune_bound in \<open>auto simp del: decode_rune.simps\<close>)

lemma printable_char_of: "32 \<le> n \<Longrightarrow> n \<noteq> 127 \<Longrightarrow> n < 256 \<Longrightarrow> printable (char_of (n :: nat))"
  by (simp add: printable_def)

lemma encode_printable:
  assumes "r \<le> 1577023" "c \<in> set (encode_rune (visible r))"
  shows "printable c"
proof -
  define v where "v = visible r"
  have v: "32 \<le> v" "v \<noteq> 127" "v \<le> 1577023" using assms(1) by (auto simp: v_def visible_def)
  have d: "v < 2048 \<Longrightarrow> v div 64 < 32" "v < 65536 \<Longrightarrow> v div 4096 < 16" "v div 262144 < 7"
    using v(3) by (simp_all add: less_mult_imp_div_less)
  have m: "x mod 64 < (64 :: nat)" for x by simp
  from assms(2) consider "c = char_of v" "v < 128" | "c = char_of (192 + v div 64)" "v < 2048" | "c = char_of (224 + v div 4096)" "v < 65536"
    | "c = char_of (240 + v div 262144)" | x :: nat where "c = char_of (128 + x mod 64)"
    unfolding v_def [symmetric] encode_rune_def by (auto split: if_splits)
  then show ?thesis
  proof cases
    case 5
    with m [of x] show ?thesis by (simp add: printable_char_of)
  qed (use v d in \<open>auto intro!: printable_char_of\<close>)
qed

lemma safe_printable: "c \<in> set (safe value) \<Longrightarrow> printable c"
proof -
  let ?v = "concat (map (\<lambda>r. encode_rune (visible r)) (runes value))"
  have v: "\<forall>c \<in> set ?v. printable c" using encode_printable runes_bound by auto
  have t: "\<forall>c \<in> set ([CHR 0xE2, CHR 0x80, CHR 0xA6] @ ''[truncated]''). printable c" by (simp add: printable_def)
  assume "c \<in> set (safe value)"
  then have "c \<in> set ?v \<or> c \<in> set ([CHR 0xE2, CHR 0x80, CHR 0xA6] @ ''[truncated]'')"
    by (auto simp: safe_def Let_def split: if_splits dest: in_set_takeD)
  then show ?thesis using v t by blast
qed

record timeline_event =
  te_Kind :: string
  te_Claim :: string
  te_EvidenceID :: string

record report_input =
  in_RunID :: string
  in_DeliveryID :: string
  in_DeliveredOriginalDigest :: string
  in_SelectedSubjectDigest :: string
  in_AuthContextScope :: string
  in_Verdict :: verdict
  in_PolicyVersion :: string
  in_ToolVersions :: "string list"
  in_MissingAnalyzers :: "string list"
  in_Timeline :: "timeline_event list"
  in_CampaignEvidence :: "campaign_evidence option"

record document =
  doc_Schema :: string
  doc_Input :: report_input
  doc_SafeNextActions :: "string list"

definition report_Schema :: string where "report_Schema = ''mailproof.report/v1''"

definition nextActions :: "string \<Rightarrow> string list" where
  "nextActions category = [''retain this report and its manifest'', ''verify through an independently obtained contact channel''] @
     (if category = KnownMalicious \<or> category = Suspicious \<or> category = AuthenticatedButSuspicious
      then [''do not open links or attachments from the submitted message''] else [])"

definition LF :: char where "LF = CHR 0x0A"

definition writeList :: "string \<Rightarrow> string list \<Rightarrow> string" where
  "writeList heading items = heading @ '':'' @ [LF] @
     (if items = [] then ''- none recorded'' @ [LF] else concat (map (\<lambda>i. ''- '' @ safe i @ [LF]) items))"

definition renderText :: "document \<Rightarrow> string" where
  "renderText doc = (let d = doc_Input doc in
     ''Mailproof evidence report'' @ [LF] @ ''Run: '' @ safe (in_RunID d) @ [LF] @ ''Delivery: '' @ safe (in_DeliveryID d) @ [LF] @
     ''Verdict: '' @ vd_Category (in_Verdict d) @ [LF] @
     ''Delivered original digest: '' @ safe (in_DeliveredOriginalDigest d) @ [LF] @
     ''Selected subject digest: '' @ safe (in_SelectedSubjectDigest d) @ [LF] @
     ''Authentication context: '' @ in_AuthContextScope d @ [LF] @
     (if in_AuthContextScope d = Detached
      then ''Authentication for the outer submission does not authenticate this detached subject.'' @ [LF] else []) @
     writeList ''Decisive support'' (vd_Support (in_Verdict d)) @
     writeList ''Contradictions'' (vd_Contradictions (in_Verdict d)) @
     writeList ''Missing or failed analyzers'' (in_MissingAnalyzers d @ vd_Unavailable (in_Verdict d)) @
     ''Custody timeline:'' @ [LF] @
     concat (map (\<lambda>e. ''- '' @ safe (te_Kind e) @ '': '' @ safe (te_Claim e) @ '' ['' @ safe (te_EvidenceID e) @ '']'' @ [LF]) (in_Timeline d)) @
     writeList ''Safe next actions'' (doc_SafeNextActions doc))"

definition list_lines :: "string \<Rightarrow> string list \<Rightarrow> string list" where
  "list_lines heading items = (heading @ '':'') # (if items = [] then [''- none recorded''] else map (\<lambda>i. ''- '' @ safe i) items)"

definition report_lines :: "document \<Rightarrow> string list" where
  "report_lines doc = (let d = doc_Input doc in
     [''Mailproof evidence report'', ''Run: '' @ safe (in_RunID d), ''Delivery: '' @ safe (in_DeliveryID d),
      ''Verdict: '' @ vd_Category (in_Verdict d), ''Delivered original digest: '' @ safe (in_DeliveredOriginalDigest d),
      ''Selected subject digest: '' @ safe (in_SelectedSubjectDigest d), ''Authentication context: '' @ in_AuthContextScope d] @
     (if in_AuthContextScope d = Detached
      then [''Authentication for the outer submission does not authenticate this detached subject.''] else []) @
     list_lines ''Decisive support'' (vd_Support (in_Verdict d)) @
     list_lines ''Contradictions'' (vd_Contradictions (in_Verdict d)) @
     list_lines ''Missing or failed analyzers'' (in_MissingAnalyzers d @ vd_Unavailable (in_Verdict d)) @
     [''Custody timeline:''] @
     map (\<lambda>e. ''- '' @ safe (te_Kind e) @ '': '' @ safe (te_Claim e) @ '' ['' @ safe (te_EvidenceID e) @ '']'') (in_Timeline d) @
     list_lines ''Safe next actions'' (doc_SafeNextActions doc))"

lemma renderText_concat: "renderText doc = concat (map (\<lambda>l. l @ [LF]) (report_lines doc))"
  by (simp add: renderText_def report_lines_def Let_def writeList_def list_lines_def comp_def)

lemma Split_lines: "\<forall>l \<in> set ls. c \<notin> set l \<Longrightarrow> Split c (concat (map (\<lambda>l. l @ [c]) ls)) = ls @ [[]]"
  by (induction ls) (simp_all add: Split_append Split_no_sep)

lemma safe_no_LF [simp]: "CHR 0x0A \<notin> set (safe v)"
  using safe_printable [of "CHR 0x0A" v] by (auto simp: printable_def)

lemma list_lines_no_LF: "CHR 0x0A \<notin> set h \<Longrightarrow> l \<in> set (list_lines h is) \<Longrightarrow> CHR 0x0A \<notin> set l"
  by (auto simp: list_lines_def split: if_splits)

text \<open>
  Message content cannot forge lines of the text report. Whatever the identifiers, claims and
  analyzer names hold (newlines, control characters, invalid UTF-8, texts of any length), the
  report consists of exactly the lines the template prescribes, provided the verdict category and
  the authentication context hold no newline; and no byte of a rendered value is a control
  character.
\<close>

theorem renderText_lines:
  assumes "LF \<notin> set (vd_Category (in_Verdict (doc_Input doc)))" "LF \<notin> set (in_AuthContextScope (doc_Input doc))"
  shows "Split LF (renderText doc) = report_lines doc @ [[]] \<and> (\<forall>v. \<forall>c \<in> set (safe v). printable c)"
proof -
  let ?d = "doc_Input doc"
  have head: "\<forall>l \<in> set [''Mailproof evidence report'', ''Run: '' @ safe (in_RunID ?d), ''Delivery: '' @ safe (in_DeliveryID ?d),
      ''Verdict: '' @ vd_Category (in_Verdict ?d), ''Delivered original digest: '' @ safe (in_DeliveredOriginalDigest ?d),
      ''Selected subject digest: '' @ safe (in_SelectedSubjectDigest ?d), ''Authentication context: '' @ in_AuthContextScope ?d]. LF \<notin> set l"
    using assms by (simp add: LF_def)
  have items: "LF \<notin> set l" if "l \<in> set (list_lines h is)" "LF \<notin> set h" for h l "is"
    using list_lines_no_LF that by (simp add: LF_def)
  have heads: "LF \<notin> set ''Decisive support''" "LF \<notin> set ''Contradictions''" "LF \<notin> set ''Missing or failed analyzers''"
    "LF \<notin> set ''Safe next actions''" "LF \<notin> set ''Custody timeline:''"
    by (simp_all add: LF_def)
  have tl: "LF \<notin> set (''- '' @ safe a @ '': '' @ safe b @ '' ['' @ safe c @ '']'')" for a b c by (simp add: LF_def)
  have "\<forall>l \<in> set (report_lines doc). LF \<notin> set l"
    unfolding report_lines_def Let_def set_append ball_Un
  proof (intro conjI)
    show "\<forall>l \<in> set (if in_AuthContextScope ?d = Detached
        then [''Authentication for the outer submission does not authenticate this detached subject.''] else []). LF \<notin> set l"
      by (simp add: LF_def)
    show "\<forall>l \<in> set (map (\<lambda>e. ''- '' @ safe (te_Kind e) @ '': '' @ safe (te_Claim e) @ '' ['' @ safe (te_EvidenceID e) @ '']'') (in_Timeline ?d)). LF \<notin> set l"
      unfolding set_map using tl by blast
    show "\<forall>l \<in> set [''Custody timeline:'']. LF \<notin> set l" by (simp add: LF_def)
  qed (rule head, (rule ballI, erule items, rule heads)+)
  then show ?thesis using Split_lines safe_printable by (simp add: renderText_concat)
qed

section \<open>The signed bundle\<close>

record manifest =
  mf_Schema :: string
  mf_DeliveryID :: string
  mf_SelectedSubjectDigest :: string
  mf_DeliveredOriginal :: string
  mf_Ingress :: string
  mf_Subjects :: string
  mf_Evidence :: string
  mf_Verdict :: string
  mf_ReportJSON :: string
  mf_ReportText :: string
  mf_ReportHTML :: string
  mf_Policy :: string
  mf_Config :: string
  mf_AdapterResponses :: string
  mf_IssuedAt :: time
  mf_KeyID :: string

definition ManifestSchema :: string where "ManifestSchema = ''mailproof.manifest/v1''"

text \<open>The code outside the repository that the package calls.\<close>

record bundle_env =
  manifest_json :: "manifest \<Rightarrow> string"
  manifest_of :: "string \<Rightarrow> manifest option"
  document_json :: "document \<Rightarrow> string"
  document_of :: "string \<Rightarrow> document option"
  renderHTML :: "document \<Rightarrow> string res"
  ed_sign :: "string \<Rightarrow> string \<Rightarrow> string"
  ed_verify :: "string \<Rightarrow> string \<Rightarrow> string \<Rightarrow> bool"
  ed_public :: "string \<Rightarrow> string"
  key_der :: "string \<Rightarrow> string"

definition Bytes :: "bundle_env \<Rightarrow> manifest \<Rightarrow> string res" where
  "Bytes env m =
     (if mf_Schema m \<noteq> ManifestSchema \<or> mf_DeliveryID m = [] \<or> mf_KeyID m = [] \<or> mf_IssuedAt m = zero_time
      then Inl (Err ''manifest has missing or unsupported required fields'')
      else Inr (manifest_json env m @ [LF]))"

definition KeyID :: "crypto \<Rightarrow> bundle_env \<Rightarrow> string \<Rightarrow> string" where
  "KeyID cr env public = hex_encode (sha256 cr (key_der env public))"

definition Sign :: "crypto \<Rightarrow> bundle_env \<Rightarrow> manifest \<Rightarrow> string \<Rightarrow> (string \<times> string) res" where
  "Sign cr env m private =
     (if length private \<noteq> 64 then Inl (Err ''invalid Ed25519 private key'')
      else bind_res (Bytes env (m\<lparr>mf_KeyID := KeyID cr env (ed_public env private)\<rparr>)) (\<lambda>bytes.
        Inr (bytes, ed_sign env private bytes)))"

record verification =
  vf_Valid :: bool
  vf_Trusted :: bool
  vf_KeyID :: string
  vf_Error :: string

definition invalid :: "string \<Rightarrow> string \<Rightarrow> verification" where
  "invalid kid e = \<lparr>vf_Valid = False, vf_Trusted = False, vf_KeyID = kid, vf_Error = e\<rparr>"

fun try_keys :: "crypto \<Rightarrow> bundle_env \<Rightarrow> string \<Rightarrow> string \<Rightarrow> string \<Rightarrow> string list \<Rightarrow> verification" where
  "try_keys cr env bytes signature kid [] = invalid kid ''untrusted signing key''"
| "try_keys cr env bytes signature kid (key # keys) =
     (if KeyID cr env key \<noteq> kid then try_keys cr env bytes signature kid keys
      else if ed_verify env key bytes signature then \<lparr>vf_Valid = True, vf_Trusted = True, vf_KeyID = kid, vf_Error = []\<rparr>
      else \<lparr>vf_Valid = False, vf_Trusted = True, vf_KeyID = kid, vf_Error = ''invalid signature''\<rparr>)"

definition Verify :: "crypto \<Rightarrow> bundle_env \<Rightarrow> string \<Rightarrow> string \<Rightarrow> string list \<Rightarrow> verification" where
  "Verify cr env bytes signature trusted = (case manifest_of env bytes of
       None \<Rightarrow> invalid [] ''invalid manifest JSON''
     | Some m \<Rightarrow> (case Bytes env m of
         Inl (Err e) \<Rightarrow> invalid (mf_KeyID m) e
       | Inl _ \<Rightarrow> invalid (mf_KeyID m) []
       | Inr _ \<Rightarrow> try_keys cr env bytes signature (mf_KeyID m) trusted))"

definition bound_ok :: "crypto \<Rightarrow> string \<Rightarrow> files \<Rightarrow> string \<times> string \<Rightarrow> bool" where
  "bound_ok cr dir fs = (\<lambda>(name, want). want = [] \<or>
     (case fs (path_Join [dir, name]) of None \<Rightarrow> False | Some contents \<Rightarrow> hex_encode (sha256 cr contents) = want))"

definition VerifyBundle :: "crypto \<Rightarrow> bundle_env \<Rightarrow> string \<Rightarrow> string list \<Rightarrow> files \<Rightarrow> verification" where
  "VerifyBundle cr env dir trusted fs =
     (case fs (path_Join [dir, ''manifest.json'']) of None \<Rightarrow> invalid [] ''incomplete bundle''
      | Some bytes \<Rightarrow> (case fs (path_Join [dir, ''manifest.sig'']) of None \<Rightarrow> invalid [] ''incomplete bundle''
      | Some signature \<Rightarrow>
          let result = Verify cr env bytes signature trusted in
          if \<not> vf_Valid result then result
          else (case manifest_of env bytes of None \<Rightarrow> invalid (vf_KeyID result) ''invalid manifest JSON''
            | Some m \<Rightarrow>
                if list_all (bound_ok cr dir fs) [(''report.json'', mf_ReportJSON m), (''report.txt'', mf_ReportText m), (''report.html'', mf_ReportHTML m)]
                then result
                else \<lparr>vf_Valid = False, vf_Trusted = vf_Trusted result, vf_KeyID = vf_KeyID result,
                      vf_Error = ''bound artifact is missing or altered''\<rparr>)))"

definition report_dir :: "string \<Rightarrow> string \<Rightarrow> string" where
  "report_dir root runID = path_Join [root, ''runs'', runID, ''report'']"

definition SignAndPublish :: "crypto \<Rightarrow> bundle_env \<Rightarrow> string \<Rightarrow> string \<Rightarrow> manifest \<Rightarrow> string \<Rightarrow> files \<Rightarrow> unit res \<times> files" where
  "SignAndPublish cr env root runID m private fs =
     (case Sign cr env m private of Inl e \<Rightarrow> (Inl e, fs)
      | Inr (bytes, signature) \<Rightarrow>
          (case publish (report_dir root runID) ''manifest.json'' bytes fs of Inl e \<Rightarrow> (Inl e, fs)
           | Inr fs1 \<Rightarrow> (case publish (report_dir root runID) ''manifest.sig'' signature fs1 of
               Inl e \<Rightarrow> (Inl e, fs1) | Inr fs2 \<Rightarrow> (Inr (), fs2))))"

section \<open>Rendering and publication\<close>

record documents =
  dc_json :: string
  dc_text :: string
  dc_html :: string

definition Render :: "bundle_env \<Rightarrow> report_input \<Rightarrow> documents res" where
  "Render env d =
     (if in_RunID d = [] \<or> in_DeliveryID d = [] \<or> in_DeliveredOriginalDigest d = []
      then Inl (Err ''report requires run, delivery, and delivered-original identifiers'')
      else if in_AuthContextScope d \<noteq> LocalIngress \<and> in_AuthContextScope d \<noteq> Detached then Inl (Err ''invalid authentication context scope'')
      else bind_res (case in_CampaignEvidence d of None \<Rightarrow> Inr () | Some e \<Rightarrow> ce_Validate e) (\<lambda>_.
        let doc = \<lparr>doc_Schema = report_Schema, doc_Input = d, doc_SafeNextActions = nextActions (vd_Category (in_Verdict d))\<rparr> in
        bind_res (renderHTML env doc) (\<lambda>html.
        Inr \<lparr>dc_json = document_json env doc @ [LF], dc_text = renderText doc, dc_html = html\<rparr>)))"

fun publish_all :: "string \<Rightarrow> (string \<times> string) list \<Rightarrow> files \<Rightarrow> unit res \<times> files" where
  "publish_all dir [] fs = (Inr (), fs)"
| "publish_all dir ((name, contents) # ps) fs = (case publish dir name contents fs of
     Inl e \<Rightarrow> (Inl e, fs) | Inr fs' \<Rightarrow> publish_all dir ps fs')"

definition Publish :: "bundle_env \<Rightarrow> string \<Rightarrow> report_input \<Rightarrow> files \<Rightarrow> documents res \<times> files" where
  "Publish env root d fs = (case Render env d of Inl e \<Rightarrow> (Inl e, fs)
     | Inr docs \<Rightarrow> (case publish_all (report_dir root (in_RunID d))
           [(''report.json'', dc_json docs), (''report.txt'', dc_text docs), (''report.html'', dc_html docs)] fs of
         (Inl e, fs') \<Rightarrow> (Inl e, fs') | (Inr _, fs') \<Rightarrow> (Inr docs, fs')))"

section \<open>What verification shows\<close>

definition digest_of :: "crypto \<Rightarrow> string \<Rightarrow> string" where
  "digest_of cr contents = hex_encode (sha256 cr contents)"

lemma hex_encode_empty: "hex_encode s = [] \<longleftrightarrow> s = []"
  by (cases s) auto

lemma try_keys_valid:
  "vf_Valid (try_keys cr env bytes sig kid keys) \<Longrightarrow> \<exists>key \<in> set keys. KeyID cr env key = kid \<and> ed_verify env key bytes sig"
  by (induction cr env bytes sig kid keys rule: try_keys.induct) (auto simp: invalid_def split: if_splits)

lemma Verify_valid:
  assumes "vf_Valid (Verify cr env bytes sig trusted)"
  obtains m key where "manifest_of env bytes = Some m" "key \<in> set trusted" "KeyID cr env key = mf_KeyID m" "ed_verify env key bytes sig"
  using assms try_keys_valid by (fastforce simp: Verify_def invalid_def split: option.splits sum.splits err.splits)

lemma VerifyBundle_valid:
  assumes "vf_Valid (VerifyBundle cr env dir trusted fs)"
  obtains bytes sig m key where "fs (path_Join [dir, ''manifest.json'']) = Some bytes" "fs (path_Join [dir, ''manifest.sig'']) = Some sig"
    "manifest_of env bytes = Some m" "key \<in> set trusted" "KeyID cr env key = mf_KeyID m" "ed_verify env key bytes sig"
    "list_all (bound_ok cr dir fs) [(''report.json'', mf_ReportJSON m), (''report.txt'', mf_ReportText m), (''report.html'', mf_ReportHTML m)]"
proof -
  obtain bytes sig where b: "fs (path_Join [dir, ''manifest.json'']) = Some bytes" "fs (path_Join [dir, ''manifest.sig'']) = Some sig"
    using assms by (auto simp: VerifyBundle_def invalid_def split: option.splits)
  from assms have v: "vf_Valid (Verify cr env bytes sig trusted)"
    by (auto simp: VerifyBundle_def b Let_def split: if_splits)
  then obtain m key where m: "manifest_of env bytes = Some m" "key \<in> set trusted" "KeyID cr env key = mf_KeyID m" "ed_verify env key bytes sig"
    by (rule Verify_valid)
  from assms v m(1) have "list_all (bound_ok cr dir fs) [(''report.json'', mf_ReportJSON m), (''report.txt'', mf_ReportText m), (''report.html'', mf_ReportHTML m)]"
    by (simp only: VerifyBundle_def b Let_def option.case simp_thms if_False split: if_splits) simp_all
  with b m that show thesis by blast
qed

lemma report_dir_nonempty [simp]: "report_dir root runID \<noteq> []"
  by (simp add: report_dir_def path_Join_def Clean_def Let_def)

lemma plain_names [simp]: "plain ''report.json''" "plain ''report.txt''" "plain ''report.html''" "plain ''manifest.json''" "plain ''manifest.sig''"
  by (simp_all add: plain_def)

lemma report_path_eq:
  "plain m \<Longrightarrow> plain n \<Longrightarrow> path_Join [report_dir root runID, m] = path_Join [report_dir root runID, n] \<longleftrightarrow> m = n"
  using path_Join_inj [of m n "report_dir root runID"] by auto

lemma Publish_files:
  assumes "Publish env root d fs = (Inr docs, fs')"
  shows "fs' (path_Join [report_dir root (in_RunID d), ''report.json'']) = Some (dc_json docs)"
    "fs' (path_Join [report_dir root (in_RunID d), ''report.txt'']) = Some (dc_text docs)"
    "fs' (path_Join [report_dir root (in_RunID d), ''report.html'']) = Some (dc_html docs)"
  using assms by (auto simp: Publish_def publish_Inr report_path_eq split: sum.splits prod.splits)

lemma SignAndPublish_files:
  assumes "SignAndPublish cr env root runID m private fs = (Inr (), fs')"
  defines "m' \<equiv> m\<lparr>mf_KeyID := KeyID cr env (ed_public env private)\<rparr>"
  defines "bytes \<equiv> manifest_json env m' @ [LF]"
  shows "Bytes env m' = Inr bytes"
    "fs' (path_Join [report_dir root runID, ''manifest.json'']) = Some bytes"
    "fs' (path_Join [report_dir root runID, ''manifest.sig'']) = Some (ed_sign env private bytes)"
    "\<And>n. plain n \<Longrightarrow> n \<noteq> ''manifest.json'' \<Longrightarrow> n \<noteq> ''manifest.sig'' \<Longrightarrow>
       fs' (path_Join [report_dir root runID, n]) = fs (path_Join [report_dir root runID, n])"
  using assms(1) unfolding SignAndPublish_def Sign_def m'_def [symmetric]
  by (auto simp: bind_res_def Bytes_def bytes_def publish_Inr report_path_eq split: sum.splits if_splits)

text \<open>
  C37: A published bundle verifies and cannot be altered. When a report is rendered, published and signed
  with a manifest that binds the digests of its three documents, \<open>VerifyBundle\<close> accepts the bundle
  under the public half of the signing key; and after any of the three documents is replaced by a
  text with another SHA-256, it no longer does. The hypotheses on the code outside the
  repository are that decoding the manifest's JSON gives the manifest back and that an Ed25519
  signature made with a key verifies under its public half.
\<close>

theorem published_bundle_verifies:
  assumes pub: "Publish env root d fs = (Inr docs, fs1)"
    and sign: "SignAndPublish cr env root (in_RunID d) m private fs1 = (Inr (), fs2)"
    and binds: "mf_ReportJSON m = digest_of cr (dc_json docs)" "mf_ReportText m = digest_of cr (dc_text docs)"
      "mf_ReportHTML m = digest_of cr (dc_html docs)"
    and json: "manifest_of env (manifest_json env (m\<lparr>mf_KeyID := KeyID cr env (ed_public env private)\<rparr>) @ [LF]) =
       Some (m\<lparr>mf_KeyID := KeyID cr env (ed_public env private)\<rparr>)"
    and ed: "\<forall>k b. ed_verify env (ed_public env k) b (ed_sign env k b)"
    and sha: "\<forall>b. sha256 cr b \<noteq> []"
  shows "VerifyBundle cr env (report_dir root (in_RunID d)) [ed_public env private] fs2 =
      \<lparr>vf_Valid = True, vf_Trusted = True, vf_KeyID = KeyID cr env (ed_public env private), vf_Error = []\<rparr> \<and>
    (\<forall>n c. (n, c) \<in> {(''report.json'', dc_json docs), (''report.txt'', dc_text docs), (''report.html'', dc_html docs)} \<longrightarrow>
      (\<forall>c'. sha256 cr c' \<noteq> sha256 cr c \<longrightarrow> \<not> vf_Valid (VerifyBundle cr env (report_dir root (in_RunID d)) [ed_public env private]
         (fs2(path_Join [report_dir root (in_RunID d), n] \<mapsto> c')))))"
proof -
  let ?dir = "report_dir root (in_RunID d)" and ?pk = "ed_public env private"
  let ?m = "m\<lparr>mf_KeyID := KeyID cr env ?pk\<rparr>"
  note p = Publish_files [OF pub] and s = SignAndPublish_files [OF sign]
  have files: "fs2 (path_Join [?dir, ''report.json'']) = Some (dc_json docs)" "fs2 (path_Join [?dir, ''report.txt'']) = Some (dc_text docs)"
    "fs2 (path_Join [?dir, ''report.html'']) = Some (dc_html docs)"
    using s(4) p by simp_all
  have ver: "Verify cr env (manifest_json env ?m @ [LF]) (ed_sign env private (manifest_json env ?m @ [LF])) [?pk] =
      \<lparr>vf_Valid = True, vf_Trusted = True, vf_KeyID = KeyID cr env ?pk, vf_Error = []\<rparr>"
    using ed s(1) by (simp add: Verify_def json)
  have "VerifyBundle cr env ?dir [?pk] fs2 = \<lparr>vf_Valid = True, vf_Trusted = True, vf_KeyID = KeyID cr env ?pk, vf_Error = []\<rparr>"
    by (simp add: VerifyBundle_def s(2,3) ver json bound_ok_def files binds digest_of_def)
  moreover have "\<not> vf_Valid (VerifyBundle cr env ?dir [?pk] (fs2(path_Join [?dir, n] \<mapsto> c')))"
    if n: "(n, c) \<in> {(''report.json'', dc_json docs), (''report.txt'', dc_text docs), (''report.html'', dc_html docs)}"
      and c': "sha256 cr c' \<noteq> sha256 cr c" for n c c'
  proof
    assume "vf_Valid (VerifyBundle cr env ?dir [?pk] (fs2(path_Join [?dir, n] \<mapsto> c')))"
    then show False
    proof (cases rule: VerifyBundle_valid)
      case (1 bytes sig m' key)
      have "bytes = manifest_json env ?m @ [LF]"
        using 1(1) n s(2) by (auto simp: report_path_eq)
      then have "m' = ?m" using 1(3) json by simp
      then show False
        using 1(7) n c' sha binds
        by (auto simp: bound_ok_def digest_of_def hexc.enc_eq_iff hex_encode_empty)
    qed
  qed
  ultimately show ?thesis by blast
qed

definition example_manifest :: manifest where
  "example_manifest = \<lparr>mf_Schema = ManifestSchema, mf_DeliveryID = ''d1'', mf_SelectedSubjectDigest = [], mf_DeliveredOriginal = ''x'',
     mf_Ingress = [], mf_Subjects = [], mf_Evidence = [], mf_Verdict = [], mf_ReportJSON = [], mf_ReportText = [], mf_ReportHTML = [],
     mf_Policy = [], mf_Config = [], mf_AdapterResponses = [], mf_IssuedAt = 5, mf_KeyID = ''pending''\<rparr>"

definition example_input :: report_input where
  "example_input = \<lparr>in_RunID = ''r1'', in_DeliveryID = ''d1'', in_DeliveredOriginalDigest = ''x'', in_SelectedSubjectDigest = [],
     in_AuthContextScope = LocalIngress, in_Verdict = Decide LocalIngress [] [], in_PolicyVersion = ''v1'', in_ToolVersions = [],
     in_MissingAnalyzers = [], in_Timeline = [], in_CampaignEvidence = None\<rparr>"

definition example_env :: "manifest \<Rightarrow> bundle_env" where
  "example_env m = \<lparr>manifest_json = (\<lambda>_. ''m''), manifest_of = (\<lambda>_. Some m), document_json = (\<lambda>_. ''j''), document_of = (\<lambda>_. None),
     renderHTML = (\<lambda>_. Inr ''h''), ed_sign = (\<lambda>k b. k @ b), ed_verify = (\<lambda>p b s. s = p @ b), ed_public = (\<lambda>k. k), key_der = (\<lambda>k. k)\<rparr>"

theorem published_bundle_verifies_witness:
  "\<exists>cr env d m private docs fs1 fs2. Publish env ''/a'' d Map.empty = (Inr docs, fs1) \<and>
     SignAndPublish cr env ''/a'' (in_RunID d) m private fs1 = (Inr (), fs2) \<and>
     vf_Valid (VerifyBundle cr env (report_dir ''/a'' (in_RunID d)) [ed_public env private] fs2)"
proof -
  let ?cr = "\<lparr>sha256 = (\<lambda>s. CHR ''h'' # s), hmac = (\<lambda>k s. s)\<rparr>" and ?k = "replicate 64 (CHR ''k'')"
  let ?doc = "\<lparr>doc_Schema = report_Schema, doc_Input = example_input, doc_SafeNextActions = nextActions (vd_Category (in_Verdict example_input))\<rparr>"
  let ?docs = "\<lparr>dc_json = ''j'' @ [LF], dc_text = renderText ?doc, dc_html = ''h''\<rparr>"
  let ?m = "example_manifest\<lparr>mf_ReportJSON := digest_of ?cr (dc_json ?docs), mf_ReportText := digest_of ?cr (dc_text ?docs),
     mf_ReportHTML := digest_of ?cr (dc_html ?docs), mf_KeyID := hex_encode (CHR ''h'' # ?k)\<rparr>"
  let ?env = "example_env ?m"
  have kid: "KeyID ?cr ?env (ed_public ?env ?k) = hex_encode (CHR ''h'' # ?k)" by (simp only: KeyID_def example_env_def bundle_env.simps crypto.simps)
  have r: "Render ?env example_input = Inr ?docs"
    by (simp add: Render_def example_env_def bind_res_def example_input_def Let_def)
  obtain fs1 where fs1: "Publish ?env ''/a'' example_input Map.empty = (Inr ?docs, fs1)"
    "\<And>n. plain n \<Longrightarrow> n \<notin> {''report.json'', ''report.txt'', ''report.html''} \<Longrightarrow> fs1 (path_Join [report_dir ''/a'' (in_RunID example_input), n]) = None"
    unfolding Publish_def r by (simp add: publish_def Let_def report_path_eq)
  have byt: "Bytes ?env (?m\<lparr>mf_KeyID := hex_encode (CHR ''h'' # ?k)\<rparr>) = Inr (''m'' @ [LF])"
    by (simp add: Bytes_def example_manifest_def zero_time_def example_env_def)
  have sg: "Sign ?cr ?env ?m ?k = Inr (''m'' @ [LF], ?k @ ''m'' @ [LF])"
    unfolding Sign_def kid byt by (simp add: example_env_def)
  obtain fs2 where fs2: "SignAndPublish ?cr ?env ''/a'' (in_RunID example_input) ?m ?k fs1 = (Inr (), fs2)"
    unfolding SignAndPublish_def sg using fs1(2) by (simp add: publish_def Let_def report_path_eq)
  have "VerifyBundle ?cr ?env (report_dir ''/a'' (in_RunID example_input)) [ed_public ?env ?k] fs2 =
      \<lparr>vf_Valid = True, vf_Trusted = True, vf_KeyID = KeyID ?cr ?env (ed_public ?env ?k), vf_Error = []\<rparr>"
    by (rule published_bundle_verifies [OF fs1(1) fs2, THEN conjunct1]) (unfold kid, simp_all add: example_env_def)
  then show ?thesis using fs1(1) fs2 by (metis verification.select_convs(1))
qed

theorem renderText_lines_witness:
  "\<exists>doc. LF \<in> set (in_RunID (doc_Input doc)) \<and> Split LF (renderText doc) = report_lines doc @ [[]] \<and>
     (\<forall>c \<in> set (safe (in_RunID (doc_Input doc))). printable c)"
proof (intro exI conjI)
  let ?doc = "\<lparr>doc_Schema = report_Schema, doc_Input = example_input\<lparr>in_RunID := [LF]\<rparr>, doc_SafeNextActions = []\<rparr>"
  have "LF \<notin> set (vd_Category (in_Verdict (doc_Input ?doc)))" "LF \<notin> set (in_AuthContextScope (doc_Input ?doc))"
    by (simp_all add: example_input_def LF_def Decide_def classify_def)
  note w = renderText_lines [OF this]
  from w show "Split LF (renderText ?doc) = report_lines ?doc @ [[]]" ..
  from w show "\<forall>c \<in> set (safe (in_RunID (doc_Input ?doc))). printable c" by blast
  show "LF \<in> set (in_RunID (doc_Input ?doc))" by simp
qed

end
