(* ===== verification/Results.thy ===== *)
theory Results
  imports Calendar Schema "HOL-Library.Product_Lexorder"
begin

text \<open>
  \<open>internal/results\<close>: the immutable result projection (\<open>InsertRecord\<close>, \<open>InsertDecision\<close>), the
  signed page cursors and the four listings (\<open>Results\<close>, \<open>Decisions\<close>, \<open>Campaigns\<close>,
  \<open>CampaignMembers\<close>), the campaign detail, and the request parsing of \<open>http.go\<close>. A row of a listing
  is the row of its table; times are seconds. The decoding of a cursor's JSON is a parameter.

  The listings share one scheme: rows in descending order of a time and an identifier, a page of
  at most \<open>n\<close>, and a cursor naming the last row. The locale \<open>keyset_pages\<close> states what the scheme
  promises and proves that following the cursors gives every row once; each listing is an
  interpretation of it.
\<close>

definition ErrInvalidQuery :: err where "ErrInvalidQuery = Err ''invalid results query''"
definition ErrInvalidCursor :: err where "ErrInvalidCursor = Err ''invalid results cursor''"

definition MaxPageSize :: int where "MaxPageSize = 100"
definition maxRange :: int where "maxRange = 366 * 24 * 3600"

section \<open>Immutable records\<close>

definition campaignEligible :: "result_record \<Rightarrow> bool" where
  "campaignEligible r = (rr_verdict r = ''FAILED'' \<and>
     rr_category_summary r \<in> {''phishing'', ''impersonation'', ''malicious-link'', ''malicious-attachment''})"

definition insert_outbox_item :: "outbox_item \<Rightarrow> db \<Rightarrow> db res" where
  "insert_outbox_item row s = check_all
     [(''intel_projection_outbox.run_id'', fresh io_run_id row (intel_projection_outbox s)),
      (''intel_projection_outbox.run_id'', parent (io_run_id row) r_run_id (runs s))]
     (s\<lparr>intel_projection_outbox := intel_projection_outbox s @ [row]\<rparr>)"

definition insert_result_record :: "result_record \<Rightarrow> db \<Rightarrow> db res" where
  "insert_result_record row s = check_all
     [(''result_records.unavailable_analyzers'', rr_unavailable_analyzers row \<ge> 0),
      (''result_records.run_id'', parent (rr_run_id row) r_run_id (runs s)),
      (''result_records.delivery_id'', parent (rr_delivery_id row) d_delivery_id (deliveries s))]
     (s\<lparr>result_records := result_records s @ [row]\<rparr>)"

text \<open>The record's \<open>rr_created_at\<close> is the time of the call.\<close>

definition InsertRecord :: "result_record \<Rightarrow> db \<Rightarrow> db res" where
  "InsertRecord r s =
     (if rr_run_id r = [] \<or> rr_delivery_id r = [] \<or> rr_occurred_at r = zero_time \<or> rr_verdict r = [] \<or>
         rr_manifest_digest r = [] \<or> rr_manifest_path r = [] \<or> rr_unavailable_analyzers r < 0 then Inl ErrInvalidQuery
      else case row_by rr_run_id (rr_run_id r) (result_records s) of
          None \<Rightarrow> bind_res (insert_result_record r s) (\<lambda>s1.
            if campaignEligible r then insert_outbox_item \<lparr>io_run_id = rr_run_id r, io_manifest_path = rr_manifest_path r,
                io_manifest_digest = rr_manifest_digest r, io_state = ''pending'', io_attempts = 0, io_not_before = 0,
                io_lease_owner = [], io_lease_until = 0, io_reason_code = [], io_created_at = rr_created_at r, io_completed_at = None\<rparr> s1
            else Inr s1)
        | Some old \<Rightarrow>
            if rr_delivery_id old = rr_delivery_id r \<and> rr_verdict old = rr_verdict r \<and>
               rr_manifest_digest old = rr_manifest_digest r \<and> rr_manifest_path old = rr_manifest_path r then Inr s
            else Inl (Err ''conflicting immutable result record''))"

definition InsertDecision :: "decision_record \<Rightarrow> db \<Rightarrow> db res" where
  "InsertDecision d s =
     (if dr_decision_id d = [] \<or> dr_occurred_at d = zero_time \<or> dr_outcome d = [] \<or> dr_stage d = [] \<or> dr_reason_code d = [] \<or>
         dr_policy_version d = [] \<or> dr_canonical_json d = [] \<or> dr_canonical_digest d = [] \<or> dr_notarization_status d = []
      then Inl ErrInvalidQuery else insert_decision_record d s)"

section \<open>Page cursors\<close>

record cursor =
  cu_At :: int
  cu_ID :: string
  cu_Exp :: int
  cu_Kind :: string

record repository =
  CursorKey :: string
  repo_Now :: time
  cursor_of :: "string \<Rightarrow> cursor option"
  repo_crypto :: crypto

definition cursor_json :: "cursor \<Rightarrow> string" where
  "cursor_json c = json_object [(''at'', show_int (cu_At c)), (''id'', json_string (cu_ID c)),
     (''exp'', show_int (cu_Exp c)), (''kind'', json_string (cu_Kind c))]"

definition cursorFor :: "repository \<Rightarrow> string \<Rightarrow> string \<Rightarrow> time \<Rightarrow> string" where
  "cursorFor r kind ident at =
     (let b = cursor_json \<lparr>cu_At = at, cu_ID = ident, cu_Exp = repo_Now r + 86400, cu_Kind = kind\<rparr> in
      b64_encode (b @ hmac (repo_crypto r) (CursorKey r) b))"

definition parseCursor :: "repository \<Rightarrow> string \<Rightarrow> string \<Rightarrow> cursor res" where
  "parseCursor r kind raw = (case b64_decode raw of None \<Rightarrow> Inl ErrInvalidCursor
     | Some b \<Rightarrow>
         if length b \<le> 32 then Inl ErrInvalidCursor
         else let body = take (length b - 32) b; tag = drop (length b - 32) b in
           if tag \<noteq> hmac (repo_crypto r) (CursorKey r) body then Inl ErrInvalidCursor
           else case cursor_of r body of None \<Rightarrow> Inl ErrInvalidCursor
             | Some z \<Rightarrow> if cu_Kind z \<noteq> kind \<or> cu_ID z = [] \<or> cu_Exp z < repo_Now r then Inl ErrInvalidCursor else Inr z)"

section \<open>Queries\<close>

record result_filter =
  fl_ID :: string
  fl_SubmitterID :: string
  fl_Outcome :: string
  fl_Stage :: string
  fl_Reason :: string
  fl_Verdict :: string
  fl_PolicyVersion :: string
  fl_SubjectDomain :: string
  fl_From :: time
  fl_To :: time
  fl_Limit :: int
  fl_Cursor :: string

definition no_filter :: result_filter where
  "no_filter = \<lparr>fl_ID = [], fl_SubmitterID = [], fl_Outcome = [], fl_Stage = [], fl_Reason = [], fl_Verdict = [], fl_PolicyVersion = [],
     fl_SubjectDomain = [], fl_From = zero_time, fl_To = zero_time, fl_Limit = 0, fl_Cursor = []\<rparr>"

definition repo_validate :: "repository \<Rightarrow> result_filter \<Rightarrow> nat res" where
  "repo_validate r f =
     (if length (CursorKey r) < 32 then Inl ErrInvalidQuery
      else let n = (if fl_Limit f = 0 then 50 else fl_Limit f) in
        if n < 1 \<or> n > MaxPageSize \<or>
           (fl_From f \<noteq> zero_time \<and> fl_To f \<noteq> zero_time \<and> (fl_To f \<le> fl_From f \<or> fl_To f - fl_From f > maxRange)) \<or>
           length (fl_Cursor f) > 1024 \<or> length (fl_ID f) > 256 \<or> length (fl_SubmitterID f) > 256 \<or> length (fl_Outcome f) > 64 \<or>
           length (fl_Stage f) > 64 \<or> length (fl_Reason f) > 128 \<or> length (fl_Verdict f) > 64 \<or> length (fl_PolicyVersion f) > 64 \<or>
           length (fl_SubjectDomain f) > 253
        then Inl ErrInvalidQuery else Inr (nat n))"

text \<open>A condition the query has only when the filter's member is set.\<close>

definition when_set :: "string \<Rightarrow> bool \<Rightarrow> bool" where
  "when_set v P = (v = [] \<or> P)"

definition in_range :: "result_filter \<Rightarrow> time \<Rightarrow> bool" where
  "in_range f at = ((fl_From f = zero_time \<or> at \<ge> fl_From f) \<and> (fl_To f = zero_time \<or> at < fl_To f))"

definition result_matches :: "result_filter \<Rightarrow> result_record \<Rightarrow> bool" where
  "result_matches f x = (when_set (fl_ID f) (rr_run_id x = fl_ID f) \<and>
     when_set (fl_SubmitterID f) (rr_submitter_id x = Some (fl_SubmitterID f)) \<and> when_set (fl_Verdict f) (rr_verdict x = fl_Verdict f) \<and>
     when_set (fl_PolicyVersion f) (rr_policy_version x = fl_PolicyVersion f) \<and> in_range f (rr_occurred_at x))"

definition decision_matches :: "result_filter \<Rightarrow> decision_record \<Rightarrow> bool" where
  "decision_matches f x = (when_set (fl_ID f) (dr_decision_id x = fl_ID f) \<and>
     when_set (fl_SubmitterID f) (dr_submitter_id x = Some (fl_SubmitterID f)) \<and> when_set (fl_Outcome f) (dr_outcome x = fl_Outcome f) \<and>
     when_set (fl_Stage f) (dr_stage x = fl_Stage f) \<and> when_set (fl_Reason f) (dr_reason_code x = fl_Reason f) \<and>
     when_set (fl_PolicyVersion f) (dr_policy_version x = fl_PolicyVersion f) \<and>
     when_set (fl_SubjectDomain f) (dr_selected_subject_domain x = fl_SubjectDomain f) \<and> in_range f (dr_occurred_at x))"

text \<open>
  \<open>... AND (at < ? OR (at = ? AND id < ?)) ORDER BY at DESC, id DESC LIMIT n+1\<close>, and what the loop and
  the cut after it make of the rows.
\<close>

definition page_rows :: "('a \<Rightarrow> int \<times> string) \<Rightarrow> (int \<times> string) option \<Rightarrow> 'a list \<Rightarrow> 'a list" where
  "page_rows key after rows = rev (sort_key key (filter (\<lambda>x. case after of None \<Rightarrow> True | Some c \<Rightarrow> key x < c) rows))"

definition page_cut :: "('a \<Rightarrow> int \<times> string) \<Rightarrow> (int \<times> string \<Rightarrow> string) \<Rightarrow> nat \<Rightarrow> 'a list \<Rightarrow> 'a list \<times> string" where
  "page_cut key enc n sel = (let items = take (n + 1) sel in
     if length items > n then (take n items, enc (key (items ! (n - 1)))) else (items, []))"

definition list_page ::
  "repository \<Rightarrow> string \<Rightarrow> ('a \<Rightarrow> int \<times> string) \<Rightarrow> nat \<Rightarrow> string \<Rightarrow> 'a list \<Rightarrow> ('a list \<times> string) res" where
  "list_page r kind key n raw rows =
     bind_res (if raw = [] then Inr None else bind_res (parseCursor r kind raw) (\<lambda>c. Inr (Some (cu_At c, cu_ID c)))) (\<lambda>after.
     Inr (page_cut key (\<lambda>(at, ident). cursorFor r kind ident at) n (page_rows key after rows)))"

definition Results :: "repository \<Rightarrow> result_filter \<Rightarrow> db \<Rightarrow> (result_record list \<times> string) res" where
  "Results r f s = bind_res (repo_validate r f) (\<lambda>n.
     list_page r ''result'' (\<lambda>x. (rr_occurred_at x, rr_run_id x)) n (fl_Cursor f) (filter (result_matches f) (result_records s)))"

definition Decisions :: "repository \<Rightarrow> result_filter \<Rightarrow> db \<Rightarrow> (decision_record list \<times> string) res" where
  "Decisions r f s = bind_res (repo_validate r f) (\<lambda>n.
     list_page r ''decision'' (\<lambda>x. (dr_occurred_at x, dr_decision_id x)) n (fl_Cursor f) (filter (decision_matches f) (decision_records s)))"

record campaign_filter =
  cf_Status :: string
  cf_ProjectionVersion :: string
  cf_Cursor :: string
  cf_Limit :: int

definition campaign_matches :: "campaign_filter \<Rightarrow> campaign_projection \<Rightarrow> bool" where
  "campaign_matches f x = ((cf_Status f = ''active'' \<longrightarrow> cp_active x) \<and> (cf_Status f = ''inactive'' \<longrightarrow> \<not> cp_active x) \<and>
     when_set (cf_ProjectionVersion f) (cp_projection_version x = cf_ProjectionVersion f))"

definition Campaigns :: "repository \<Rightarrow> campaign_filter \<Rightarrow> db \<Rightarrow> (campaign_projection list \<times> string) res" where
  "Campaigns r f s = (case repo_validate r (no_filter\<lparr>fl_Limit := cf_Limit f\<rparr>) of
       Inl _ \<Rightarrow> Inl ErrInvalidQuery
     | Inr n \<Rightarrow>
         if cf_Status f \<noteq> [] \<and> cf_Status f \<noteq> ''active'' \<and> cf_Status f \<noteq> ''inactive'' then Inl ErrInvalidQuery
         else list_page r ''campaign'' (\<lambda>x. (cp_last_seen x, cp_campaign_id x)) n (cf_Cursor f)
           (filter (campaign_matches f) (campaign_projections s)))"

definition member_kind :: "string \<Rightarrow> string \<Rightarrow> string" where
  "member_kind campaignID version = ''campaign-member:'' @ campaignID @ '':'' @ version"

definition CampaignMembers :: "repository \<Rightarrow> string \<Rightarrow> string \<Rightarrow> string \<Rightarrow> int \<Rightarrow> db \<Rightarrow> (campaign_member list \<times> string) res" where
  "CampaignMembers r campaignID version rawCursor limit s = (case repo_validate r (no_filter\<lparr>fl_Limit := limit\<rparr>) of
       Inl _ \<Rightarrow> Inl ErrInvalidQuery
     | Inr n \<Rightarrow>
         if campaignID = [] \<or> version = [] then Inl ErrInvalidQuery
         else list_page r (member_kind campaignID version) (\<lambda>x. (cm_occurred_at x, cm_run_id x)) n rawCursor
           (filter (\<lambda>x. cm_projection_version x = version \<and> cm_campaign_id x = campaignID) (campaign_members s)))"

text \<open>The bins of \<open>Summary\<close> start on the hour or on the day, in UTC.\<close>

record summary_bucket =
  sb_Start :: time
  sb_Kind :: string
  sb_Count :: nat

definition summary_rows :: "time \<Rightarrow> time \<Rightarrow> int \<Rightarrow> db \<Rightarrow> (time \<times> string) list" where
  "summary_rows from until width s =
     map (\<lambda>x. (rr_occurred_at x - rr_occurred_at x mod width, rr_verdict x))
       (filter (\<lambda>x. from \<le> rr_occurred_at x \<and> rr_occurred_at x < until) (result_records s)) @
     map (\<lambda>x. (dr_occurred_at x - dr_occurred_at x mod width, dr_outcome x @ '':'' @ dr_stage x @ '':'' @ dr_reason_code x))
       (filter (\<lambda>x. from \<le> dr_occurred_at x \<and> dr_occurred_at x < until) (decision_records s))"

definition Summary :: "repository \<Rightarrow> time \<Rightarrow> time \<Rightarrow> string \<Rightarrow> db \<Rightarrow> summary_bucket list res" where
  "Summary r from until interval s =
     (if from = zero_time \<or> until = zero_time then Inl ErrInvalidQuery
      else bind_res (repo_validate r (no_filter\<lparr>fl_From := from, fl_To := until\<rparr>)) (\<lambda>_.
        if interval \<noteq> ''hour'' \<and> interval \<noteq> ''day'' then Inl ErrInvalidQuery
        else let rows = summary_rows from until (if interval = ''day'' then 86400 else 3600) s in
          Inr (map (\<lambda>k. \<lparr>sb_Start = fst k, sb_Kind = snd k, sb_Count = count_list rows k\<rparr>) (sort (remdups rows)))))"

record campaign_detail =
  cd_Campaign :: campaign_projection
  cd_GroupingReasons :: "string list"
  cd_SafeIndicators :: "string list"

definition CampaignDetail :: "string \<Rightarrow> string \<Rightarrow> db \<Rightarrow> campaign_detail res" where
  "CampaignDetail campaignID version s =
     (if campaignID = [] \<or> version = [] then Inl ErrInvalidQuery
      else case find (\<lambda>x. cp_projection_version x = version \<and> cp_campaign_id x = campaignID) (campaign_projections s) of
          None \<Rightarrow> Inl NoRows
        | Some c \<Rightarrow>
            let members = map cm_run_id (filter (\<lambda>x. cm_projection_version x = version \<and> cm_campaign_id x = campaignID) (campaign_members s)) in
            Inr \<lparr>cd_Campaign = c,
              cd_GroupingReasons = take 32 (sort (remdups (map (\<lambda>e. ge_rule_id e @ '':'' @ ge_key e)
                (filter (\<lambda>e. ge_projection_version e = version \<and> ge_run_id e \<in> set members) (run_grouping_edges s))))),
              cd_SafeIndicators = take 32 (sort (remdups (map (\<lambda>i. ri_type i @ '':'' @ ri_value i)
                (filter (\<lambda>i. ri_projection_version i = version \<and> ri_run_id i \<in> set members) (run_indicators s)))))\<rparr>)"

section \<open>Keyset pagination\<close>

text \<open>A client that follows the cursors: at most \<open>fuel\<close> requests, \<open>None\<close> on an error or when they do not suffice.\<close>

fun follow :: "(string \<Rightarrow> ('a list \<times> string) res) \<Rightarrow> nat \<Rightarrow> string \<Rightarrow> 'a list option" where
  "follow fetch 0 raw = None"
| "follow fetch (Suc fuel) raw = (case fetch raw of
     Inl _ \<Rightarrow> None
   | Inr (items, next) \<Rightarrow> if next = [] then Some items else map_option ((@) items) (follow fetch fuel next))"

locale keyset_pages =
  fixes fetch :: "'c \<Rightarrow> string \<Rightarrow> ('a list \<times> string) res"
    and ready :: "'c \<Rightarrow> bool"
    and rows :: "'c \<Rightarrow> 'a list"
    and size :: "'c \<Rightarrow> nat"
    and enc :: "'c \<Rightarrow> int \<times> string \<Rightarrow> string"
    and key :: "'a \<Rightarrow> int \<times> string"
  assumes size_pos: "ready c \<Longrightarrow> 0 < size c"
    and keys: "ready c \<Longrightarrow> distinct (map key (rows c))"
    and enc_nonempty: "ready c \<Longrightarrow> enc c k \<noteq> []"
    and first: "ready c \<Longrightarrow> fetch c [] = Inr (page_cut key (enc c) (size c) (page_rows key None (rows c)))"
    and next_page: "ready c \<Longrightarrow> x \<in> set (rows c) \<Longrightarrow>
      fetch c (enc c (key x)) = Inr (page_cut key (enc c) (size c) (page_rows key (Some (key x)) (rows c)))"
begin

lemma rows_desc: "ready c \<Longrightarrow> sorted_wrt (\<lambda>x y. key y < key x) (page_rows key None (rows c))"
proof -
  assume "ready c"
  let ?s = "sort_key key (rows c)"
  have "distinct (map key ?s)" using keys [OF \<open>ready c\<close>] by (metis distinct_map distinct_sort set_sort)
  moreover have "sorted (map key ?s)" by (rule sorted_sort_key)
  ultimately have "sorted_wrt (<) (map key ?s)" by (simp add: strict_sorted_iff)
  then have "sorted_wrt (\<lambda>x y. key x < key y) ?s" by (simp add: sorted_wrt_map)
  then show ?thesis by (simp add: page_rows_def sorted_wrt_rev)
qed

lemma page_rows_after:
  assumes "ready c" "page_rows key None (rows c) = pre @ x # post"
  shows "page_rows key (Some (key x)) (rows c) = post"
proof -
  have d: "sorted_wrt (\<lambda>x y. key y < key x) (pre @ x # post)" using rows_desc [OF assms(1)] assms(2) by simp
  have "page_rows key (Some (key x)) (rows c) = filter (\<lambda>y. key y < key x) (page_rows key None (rows c))"
    by (simp add: page_rows_def filter_sort [symmetric] rev_filter)
  also have "\<dots> = post"
    unfolding assms(2) using d by (auto simp: sorted_wrt_append filter_empty_conv intro!: filter_True dest: less_asym)
  finally show ?thesis .
qed

lemma follow_rest:
  assumes "ready c" "page_rows key None (rows c) = pre @ x # post" "length post < fuel"
  shows "follow (fetch c) fuel (enc c (key x)) = Some post"
  using assms(2,3)
proof (induction fuel arbitrary: pre x post)
  case (Suc fuel)
  have x: "x \<in> set (rows c)"
  proof -
    have "set (page_rows key None (rows c)) = set (rows c)" by (simp add: page_rows_def)
    then show ?thesis using Suc.prems(1) by auto
  qed
  note fetch = next_page [OF assms(1) x, unfolded page_rows_after [OF assms(1) Suc.prems(1)]]
  show ?case
  proof (cases "length post > size c")
    case False
    then show ?thesis by (simp add: fetch page_cut_def Let_def)
  next
    case True
    let ?n = "size c" and ?y = "post ! (size c - 1)"
    have n: "0 < ?n" by (rule size_pos [OF assms(1)])
    have post: "post = take (?n - 1) post @ ?y # drop ?n post"
      using n True id_take_nth_drop [of "?n - 1" post] by (cases ?n) auto
    have all: "page_rows key None (rows c) = (pre @ x # take (?n - 1) post) @ ?y # drop ?n post"
      using Suc.prems(1) post by (metis append_Cons append_assoc)
    have "follow (fetch c) fuel (enc c (key ?y)) = Some (drop ?n post)"
      by (rule Suc.IH [OF all]) (use Suc.prems(2) n True in simp)
    moreover have "page_cut key (enc c) ?n post = (take ?n post, enc c (key ?y))"
      using True n by (simp add: page_cut_def Let_def)
    ultimately show ?thesis using enc_nonempty [OF assms(1)] by (simp add: fetch)
  qed
qed simp

lemma follow_all:
  assumes "ready c"
  shows "follow (fetch c) (Suc (length (rows c))) [] = Some (page_rows key None (rows c))"
proof -
  let ?rs = "page_rows key None (rows c)" and ?n = "size c"
  have len: "length ?rs = length (rows c)" by (simp add: page_rows_def)
  note fetch = first [OF assms]
  show ?thesis
  proof (cases "length ?rs > ?n")
    case False
    then show ?thesis by (simp add: fetch page_cut_def Let_def)
  next
    case True
    let ?y = "?rs ! (?n - 1)"
    have n: "0 < ?n" by (rule size_pos [OF assms])
    have all: "?rs = take (?n - 1) ?rs @ ?y # drop ?n ?rs"
      using n True id_take_nth_drop [of "?n - 1" ?rs] by (cases ?n) auto
    have "follow (fetch c) (length (rows c)) (enc c (key ?y)) = Some (drop ?n ?rs)"
      by (rule follow_rest [OF assms all]) (use n True len in simp)
    moreover have "page_cut key (enc c) ?n ?rs = (take ?n ?rs, enc c (key ?y))"
      using True n by (simp add: page_cut_def Let_def)
    ultimately show ?thesis using enc_nonempty [OF assms] by (simp add: fetch)
  qed
qed

end

section \<open>The four listings\<close>

definition enc_cursor :: "repository \<Rightarrow> string \<Rightarrow> int \<times> string \<Rightarrow> string" where
  "enc_cursor r kind = (\<lambda>(at, ident). cursorFor r kind ident at)"

text \<open>A position whose cursor the repository reads back: the HMAC has 32 bytes and the JSON decodes.\<close>

definition cursor_ok :: "repository \<Rightarrow> string \<Rightarrow> int \<times> string \<Rightarrow> bool" where
  "cursor_ok r kind = (\<lambda>(at, ident). ident \<noteq> [] \<and>
     (let c = \<lparr>cu_At = at, cu_ID = ident, cu_Exp = repo_Now r + 86400, cu_Kind = kind\<rparr> in
      cursor_of r (cursor_json c) = Some c \<and> length (hmac (repo_crypto r) (CursorKey r) (cursor_json c)) = 32))"

lemma parse_cursorFor:
  assumes "cursor_ok r kind (at, ident)"
  shows "parseCursor r kind (cursorFor r kind ident at) =
    Inr \<lparr>cu_At = at, cu_ID = ident, cu_Exp = repo_Now r + 86400, cu_Kind = kind\<rparr>"
proof -
  let ?c = "\<lparr>cu_At = at, cu_ID = ident, cu_Exp = repo_Now r + 86400, cu_Kind = kind\<rparr>"
  have "cursor_json ?c \<noteq> []" by (simp add: cursor_json_def json_object_def)
  with assms show ?thesis by (simp add: cursor_ok_def parseCursor_def cursorFor_def Let_def b64c.dec_enc)
qed

lemma enc_cursor_nonempty [simp]: "enc_cursor r kind k \<noteq> []"
proof (cases k)
  case (Pair at ident)
  let ?b = "cursor_json \<lparr>cu_At = at, cu_ID = ident, cu_Exp = repo_Now r + 86400, cu_Kind = kind\<rparr>"
  have "length (b64_encode (?b @ hmac (repo_crypto r) (CursorKey r) ?b)) > 0"
    unfolding length_b64_encode by (simp add: cursor_json_def json_object_def)
  then show ?thesis by (auto simp: Pair enc_cursor_def cursorFor_def Let_def)
qed

definition list_ready :: "repository \<Rightarrow> string \<Rightarrow> ('a \<Rightarrow> int \<times> string) \<Rightarrow> 'a list \<Rightarrow> bool" where
  "list_ready r kind key rows = (distinct (map key rows) \<and> (\<forall>x \<in> set rows. cursor_ok r kind (key x)))"

lemma list_page_first: "list_page r kind key n [] rows = Inr (page_cut key (enc_cursor r kind) n (page_rows key None rows))"
  by (simp add: list_page_def enc_cursor_def)

lemma list_page_next:
  assumes "list_ready r kind key rows" "x \<in> set rows"
  shows "list_page r kind key n (enc_cursor r kind (key x)) rows = Inr (page_cut key (enc_cursor r kind) n (page_rows key (Some (key x)) rows))"
proof -
  obtain at ident where k: "key x = (at, ident)" by fastforce
  have "cursor_ok r kind (at, ident)" using assms k by (auto simp: list_ready_def)
  from parse_cursorFor [OF this] enc_cursor_nonempty [of r kind "(at, ident)"]
  show ?thesis by (simp add: k list_page_def enc_cursor_def)
qed

definition page_size :: "repository \<Rightarrow> result_filter \<Rightarrow> nat" where
  "page_size r f = (case repo_validate r (f\<lparr>fl_Cursor := []\<rparr>) of Inl _ \<Rightarrow> 0 | Inr n \<Rightarrow> n)"

lemma repo_validate_cursor:
  assumes "page_size r f > 0" "length raw \<le> 1024"
  shows "repo_validate r (f\<lparr>fl_Cursor := raw\<rparr>) = Inr (page_size r f)"
  using assms by (auto simp: page_size_def repo_validate_def Let_def split: if_splits)

abbreviation result_key :: "result_record \<Rightarrow> int \<times> string" where
  "result_key \<equiv> \<lambda>x. (rr_occurred_at x, rr_run_id x)"

abbreviation decision_key :: "decision_record \<Rightarrow> int \<times> string" where
  "decision_key \<equiv> \<lambda>x. (dr_occurred_at x, dr_decision_id x)"

definition listing_ready :: "string \<Rightarrow> ('a \<Rightarrow> int \<times> string) \<Rightarrow> repository \<Rightarrow> result_filter \<Rightarrow> 'a list \<Rightarrow> bool" where
  "listing_ready kind key r f rows = (page_size r f > 0 \<and> list_ready r kind key rows \<and>
     (\<forall>x \<in> set rows. length (enc_cursor r kind (key x)) \<le> 1024))"

lemma Results_page:
  assumes "listing_ready ''result'' result_key r f (filter (result_matches f) (result_records s))" "length raw \<le> 1024"
  shows "Results r (f\<lparr>fl_Cursor := raw\<rparr>) s = list_page r ''result'' result_key (page_size r f) raw (filter (result_matches f) (result_records s))"
proof -
  have "result_matches (f\<lparr>fl_Cursor := raw\<rparr>) = result_matches f" by (rule ext) (simp add: result_matches_def in_range_def)
  with assms show ?thesis by (simp add: Results_def listing_ready_def repo_validate_cursor)
qed

lemma Decisions_page:
  assumes "listing_ready ''decision'' decision_key r f (filter (decision_matches f) (decision_records s))" "length raw \<le> 1024"
  shows "Decisions r (f\<lparr>fl_Cursor := raw\<rparr>) s = list_page r ''decision'' decision_key (page_size r f) raw (filter (decision_matches f) (decision_records s))"
proof -
  have "decision_matches (f\<lparr>fl_Cursor := raw\<rparr>) = decision_matches f" by (rule ext) (simp add: decision_matches_def in_range_def)
  with assms show ?thesis by (simp add: Decisions_def listing_ready_def repo_validate_cursor)
qed

lemma keyset_pagesI:
  assumes psize: "\<And>c. ready c \<Longrightarrow> 0 < psize c" and lr: "\<And>c. ready c \<Longrightarrow> list_ready (rep c) (kind c) key (rows c)"
    and fetch: "\<And>c raw. ready c \<Longrightarrow> raw = [] \<or> raw \<in> (\<lambda>x. enc_cursor (rep c) (kind c) (key x)) ` set (rows c) \<Longrightarrow>
      fetch c raw = list_page (rep c) (kind c) key (psize c) raw (rows c)"
  shows "keyset_pages fetch ready rows psize (\<lambda>c. enc_cursor (rep c) (kind c)) key"
proof
  fix c x
  assume r: "ready c"
  show "0 < psize c" by (rule psize [OF r])
  show "distinct (map key (rows c))" using lr [OF r] by (simp add: list_ready_def)
  show "fetch c [] = Inr (page_cut key (enc_cursor (rep c) (kind c)) (psize c) (page_rows key None (rows c)))"
    using fetch [OF r, of "[]"] by (simp add: list_page_first)
  show "fetch c (enc_cursor (rep c) (kind c) (key x)) =
      Inr (page_cut key (enc_cursor (rep c) (kind c)) (psize c) (page_rows key (Some (key x)) (rows c)))" if x: "x \<in> set (rows c)"
    by (subst fetch [OF r]) (use list_page_next [OF lr [OF r] x] x in auto)
qed simp

interpretation result_pages: keyset_pages
  "\<lambda>c raw. case c of (r, f, s) \<Rightarrow> Results r (f\<lparr>fl_Cursor := raw\<rparr>) s"
  "\<lambda>(r, f, s). listing_ready ''result'' result_key r f (filter (result_matches f) (result_records s))"
  "\<lambda>(r, f, s). filter (result_matches f) (result_records s)" "\<lambda>(r, f, s). page_size r f" "\<lambda>c. enc_cursor (fst c) ''result''" result_key
  by (rule keyset_pagesI [where rep = fst and kind = "\<lambda>_. ''result''"]) (auto simp: listing_ready_def intro!: Results_page)

interpretation decision_pages: keyset_pages
  "\<lambda>c raw. case c of (r, f, s) \<Rightarrow> Decisions r (f\<lparr>fl_Cursor := raw\<rparr>) s"
  "\<lambda>(r, f, s). listing_ready ''decision'' decision_key r f (filter (decision_matches f) (decision_records s))"
  "\<lambda>(r, f, s). filter (decision_matches f) (decision_records s)" "\<lambda>(r, f, s). page_size r f" "\<lambda>c. enc_cursor (fst c) ''decision''" decision_key
  by (rule keyset_pagesI [where rep = fst and kind = "\<lambda>_. ''decision''"]) (auto simp: listing_ready_def intro!: Decisions_page)

abbreviation campaign_key :: "campaign_projection \<Rightarrow> int \<times> string" where
  "campaign_key \<equiv> \<lambda>x. (cp_last_seen x, cp_campaign_id x)"

abbreviation member_key :: "campaign_member \<Rightarrow> int \<times> string" where
  "member_key \<equiv> \<lambda>x. (cm_occurred_at x, cm_run_id x)"

definition limit_size :: "repository \<Rightarrow> int \<Rightarrow> nat" where
  "limit_size r limit = page_size r (no_filter\<lparr>fl_Limit := limit\<rparr>)"

lemma limit_size_validate: "0 < limit_size r limit \<Longrightarrow> repo_validate r (no_filter\<lparr>fl_Limit := limit\<rparr>) = Inr (limit_size r limit)"
  using repo_validate_cursor [of r "no_filter\<lparr>fl_Limit := limit\<rparr>" "[]"] by (simp add: limit_size_def no_filter_def)

interpretation campaign_pages: keyset_pages
  "\<lambda>c raw. case c of (r, f, s) \<Rightarrow> Campaigns r (f\<lparr>cf_Cursor := raw\<rparr>) s"
  "\<lambda>(r, f, s). 0 < limit_size r (cf_Limit f) \<and> cf_Status f \<in> {[], ''active'', ''inactive''} \<and>
     list_ready r ''campaign'' campaign_key (filter (campaign_matches f) (campaign_projections s))"
  "\<lambda>(r, f, s). filter (campaign_matches f) (campaign_projections s)" "\<lambda>(r, f, s). limit_size r (cf_Limit f)"
  "\<lambda>c. enc_cursor (fst c) ''campaign''" campaign_key
proof (rule keyset_pagesI [where rep = fst and kind = "\<lambda>_. ''campaign''"], goal_cases)
  case (3 c raw)
  obtain r f s where c: "c = (r, f, s)" by (cases c)
  have "campaign_matches (f\<lparr>cf_Cursor := raw\<rparr>) = campaign_matches f" by (rule ext) (simp add: campaign_matches_def)
  with 3(1) show ?case by (auto simp: c Campaigns_def limit_size_validate)
qed auto

interpretation member_pages: keyset_pages
  "\<lambda>c raw. case c of (r, cid, version, limit, s) \<Rightarrow> CampaignMembers r cid version raw limit s"
  "\<lambda>(r, cid, version, limit, s). 0 < limit_size r limit \<and> cid \<noteq> [] \<and> version \<noteq> [] \<and>
     list_ready r (member_kind cid version) member_key
       (filter (\<lambda>x. cm_projection_version x = version \<and> cm_campaign_id x = cid) (campaign_members s))"
  "\<lambda>(r, cid, version, limit, s). filter (\<lambda>x. cm_projection_version x = version \<and> cm_campaign_id x = cid) (campaign_members s)"
  "\<lambda>(r, cid, version, limit, s). limit_size r limit"
  "\<lambda>c. enc_cursor (fst c) (case c of (r, cid, version, limit, s) \<Rightarrow> member_kind cid version)" member_key
  by (rule keyset_pagesI [where rep = fst and kind = "\<lambda>c. case c of (r, cid, version, limit, s) \<Rightarrow> member_kind cid version"])
    (auto simp: CampaignMembers_def limit_size_validate)

text \<open>
  C39: Following the cursors of a listing returns every matching row exactly once, newest first. From the
  first page on, a client that passes each returned cursor back gets, after at most one request
  per matching row and one more, exactly the rows that match the filter in descending order of
  time and identifier. The hypotheses are those of a valid request (page size and filter in
  range, cursor key long enough), distinct positions, and that the cursors of the rows decode and
  fit in 1024 bytes.
\<close>

theorem Results_complete:
  assumes "listing_ready ''result'' result_key r f (filter (result_matches f) (result_records s))"
  shows "follow (\<lambda>raw. Results r (f\<lparr>fl_Cursor := raw\<rparr>) s) (Suc (length (filter (result_matches f) (result_records s)))) [] =
    Some (rev (sort_key result_key (filter (result_matches f) (result_records s))))"
  using result_pages.follow_all [of "(r, f, s)"] assms by (simp add: page_rows_def)

lemma Decisions_complete:
  assumes "listing_ready ''decision'' decision_key r f (filter (decision_matches f) (decision_records s))"
  shows "follow (\<lambda>raw. Decisions r (f\<lparr>fl_Cursor := raw\<rparr>) s) (Suc (length (filter (decision_matches f) (decision_records s)))) [] =
    Some (rev (sort_key decision_key (filter (decision_matches f) (decision_records s))))"
  using decision_pages.follow_all [of "(r, f, s)"] assms by (simp add: page_rows_def)

definition members_of :: "string \<Rightarrow> string \<Rightarrow> db \<Rightarrow> campaign_member list" where
  "members_of cid version s = filter (\<lambda>x. cm_projection_version x = version \<and> cm_campaign_id x = cid) (campaign_members s)"

lemma CampaignMembers_complete:
  assumes "0 < limit_size r limit" "cid \<noteq> []" "version \<noteq> []" "list_ready r (member_kind cid version) member_key (members_of cid version s)"
  shows "follow (\<lambda>raw. CampaignMembers r cid version raw limit s) (Suc (length (members_of cid version s))) [] =
    Some (rev (sort_key member_key (members_of cid version s)))"
  using member_pages.follow_all [of "(r, cid, version, limit, s)"] assms by (simp add: page_rows_def members_of_def)

section \<open>A cursor cannot be forged\<close>

lemma parseCursor_authentic:
  assumes "parseCursor r kind raw = Inr c"
  shows "\<exists>body. b64_decode raw = Some (body @ hmac (repo_crypto r) (CursorKey r) body) \<and> cursor_of r body = Some c \<and>
    cu_Kind c = kind \<and> repo_Now r \<le> cu_Exp c"
proof -
  obtain b where b: "b64_decode raw = Some b" "\<not> length b \<le> 32"
    using assms by (auto simp: parseCursor_def split: option.splits if_splits)
  let ?body = "take (length b - 32) b"
  have "b = ?body @ drop (length b - 32) b" by simp
  moreover have "drop (length b - 32) b = hmac (repo_crypto r) (CursorKey r) ?body" "cursor_of r ?body = Some c"
    "cu_Kind c = kind" "repo_Now r \<le> cu_Exp c"
    using assms b by (auto simp: parseCursor_def Let_def split: option.splits if_splits)
  ultimately show ?thesis using b(1) by metis
qed

section \<open>Records are immutable\<close>

lemma InsertRecord_Inr:
  assumes "InsertRecord r s = Inr s'"
  shows "(row_by rr_run_id (rr_run_id r) (result_records s) = None \<and> result_records s' = result_records s @ [r]) \<or>
    (\<exists>old. row_by rr_run_id (rr_run_id r) (result_records s) = Some old \<and> s' = s \<and> rr_verdict old = rr_verdict r \<and>
       rr_manifest_digest old = rr_manifest_digest r)"
  using assms by (auto simp: InsertRecord_def insert_result_record_def insert_outbox_item_def bind_res_Inr_iff split: if_splits option.splits)

text \<open>The verdicts the policy produces never make a record eligible for a campaign.\<close>

lemma verdicts_not_eligible:
  "rr_verdict r \<in> {''VERIFIED'', ''AUTHENTICATED_BUT_SUSPICIOUS'', ''SUSPICIOUS'', ''KNOWN_MALICIOUS'', ''INDETERMINATE''} \<Longrightarrow> \<not> campaignEligible r"
  by (auto simp: campaignEligible_def)

section \<open>Example\<close>

definition example_result :: "string \<Rightarrow> time \<Rightarrow> result_record" where
  "example_result run at = \<lparr>rr_run_id = run, rr_delivery_id = ''d1'', rr_submitter_id = None, rr_occurred_at = at, rr_verdict = ''VERIFIED'',
     rr_policy_version = ''v1'', rr_schema_version = ''s'', rr_auth_scope = ''local_ingress'', rr_selected_subject_status = ''selected'',
     rr_unavailable_analyzers = 0, rr_risk_summary = [], rr_category_summary = [], rr_manifest_digest = ''m'', rr_manifest_path = ''p'',
     rr_source_artifact_digests = [], rr_created_at = at\<rparr>"

definition example_position :: "string \<Rightarrow> cursor" where
  "example_position run = \<lparr>cu_At = 5, cu_ID = run, cu_Exp = 86400, cu_Kind = ''result''\<rparr>"

definition example_repo :: repository where
  "example_repo = \<lparr>CursorKey = replicate 32 (CHR ''k''), repo_Now = 0,
     cursor_of = (\<lambda>b. if b = cursor_json (example_position ''a'') then Some (example_position ''a'') else Some (example_position ''bb'')),
     repo_crypto = \<lparr>sha256 = (\<lambda>s. s), hmac = (\<lambda>k s. replicate 32 (CHR ''m''))\<rparr>\<rparr>"

lemma example_lengths: "length (show_int 5) = 1" "length (show_int 86400) = 5"
  by (simp_all add: show_int_def show_nat.simps)

lemma example_positions: "cursor_json (example_position ''bb'') \<noteq> cursor_json (example_position ''a'')"
proof -
  have "length (cursor_json (example_position ''bb'')) \<noteq> length (cursor_json (example_position ''a''))"
    by (simp add: cursor_json_def example_position_def json_object_def json_string_def json_char_def example_lengths)
  then show ?thesis by metis
qed

theorem Results_complete_witness:
  "\<exists>s. length (result_records s) = 2 \<and>
     follow (\<lambda>raw. Results example_repo (no_filter\<lparr>fl_Limit := 1, fl_Cursor := raw\<rparr>) s) 3 [] =
       Some [example_result ''bb'' 5, example_result ''a'' 5]"
proof -
  let ?s = "(Migrate 0)\<lparr>result_records := [example_result ''a'' 5, example_result ''bb'' 5]\<rparr>" and ?f = "no_filter\<lparr>fl_Limit := 1\<rparr>"
  have rows: "filter (result_matches ?f) (result_records ?s) = [example_result ''a'' 5, example_result ''bb'' 5]"
    by (simp add: result_matches_def no_filter_def when_set_def in_range_def)
  have size: "page_size example_repo ?f > 0"
    by (simp add: page_size_def repo_validate_def example_repo_def no_filter_def MaxPageSize_def)
  have ok: "cursor_ok example_repo ''result'' (5, ''a'')" "cursor_ok example_repo ''result'' (5, ''bb'')"
    using example_positions by (simp_all add: cursor_ok_def example_repo_def Let_def example_position_def)
  have len: "length (enc_cursor example_repo ''result'' (5, ''a'')) \<le> 1024" "length (enc_cursor example_repo ''result'' (5, ''bb'')) \<le> 1024"
    by (simp_all add: enc_cursor_def cursorFor_def Let_def length_b64_encode example_repo_def cursor_json_def json_object_def json_string_def
        json_char_def example_lengths)
  have "listing_ready ''result'' result_key example_repo ?f (filter (result_matches ?f) (result_records ?s))"
    unfolding rows listing_ready_def list_ready_def using size ok len by (simp add: example_result_def)
  note c = Results_complete [OF this, unfolded rows]
  have sorted: "rev (sort_key result_key [example_result ''a'' 5, example_result ''bb'' 5]) = [example_result ''bb'' 5, example_result ''a'' 5]"
    by (simp add: example_result_def)
  have three: "Suc (length [example_result ''a'' 5, example_result ''bb'' 5]) = 3" by simp
  have "length (result_records ?s) = 2" by simp
  with c [unfolded sorted three] show ?thesis by (intro exI [of _ ?s] conjI)
qed

end
