(* ===== verification/Intel.thy ===== *)
theory Intel
  imports Campaign Report Results
begin

text \<open>
  \<open>internal/intel\<close>: the projector that turns signed campaign evidence into campaigns. It leases
  outbox rows, reads and verifies the report bundle of each (\<open>verified.go\<close>), stores indicators and
  strong grouping keys, and rebuilds the campaigns from the connected components of theory
  \<open>Campaign\<close> (\<open>projector.go\<close>). The order in which Go iterates over \<open>runKeys\<close> is the parameter
  \<open>order\<close>; the maps of \<open>strongKeys\<close> are only used to collect values that are sorted afterwards.
  \<open>Normalize\<close> and its helpers (\<open>indicators.go\<close>), which no command calls, are in theory \<open>Indicators\<close>.
\<close>

section \<open>Indicators and strong keys\<close>

record indicator =
  i_Type :: string
  i_Value :: string
  i_Digest :: string
  i_KeyID :: string
  i_Version :: string
  i_Source :: string

definition NormalizationVersion :: string where "NormalizationVersion = ''campaign-indicators/v1''"

definition NUL :: char where "NUL = CHR 0x00"

definition make_indicator :: "crypto \<Rightarrow> string \<Rightarrow> string \<Rightarrow> string \<Rightarrow> string \<Rightarrow> indicator" where
  "make_indicator cr kind value kid source = \<lparr>i_Type = kind, i_Value = value,
     i_Digest = hex_encode (sha256 cr (kind @ [NUL] @ value)), i_KeyID = kid, i_Version = NormalizationVersion, i_Source = source\<rparr>"

record intel_result =
  ir_Indicators :: "indicator list"
  ir_Truncated :: "string \<rightharpoonup> int"
  ir_Unavailable :: "string \<rightharpoonup> string"

definition IndicatorsFromVerifiedEnvelope :: "crypto \<Rightarrow> campaign_evidence \<Rightarrow> intel_result" where
  "IndicatorsFromVerifiedEnvelope cr v = (case ce_Validate v of
       Inl _ \<Rightarrow> \<lparr>ir_Indicators = [], ir_Truncated = Map.empty, ir_Unavailable = [''evidence'' \<mapsto> ''invalid_signed_evidence'']\<rparr>
     | Inr _ \<Rightarrow> \<lparr>ir_Indicators = map (\<lambda>(t, x). make_indicator cr t x (ce_KeyID v) (ce_SourceArtifactDigest v)) (ce_Indicators v),
         ir_Truncated = Map.empty ++ map_of (rev (ce_Truncation v)), ir_Unavailable = Map.empty ++ map_of (rev (ce_Availability v))\<rparr>)"

definition groupingDigest :: "crypto \<Rightarrow> string \<Rightarrow> string \<Rightarrow> string" where
  "groupingDigest cr rule value = hex_encode (sha256 cr (rule @ [NUL] @ value))"

fun compactGroupingKeys :: "(string \<times> string) list \<Rightarrow> (string \<times> string) list" where
  "compactGroupingKeys [] = []"
| "compactGroupingKeys [k] = [k]"
| "compactGroupingKeys (k # k' # ks) = (if k' = k then compactGroupingKeys (k # ks) else k # compactGroupingKeys (k' # ks))"

definition direct_keys :: "crypto \<Rightarrow> indicator list \<Rightarrow> (string \<times> string) list" where
  "direct_keys cr vs = concat (map (\<lambda>v.
     if i_Type v = ''attachment_sha256'' then [(''attachment-sha256'', groupingDigest cr ''attachment-sha256'' (i_Value v))]
     else if i_Type v = ''risky_landing_domain'' \<or> i_Type v = ''redirect_domain'' then [(''risky-domain'', groupingDigest cr ''risky-domain'' (i_Value v))]
     else []) vs)"

definition sender_domains :: "crypto \<Rightarrow> indicator list \<Rightarrow> string list" where
  "sender_domains cr vs = remdups (map (\<lambda>v. groupingDigest cr ''sender-domain'' (i_Value v))
     (filter (\<lambda>v. i_Type v = ''selected_from_domain'' \<or> i_Type v = ''dkim_domain'') vs))"

definition subject_prints :: "crypto \<Rightarrow> indicator list \<Rightarrow> string list" where
  "subject_prints cr vs = remdups (map (\<lambda>v. groupingDigest cr ''subject-fingerprint'' (i_Value v))
     (filter (\<lambda>v. i_Type v = ''subject_fingerprint'') vs))"

definition strongKeys :: "crypto \<Rightarrow> indicator list \<Rightarrow> (string \<times> string) list" where
  "strongKeys cr vs =
     compactGroupingKeys (sort_key (\<lambda>(rule, value). rule @ [NUL] @ value)
       (direct_keys cr vs @ concat (map (\<lambda>d. map (\<lambda>s. (''sender-subject'', d @ '':'' @ s))
          (filter (\<lambda>s. d \<noteq> [] \<and> s \<noteq> []) (subject_prints cr vs))) (sender_domains cr vs))))"

section \<open>Verified evidence\<close>

definition ReadVerifiedCampaignEvidence ::
  "crypto \<Rightarrow> bundle_env \<Rightarrow> string \<Rightarrow> string \<Rightarrow> string list \<Rightarrow> files \<Rightarrow> campaign_evidence res" where
  "ReadVerifiedCampaignEvidence cr env bundle expected trusted fs =
     (case fs (path_Join [bundle, ''manifest.json'']) of None \<Rightarrow> Inl (Err ''missing signed campaign evidence'')
      | Some manifest \<Rightarrow>
          if expected = [] \<or> \<not> EqualFold expected (hex_encode (sha256 cr manifest)) then Inl (Err ''manifest digest mismatch'')
          else if \<not> vf_Valid (VerifyBundle cr env bundle trusted fs) then Inl (Err ''unverified report bundle'')
          else (case fs (path_Join [bundle, ''report.json'']) of None \<Rightarrow> Inl (Err ''open report.json'')
            | Some raw \<Rightarrow> (case document_of env raw of None \<Rightarrow> Inl (Err ''missing signed campaign evidence'')
              | Some doc \<Rightarrow>
                  if doc_Schema doc \<noteq> report_Schema then Inl (Err ''missing signed campaign evidence'')
                  else (case in_CampaignEvidence (doc_Input doc) of None \<Rightarrow> Inl (Err ''missing signed campaign evidence'')
                    | Some e \<Rightarrow> (case ce_Validate e of Inl _ \<Rightarrow> Inl (Err ''invalid signed campaign evidence'') | Inr _ \<Rightarrow> Inr e)))))"

section \<open>The projection of one run\<close>

definition insert_or_ignore :: "('r \<Rightarrow> 'k) \<Rightarrow> 'r \<Rightarrow> 'r list \<Rightarrow> 'r list" where
  "insert_or_ignore k row t = (if fresh k row t then t @ [row] else t)"

definition indicator_key :: "run_indicator \<Rightarrow> string \<times> string \<times> string \<times> string \<times> string" where
  "indicator_key r = (ri_projection_version r, ri_run_id r, ri_type r, ri_digest r, ri_key_id r)"

definition edge_key :: "grouping_edge \<Rightarrow> string \<times> string \<times> string" where
  "edge_key e = (ge_projection_version e, ge_run_id e, ge_key e)"

definition projected_key :: "projected_run \<Rightarrow> string \<times> string" where
  "projected_key p = (ip_projection_version p, ip_run_id p)"

definition member_id :: "campaign_member \<Rightarrow> string \<times> string \<times> string" where
  "member_id m = (cm_projection_version m, cm_campaign_id m, cm_run_id m)"

definition campaign_id :: "campaign_projection \<Rightarrow> string \<times> string" where
  "campaign_id c = (cp_projection_version c, cp_campaign_id c)"

definition persist :: "crypto \<Rightarrow> string \<Rightarrow> string \<Rightarrow> campaign_evidence \<Rightarrow> time \<Rightarrow> db \<Rightarrow> db res" where
  "persist cr version run envelope now s =
     bind_res (ce_Validate envelope) (\<lambda>_.
     let is = ir_Indicators (IndicatorsFromVerifiedEnvelope cr envelope) in
     check_all [(''intel_projected_runs.run_id'', parent run r_run_id (runs s))] (s\<lparr>
       run_indicators := fold (\<lambda>i. insert_or_ignore indicator_key \<lparr>ri_projection_version = version, ri_run_id = run, ri_type = i_Type i,
           ri_value = i_Value i, ri_digest = i_Digest i, ri_key_id = i_KeyID i, ri_normalization_version = i_Version i,
           ri_source_artifact_digest = i_Source i, ri_created_at = now\<rparr>) is (run_indicators s),
       intel_projected_runs := insert_or_ignore projected_key
           \<lparr>ip_projection_version = version, ip_run_id = run, ip_projected_at = now\<rparr> (intel_projected_runs s),
       run_grouping_edges := fold (\<lambda>(rule, value). insert_or_ignore edge_key \<lparr>ge_projection_version = version, ge_run_id = run,
           ge_key = value, ge_rule_id = rule, ge_created_at = now\<rparr>) (strongKeys cr is) (run_grouping_edges s)\<rparr>))"

section \<open>Campaigns\<close>

definition version_edges :: "string \<Rightarrow> db \<Rightarrow> edges" where
  "version_edges version s = sort (map (\<lambda>e. (ge_run_id e, ge_key e))
     (filter (\<lambda>e. ge_projection_version e = version) (run_grouping_edges s)))"

text \<open>The keys of \<open>runKeys\<close>: the projected runs and the runs of the edges.\<close>

definition version_runs :: "string \<Rightarrow> db \<Rightarrow> string set" where
  "version_runs version s = ip_run_id ` {p \<in> set (intel_projected_runs s). ip_projection_version p = version} \<union>
     fst ` set (version_edges version s)"

definition campaignID :: "crypto \<Rightarrow> string \<Rightarrow> string \<Rightarrow> string \<Rightarrow> string" where
  "campaignID cr key version name = hex_encode (take 16 (hmac cr key (version @ [NUL] @ name)))"

definition component_name :: "string list \<times> string list \<Rightarrow> string" where
  "component_name c = (case c of (rs, keys) \<Rightarrow> if keys \<noteq> [] then hd keys else ''singleton:'' @ hd rs)"

fun add_members :: "string \<Rightarrow> string \<Rightarrow> string list \<Rightarrow> time \<times> time \<Rightarrow> db \<Rightarrow> ((time \<times> time) \<times> db) res" where
  "add_members version cid [] seen s = Inr (seen, s)"
| "add_members version cid (r # rs) (lo, hi) s = (case row_by rr_run_id r (result_records s) of
     None \<Rightarrow> Inl NoRows
   | Some rec \<Rightarrow> let at = rr_occurred_at rec in
       if \<not> parent r r_run_id (runs s) then Inl (Constraint ''campaign_members.run_id'')
       else add_members version cid rs (min lo at, max hi at)
         (s\<lparr>campaign_members := insert_or_ignore member_id \<lparr>cm_projection_version = version, cm_campaign_id = cid,
              cm_run_id = r, cm_occurred_at = at\<rparr> (campaign_members s)\<rparr>))"

definition upsert_campaign :: "campaign_projection \<Rightarrow> campaign_projection list \<Rightarrow> campaign_projection list" where
  "upsert_campaign row t =
     (if fresh campaign_id row t then t @ [row]
      else sql_update (\<lambda>c. campaign_id c = campaign_id row) (\<lambda>c. c\<lparr>cp_component_key := cp_component_key row, cp_active := True,
        cp_superseded_by := [], cp_first_seen := cp_first_seen row, cp_last_seen := cp_last_seen row, cp_hit_count := cp_hit_count row\<rparr>) t)"

definition supersede :: "string \<Rightarrow> string \<Rightarrow> string \<Rightarrow> db \<Rightarrow> db" where
  "supersede version cid run s = s\<lparr>campaign_projections := sql_update (\<lambda>c. cp_projection_version c = version \<and>
       cp_campaign_id c \<in> cm_campaign_id ` {m \<in> set (campaign_members s). cm_projection_version m = version \<and> cm_run_id m = run} \<and>
       cp_campaign_id c \<noteq> cid \<and> \<not> cp_active c \<and> cp_superseded_by c = [])
     (\<lambda>c. c\<lparr>cp_superseded_by := cid\<rparr>) (campaign_projections s)\<rparr>"

definition write_component :: "crypto \<Rightarrow> string \<Rightarrow> string \<Rightarrow> time \<Rightarrow> string list \<times> string list \<Rightarrow> db \<Rightarrow> db res" where
  "write_component cr key version now c s =
     (let name = component_name c; cid = campaignID cr key version name in
      bind_res (add_members version cid (fst c) (now, now) s) (\<lambda>((lo, hi), s1).
      Inr (fold (supersede version cid) (fst c) (s1\<lparr>campaign_projections := upsert_campaign \<lparr>cp_projection_version = version,
         cp_campaign_id = cid, cp_component_key = name, cp_active = True, cp_superseded_by = [], cp_first_seen = lo,
         cp_last_seen = hi, cp_hit_count = length (fst c), cp_created_at = now\<rparr> (campaign_projections s1)\<rparr>))))"

fun write_components :: "crypto \<Rightarrow> string \<Rightarrow> string \<Rightarrow> time \<Rightarrow> (string list \<times> string list) list \<Rightarrow> db \<Rightarrow> db res" where
  "write_components cr key version now [] s = Inr s"
| "write_components cr key version now (c # cs) s = bind_res (write_component cr key version now c s) (write_components cr key version now cs)"

definition RebuildComponents :: "crypto \<Rightarrow> string \<Rightarrow> string \<Rightarrow> string list \<Rightarrow> time \<Rightarrow> db \<Rightarrow> db res" where
  "RebuildComponents cr key version order now s =
     write_components cr key version now (components (version_edges version s) order {})
       (s\<lparr>campaign_projections := sql_update (\<lambda>c. cp_projection_version c = version \<and> cp_active c) (\<lambda>c. c\<lparr>cp_active := False\<rparr>) (campaign_projections s)\<rparr>)"

section \<open>The outbox\<close>

definition safeBundlePath :: "string \<Rightarrow> string \<Rightarrow> string \<Rightarrow> string option" where
  "safeBundlePath root manifestPath run =
     (if Clean manifestPath \<noteq> path_Join [''runs'', run, ''report'', ''manifest.json''] then None
      else Some (path_Join [root, ''runs'', run, ''report'']))"

definition finish :: "string \<Rightarrow> string \<Rightarrow> string \<Rightarrow> time \<Rightarrow> db \<Rightarrow> db" where
  "finish run state reason now s = s\<lparr>intel_projection_outbox := sql_update (\<lambda>i. io_run_id i = run)
     (\<lambda>i. i\<lparr>io_state := state, io_reason_code := reason, io_lease_owner := [], io_lease_until := 0,
        io_completed_at := (if state = ''complete'' \<or> state = ''terminal'' then Some now else None)\<rparr>) (intel_projection_outbox s)\<rparr>"

definition outbox_due :: "time \<Rightarrow> outbox_item \<Rightarrow> bool" where
  "outbox_due now i = (io_state i = ''pending'' \<or> (io_state i = ''retryable'' \<and> io_not_before i \<le> now) \<or>
     (io_state i = ''leased'' \<and> io_lease_until i < now))"

definition claim_outbox :: "string \<Rightarrow> nat \<Rightarrow> time \<Rightarrow> db \<Rightarrow> outbox_item list \<times> db" where
  "claim_outbox owner batch now s =
     (let ids = map io_run_id (take batch (sort_key io_created_at (filter (outbox_due now) (intel_projection_outbox s))));
          t = sql_update (\<lambda>i. io_run_id i \<in> set ids) (\<lambda>i. i\<lparr>io_state := ''leased'', io_lease_owner := owner,
            io_lease_until := now + 30, io_attempts := io_attempts i + 1\<rparr>) (intel_projection_outbox s) in
      (filter (\<lambda>i. io_run_id i \<in> set ids) t, s\<lparr>intel_projection_outbox := t\<rparr>))"

record projector =
  pj_Artifacts :: string
  pj_Trusted :: "string list"
  pj_CampaignKey :: string
  pj_PolicyVersion :: string

definition intel_PolicyVersion :: string where "intel_PolicyVersion = ''campaign-components/v1''"

definition project_item :: "crypto \<Rightarrow> bundle_env \<Rightarrow> files \<Rightarrow> projector \<Rightarrow> string \<Rightarrow> time \<Rightarrow> outbox_item \<Rightarrow> db \<Rightarrow> db" where
  "project_item cr env fs p version now i s = (case safeBundlePath (pj_Artifacts p) (io_manifest_path i) (io_run_id i) of
       None \<Rightarrow> finish (io_run_id i) ''terminal'' ''invalid_manifest_path'' now s
     | Some bundle \<Rightarrow> (case ReadVerifiedCampaignEvidence cr env bundle (io_manifest_digest i) (pj_Trusted p) fs of
         Inl _ \<Rightarrow> finish (io_run_id i) ''terminal'' ''unverified_evidence'' now s
       | Inr evidence \<Rightarrow> (case persist cr version (io_run_id i) evidence now s of
           Inl _ \<Rightarrow> finish (io_run_id i) ''retryable'' ''projection_failed'' now s
         | Inr s' \<Rightarrow> finish (io_run_id i) ''complete'' [] now s')))"

definition Intel_ProjectOnce ::
  "crypto \<Rightarrow> bundle_env \<Rightarrow> files \<Rightarrow> projector \<Rightarrow> string \<Rightarrow> int \<Rightarrow> time \<Rightarrow> string list \<Rightarrow> time \<Rightarrow> db \<Rightarrow> nat res \<times> db" where
  "Intel_ProjectOnce cr env fs p owner batch now order rebuilt_at s =
     (if pj_Artifacts p = [] \<or> pj_Trusted p = [] \<or> length (pj_CampaignKey p) < 32 \<or> batch < 1 \<or> batch > 25
      then (Inl (Err ''invalid intel projector configuration''), s)
      else let version = (if pj_PolicyVersion p = [] then intel_PolicyVersion else pj_PolicyVersion p);
               (items, s1) = claim_outbox owner (nat batch) now s;
               s2 = fold (project_item cr env fs p version now) items s1 in
        if items = [] then (Inr 0, s2)
        else case RebuildComponents cr (pj_CampaignKey p) version order rebuilt_at s2 of
            Inl e \<Rightarrow> (Inl e, s2)
          | Inr s3 \<Rightarrow> (Inr (length items), s3))"

section \<open>What a rebuild leaves\<close>

text \<open>The active campaigns of a version, and its memberships.\<close>

definition active_campaigns :: "string \<Rightarrow> db \<Rightarrow> (string \<times> string \<times> nat) set" where
  "active_campaigns version s = (\<lambda>c. (cp_campaign_id c, cp_component_key c, cp_hit_count c)) `
     {c \<in> set (campaign_projections s). cp_projection_version c = version \<and> cp_active c}"

definition memberships :: "string \<Rightarrow> db \<Rightarrow> (string \<times> string) set" where
  "memberships version s = (\<lambda>m. (cm_campaign_id m, cm_run_id m)) ` {m \<in> set (campaign_members s). cm_projection_version m = version}"

lemma memberships_insert:
  "memberships version (s\<lparr>campaign_members := insert_or_ignore member_id \<lparr>cm_projection_version = version, cm_campaign_id = cid,
     cm_run_id = r, cm_occurred_at = at\<rparr> (campaign_members s)\<rparr>) = insert (cid, r) (memberships version s)"
proof (cases "fresh member_id \<lparr>cm_projection_version = version, cm_campaign_id = cid, cm_run_id = r, cm_occurred_at = at\<rparr> (campaign_members s)")
  case True
  have "{m \<in> set (t @ [x]). cm_projection_version m = version} = insert x {m \<in> set t. cm_projection_version m = version}"
    if "cm_projection_version x = version" for t and x :: campaign_member
    using that by auto
  with True show ?thesis by (simp add: memberships_def insert_or_ignore_def)
next
  case False
  then obtain m where m: "m \<in> set (campaign_members s)" "member_id m = (version, cid, r)"
    by (auto simp: fresh_def member_id_def)
  then have "(cid, r) \<in> memberships version s" unfolding memberships_def member_id_def by (intro image_eqI [of _ _ m]) auto
  with False show ?thesis by (simp add: insert_or_ignore_def insert_absorb memberships_def)
qed

lemma add_members_Inr:
  assumes "add_members version cid rs seen s = Inr (seen', s')"
  shows "memberships version s' = memberships version s \<union> Pair cid ` set rs"
    "s' = s\<lparr>campaign_members := campaign_members s'\<rparr>"
proof -
  have "memberships version s' = memberships version s \<union> Pair cid ` set rs \<and> (\<exists>t. s' = s\<lparr>campaign_members := t\<rparr>)"
    using assms
  proof (induction version cid rs seen s rule: add_members.induct)
    case (1 version cid seen s)
    then show ?case by (auto intro!: exI [of _ "campaign_members s"])
  next
    case (2 version cid r rs lo hi s)
    then obtain rec where rec: "row_by rr_run_id r (result_records s) = Some rec" "parent r r_run_id (runs s)"
      by (auto simp: Let_def split: option.splits if_splits)
    let ?s = "s\<lparr>campaign_members := insert_or_ignore member_id \<lparr>cm_projection_version = version, cm_campaign_id = cid,
              cm_run_id = r, cm_occurred_at = rr_occurred_at rec\<rparr> (campaign_members s)\<rparr>"
    have "add_members version cid rs (min lo (rr_occurred_at rec), max hi (rr_occurred_at rec)) ?s = Inr (seen', s')"
      using 2(2) rec by (simp add: Let_def)
    from 2(1) [OF rec(1) refl _ this] rec(2) show ?case by (auto simp: memberships_insert)
  qed
  then show "memberships version s' = memberships version s \<union> Pair cid ` set rs" "s' = s\<lparr>campaign_members := campaign_members s'\<rparr>"
    by auto
qed

lemma supersede_frame:
  "active_campaigns version (supersede version' cid r s) = active_campaigns version s"
  "campaign_members (supersede version' cid r s) = campaign_members s"
proof -
  let ?P = "\<lambda>c. cp_projection_version c = version' \<and>
       cp_campaign_id c \<in> cm_campaign_id ` {m \<in> set (campaign_members s). cm_projection_version m = version' \<and> cm_run_id m = r} \<and>
       cp_campaign_id c \<noteq> cid \<and> \<not> cp_active c \<and> cp_superseded_by c = []"
  have "{c \<in> set (sql_update ?P (\<lambda>c. c\<lparr>cp_superseded_by := cid\<rparr>) t). cp_projection_version c = version \<and> cp_active c} =
      {c \<in> set t. cp_projection_version c = version \<and> cp_active c}" for t
    by (auto simp: sql_update_def split: if_splits)
  from this [of "campaign_projections s"]
  show "active_campaigns version (supersede version' cid r s) = active_campaigns version s"
    unfolding active_campaigns_def supersede_def by simp
qed (simp add: supersede_def)

lemma fold_supersede_frame:
  "active_campaigns version (fold (supersede version' cid) rs s) = active_campaigns version s"
  "campaign_members (fold (supersede version' cid) rs s) = campaign_members s"
  by (induction rs arbitrary: s) (simp_all add: supersede_frame)

lemma image_sql_update:
  assumes "c \<in> set t" "P c" and "\<And>d. P d \<Longrightarrow> v (f d) = w \<and> A (f d)"
  shows "v ` {c \<in> set (sql_update P f t). A c} = insert w (v ` {d \<in> set t. A d \<and> \<not> P d})"
proof -
  have "{c \<in> set (sql_update P f t). A c} = f ` {d \<in> set t. P d} \<union> {d \<in> set t. A d \<and> \<not> P d}"
    using assms(3) by (auto simp: in_sql_update_iff)
  moreover have "v ` f ` {d \<in> set t. P d} = {w}" using assms by (auto simp: image_iff)
  ultimately show ?thesis by (simp add: image_Un)
qed

lemma upsert_active:
  assumes "cp_projection_version row = version" "cp_active row"
  shows "active_campaigns version (s\<lparr>campaign_projections := upsert_campaign row (campaign_projections s)\<rparr>) =
    insert (cp_campaign_id row, cp_component_key row, cp_hit_count row) {x \<in> active_campaigns version s. fst x \<noteq> cp_campaign_id row}"
proof (cases "fresh campaign_id row (campaign_projections s)")
  case True
  then have "cp_campaign_id c \<noteq> cp_campaign_id row" if "c \<in> set (campaign_projections s)" "cp_projection_version c = version" for c
    using that assms(1) by (force simp: fresh_def campaign_id_def)
  then have "{x \<in> active_campaigns version s. fst x \<noteq> cp_campaign_id row} = active_campaigns version s"
    unfolding active_campaigns_def by auto
  moreover have "{c \<in> set (t @ [row]). cp_projection_version c = version \<and> cp_active c} =
      insert row {c \<in> set t. cp_projection_version c = version \<and> cp_active c}" for t
    using assms by auto
  ultimately show ?thesis using True by (simp add: active_campaigns_def upsert_campaign_def)
next
  case False
  then obtain c where c: "c \<in> set (campaign_projections s)" "campaign_id c = campaign_id row" by (auto simp: fresh_def)
  let ?f = "\<lambda>c. c\<lparr>cp_component_key := cp_component_key row, cp_active := True, cp_superseded_by := [],
    cp_first_seen := cp_first_seen row, cp_last_seen := cp_last_seen row, cp_hit_count := cp_hit_count row\<rparr>"
  let ?v = "\<lambda>c. (cp_campaign_id c, cp_component_key c, cp_hit_count c)" and ?new = "(cp_campaign_id row, cp_component_key row, cp_hit_count row)"
  let ?A = "\<lambda>c. cp_projection_version c = version \<and> cp_active c"
  have same: "?v (?f d) = ?new \<and> ?A (?f d)" if "campaign_id d = campaign_id row" for d
    using that assms by (simp add: campaign_id_def)
  have other: "?A d \<Longrightarrow> campaign_id d \<noteq> campaign_id row \<longleftrightarrow> cp_campaign_id d \<noteq> cp_campaign_id row" for d
    using assms by (simp add: campaign_id_def)
  from image_sql_update [where P = "\<lambda>c. campaign_id c = campaign_id row" and v = ?v and A = ?A and f = ?f and w = ?new, OF c same] have "active_campaigns version (s\<lparr>campaign_projections := upsert_campaign row (campaign_projections s)\<rparr>) =
      insert ?new (?v ` {d \<in> set (campaign_projections s). ?A d \<and> campaign_id d \<noteq> campaign_id row})"
    using False by (simp add: active_campaigns_def upsert_campaign_def)
  moreover have "?v ` {d \<in> set (campaign_projections s). ?A d \<and> campaign_id d \<noteq> campaign_id row} =
      {x \<in> active_campaigns version s. fst x \<noteq> cp_campaign_id row}"
    unfolding active_campaigns_def using other by auto
  ultimately show ?thesis by simp
qed

lemma write_component_Inr:
  assumes "write_component cr key version now c s = Inr s'"
  defines "cid \<equiv> campaignID cr key version (component_name c)"
  shows "active_campaigns version s' = insert (cid, component_name c, length (fst c)) {x \<in> active_campaigns version s. fst x \<noteq> cid}"
    "memberships version s' = memberships version s \<union> Pair cid ` set (fst c)"
proof -
  obtain lo hi s1 where a: "add_members version cid (fst c) (now, now) s = Inr ((lo, hi), s1)"
    and s': "s' = fold (supersede version cid) (fst c) (s1\<lparr>campaign_projections := upsert_campaign \<lparr>cp_projection_version = version,
         cp_campaign_id = cid, cp_component_key = component_name c, cp_active = True, cp_superseded_by = [], cp_first_seen = lo,
         cp_last_seen = hi, cp_hit_count = length (fst c), cp_created_at = now\<rparr> (campaign_projections s1)\<rparr>)"
    using assms(1) by (auto simp: write_component_def Let_def cid_def bind_res_Inr_iff)
  note m = add_members_Inr [OF a]
  have "active_campaigns version s1 = active_campaigns version s" by (subst m(2)) (simp add: active_campaigns_def)
  then show "active_campaigns version s' = insert (cid, component_name c, length (fst c)) {x \<in> active_campaigns version s. fst x \<noteq> cid}"
    by (simp add: s' fold_supersede_frame upsert_active)
  have "memberships version s' = memberships version s1" by (simp add: s' memberships_def fold_supersede_frame)
  with m(1) show "memberships version s' = memberships version s \<union> Pair cid ` set (fst c)" by simp
qed

lemma write_components_Inr:
  assumes "write_components cr key version now cs s = Inr s'"
    and "distinct (map (\<lambda>c. campaignID cr key version (component_name c)) cs)"
  defines "cid \<equiv> \<lambda>c. campaignID cr key version (component_name c)"
  shows "active_campaigns version s' = (\<lambda>c. (cid c, component_name c, length (fst c))) ` set cs \<union>
      {x \<in> active_campaigns version s. fst x \<notin> cid ` set cs}"
    "memberships version s' = memberships version s \<union> (\<Union>c \<in> set cs. Pair (cid c) ` set (fst c))"
proof -
  have "active_campaigns version s' = (\<lambda>c. (cid c, component_name c, length (fst c))) ` set cs \<union>
      {x \<in> active_campaigns version s. fst x \<notin> cid ` set cs} \<and>
    memberships version s' = memberships version s \<union> (\<Union>c \<in> set cs. Pair (cid c) ` set (fst c))"
    using assms(1,2)
  proof (induction cs arbitrary: s)
    case (Cons c cs)
    then obtain s1 where s1: "write_component cr key version now c s = Inr s1" "write_components cr key version now cs s1 = Inr s'"
      by (auto simp: bind_res_Inr_iff)
    have d: "distinct (map cid cs)" "cid c \<notin> cid ` set cs" using Cons.prems(2) by (auto simp: cid_def)
    note w = write_component_Inr [OF s1(1), folded cid_def] and IH = Cons.IH [OF s1(2) d(1) [unfolded cid_def]]
    have "active_campaigns version s' = (\<lambda>c. (cid c, component_name c, length (fst c))) ` set (c # cs) \<union>
      {x \<in> active_campaigns version s. fst x \<notin> cid ` set (c # cs)}"
      using IH d(2) unfolding w(1) by (auto simp: cid_def)
    moreover have "memberships version s' = memberships version s \<union> (\<Union>c \<in> set (c # cs). Pair (cid c) ` set (fst c))"
      using IH unfolding w(2) by (auto simp: cid_def)
    ultimately show ?case by blast
  qed auto
  then show "active_campaigns version s' = (\<lambda>c. (cid c, component_name c, length (fst c))) ` set cs \<union>
      {x \<in> active_campaigns version s. fst x \<notin> cid ` set cs}"
    "memberships version s' = memberships version s \<union> (\<Union>c \<in> set cs. Pair (cid c) ` set (fst c))" by blast+
qed

text \<open>A rebuild succeeds when every run it visits is a stored run with a result.\<close>

definition recorded :: "db \<Rightarrow> string \<Rightarrow> bool" where
  "recorded s r = (r \<in> rr_run_id ` set (result_records s) \<and> parent r r_run_id (runs s))"

lemma add_members_total:
  assumes "\<forall>r \<in> set rs. recorded s r"
  shows "\<exists>seen' t. add_members version cid rs seen s = Inr (seen', s\<lparr>campaign_members := t\<rparr>)"
  using assms
proof (induction version cid rs seen s rule: add_members.induct)
  case (1 version cid seen s)
  show ?case by (intro exI [of _ seen] exI [of _ "campaign_members s"]) simp
next
  case (2 version cid r rs lo hi s)
  from 2(2) have "r \<in> rr_run_id ` set (result_records s)" and p: "parent r r_run_id (runs s)" by (simp_all add: recorded_def)
  then have "\<exists>x \<in> set (result_records s). rr_run_id x = r" by auto
  then obtain rec where rec: "row_by rr_run_id r (result_records s) = Some rec"
    by (cases "row_by rr_run_id r (result_records s)") (auto simp: row_by_def find_None_iff)
  let ?s = "s\<lparr>campaign_members := insert_or_ignore member_id \<lparr>cm_projection_version = version, cm_campaign_id = cid,
              cm_run_id = r, cm_occurred_at = rr_occurred_at rec\<rparr> (campaign_members s)\<rparr>"
  have rs: "\<forall>r \<in> set rs. recorded ?s r" using 2(2) by (simp add: recorded_def)
  have "\<exists>seen' t. add_members version cid rs (min lo (rr_occurred_at rec), max hi (rr_occurred_at rec)) ?s =
      Inr (seen', ?s\<lparr>campaign_members := t\<rparr>)"
    by (rule 2(1) [OF rec refl _ rs]) (simp add: p)
  with p show ?case by (simp add: rec Let_def)
qed

lemma write_component_total:
  assumes "\<forall>r \<in> set (fst c). recorded s r"
  shows "\<exists>s'. write_component cr key version now c s = Inr s' \<and> recorded s' = recorded s"
proof -
  obtain seen' t where "add_members version (campaignID cr key version (component_name c)) (fst c) (now, now) s =
      Inr (seen', s\<lparr>campaign_members := t\<rparr>)"
    using add_members_total [OF assms] by blast
  moreover have "recorded (fold (supersede version cid) rs s) = recorded s" for cid rs s
    by (induction rs arbitrary: s) (simp_all add: supersede_def recorded_def fun_eq_iff)
  ultimately show ?thesis by (cases seen') (simp add: write_component_def Let_def recorded_def fun_eq_iff)
qed

lemma write_components_total:
  assumes "\<forall>c \<in> set cs. \<forall>r \<in> set (fst c). recorded s r"
  shows "\<exists>s'. write_components cr key version now cs s = Inr s'"
  using assms
proof (induction cs arbitrary: s)
  case (Cons c cs)
  then obtain s1 where "write_component cr key version now c s = Inr s1" "recorded s1 = recorded s"
    using write_component_total [of c s] by (metis list.set_intros(1))
  with Cons show ?case by simp
qed simp

lemma RebuildComponents_total:
  assumes "\<forall>c \<in> set (components (version_edges version s) order {}). \<forall>r \<in> set (fst c). recorded s r"
  shows "\<exists>s'. RebuildComponents cr key version order now s = Inr s'"
  unfolding RebuildComponents_def by (rule write_components_total) (use assms in \<open>simp add: recorded_def\<close>)

text \<open>A campaign is named by a key of its component, and a key lies in one component only.\<close>

lemma key_component:
  assumes "k \<in> keys_of es (component es r)" "k \<in> keys_of es (component es r')"
  shows "component es r = component es r'"
proof -
  from assms obtain x y where x: "x \<in> component es r" "(x, k) \<in> set es" and y: "y \<in> component es r'" "(y, k) \<in> set es"
    by (auto simp: keys_of_def)
  then have "(x, y) \<in> links es" by (auto simp: links_def)
  then have "y \<in> component es x" by (auto simp: component_def)
  then show ?thesis using component_eq [OF x(1)] component_eq [OF y(1)] component_eq by blast
qed

lemma keyless_component:
  assumes "keys_of es (component es r) = {}"
  shows "component es r = {r}"
proof -
  have "closed es {r}" using assms component_refl [of r es] by (auto simp: closed_def links_def keys_of_def)
  then show ?thesis using component_least [of r "{r}" es] component_refl [of r es] by auto
qed

lemma finite_keys_of: "finite (keys_of es R)"
  by (rule finite_subset [of _ "snd ` set es"]) (force simp: keys_of_def)+

lemma component_name_cases:
  assumes "finite (component es r)"
  obtains "component_name (component_entry es (component es r)) \<in> keys_of es (component es r)"
  | "component es r = {r}" "component_name (component_entry es (component es r)) = ''singleton:'' @ r"
proof (cases "keys_of es (component es r) = {}")
  case True
  then show ?thesis using that(2) keyless_component [OF True] by (simp add: component_name_def component_entry_def)
next
  case False
  then have "sorted_list_of_set (keys_of es (component es r)) \<noteq> []" using finite_keys_of by simp
  moreover from hd_in_set [OF this] have "hd (sorted_list_of_set (keys_of es (component es r))) \<in> keys_of es (component es r)"
    using finite_keys_of by simp
  ultimately show ?thesis using that(1) by (simp add: component_name_def component_entry_def)
qed

text \<open>The names campaigns of a version can have.\<close>

definition plain_keys :: "edges \<Rightarrow> bool" where
  "plain_keys es = (\<forall>k \<in> snd ` set es. take 10 k \<noteq> ''singleton:'')"

lemma plain_keysD:
  assumes "plain_keys es"
  shows "''singleton:'' @ r \<notin> keys_of es R"
proof
  assume "''singleton:'' @ r \<in> keys_of es R"
  then have "''singleton:'' @ r \<in> snd ` set es" by (force simp: keys_of_def)
  with assms have "take 10 (''singleton:'' @ r) \<noteq> ''singleton:''" unfolding plain_keys_def by blast
  then show False by simp
qed

definition names :: "edges \<Rightarrow> string \<Rightarrow> string set" where
  "names es r = insert (''singleton:'' @ r) (keys_of es (component es r))"

lemma names_inj:
  assumes "plain_keys es" "n \<in> names es r" "n \<in> names es r'"
  shows "component es r = component es r'"
  using assms key_component [of n es r r'] plain_keysD [of es] by (auto simp: names_def)

lemma component_name_in_names:
  assumes "finite (component es r)"
  shows "component_name (component_entry es (component es r)) \<in> names es r"
  using component_name_cases [OF assms] by (cases) (auto simp: names_def)

text \<open>When the identifiers do not collide, each names one component.\<close>

lemma campaign_ids:
  assumes plain: "plain_keys es" and inj: "inj_on cid (\<Union>r \<in> R. names es r)"
  shows "set order \<subseteq> R \<Longrightarrow> cid (component_name (component_entry es (component es r))) = cid n \<Longrightarrow> r \<in> set order \<Longrightarrow> r' \<in> R \<Longrightarrow>
      n \<in> names es r' \<Longrightarrow> component es r = component es r'"
    "set order \<subseteq> R \<Longrightarrow> distinct (map (\<lambda>c. cid (component_name c)) (components es order {}))"
proof -
  let ?e = "\<lambda>r. component_entry es (component es r)"
  let ?n = "\<lambda>r. component_name (?e r)" and ?cs = "components es order {}"
  note cs = components_set [OF closed_empty, where es = es and order = order, simplified Diff_empty]
  note inN = component_name_in_names [OF cs(3) [rule_format]]
  show same: "component es r = component es r'"
    if "set order \<subseteq> R" "cid (?n r) = cid n" "r \<in> set order" "r' \<in> R" "n \<in> names es r'" for r r' n
  proof -
    have "?n r = n" by (rule inj_onD [OF inj that(2)]) (use inN that in auto)
    then show ?thesis using names_inj [OF plain inN [OF that(3)]] that(5) by simp
  qed
  assume sub: "set order \<subseteq> R"
  have "inj_on (\<lambda>c. cid (component_name c)) (set ?cs)"
  proof (rule inj_onI)
    fix x y assume "x \<in> set ?cs" "y \<in> set ?cs" and eq: "cid (component_name x) = cid (component_name y)"
    then obtain r r' where r: "r \<in> set order" "x = ?e r" "r' \<in> set order" "y = ?e r'" by (auto simp: cs(1))
    from same [OF sub, of r "?n r'" r'] eq r inN sub show "x = y" by auto
  qed
  then show "distinct (map (\<lambda>c. cid (component_name c)) ?cs)" using cs(2) by (simp add: distinct_map)
qed

lemma sql_update_none: "(\<And>c. P c \<Longrightarrow> \<not> P (f c)) \<Longrightarrow> {c \<in> set (sql_update P f t). P c} = {}"
  by (auto simp: in_sql_update_iff)

lemma rebuild_start:
  "active_campaigns version (s\<lparr>campaign_projections := sql_update (\<lambda>c. cp_projection_version c = version \<and> cp_active c)
     (\<lambda>c. c\<lparr>cp_active := False\<rparr>) (campaign_projections s)\<rparr>) = {}"
  by (simp add: active_campaigns_def sql_update_none)

text \<open>
  C36: A rebuild makes the active campaigns exactly the connected components. Given the runs of the
  version in any order, when the rebuild succeeds there is one active campaign per component, named
  by its least key (or by its only run), with the number of its runs; and as long as the stored
  memberships were written by earlier rebuilds, whose keys still connect them, the members of an
  active campaign are exactly the runs of its component. Campaign identifiers are a keyed digest of
  the names, assumed not to collide on the names in use.
\<close>

theorem Rebuild_campaigns:
  assumes rb: "RebuildComponents cr key version order now s = Inr s'"
    and order: "set order = version_runs version s"
  defines "es \<equiv> version_edges version s" and "cid \<equiv> campaignID cr key version"
  assumes plain: "plain_keys es"
    and inj: "inj_on cid (\<Union>r \<in> version_runs version s \<union> snd ` memberships version s. names es r)"
    and mem: "\<forall>(c, r) \<in> memberships version s. c \<in> cid ` names es r"
  shows "active_campaigns version s' =
      (\<lambda>r. (cid (component_name (component_entry es (component es r))),
            component_name (component_entry es (component es r)), card (component es r))) ` version_runs version s \<and>
    (\<forall>r \<in> version_runs version s. {r'. (cid (component_name (component_entry es (component es r))), r') \<in> memberships version s'} = component es r)"
proof -
  let ?e = "\<lambda>r. component_entry es (component es r)"
  let ?n = "\<lambda>r. component_name (?e r)" and ?V = "version_runs version s" and ?cs = "components es order {}"
  let ?s = "s\<lparr>campaign_projections := sql_update (\<lambda>c. cp_projection_version c = version \<and> cp_active c)
     (\<lambda>c. c\<lparr>cp_active := False\<rparr>) (campaign_projections s)\<rparr>"
  have wr: "write_components cr key version now ?cs ?s = Inr s'"
    using rb by (simp add: RebuildComponents_def es_def)
  note cs = components_set [OF closed_empty, where es = es and order = order, simplified order Diff_empty]
  note same = campaign_ids(1) [OF plain inj, where order = order, unfolded order]
    and dist = campaign_ids(2) [OF plain inj, where order = order, unfolded order, OF Un_upper1]
    and inN = component_name_in_names [OF cs(3) [rule_format]]
  note w = write_components_Inr [OF wr dist [unfolded cid_def], folded cid_def]
  have card: "length (fst (?e r)) = card (component es r)" for r by (simp add: component_entry_def)
  have "active_campaigns version s' = (\<lambda>c. (cid (component_name c), component_name c, length (fst c))) ` set ?cs"
    using w(1) rebuild_start by simp
  moreover have "memberships version ?s = memberships version s" by (simp add: memberships_def)
  moreover have "{r'. (cid (?n r), r') \<in> memberships version s'} = component es r" if r: "r \<in> ?V" for r
  proof (rule set_eqI, rule iffI)
    fix x assume "x \<in> {r'. (cid (?n r), r') \<in> memberships version s'}"
    then consider (old) "(cid (?n r), x) \<in> memberships version s"
      | (new) r' where "r' \<in> ?V" "cid (?n r) = cid (?n r')" "x \<in> set (fst (?e r'))"
      using calculation(2) by (auto simp: w(2) cs(1))
    then show "x \<in> component es r"
    proof cases
      case old
      with mem obtain n where "n \<in> names es x" "cid (?n r) = cid n" by auto
      with same [of r n x] r old have "component es r = component es x" by force
      then show ?thesis by simp
    next
      case new
      with same [of r "?n r'" r'] r inN cs(3) show ?thesis by (simp add: component_entry_def)
    qed
  next
    fix x assume "x \<in> component es r"
    then have "x \<in> set (fst (?e r))" using cs(3) r by (simp add: component_entry_def)
    then have "(cid (?n r), x) \<in> memberships version s'" using r by (auto simp: w(2) cs(1))
    then show "x \<in> {r'. (cid (?n r), r') \<in> memberships version s'}" by simp
  qed
  ultimately show ?thesis by (simp add: cs(1) image_image card)
qed

definition example_crypto_intel :: crypto where "example_crypto_intel = \<lparr>sha256 = (\<lambda>s. s), hmac = (\<lambda>k s. s)\<rparr>"

definition example_intel_result :: "string \<Rightarrow> result_record" where
  "example_intel_result r = \<lparr>rr_run_id = r, rr_delivery_id = ''d'', rr_submitter_id = None, rr_occurred_at = 3, rr_verdict = ''PHISHING'',
     rr_policy_version = ''p'', rr_schema_version = ''s'', rr_auth_scope = ''a'', rr_selected_subject_status = ''x'',
     rr_unavailable_analyzers = 0, rr_risk_summary = [], rr_category_summary = [], rr_manifest_digest = ''m'',
     rr_manifest_path = ''mp'', rr_source_artifact_digests = [], rr_created_at = 3\<rparr>"

definition example_intel :: db where
  "example_intel = (Migrate 0)\<lparr>runs := [new_run ''a'' ''d'' 1, new_run ''b'' ''d'' 1],
     result_records := [example_intel_result ''a'', example_intel_result ''b''],
     run_grouping_edges := map (\<lambda>r. \<lparr>ge_projection_version = ''v'', ge_run_id = r, ge_key = ''k'', ge_rule_id = ''u'', ge_created_at = 2\<rparr>)
       [''a'', ''b'']\<rparr>"

lemma example_intel_facts:
  "version_edges ''v'' example_intel = [(''a'', ''k''), (''b'', ''k'')]"
  "version_runs ''v'' example_intel = {''a'', ''b''}" "memberships ''v'' example_intel = {}"
proof -
  show e: "version_edges ''v'' example_intel = [(''a'', ''k''), (''b'', ''k'')]"
    by (simp add: version_edges_def example_intel_def Migrate_def)
  show "version_runs ''v'' example_intel = {''a'', ''b''}"
    by (simp add: version_runs_def e) (simp add: example_intel_def Migrate_def insert_commute)
  show "memberships ''v'' example_intel = {}"
    by (simp add: memberships_def example_intel_def Migrate_def)
qed

lemma example_recorded: "recorded example_intel ''a''" "recorded example_intel ''b''"
  by (simp_all add: recorded_def example_intel_def Migrate_def example_intel_result_def new_run_def parent_def)

lemma example_components: "components [(''a'', ''k''), (''b'', ''k'')] [''b'', ''a''] {} = [([''a'', ''b''], [''k''])]"
  by (simp add: run_keys_def key_runs_def)

lemma example_cid_inj: "inj_on (campaignID example_crypto_intel [] ''v'') {n. length n \<le> 14}"
proof (rule inj_onI)
  fix x y assume l: "x \<in> {n. length n \<le> 14}" "y \<in> {n. length n \<le> 14}"
    and "campaignID example_crypto_intel [] ''v'' x = campaignID example_crypto_intel [] ''v'' y"
  then have "hex_encode (take 16 (''v'' @ [NUL] @ x)) = hex_encode (take 16 (''v'' @ [NUL] @ y))"
    by (simp add: campaignID_def example_crypto_intel_def)
  then have "take 16 (''v'' @ [NUL] @ x) = take 16 (''v'' @ [NUL] @ y)" by (metis hexc.dec_enc option.inject)
  with l show "x = y" by simp
qed

theorem Rebuild_campaigns_witness:
  "\<exists>s'. RebuildComponents example_crypto_intel [] ''v'' [''b'', ''a''] 9 example_intel = Inr s' \<and>
     active_campaigns ''v'' s' = {(campaignID example_crypto_intel [] ''v'' ''k'', ''k'', 2)} \<and>
     {r. (campaignID example_crypto_intel [] ''v'' ''k'', r) \<in> memberships ''v'' s'} = {''a'', ''b''}"
proof -
  let ?es = "[(''a'', ''k''), (''b'', ''k'')]"
  have "\<exists>s'. RebuildComponents example_crypto_intel [] ''v'' [''b'', ''a''] 9 example_intel = Inr s'"
    by (rule RebuildComponents_total) (simp only: example_intel_facts example_components, simp add: example_recorded)
  then obtain s' where s': "RebuildComponents example_crypto_intel [] ''v'' [''b'', ''a''] 9 example_intel = Inr s'" ..
  have "set (components ?es [''b'', ''a''] {}) = (\<lambda>r. component_entry ?es (component ?es r)) ` {''a'', ''b''}"
    using components_set(1) [OF closed_empty, where es = ?es and order = "[''b'', ''a'']"] by (simp add: insert_commute)
  then have "component_entry ?es (component ?es ''a'') = ([''a'', ''b''], [''k''])"
      "component_entry ?es (component ?es ''b'') = ([''a'', ''b''], [''k''])"
    by (simp_all only: example_components) auto
  moreover have "component ?es ''a'' = {''a'', ''b''}" "component ?es ''b'' = {''a'', ''b''}"
    using calculation components_set(3) [OF closed_empty, where es = ?es and order = "[''b'', ''a'']"]
    by (auto simp: component_entry_def dest!: arg_cong [where f = set])
  moreover have "(\<Union>r \<in> {''a'', ''b''}. names ?es r) \<subseteq> {n. length n \<le> 14}"
    by (auto simp: names_def keys_of_def)
  moreover have "plain_keys ?es" by (simp add: plain_keys_def)
  moreover have "{''b'', ''a''} = {''a'', ''b''}" by auto
  ultimately show ?thesis
    using Rebuild_campaigns [OF s'] s' inj_on_subset [OF example_cid_inj]
    by (simp add: example_intel_facts component_name_def)
qed

end
