(* ===== verification/Collector.thy ===== *)
theory Collector
  imports Admission Evidence
begin

text \<open>
  The collector: \<open>collectOnce\<close> of \<open>cmd/mailproof/main.go\<close> with the code it composes,
  \<open>internal/ingress/correlation.go\<close>, \<open>SelectedSubjectFrom\<close> of \<open>internal/admission/header.go\<close>,
  \<open>Project\<close> and \<open>SelectTopLevelRFC822\<close> of \<open>internal/evidence/projection.go\<close>, \<open>ReadHeaders\<close> of
  \<open>internal/artifact/store.go\<close> and \<open>internal/budget\<close>.

  What the mail parsers return is a parameter (\<open>mail_env\<close>): the entity go-message reads, the
  \<open>From\<close> values net/mail finds, the address net/mail parses. A Maildir entry is given by what the
  calls on it return. Every database operation of an entry commits on its own, so an error leaves
  the writes before it in place: an entry maps files and database to a result, files and database.
\<close>

section \<open>Budgets\<close>

record limits =
  MessageBytes :: int
  MIMEParts :: int
  MIMEDepth :: int
  DecodedPartBytes :: int
  ArchiveDepth :: int
  ExtractedFiles :: int
  ExtractionBytes :: int
  CompressionRatio :: int
  URLs :: int
  Redirects :: int
  FetchBytes :: int
  ToolStdoutBytes :: int
  ToolStderrBytes :: int
  AnalysisAttempts :: int
  ReportAttempts :: int
  ConnectTimeout :: int
  AnalyzerTimeout :: int
  WorkerLease :: int
  LeaseRenewal :: int

definition budget_Default :: limits where
  "budget_Default = \<lparr>MessageBytes = 50 * 1048576, MIMEParts = 1000, MIMEDepth = 30, DecodedPartBytes = 10 * 1048576, ArchiveDepth = 5,
     ExtractedFiles = 1000, ExtractionBytes = 250 * 1048576, CompressionRatio = 100, URLs = 100, Redirects = 5, FetchBytes = 5 * 1048576,
     ToolStdoutBytes = 1048576, ToolStderrBytes = 256 * 1024, AnalysisAttempts = 3, ReportAttempts = 3, ConnectTimeout = 10,
     AnalyzerTimeout = 60, WorkerLease = 300, LeaseRenewal = 60\<rparr>"

definition budget_Validate :: "limits \<Rightarrow> unit res" where
  "budget_Validate l =
     (if list_ex (\<lambda>v. v \<le> 0) [MessageBytes l, MIMEParts l, MIMEDepth l, DecodedPartBytes l, ArchiveDepth l, ExtractedFiles l,
        ExtractionBytes l, CompressionRatio l, URLs l, Redirects l, FetchBytes l, ToolStdoutBytes l, ToolStderrBytes l,
        AnalysisAttempts l, ReportAttempts l] then Inl (Err ''all budget limits must be positive'')
      else if DecodedPartBytes l > MessageBytes l \<or> ExtractionBytes l < DecodedPartBytes l then Inl (Err ''inconsistent budget hierarchy'')
      else if ConnectTimeout l \<le> 0 \<or> AnalyzerTimeout l \<le> 0 \<or> WorkerLease l \<le> 0 \<or> LeaseRenewal l \<le> 0 \<or> LeaseRenewal l \<ge> WorkerLease l
      then Inl (Err ''budget durations must be positive and renew before lease expiry'')
      else Inr ())"

lemma default_budget_valid: "budget_Validate budget_Default = Inr ()"
  by (simp add: budget_Validate_def budget_Default_def)

section \<open>Parsed mail\<close>

text \<open>
  A part of a multipart entity: its content type and its body (\<open>None\<close> when reading it fails). An
  entity: its header fields in order, its content type when it has a valid one, and its parts when
  \<open>MultipartReader\<close> gives a reader; a part \<open>Inl\<close> is an error of \<open>NextPart\<close>.
\<close>

record mime_part =
  mp_type :: string
  mp_body :: "string option"

record mime_entity =
  me_fields :: "(string \<times> string) list"
  me_type :: "string option"
  me_parts :: "mime_part res list option"

record mail_env =
  message_Read :: "string \<Rightarrow> mime_entity res"
  ReadMessage_From :: "string \<Rightarrow> string list option"
  ParseAddress :: "string \<Rightarrow> string option"
  env_ascii :: to_ascii

definition ErrSubjectFrom :: err where "ErrSubjectFrom = Err ''invalid selected subject From''"

definition SelectedSubjectFrom :: "mail_env \<Rightarrow> string \<Rightarrow> string res" where
  "SelectedSubjectFrom env message =
     (if message = [] \<or> length message > 65536 then Inl ErrSubjectFrom
      else case ReadMessage_From env message of
          Some [v] \<Rightarrow> (case ParseAddress env v of
              None \<Rightarrow> Inl ErrSubjectFrom
            | Some address \<Rightarrow> (case CanonicalAddress (env_ascii env) address of
                Inl _ \<Rightarrow> Inl ErrSubjectFrom | Inr canonical \<Rightarrow> Inr canonical))
        | _ \<Rightarrow> Inl ErrSubjectFrom)"

record subject_selection =
  ss_DeliveredDigest :: string
  ss_SubjectDigest :: string
  ss_PartPath :: string
  ss_Scope :: string
  ss_SelectionError :: string

record projection =
  pr_Headers :: "header list"
  pr_Received :: "string list"
  pr_AuthenticationResults :: "string list"
  pr_MessageID :: "string list"
  pr_Selection :: subject_selection

definition values_of :: "string \<Rightarrow> (string \<times> string) list \<Rightarrow> string list" where
  "values_of name fs = map snd (filter (\<lambda>f. ToLower (fst f) = name) fs)"

definition Project :: "mail_env \<Rightarrow> string \<Rightarrow> string \<Rightarrow> projection res" where
  "Project env delivered deliveredDigest = bind_res (message_Read env delivered) (\<lambda>e.
     let fs = me_fields e in
     Inr \<lparr>pr_Headers = map (\<lambda>(i, name, raw). \<lparr>h_Name = name, h_Raw = raw, h_Normalized = TrimSpace (Join '' '' (Fields raw)), h_Position = int i\<rparr>)
            (enumerate 0 fs),
          pr_Received = values_of ''received'' fs, pr_AuthenticationResults = values_of ''authentication-results'' fs,
          pr_MessageID = values_of ''message-id'' fs,
          pr_Selection = \<lparr>ss_DeliveredDigest = deliveredDigest, ss_SubjectDigest = [], ss_PartPath = [], ss_Scope = LocalIngress,
            ss_SelectionError = []\<rparr>\<rparr>)"

text \<open>The attached messages of a multipart entity, in order.\<close>

fun attached :: "mime_part res list \<Rightarrow> string list res" where
  "attached [] = Inr []"
| "attached (Inl e # ps) = Inl e"
| "attached (Inr p # ps) =
     (if EqualFold (mp_type p) ''message/rfc822'' then
        (case mp_body p of None \<Rightarrow> Inl (Err ''read attached message'')
         | Some b \<Rightarrow> bind_res (attached ps) (\<lambda>bs. Inr (b # bs)))
      else attached ps)"

definition SelectTopLevelRFC822 :: "crypto \<Rightarrow> mail_env \<Rightarrow> string \<Rightarrow> string \<Rightarrow> string \<Rightarrow> files \<Rightarrow> subject_selection res \<times> files" where
  "SelectTopLevelRFC822 cr env delivered deliveredDigest root fs =
     (let s = \<lparr>ss_DeliveredDigest = deliveredDigest, ss_SubjectDigest = [], ss_PartPath = [], ss_Scope = LocalIngress, ss_SelectionError = []\<rparr> in
      case message_Read env delivered of
        Inl e \<Rightarrow> (Inl e, fs)
      | Inr e \<Rightarrow> (case (me_type e, me_parts e) of
          (Some ct, Some ps) \<Rightarrow>
            if \<not> HasPrefix (ToLower ct) ''multipart/'' then (Inr s, fs)
            else (case attached ps of
                Inl e \<Rightarrow> (Inl e, fs)
              | Inr [] \<Rightarrow> (Inr s, fs)
              | Inr [b] \<Rightarrow>
                  let digest = hex_encode (sha256 cr b); target = message_path root digest in
                  (Inr (s\<lparr>ss_SubjectDigest := digest, ss_PartPath := ''1'', ss_Scope := Detached\<rparr>),
                   if fs target \<noteq> None then fs else fs(target \<mapsto> b))
              | Inr (_ # _ # _) \<Rightarrow> (Inr (s\<lparr>ss_Scope := [], ss_SelectionError := ''multiple_top_level_rfc822''\<rparr>), fs))
        | _ \<Rightarrow> (Inr s, fs)))"

section \<open>Correlation with the mail server's log\<close>

record correlation =
  co_QueueID :: string
  co_Status :: string
  co_TokenHash :: string

text \<open>\<open>bufio.Scanner\<close>: lines without their end, up to the first line that does not fit its buffer.\<close>

definition scan_lines :: "string \<Rightarrow> string list" where
  "scan_lines t =
     (let ls = Split (CHR 0x0A) t; ls = (if last ls = [] then butlast ls else ls) in
      map (\<lambda>l. if l \<noteq> [] \<and> last l = CHR 0x0D then butlast l else l) (takeWhile (\<lambda>l. length l < 65536) ls))"

fun scan_queue_id :: "string list \<Rightarrow> string" where
  "scan_queue_id [] = []"
| "scan_queue_id (line # rest) =
     (if line = [] then []
      else if HasPrefix line ''Received:'' \<and> Contains line ''postfix.mailproof.test'' then
        (case find (\<lambda>f. HasPrefix f ''id='') (Fields line) of None \<Rightarrow> [] | Some f \<Rightarrow> TrimPrefix f ''id='')
      else scan_queue_id rest)"

definition tokens_in :: "string list \<Rightarrow> string list" where
  "tokens_in ls = map (\<lambda>f. TrimPrefix f ''token='') (filter (\<lambda>f. HasPrefix f ''token='') (concat (map Fields ls)))"

definition Correlate :: "crypto \<Rightarrow> string \<Rightarrow> string list \<Rightarrow> (string \<rightharpoonup> string) \<Rightarrow> correlation" where
  "Correlate cr message logLines tokens =
     (let queueID = scan_queue_id (scan_lines message) in
      if queueID = [] then \<lparr>co_QueueID = [], co_Status = ''lost_coverage'', co_TokenHash = []\<rparr>
      else let matching = filter (\<lambda>l. Contains l (''queue_id='' @ queueID)) logLines;
               token = (if tokens_in matching = [] then [] else last (tokens_in matching)) in
        if length matching \<noteq> 1 then \<lparr>co_QueueID = queueID, co_Status = ''lost_coverage'', co_TokenHash = []\<rparr>
        else if tokens token = None then \<lparr>co_QueueID = queueID, co_Status = ''unknown_token'', co_TokenHash = []\<rparr>
        else \<lparr>co_QueueID = queueID, co_Status = ''correlated'', co_TokenHash = hex_encode (sha256 cr token)\<rparr>)"

section \<open>Collecting one Maildir entry\<close>

definition headerPrefix :: "string \<Rightarrow> string list" where
  "headerPrefix message = takeWhile (\<lambda>l. l \<noteq> [CHR 0x0D] \<and> l \<noteq> []) (Split (CHR 0x0A) message)"

text \<open>\<open>ReadHeaders\<close> on what a second opening of the source gives: whether it is a regular file, and its bytes.\<close>

definition ReadHeaders :: "int \<Rightarrow> (bool \<times> string) option \<Rightarrow> string res" where
  "ReadHeaders limit file =
     (if limit \<le> 0 then Inl (Err ''header limit must be positive'')
      else case file of None \<Rightarrow> Inl (Err ''open headers'')
        | Some (regular, data) \<Rightarrow> if \<not> regular then Inl ErrUnsafeSource else Inr (take (nat limit) data))"

definition when_nonempty :: "string \<Rightarrow> string \<Rightarrow> (string \<times> string) list" where
  "when_nonempty k v = (if v = [] then [] else [(k, json_string v)])"

definition ingress_json :: "string \<Rightarrow> string \<Rightarrow> string \<Rightarrow> correlation \<Rightarrow> string" where
  "ingress_json deliveryID digest sourceKey co = json_object
     ([(''schema'', json_string ''mailproof.ingress-context/v1''), (''delivery_id'', json_string deliveryID),
       (''message_digest'', json_string digest), (''source_maildir_key'', json_string sourceKey),
       (''correlation_status'', json_string (co_Status co))] @
      when_nonempty ''queue_id'' (co_QueueID co) @ when_nonempty ''token_hash'' (co_TokenHash co))"

definition publishIngress :: "string \<Rightarrow> string \<Rightarrow> string \<Rightarrow> string \<Rightarrow> correlation \<Rightarrow> files \<Rightarrow> files" where
  "publishIngress root deliveryID digest sourceKey co fs =
     (let target = path_Join [path_Join [root, ''deliveries'', deliveryID], ''ingress.json''] in
      if fs target \<noteq> None then fs else fs(target \<mapsto> ingress_json deliveryID digest sourceKey co @ [CHR 0x0A]))"

text \<open>
  An entry: its name, whether the directory lists it as neither link nor directory, what sealing and
  reopening it give, the two identifiers drawn for it and the readings of the clock.
\<close>

record maildir_entry =
  en_name :: string
  en_plain :: bool
  en_source :: "source option"
  en_reopened :: "(bool \<times> string) option"
  en_delivery_id :: string
  en_next_id :: string
  en_stamp_time :: time
  en_preflight_time :: time
  en_write_time :: time
  en_notify_time :: time

record collector_env =
  ck_crypto :: crypto
  ck_mail :: mail_env
  ck_source :: string
  ck_artifacts :: string
  ck_log :: "string list"
  ck_tokens :: "string \<rightharpoonup> string"
  ck_stamp_key :: "string option"
  ck_snapshot :: "policy_snapshot option"

type_synonym step_result = "unit res \<times> files \<times> db"

definition commits :: "files \<Rightarrow> db \<Rightarrow> db res \<Rightarrow> step_result" where
  "commits fs s r = (case r of Inl e \<Rightarrow> (Inl e, fs, s) | Inr s' \<Rightarrow> (Inr (), fs, s'))"

definition reject_and_notify :: "collector_env \<Rightarrow> maildir_entry \<Rightarrow> string \<Rightarrow> files \<Rightarrow> db \<Rightarrow> db res \<Rightarrow> step_result" where
  "reject_and_notify c en decisionID fs s r = (case r of
       Inl e \<Rightarrow> (Inl e, fs, s)
     | Inr s' \<Rightarrow> commits fs s' (EnqueueVerifiedRejectionNotification (ck_crypto c) decisionID (en_delivery_id en)
           (en_next_id en @ ''-notify'') (en_notify_time en) s'))"

text \<open>The part after the wrapper's sender has been accepted.\<close>

definition subject_entry ::
  "collector_env \<Rightarrow> maildir_entry \<Rightarrow> string \<Rightarrow> string \<Rightarrow> decision \<Rightarrow> report_destination \<Rightarrow> files \<Rightarrow> db \<Rightarrow> step_result" where
  "subject_entry c en sourceKey digest d destination fs s = (case fs (message_path (ck_artifacts c) digest) of
       None \<Rightarrow> (Inl (Err ''read sealed delivery''), fs, s)
     | Some sealed \<Rightarrow> (case SelectTopLevelRFC822 (ck_crypto c) (ck_mail c) sealed digest (ck_artifacts c) fs of
         (Inl e, fs1) \<Rightarrow> (Inl e, fs1, s)
       | (Inr sel, fs1) \<Rightarrow>
           if ss_SelectionError sel \<noteq> [] then
             commits fs1 s (RecordAdmittedRejectedCollection (ck_crypto c) (en_delivery_id en) digest sourceKey (en_next_id en)
               ''selected_subject_ambiguous'' destination (en_write_time en) s)
           else let subject = (if ss_SubjectDigest sel = [] then digest else ss_SubjectDigest sel) in
             (case fs1 (message_path (ck_artifacts c) subject) of
               None \<Rightarrow> (Inl (Err ''read sealed selected subject''), fs1, s)
             | Some selected \<Rightarrow>
                 let from = SelectedSubjectFrom (ck_mail c) selected;
                     pf = Preflight (env_ascii (ck_mail c)) (ck_snapshot c) (case from of Inl _ \<Rightarrow> [] | Inr a \<Rightarrow> a) [] (en_preflight_time en) in
                 if isl from \<or> \<not> pf_Allowed pf then
                   reject_and_notify c en (dec_ID d) fs1 s (RecordAdmittedRejectedCollectionWithPolicyRule (ck_crypto c) (en_delivery_id en) digest
                     sourceKey (en_next_id en) ''selected_subject_sender_denied'' destination (pf_PolicyVersion pf) (pf_RuleID pf) (en_write_time en) s)
                 else commits fs1 s (EnqueueAdmittedCollection (ck_crypto c) (en_delivery_id en) digest sourceKey (en_next_id en)
                   destination (en_write_time en) s))))"

definition admitted_entry ::
  "collector_env \<Rightarrow> maildir_entry \<Rightarrow> string \<Rightarrow> string \<Rightarrow> string \<Rightarrow> decision \<Rightarrow> files \<Rightarrow> db \<Rightarrow> step_result" where
  "admitted_entry c en sourceKey digest message d fs s = (case SnapshotReportDestination (dec_SubmitterID d) s of
       Inl e \<Rightarrow> (Inl e, fs, s)
     | Inr destination \<Rightarrow>
         if SelectedSubjectFrom (ck_mail c) message \<noteq> Inr (dec_Envelope d) then
           reject_and_notify c en (dec_ID d) fs s (RecordAdmittedRejectedCollection (ck_crypto c) (en_delivery_id en) digest sourceKey
             (en_next_id en) ''wrapper_sender_invalid'' destination (en_write_time en) s)
         else subject_entry c en sourceKey digest d destination fs s)"

definition stamped_entry ::
  "collector_env \<Rightarrow> maildir_entry \<Rightarrow> string \<Rightarrow> string \<Rightarrow> string \<Rightarrow> string \<Rightarrow> string \<Rightarrow> files \<Rightarrow> db \<Rightarrow> step_result" where
  "stamped_entry c en sourceKey digest message queueID key fs s =
     (case ConsumeStamp (ck_crypto c) \<lparr>adm_CapabilityKey = [], StampKey = key, adm_Domain = []\<rparr> (headerPrefix message) queueID (en_stamp_time en) s of
        (Inl _, s1) \<Rightarrow> commits fs s1 (RecordRejectedCollection (ck_crypto c) (en_delivery_id en) digest sourceKey (en_next_id en)
            ''admission_stamp_invalid'' (en_write_time en) s1)
      | (Inr d, s1) \<Rightarrow> admitted_entry c en sourceKey digest message d fs s1)"

definition source_key :: "collector_env \<Rightarrow> maildir_entry \<Rightarrow> string" where
  "source_key c en = path_Join [ck_source c, en_name en]"

definition collect_entry :: "collector_env \<Rightarrow> maildir_entry \<Rightarrow> files \<Rightarrow> db \<Rightarrow> step_result" where
  "collect_entry c en fs s =
     (if \<not> en_plain en \<or> Collected (source_key c en) s then (Inr (), fs, s)
      else case Seal (ck_crypto c) (ck_artifacts c) (en_source en) fs of
          Inl e \<Rightarrow> (Inl e, fs, s)
        | Inr ((digest, _), fs1) \<Rightarrow> (case ReadHeaders 65536 (en_reopened en) of
            Inl e \<Rightarrow> (Inl e, fs1, s)
          | Inr message \<Rightarrow>
              let co = Correlate (ck_crypto c) message (ck_log c) (ck_tokens c);
                  fs2 = publishIngress (ck_artifacts c) (en_delivery_id en) digest (en_name en) co fs1 in
              (case ck_stamp_key c of
                 None \<Rightarrow> (Inl (Err ''read admission stamp HMAC key''), fs2, s)
               | Some key \<Rightarrow> stamped_entry c en (source_key c en) digest message (co_QueueID co) key fs2 s)))"

text \<open>A sweep stops at the first entry that fails.\<close>

fun collectOnce :: "collector_env \<Rightarrow> maildir_entry list \<Rightarrow> files \<Rightarrow> db \<Rightarrow> step_result" where
  "collectOnce c [] fs s = (Inr (), fs, s)"
| "collectOnce c (en # es) fs s = (case collect_entry c en fs s of
     (Inl e, fs1, s1) \<Rightarrow> (Inl e, fs1, s1) | (Inr _, fs1, s1) \<Rightarrow> collectOnce c es fs1 s1)"

section \<open>A queued run goes back to an admission\<close>

lemma commits_cases:
  assumes "commits fs s r = (res, fs', s')"
  obtains (failed) e where "r = Inl e" "res = Inl e" "fs' = fs" "s' = s" | (ok) "r = Inr s'" "res = Inr ()" "fs' = fs"
  using assms by (cases r) (auto simp: commits_def)

lemma consumed_not_open:
  assumes "x \<in> set (consume_rows i q now t)"
  shows "\<not> stamp_row i q now x"
proof -
  from assms obtain y where "x = (if stamp_row i q now y then y\<lparr>sd_consumed_at := Some now\<rparr> else y)" by (auto simp: in_sql_update_iff)
  then show ?thesis by (cases "stamp_row i q now y") (simp_all add: stamp_row_def)
qed

lemma ConsumeStamp_frame:
  assumes "ConsumeStamp cr svc hs q now s = (res, s')"
  shows "s' = s\<lparr>submission_decisions := submission_decisions s'\<rparr>"
proof -
  have "\<exists>t. snd (ConsumeStamp cr svc hs q now s) = s\<lparr>submission_decisions := t\<rparr>"
    by (auto simp: ConsumeStamp_def split: sum.splits option.splits intro: exI [of _ "submission_decisions s"])
  with assms show ?thesis by auto
qed

lemma ConsumeStamp_tables:
  assumes "ConsumeStamp cr svc hs q now s = (res, s')"
  shows "runs s' = runs s" "deliveries s' = deliveries s" "submitters s' = submitters s"
  by (subst ConsumeStamp_frame [OF assms], simp)+

lemma rejected_tables:
  assumes "recordRejectedCollection cr d g k i reason dest v rule now s = Inr s'"
  shows "runs s' = runs s" "\<exists>x \<in> set (deliveries s'). d_source_key x = k" "set (deliveries s) \<subseteq> set (deliveries s')"
  using assms
  by (auto elim!: reject_cases simp: insert_delivery_once_def insert_delivery_def fresh_def delivery_row_def split: if_splits)

lemma notify_tables:
  assumes "EnqueueVerifiedRejectionNotification cr i d w now s = Inr s'"
  shows "runs s' = runs s" "deliveries s' = deliveries s"
  using assms insert_rejection_tables(2) eventTx_rd
  by (auto simp: EnqueueVerifiedRejectionNotification_def bind_res_Inr_iff)

lemma enqueue_tables:
  assumes "enqueueCollection cr d g k r dest now s = Inr s'" "\<not> Collected k s"
  shows "set (runs s') \<subseteq> insert (new_run r d now) (set (runs s))" "deliveries s' = deliveries s @ [delivery_row d g k dest now]"
    "submission_decisions s' = submission_decisions s" "submitters s' = submitters s"
proof -
  obtain s1 s2 where s1: "insert_delivery_once (delivery_row d g k dest now) s = Inr s1"
    and s2: "insert_run_once (new_run r d now) s1 = Inr s2"
    and s3: "eventTx cr ''collector'' ''delivery'' d ''subject_preflight'' ''accepted'' now s2 = Inr s'"
    using assms(1) by (auto simp: enqueueCollection_def bind_res_Inr_iff)
  have "fresh d_source_key (delivery_row d g k dest now) (deliveries s)"
    using assms(2) by (auto simp: Collected_def fresh_def delivery_row_def sql_count_def filter_empty_conv)
  then have a: "s1 = s\<lparr>deliveries := deliveries s @ [delivery_row d g k dest now]\<rparr>"
    using s1 by (simp add: insert_delivery_once_def insert_delivery_def split: if_splits)
  have b: "s2 = s1 \<or> s2 = s1\<lparr>runs := runs s1 @ [new_run r d now]\<rparr>"
    using s2 by (auto simp: insert_run_once_def insert_run_def split: if_splits)
  then show "set (runs s') \<subseteq> insert (new_run r d now) (set (runs s))"
    "deliveries s' = deliveries s @ [delivery_row d g k dest now]"
    "submission_decisions s' = submission_decisions s" "submitters s' = submitters s"
    using a eventTx_tables [OF s3] by auto
qed

lemmas reject_defs = RecordAdmittedRejectedCollection_def RecordAdmittedRejectedCollectionWithPolicy_def
  RecordAdmittedRejectedCollectionWithPolicyRule_def RecordRejectedCollection_def

lemma reject_and_notify_tables:
  assumes "reject_and_notify c en i fs s r = (res, fs', s')" "\<And>s1. r = Inr s1 \<Longrightarrow> runs s1 = runs s"
  shows "runs s' = runs s"
  using assms by (auto simp: reject_and_notify_def elim!: commits_cases dest: notify_tables split: sum.splits)

text \<open>The selection depends on the message alone, and a subject it stores adds a file.\<close>

lemma Select_fst: "fst (SelectTopLevelRFC822 cr env m g root fs) = fst (SelectTopLevelRFC822 cr env m g root fs0)"
  by (auto simp: SelectTopLevelRFC822_def Let_def split: sum.split option.split list.split)

lemma Select_keeps: "SelectTopLevelRFC822 cr env m g root fs = (r, fs') \<Longrightarrow> fs p = Some x \<Longrightarrow> fs' p = Some x"
  by (auto simp: SelectTopLevelRFC822_def Let_def split: sum.splits option.splits list.splits if_splits)

text \<open>
  The sealed message \<open>g\<close> of the store selects a subject, one message of the store whose single sender the policy preflight allows.
\<close>

definition subject_allowed :: "collector_env \<Rightarrow> time \<Rightarrow> files \<Rightarrow> string \<Rightarrow> bool" where
  "subject_allowed c t fs g = (\<exists>sealed sel selected sender. fs (message_path (ck_artifacts c) g) = Some sealed \<and>
     fst (SelectTopLevelRFC822 (ck_crypto c) (ck_mail c) sealed g (ck_artifacts c) fs) = Inr sel \<and> ss_SelectionError sel = [] \<and>
     fs (message_path (ck_artifacts c) (if ss_SubjectDigest sel = [] then g else ss_SubjectDigest sel)) = Some selected \<and>
     SelectedSubjectFrom (ck_mail c) selected = Inr sender \<and>
     pf_Allowed (Preflight (env_ascii (ck_mail c)) (ck_snapshot c) sender [] t))"

lemma subject_entry_cases:
  assumes "subject_entry c en k g d dest fs s = (res, fs', s')"
  obtains (rejected) "runs s' = runs s"
  | (queued) "res = Inr ()" "subject_allowed c (en_preflight_time en) fs' g"
      "EnqueueAdmittedCollection (ck_crypto c) (en_delivery_id en) g k (en_next_id en) dest (en_write_time en) s = Inr s'"
proof -
  have rej: "runs s1 = runs s" if "RecordAdmittedRejectedCollection cr a b e f h dest now s = Inr s1" for cr a b e f h now s1
    using that by (auto simp: reject_defs dest: rejected_tables(1) split: if_splits)
  have rej': "runs s1 = runs s" if "RecordAdmittedRejectedCollectionWithPolicyRule cr a b e f h dest v w now s = Inr s1" for cr a b e f h v w now s1
    using that by (auto simp: reject_defs dest: rejected_tables(1) split: if_splits)
  show thesis
  proof (cases "fs (message_path (ck_artifacts c) g)")
    case None
    with assms show thesis by (intro rejected) (simp add: subject_entry_def)
  next
    case (Some sealed)
    obtain x fs1 where sel: "SelectTopLevelRFC822 (ck_crypto c) (ck_mail c) sealed g (ck_artifacts c) fs = (x, fs1)" by (metis surj_pair)
    show thesis
    proof (cases "\<exists>sel. x = Inr sel \<and> ss_SelectionError sel = []")
      case False
      with assms Some sel have "runs s' = runs s"
        by (auto simp: subject_entry_def elim!: commits_cases dest: rej split: sum.splits if_splits)
      then show thesis by (rule rejected)
    next
      case True
      then obtain sl where sl: "x = Inr sl" "ss_SelectionError sl = []" by blast
      let ?h = "if ss_SubjectDigest sl = [] then g else ss_SubjectDigest sl"
      show thesis
      proof (cases "fs1 (message_path (ck_artifacts c) ?h)")
        case None
        with assms Some sel sl show thesis by (intro rejected) (simp add: subject_entry_def Let_def)
      next
        case (Some selected)
        let ?from = "SelectedSubjectFrom (ck_mail c) selected"
        let ?pf = "Preflight (env_ascii (ck_mail c)) (ck_snapshot c) (case ?from of Inl _ \<Rightarrow> [] | Inr a \<Rightarrow> a) [] (en_preflight_time en)"
        have eq: "(if isl ?from \<or> \<not> pf_Allowed ?pf then
             reject_and_notify c en (dec_ID d) fs1 s (RecordAdmittedRejectedCollectionWithPolicyRule (ck_crypto c) (en_delivery_id en) g
               k (en_next_id en) ''selected_subject_sender_denied'' dest (pf_PolicyVersion ?pf) (pf_RuleID ?pf) (en_write_time en) s)
           else commits fs1 s (EnqueueAdmittedCollection (ck_crypto c) (en_delivery_id en) g k (en_next_id en) dest (en_write_time en) s)) = (res, fs', s')"
          using assms \<open>fs _ = Some sealed\<close> sel sl Some by (simp add: subject_entry_def Let_def)
        show thesis
        proof (cases "isl ?from \<or> \<not> pf_Allowed ?pf")
          case True
          with eq show thesis by (intro rejected) (auto dest: reject_and_notify_tables [OF _ rej'])
        next
          case False
          then obtain sender where sender: "?from = Inr sender" by (cases ?from) auto
          from eq False have "commits fs1 s (EnqueueAdmittedCollection (ck_crypto c) (en_delivery_id en) g k (en_next_id en) dest (en_write_time en) s) = (res, fs', s')"
            by (simp only: if_False)
          then show thesis
          proof (cases rule: commits_cases)
            case ok
            have "fs' (message_path (ck_artifacts c) g) = Some sealed" using Select_keeps [OF sel \<open>fs _ = Some sealed\<close>] ok(3) by simp
            moreover have "fst (SelectTopLevelRFC822 (ck_crypto c) (ck_mail c) sealed g (ck_artifacts c) fs') = Inr sl"
              using Select_fst [of "ck_crypto c" "ck_mail c" sealed g "ck_artifacts c" fs' fs] sel sl(1) by simp
            ultimately have "subject_allowed c (en_preflight_time en) fs' g"
              unfolding subject_allowed_def using sl(2) Some sender False ok(3) by (intro exI [of _ sealed] exI [of _ sl] exI [of _ selected] exI [of _ sender]) simp
            then show thesis using ok(1,2) by (rule queued [rotated])
          qed (auto intro: rejected)
        qed
      qed
    qed
  qed
qed

lemma admitted_entry_cases:
  assumes "admitted_entry c en k g message d fs s = (res, fs', s')"
  obtains (rejected) "runs s' = runs s"
  | (queued) dest where "res = Inr ()" "SnapshotReportDestination (dec_SubmitterID d) s = Inr dest"
      "SelectedSubjectFrom (ck_mail c) message = Inr (dec_Envelope d)" "subject_allowed c (en_preflight_time en) fs' g"
      "EnqueueAdmittedCollection (ck_crypto c) (en_delivery_id en) g k (en_next_id en) dest (en_write_time en) s = Inr s'"
proof (cases "SnapshotReportDestination (dec_SubmitterID d) s")
  case (Inl e)
  with assms show thesis using rejected by (simp add: admitted_entry_def)
next
  case (Inr dest)
  show thesis
  proof (cases "SelectedSubjectFrom (ck_mail c) message = Inr (dec_Envelope d)")
    case True
    with assms Inr have "subject_entry c en k g d dest fs s = (res, fs', s')" by (simp add: admitted_entry_def)
    then show thesis by (cases rule: subject_entry_cases) (use rejected queued [OF _ Inr True] in blast)+
  next
    case False
    with assms Inr have "runs s' = runs s"
      by (auto simp: admitted_entry_def reject_defs dest: rejected_tables(1) split: if_splits elim!: reject_and_notify_tables)
    then show thesis by (rule rejected)
  qed
qed

lemma SnapshotReportDestination_Inr:
  assumes "SnapshotReportDestination i s = Inr dest"
  obtains sub where "sub \<in> set (submitters s)" "s_status sub = Active" "s_submitter_id sub = i"
    "dest = \<lparr>rd_SubmitterID = i, rd_ReplyAddress = s_canonical_address sub\<rparr>"
  using assms by (auto simp: SnapshotReportDestination_def dest!: find_SomeD split: option.splits)

lemma collect_entry_cases:
  assumes "collect_entry c en fs s = (res, fs', s')"
  obtains (same) "s' = s" | (stamped) message digest n fs1 fs2 key where "en_plain en" "\<not> Collected (source_key c en) s"
      "Seal (ck_crypto c) (ck_artifacts c) (en_source en) fs = Inr ((digest, n), fs1)" "ReadHeaders 65536 (en_reopened en) = Inr message"
      "ck_stamp_key c = Some key"
      "stamped_entry c en (source_key c en) digest message (co_QueueID (Correlate (ck_crypto c) message (ck_log c) (ck_tokens c))) key fs2 s = (res, fs', s')"
  using assms by (auto simp: collect_entry_def Let_def split: if_splits sum.splits option.splits prod.splits)

lemma Seal_digest:
  assumes "Seal cr root src fs = Inr ((digest, n), fs')"
  obtains so where "src = Some so" "digest = hex_encode (sha256 cr (concat (so_chunks so)))"
  using assms by (auto simp: Seal_def Let_def split: option.splits if_splits)

lemma collect_entry_runs:
  assumes ce: "collect_entry c en fs s = (res, fs', s')" and r: "r \<in> set (runs s')" "r \<notin> set (runs s)"
  obtains so message key d s1 dest where
    "\<not> Collected (source_key c en) s" "en_source en = Some so" "ReadHeaders 65536 (en_reopened en) = Inr message" "ck_stamp_key c = Some key"
    "ConsumeStamp (ck_crypto c) \<lparr>adm_CapabilityKey = [], StampKey = key, adm_Domain = []\<rparr> (headerPrefix message)
       (co_QueueID (Correlate (ck_crypto c) message (ck_log c) (ck_tokens c))) (en_stamp_time en) s = (Inr d, s1)"
    "SnapshotReportDestination (dec_SubmitterID d) s1 = Inr dest" "SelectedSubjectFrom (ck_mail c) message = Inr (dec_Envelope d)"
    "subject_allowed c (en_preflight_time en) fs' (hex_encode (sha256 (ck_crypto c) (concat (so_chunks so))))" "res = Inr ()"
    "enqueueCollection (ck_crypto c) (en_delivery_id en) (hex_encode (sha256 (ck_crypto c) (concat (so_chunks so)))) (source_key c en)
       (en_next_id en) (Some dest) (en_write_time en) s1 = Inr s'"
  using ce
proof (cases rule: collect_entry_cases)
  case same
  with r show thesis by simp
next
  case (stamped message digest n fs1 fs2 key)
  let ?q = "co_QueueID (Correlate (ck_crypto c) message (ck_log c) (ck_tokens c))"
  from Seal_digest [OF stamped(3)] obtain so where so: "en_source en = Some so" "digest = hex_encode (sha256 (ck_crypto c) (concat (so_chunks so)))" .
  obtain cres s1 where cs: "ConsumeStamp (ck_crypto c) \<lparr>adm_CapabilityKey = [], StampKey = key, adm_Domain = []\<rparr> (headerPrefix message) ?q
      (en_stamp_time en) s = (cres, s1)" by (metis surj_pair)
  note frame = ConsumeStamp_tables [OF cs]
  show thesis
  proof (cases cres)
    case (Inl e)
    with stamped(6) cs have "commits fs2 s1 (RecordRejectedCollection (ck_crypto c) (en_delivery_id en) digest (source_key c en) (en_next_id en)
            ''admission_stamp_invalid'' (en_write_time en) s1) = (res, fs', s')" by (simp add: stamped_entry_def)
    then have "runs s' = runs s" using frame by (auto simp: reject_defs elim!: commits_cases dest: rejected_tables(1))
    with r show thesis by simp
  next
    case (Inr d)
    with stamped(6) cs have "admitted_entry c en (source_key c en) digest message d fs2 s1 = (res, fs', s')" by (simp add: stamped_entry_def)
    then show thesis
    proof (cases rule: admitted_entry_cases)
      case rejected
      with r frame show thesis by simp
    next
      case (queued dest)
      from queued(5) have "enqueueCollection (ck_crypto c) (en_delivery_id en) digest (source_key c en) (en_next_id en) (Some dest)
          (en_write_time en) s1 = Inr s'" by (auto simp: EnqueueAdmittedCollection_def split: if_splits)
      with that [OF stamped(2) so(1) stamped(4,5) cs [unfolded Inr] queued(2,3)] queued(1,4) so(2) show thesis by simp
    qed
  qed
qed

text \<open>
  The queue identifier is read from the message's first \<open>Received\<close> line that names the mail server. The log and the token registry only decide
  the status that is written beside it.
\<close>

lemma Correlate_queue_id: "co_QueueID (Correlate cr message ls ts) = scan_queue_id (scan_lines message)"
  by (simp add: Correlate_def Let_def)

text \<open>
  C10: Mail is analysed only when it was admitted. If collecting one Maildir entry adds a run, the
  database held, before, an unconsumed and unexpired admission decision for the queue identifier
  that the message itself names in its first \<open>Received\<close> line of the mail server; the collector does not ask whether the server's log
  knows that identifier. The wrapper's single sender is that decision's
  envelope sender, the decision's submitter is enrolled and active, and the subject that the sealed message selects
  has a single sender who passed the policy preflight. The run is the only new one, its delivery records the digest
  of the sealed bytes and the submitter's own address as the report destination, and the decision
  can justify no further run.
\<close>

theorem collected_run_admitted:
  assumes "collect_entry c en fs s = (res, fs', s')" "r \<in> set (runs s')" "r \<notin> set (runs s)"
  shows "\<exists>row message so sub q g. row \<in> set (submission_decisions s) \<and>
     ReadHeaders 65536 (en_reopened en) = Inr message \<and> q = scan_queue_id (scan_lines message) \<and>
     stamp_row (sd_decision_id row) q (en_stamp_time en) row \<and>
     SelectedSubjectFrom (ck_mail c) message = Inr (sd_envelope_sender row) \<and>
     sub \<in> set (submitters s) \<and> s_status sub = Active \<and> sd_submitter_id row = Some (s_submitter_id sub) \<and>
     en_source en = Some so \<and> g = hex_encode (sha256 (ck_crypto c) (concat (so_chunks so))) \<and>
     subject_allowed c (en_preflight_time en) fs' g \<and>
     r = new_run (en_next_id en) (en_delivery_id en) (en_write_time en) \<and>
     deliveries s' = deliveries s @ [delivery_row (en_delivery_id en) g (source_key c en)
        (Some \<lparr>rd_SubmitterID = s_submitter_id sub, rd_ReplyAddress = s_canonical_address sub\<rparr>) (en_write_time en)] \<and>
     (\<forall>x \<in> set (submission_decisions s'). \<not> stamp_row (sd_decision_id row) q (en_stamp_time en) x)"
  using assms
proof (rule collect_entry_runs)
  fix so :: source and message key d s1 dest
  let ?q = "scan_queue_id (scan_lines message)" and ?g = "hex_encode (sha256 (ck_crypto c) (concat (so_chunks so)))"
  assume a: "\<not> Collected (source_key c en) s" "en_source en = Some so" "ReadHeaders 65536 (en_reopened en) = Inr message"
    "ConsumeStamp (ck_crypto c) \<lparr>adm_CapabilityKey = [], StampKey = key, adm_Domain = []\<rparr> (headerPrefix message)
       (co_QueueID (Correlate (ck_crypto c) message (ck_log c) (ck_tokens c))) (en_stamp_time en) s = (Inr d, s1)"
    "SnapshotReportDestination (dec_SubmitterID d) s1 = Inr dest" "SelectedSubjectFrom (ck_mail c) message = Inr (dec_Envelope d)"
    "subject_allowed c (en_preflight_time en) fs' ?g"
    and enq: "enqueueCollection (ck_crypto c) (en_delivery_id en) ?g (source_key c en) (en_next_id en) (Some dest) (en_write_time en) s1 = Inr s'"
  note f = ConsumeStamp_tables [OF a(4)]
  have "\<not> Collected (source_key c en) s1" using a(1) f by (simp add: Collected_def)
  note e = enqueue_tables [OF enq this]
  from a(5) obtain sub where sub: "sub \<in> set (submitters s1)" "s_status sub = Active" "s_submitter_id sub = dec_SubmitterID d"
    "dest = \<lparr>rd_SubmitterID = dec_SubmitterID d, rd_ReplyAddress = s_canonical_address sub\<rparr>" by (rule SnapshotReportDestination_Inr)
  from a(4) [unfolded Correlate_queue_id] show ?thesis
  proof (rule ConsumeStamp_cases)
    fix d' row assume r: "Inr d = Inr d'" "row \<in> set (submission_decisions s)" "stamp_row (dec_ID d') ?q (en_stamp_time en) row"
      "submission_decisions s1 = consume_rows (dec_ID d') ?q (en_stamp_time en) (submission_decisions s)"
      "sd_submitter_id row = Some (dec_SubmitterID d')" "dec_Envelope d' = sd_envelope_sender row"
    then have id: "sd_decision_id row = dec_ID d" by (simp add: stamp_row_def)
    have "\<forall>x \<in> set (submission_decisions s'). \<not> stamp_row (dec_ID d) ?q (en_stamp_time en) x"
      using r(1) unfolding e(3) r(4) by (auto dest: consumed_not_open)
    moreover have "r = new_run (en_next_id en) (en_delivery_id en) (en_write_time en)" using e(1) f assms(2,3) by auto
    ultimately show ?thesis
      using r a sub e(2) f id by (intro exI [of _ row] exI [of _ message] exI [of _ so] exI [of _ sub]
          exI [of _ ?q] exI [of _ ?g]) simp
  qed simp_all
qed

section \<open>A mail is collected once\<close>

text \<open>Deliveries are only added, and a step that succeeds has recorded its source.\<close>

definition covers :: "string \<Rightarrow> unit res \<Rightarrow> db \<Rightarrow> db \<Rightarrow> bool" where
  "covers k res s s' = (set (deliveries s) \<subseteq> set (deliveries s') \<and> (res = Inr () \<longrightarrow> Collected k s'))"

lemma Collected_iff: "Collected k s \<longleftrightarrow> k \<in> d_source_key ` set (deliveries s)"
  by (auto simp: Collected_def sql_count_def filter_empty_conv)

lemma rejected_covers: "recordRejectedCollection cr d g k i reason dest v rule now s = Inr s' \<Longrightarrow> covers k (Inr ()) s s'"
  using rejected_tables(2,3) by (fastforce simp: covers_def Collected_iff)

lemma commits_covers:
  assumes "commits fs s r = (res, fs', s')" "\<And>s1. r = Inr s1 \<Longrightarrow> covers k (Inr ()) s s1"
  shows "covers k res s s'"
  using assms(1) by (cases rule: commits_cases) (auto simp: covers_def dest: assms(2) [unfolded covers_def])

lemma reject_and_notify_covers:
  assumes "reject_and_notify c en i fs s r = (res, fs', s')" "\<And>s1. r = Inr s1 \<Longrightarrow> covers k (Inr ()) s s1"
  shows "covers k res s s'"
proof (cases r)
  case (Inl e)
  with assms(1) show ?thesis by (auto simp: reject_and_notify_def covers_def)
next
  case (Inr s1)
  with assms(1) have "commits fs s1 (EnqueueVerifiedRejectionNotification (ck_crypto c) i (en_delivery_id en)
      (en_next_id en @ ''-notify'') (en_notify_time en) s1) = (res, fs', s')" by (simp add: reject_and_notify_def)
  then have "deliveries s' = deliveries s1" by (auto elim!: commits_cases dest: notify_tables(2))
  with assms(2) [OF Inr] show ?thesis by (simp add: covers_def Collected_iff)
qed

lemma enqueue_covers:
  assumes "EnqueueAdmittedCollection cr d g k r dest now s = Inr s'" "\<not> Collected k s"
  shows "covers k (Inr ()) s s'"
proof -
  have "enqueueCollection cr d g k r (Some dest) now s = Inr s'" using assms(1) by (simp add: EnqueueAdmittedCollection_def split: if_splits)
  from enqueue_tables(2) [OF this assms(2)] show ?thesis by (auto simp: covers_def Collected_iff delivery_row_def)
qed

lemma admitted_reject_covers:
  "RecordAdmittedRejectedCollection cr d g k i reason dest now s = Inr s' \<Longrightarrow> covers k (Inr ()) s s'"
  "RecordAdmittedRejectedCollectionWithPolicyRule cr d g k i reason dest v rule now s = Inr s' \<Longrightarrow> covers k (Inr ()) s s'"
  "RecordRejectedCollection cr d g k i reason now s = Inr s' \<Longrightarrow> covers k (Inr ()) s s'"
  by (auto simp: reject_defs intro: rejected_covers split: if_splits)

lemma covers_failed: "covers k (Inl e) s s"
  by (simp add: covers_def)

lemmas covers_intros = covers_failed commits_covers reject_and_notify_covers enqueue_covers admitted_reject_covers

lemma subject_entry_covers:
  assumes "subject_entry c en k g d dest fs s = (res, fs', s')" "\<not> Collected k s"
  shows "covers k res s s'"
  using assms unfolding subject_entry_def Let_def
  by (auto split: option.splits prod.splits sum.splits if_splits intro: covers_intros)

lemma admitted_entry_covers:
  assumes "admitted_entry c en k g message d fs s = (res, fs', s')" "\<not> Collected k s"
  shows "covers k res s s'"
  using assms unfolding admitted_entry_def
  by (auto split: sum.splits if_splits intro: covers_intros subject_entry_covers)

lemma stamped_entry_covers:
  assumes "stamped_entry c en k g message q key fs s = (res, fs', s')" "\<not> Collected k s"
  shows "covers k res s s'"
proof -
  obtain cres s1 where cs: "ConsumeStamp (ck_crypto c) \<lparr>adm_CapabilityKey = [], StampKey = key, adm_Domain = []\<rparr> (headerPrefix message) q
      (en_stamp_time en) s = (cres, s1)" by (metis surj_pair)
  note f = ConsumeStamp_tables [OF cs]
  from f assms(2) have n: "\<not> Collected k s1" by (simp add: Collected_def)
  have "covers k res s1 s'"
    using assms(1) cs by (cases cres) (auto simp: stamped_entry_def intro: covers_intros admitted_entry_covers [OF _ n])
  with f show ?thesis by (simp add: covers_def)
qed

lemma collect_entry_covers:
  assumes "collect_entry c en fs s = (res, fs', s')"
  shows "set (deliveries s) \<subseteq> set (deliveries s')" "res = Inr () \<Longrightarrow> en_plain en \<Longrightarrow> Collected (source_key c en) s'"
proof -
  have "set (deliveries s) \<subseteq> set (deliveries s') \<and> (res = Inr () \<longrightarrow> en_plain en \<longrightarrow> Collected (source_key c en) s')"
  proof (cases "en_plain en \<and> \<not> Collected (source_key c en) s")
    case False
    with assms show ?thesis by (auto simp: collect_entry_def)
  next
    case True
    then have "covers (source_key c en) res s s'"
      using assms unfolding collect_entry_def Let_def
      by (auto split: sum.splits option.splits prod.splits intro: covers_failed stamped_entry_covers)
    then show ?thesis by (simp add: covers_def)
  qed
  then show "set (deliveries s) \<subseteq> set (deliveries s')" "res = Inr () \<Longrightarrow> en_plain en \<Longrightarrow> Collected (source_key c en) s'" by auto
qed

lemma collectOnce_covers:
  assumes "collectOnce c es fs s = (Inr (), fs', s')"
  shows "set (deliveries s) \<subseteq> set (deliveries s') \<and> (\<forall>en \<in> set es. en_plain en \<longrightarrow> Collected (source_key c en) s')"
  using assms
proof (induction es arbitrary: fs s)
  case (Cons en es)
  obtain res fs1 s1 where e: "collect_entry c en fs s = (res, fs1, s1)" by (metis surj_pair)
  with Cons.prems have r: "res = Inr ()" and rest: "collectOnce c es fs1 s1 = (Inr (), fs', s')" by (auto split: sum.splits)
  note IH = Cons.IH [OF rest] and cov = collect_entry_covers [OF e]
  from IH cov(1) have "set (deliveries s) \<subseteq> set (deliveries s')" by blast
  moreover have "en_plain en \<longrightarrow> Collected (source_key c en) s'" using IH cov(2) [OF r] by (auto simp: Collected_iff)
  ultimately show ?case using IH by simp
qed simp

lemma collectOnce_collected:
  assumes "\<forall>en \<in> set es. en_plain en \<longrightarrow> Collected (source_key c en) s"
  shows "collectOnce c es fs s = (Inr (), fs, s)"
  using assms by (induction es) (auto simp: collect_entry_def)

text \<open>
  C21: A sweep over a Maildir settles every mail in it. When a sweep ends without error, each entry
  has a delivery, so a second sweep over the same directory, under any policy, log, registry or
  clock, changes neither the artifacts nor the database: a mail is sealed, decided and queued at
  most once however often the collector runs.
\<close>

theorem collectOnce_idempotent:
  assumes "collectOnce c es fs s = (Inr (), fs', s')"
    and "ck_source c' = ck_source c" and "\<forall>en \<in> set es'. en_plain en \<longrightarrow> en_name en \<in> en_name ` {x \<in> set es. en_plain x}"
  shows "(\<forall>en \<in> set es. en_plain en \<longrightarrow> Collected (source_key c en) s') \<and> collectOnce c' es' fs' s' = (Inr (), fs', s')"
proof -
  note cov = collectOnce_covers [OF assms(1)]
  have "\<forall>en \<in> set es'. en_plain en \<longrightarrow> Collected (source_key c' en) s'"
    using cov assms(2,3) by (fastforce simp: source_key_def)
  with collectOnce_collected cov show ?thesis by blast
qed

section \<open>An admitted mail is queued\<close>

text \<open>Headers before the stamp are skipped.\<close>

definition stamp_name :: "string \<Rightarrow> bool" where
  "stamp_name h = (case Cut (CHR '':'') h of None \<Rightarrow> False | Some (name, _) \<Rightarrow> EqualFold (TrimSpace name) ''X-Mailproof-Admission'')"

lemma stamp_header_skip: "\<forall>h \<in> set pre. \<not> stamp_name h \<Longrightarrow> stamp_header (pre @ hs) stamp = stamp_header hs stamp"
  by (induction pre) (auto simp: stamp_name_def split: option.splits)

lemma ConsumeStamp_skip:
  "\<forall>h \<in> set pre. \<not> stamp_name h \<Longrightarrow> ConsumeStamp cr svc (pre @ hs) q now s = ConsumeStamp cr svc hs q now s"
  by (simp add: ConsumeStamp_def stamp_parts_def stamp_header_skip)

lemma ConsumeStamp_key:
  "ConsumeStamp cr svc hs q now s = ConsumeStamp cr \<lparr>adm_CapabilityKey = a, StampKey = StampKey svc, adm_Domain = b\<rparr> hs q now s"
  by (simp only: ConsumeStamp_def stamp_parts_def adm_service.simps)

lemma enqueue_total:
  assumes "d \<noteq> []" "fresh d_source_key (delivery_row d g k (Some dest) now) (deliveries s)"
    "fresh d_delivery_id (delivery_row d g k (Some dest) now) (deliveries s)" "fresh r_run_id (new_run r d now) (runs s)"
    "parent (rd_SubmitterID dest) s_submitter_id (submitters s)" "rd_SubmitterID dest \<noteq> []" "rd_ReplyAddress dest \<noteq> []"
  shows "\<exists>s'. EnqueueAdmittedCollection cr d g k r dest now s = Inr s' \<and> new_run r d now \<in> set (runs s')"
proof -
  let ?s = "s\<lparr>deliveries := deliveries s @ [delivery_row d g k (Some dest) now], runs := runs s @ [new_run r d now]\<rparr>"
  have "\<exists>s'. eventTx cr ''collector'' ''delivery'' d ''subject_preflight'' ''accepted'' now ?s = Inr s'"
    using assms(1) by (intro eventTx_total) (simp_all add: analytics_allowed_def)
  then obtain s' where s': "eventTx cr ''collector'' ''delivery'' d ''subject_preflight'' ''accepted'' now ?s = Inr s'" ..
  have del: "insert_delivery_once (delivery_row d g k (Some dest) now) s = Inr (s\<lparr>deliveries := deliveries s @ [delivery_row d g k (Some dest) now]\<rparr>)"
    using assms(2,3,5) by (simp add: insert_delivery_once_def insert_delivery_def) (simp add: delivery_row_def parent_opt_def)
  have "insert_run_once (new_run r d now) (s\<lparr>deliveries := deliveries s @ [delivery_row d g k (Some dest) now]\<rparr>) = Inr ?s"
    using assms(4) by (simp add: insert_run_once_def insert_run_def parent_def) (simp add: delivery_row_def new_run_def)
  with del s' have "enqueueCollection cr d g k r (Some dest) now s = Inr s'" by (simp add: enqueueCollection_def)
  with assms eventTx_tables(1) [OF s'] show ?thesis by (simp add: EnqueueAdmittedCollection_def)
qed

lemma collect_entry_queues:
  assumes "en_plain en" "\<not> Collected (source_key c en) s" "en_source en = Some so" "so_regular so" "so_same_file so"
    "so_final_size so = int (length (concat (so_chunks so)))" "ReadHeaders 65536 (en_reopened en) = Inr message" "ck_stamp_key c = Some key"
    "ConsumeStamp (ck_crypto c) \<lparr>adm_CapabilityKey = [], StampKey = key, adm_Domain = []\<rparr> (headerPrefix message)
       (co_QueueID (Correlate (ck_crypto c) message (ck_log c) (ck_tokens c))) (en_stamp_time en) s = (Inr d, s1)"
    "SnapshotReportDestination (dec_SubmitterID d) s1 = Inr dest" "SelectedSubjectFrom (ck_mail c) message = Inr (dec_Envelope d)"
    "message_Read (ck_mail c) (concat (so_chunks so)) = Inr e" "me_type e = None"
    "SelectedSubjectFrom (ck_mail c) (concat (so_chunks so)) = Inr a"
    "pf_Allowed (Preflight (env_ascii (ck_mail c)) (ck_snapshot c) a [] (en_preflight_time en))"
    "fs (message_path (ck_artifacts c) (hex_encode (sha256 (ck_crypto c) (concat (so_chunks so))))) = None"
    "EnqueueAdmittedCollection (ck_crypto c) (en_delivery_id en) (hex_encode (sha256 (ck_crypto c) (concat (so_chunks so)))) (source_key c en)
       (en_next_id en) dest (en_write_time en) s1 = Inr s'"
  shows "\<exists>fs'. collect_entry c en fs s = (Inr (), fs', s')"
proof -
  let ?g = "hex_encode (sha256 (ck_crypto c) (concat (so_chunks so)))"
  let ?t = "message_path (ck_artifacts c) ?g"
  let ?co = "Correlate (ck_crypto c) message (ck_log c) (ck_tokens c)"
  obtain fs1 where fs1: "Seal (ck_crypto c) (ck_artifacts c) (en_source en) fs = Inr ((?g, so_final_size so), fs1)" "fs1 ?t = Some (concat (so_chunks so))"
    using assms(3-6,16) by (auto simp: Seal_def Let_def)
  define fs2 where "fs2 = publishIngress (ck_artifacts c) (en_delivery_id en) ?g (en_name en) ?co fs1"
  let ?b = "concat (so_chunks so)"
  have b: "fs2 ?t = Some ?b" using fs1(2) by (auto simp: fs2_def publishIngress_def Let_def)
  have sel: "SelectTopLevelRFC822 (ck_crypto c) (ck_mail c) ?b ?g (ck_artifacts c) fs2 = (Inr \<lparr>ss_DeliveredDigest = ?g, ss_SubjectDigest = [],
      ss_PartPath = [], ss_Scope = LocalIngress, ss_SelectionError = []\<rparr>, fs2)" using assms(12,13) by (simp add: SelectTopLevelRFC822_def Let_def)
  have "subject_entry c en (source_key c en) ?g d dest fs2 s1 = (Inr (), fs2, s')"
    unfolding subject_entry_def b using sel b assms(14,15,17) by (simp add: Let_def commits_def)
  then have "stamped_entry c en (source_key c en) ?g message (co_QueueID ?co) key fs2 s = (Inr (), fs2, s')"
    using assms(9-11) by (simp add: stamped_entry_def admitted_entry_def)
  then show ?thesis using assms(1,2,7,8) fs1(1) by (auto simp: collect_entry_def Let_def fs2_def)
qed

definition example_mail :: mail_env where
  "example_mail = \<lparr>message_Read = (\<lambda>_. Inr \<lparr>me_fields = [], me_type = None, me_parts = None\<rparr>), ReadMessage_From = (\<lambda>_. Some [''a@b.c'']),
     ParseAddress = Some, env_ascii = Some\<rparr>"

definition example_received :: string where "example_received = ''Received: by postfix.mailproof.test id=Q1''"

definition example_message :: string where
  "example_message = example_received @ CHR 0x0A # stamp_line (stamp_of example_mac example_adm example_decision example_request) @ [CHR 0x0A]"

definition example_collector :: collector_env where
  "example_collector = \<lparr>ck_crypto = example_mac, ck_mail = example_mail, ck_source = ''/m'', ck_artifacts = ''/a'', ck_log = [],
     ck_tokens = Map.empty, ck_stamp_key = Some (StampKey example_adm), ck_snapshot = Some example_snapshot\<rparr>"

definition example_file :: source where
  "example_file = \<lparr>so_regular = True, so_chunks = [example_message], so_same_file = True, so_final_size = int (length example_message)\<rparr>"

definition example_entry :: maildir_entry where
  "example_entry = \<lparr>en_name = ''1'', en_plain = True, en_source = Some example_file, en_reopened = Some (True, example_message), en_delivery_id = ''d1'', en_next_id = ''r1'',
     en_stamp_time = 600, en_preflight_time = 600, en_write_time = 600, en_notify_time = 600\<rparr>"

lemma example_selectors:
  "ck_crypto example_collector = example_mac" "ck_mail example_collector = example_mail" "ck_stamp_key example_collector = Some (StampKey example_adm)"
  "ck_snapshot example_collector = Some example_snapshot" "env_ascii example_mail = Some" "en_plain example_entry"
  "en_source example_entry = Some example_file" "en_reopened example_entry = Some (True, example_message)" "en_delivery_id example_entry = ''d1''"
  "en_next_id example_entry = ''r1''" "en_stamp_time example_entry = 600" "en_preflight_time example_entry = 600" "en_write_time example_entry = 600"
  "so_regular example_file" "so_chunks example_file = [example_message]" "so_same_file example_file"
  "so_final_size example_file = int (length example_message)"
  "message_Read example_mail b = Inr \<lparr>me_fields = [], me_type = None, me_parts = None\<rparr>"
  by (simp_all add: example_collector_def example_mail_def example_entry_def example_file_def)

lemma example_stamp_no_newline: "CHR 0x0A \<notin> set (stamp_line (stamp_of example_mac example_adm example_decision example_request))"
  using stamp_of_no_newline by (simp add: stamp_line_def)

lemma example_message_lines:
  "Split (CHR 0x0A) example_message =
     [example_received, stamp_line (stamp_of example_mac example_adm example_decision example_request), []]"
proof -
  have "CHR 0x0A \<notin> set example_received" by (simp add: example_received_def)
  then show ?thesis using example_stamp_no_newline
    by (simp add: example_message_def Split_append Split_no_sep)
qed

lemma example_headers: "headerPrefix example_message = [example_received] @ [stamp_line (stamp_of example_mac example_adm example_decision example_request)]"
  unfolding headerPrefix_def example_message_lines by (simp add: example_received_def stamp_line_def)

lemma example_queue_id: "co_QueueID (Correlate cr example_message ls ts) = ''Q1''"
proof -
  have "scan_queue_id (example_received # rest) = ''Q1''" for rest
    by (simp add: example_received_def HasPrefix_def Fields.simps is_space_def TrimPrefix_def)
  then have "scan_queue_id (scan_lines example_message) = ''Q1''"
    unfolding scan_lines_def example_message_lines Let_def by (simp add: example_received_def)
  then show ?thesis by (simp add: Correlate_def Let_def)
qed

lemma example_senders:
  assumes "b = example_message"
  shows "SelectedSubjectFrom example_mail b = Inr ''a@b.c''"
    "pf_Allowed (Preflight Some (Some example_snapshot) ''a@b.c'' [] t)"
proof -
  have "length example_message \<le> 65536" "example_message \<noteq> []"
    using example_stamp_short by (simp_all add: example_message_def example_received_def stamp_line_def)
  then show "SelectedSubjectFrom example_mail b = Inr ''a@b.c''"
    using assms example_canonical by (simp add: SelectedSubjectFrom_def example_mail_def)
  show "pf_Allowed (Preflight Some (Some example_snapshot) ''a@b.c'' [] t)"
    using example_canonical by (simp add: Preflight_def SubjectAllowed_def SelectedSubjectAllowed_def BlockedSubject_def example_snapshot_def)
qed

lemma store_decision_rd:
  assumes "store_decision cr svc d r digest now s = Inr s'"
  shows "runs s' = runs s \<and> deliveries s' = deliveries s"
  using assms by (auto simp: store_decision_def bind_res_Inr_iff dest!: insert_rejection_tables(1,3,4) eventTx_rd)

lemma Admit_rd:
  assumes "Admit cr ta spf svc snap id_bytes now r s = (res, s')"
  shows "runs s' = runs s \<and> deliveries s' = deliveries s"
  using assms
proof (cases rule: Admit_branches)
  case (refused stage reason sid v rule)
  then show ?thesis by (auto simp: reject_def Let_def split: sum.splits if_splits dest!: store_decision_rd)
next
  case (within p envelope cap item)
  then show ?thesis
    by (auto simp: admit_within_def reject_def Let_def bind_res_Inr_iff insert_admission_event_def split: sum.splits if_splits dest!: store_decision_rd)
qed simp

lemma example_collects:
  "\<exists>s1 fs' s'. Admit example_mac Some example_spf example_adm (Some example_snapshot) ''id'' 5 example_request example_adm_db =
       (Admitted example_decision, s1) \<and> runs s1 = [] \<and> collect_entry example_collector example_entry Map.empty s1 = (Inr (), fs', s') \<and>
     new_run ''r1'' ''d1'' 600 \<in> set (runs s')"
proof -
  obtain s1 where a: "Admit example_mac Some example_spf example_adm (Some example_snapshot) ''id'' 5 example_request example_adm_db = (Admitted example_decision, s1)"
    using example_admits by blast
  note f = admitted_decision_fields [OF refl, of example_mac example_adm example_request "''sub1''" "''a@b.c''" "CHR ''v'' # show_int 0" "''id''" 5]
  have sid: "dec_SubmitterID example_decision \<noteq> []" by (simp add: f(2))
  have short: "length (dec_Stamp example_decision) < 2048" using example_stamp_short by (simp add: f(8))
  from stamp_accepted [OF a example_fields(1) sid short example_mac_length example_fields(2,3), of 600, unfolded example_fields(4)]
  obtain d s2 where c: "ConsumeStamp example_mac example_adm [stamp_line (dec_Stamp example_decision)] ''Q1'' 600 s1 = (Inr d, s2)"
    "dec_SubmitterID d = ''sub1''" "dec_Envelope d = ''a@b.c''" by (auto simp: f)
  have cs: "ConsumeStamp example_mac \<lparr>adm_CapabilityKey = [], StampKey = StampKey example_adm, adm_Domain = []\<rparr> (headerPrefix example_message) ''Q1'' 600 s1 = (Inr d, s2)"
    unfolding example_headers ConsumeStamp_key [symmetric] f(8) [symmetric]
    by (subst ConsumeStamp_skip) (use c(1) in \<open>simp_all add: stamp_name_def example_received_def EqualFold_def ToLower_def lower_char_def TrimSpace_def is_space_def\<close>)
  have s1: "runs s1 = []" "deliveries s1 = []" "submitters s1 = submitters example_adm_db"
    using Admit_rd [OF a] Admit_outcome [OF a] by (auto simp: example_adm_db_def Migrate_def elim: outcome.cases)
  note s2 = ConsumeStamp_tables [OF cs, unfolded s1]
  let ?dest = "\<lparr>rd_SubmitterID = ''sub1'', rd_ReplyAddress = ''a@b.c''\<rparr>"
  have dest: "SnapshotReportDestination ''sub1'' s2 = Inr ?dest"
    by (simp add: SnapshotReportDestination_def s2 example_adm_tables example_pending_def)
  have "\<exists>s'. EnqueueAdmittedCollection example_mac ''d1'' (hex_encode (sha256 example_mac example_message)) (source_key example_collector example_entry) ''r1''
      ?dest 600 s2 = Inr s' \<and> new_run ''r1'' ''d1'' 600 \<in> set (runs s')"
    by (rule enqueue_total) (simp_all add: fresh_def s2 parent_def example_adm_tables example_pending_def)
  then obtain s' where s': "EnqueueAdmittedCollection example_mac ''d1'' (hex_encode (sha256 example_mac example_message)) (source_key example_collector example_entry) ''r1''
      ?dest 600 s2 = Inr s'" "new_run ''r1'' ''d1'' 600 \<in> set (runs s')" by blast
  have len: "length example_message \<le> 65536"
    using example_stamp_short by (simp add: example_message_def example_received_def stamp_line_def)
  have "\<exists>fs'. collect_entry example_collector example_entry Map.empty s1 = (Inr (), fs', s')"
    by (rule collect_entry_queues [where message = example_message and d = d and dest = ?dest and a = "''a@b.c''" and so = example_file
        and key = "StampKey example_adm" and ?s1.0 = s2 and e = "\<lparr>me_fields = [], me_type = None, me_parts = None\<rparr>"])
      (use cs dest s' c len example_senders [OF refl] in \<open>simp_all add: example_selectors example_queue_id Collected_iff s1 ReadHeaders_def\<close>)
  with a s1 s'(2) show ?thesis by blast
qed

theorem collected_run_admitted_witness:
  "\<exists>fs s fs' s' r row. collect_entry example_collector example_entry fs s = (Inr (), fs', s') \<and> r \<in> set (runs s') \<and> r \<notin> set (runs s) \<and>
     row \<in> set (submission_decisions s) \<and> sd_consumed_at row = None"
proof -
  obtain s1 fs' s' where c: "runs s1 = []" "collect_entry example_collector example_entry Map.empty s1 = (Inr (), fs', s')"
    "new_run ''r1'' ''d1'' 600 \<in> set (runs s')" using example_collects by blast
  then have "new_run ''r1'' ''d1'' 600 \<notin> set (runs s1)" by simp
  from collected_run_admitted [OF c(2,3) this] obtain row q where
    "row \<in> set (submission_decisions s1)" "stamp_row (sd_decision_id row) q (en_stamp_time example_entry) row" by blast
  then have "row \<in> set (submission_decisions s1) \<and> sd_consumed_at row = None" by (simp add: stamp_row_def)
  with c show ?thesis by (metis empty_iff list.set(1))
qed

text \<open>A message whose queue identifier the log does not know is collected and queued like any other.\<close>

lemma uncorrelated_mail_queued:
  "co_Status (Correlate (ck_crypto example_collector) example_message (ck_log example_collector) (ck_tokens example_collector)) = ''lost_coverage'' \<and>
   (\<exists>fs s fs' s'. collect_entry example_collector example_entry fs s = (Inr (), fs', s') \<and> runs s' \<noteq> runs s)"
proof -
  have "co_Status (Correlate (ck_crypto example_collector) example_message [] (ck_tokens example_collector)) = ''lost_coverage''"
    by (simp add: Correlate_def Let_def)
  then have "co_Status (Correlate (ck_crypto example_collector) example_message (ck_log example_collector) (ck_tokens example_collector)) = ''lost_coverage''"
    by (simp add: example_collector_def)
  moreover obtain s1 fs' s' where "runs s1 = []" "collect_entry example_collector example_entry Map.empty s1 = (Inr (), fs', s')"
    "new_run ''r1'' ''d1'' 600 \<in> set (runs s')" using example_collects by blast
  ultimately show ?thesis by (metis empty_iff list.set(1))
qed

theorem collectOnce_idempotent_witness:
  "\<exists>s fs' s'. collectOnce example_collector [example_entry] Map.empty s = (Inr (), fs', s') \<and> runs s' \<noteq> runs s \<and>
     collectOnce example_collector [example_entry\<lparr>en_delivery_id := ''d2'', en_next_id := ''r2''\<rparr>] fs' s' = (Inr (), fs', s')"
proof -
  obtain s1 fs' s' where c: "runs s1 = []" "collect_entry example_collector example_entry Map.empty s1 = (Inr (), fs', s')"
    "new_run ''r1'' ''d1'' 600 \<in> set (runs s')" using example_collects by blast
  then have once: "collectOnce example_collector [example_entry] Map.empty s1 = (Inr (), fs', s')" by simp
  have "collectOnce example_collector [example_entry\<lparr>en_delivery_id := ''d2'', en_next_id := ''r2''\<rparr>] fs' s' = (Inr (), fs', s')"
    by (rule collectOnce_idempotent [OF once, THEN conjunct2]) (auto simp: example_selectors image_iff)
  with once c show ?thesis by fastforce
qed

section \<open>A failure after the stamp\<close>

text \<open>
  The stamp is consumed in a transaction of its own. When a later step of the entry fails, the next
  sweep finds the stamp spent and records the mail as rejected.
\<close>

lemma stamp_row_earlier: "stamp_row i q now' x \<Longrightarrow> now \<le> now' \<Longrightarrow> stamp_row i q now x"
  by (auto simp: stamp_row_def split: option.splits)

lemma stamp_parts_earlier:
  assumes "stamp_parts cr svc hs now' = Inr (parts, expires)" "now \<le> now'"
  shows "stamp_parts cr svc hs now = Inr (parts, expires)"
proof -
  from assms(1) obtain stamp p64 m64 payload where st: "stamp_header hs [] = Inr stamp" "stamp \<noteq> []" "Cut (CHR ''.'') stamp = Some (p64, m64)"
    "CHR ''.'' \<notin> set m64" "b64_decode p64 = Some payload" "hmac cr (StampKey svc) payload = mustDecode m64"
    "length (Split (CHR ''|'') payload) = 10" "Split (CHR ''|'') payload ! 0 = ''v1''" "ParseInt (Split (CHR ''|'') payload ! 9) = Some expires"
    "\<not> expires < now'" "parts = Split (CHR ''|'') payload"
    by (auto simp: stamp_parts_def bind_res_Inr_iff Let_def split: option.split_asm prod.split_asm if_split_asm)
  with assms(2) show ?thesis by (simp add: stamp_parts_def)
qed

lemma consume_twice:
  assumes "ConsumeStamp cr svc hs q now s = (Inr d, s1)" "now \<le> now'"
  shows "\<exists>e. ConsumeStamp cr svc hs q now' s1 = (Inl e, s1)"
proof (cases "stamp_parts cr svc hs now'")
  case (Inl e)
  then show ?thesis by (simp add: ConsumeStamp_def)
next
  case (Inr pe)
  obtain parts expires where pe: "pe = (parts, expires)" by (cases pe)
  have parts: "stamp_parts cr svc hs now = Inr (parts, expires)"
    using stamp_parts_earlier [OF _ assms(2)] Inr unfolding pe by blast
  from assms(1) parts have rows: "submission_decisions s1 = consume_rows (parts ! 1) q now (submission_decisions s)"
    by (auto simp: ConsumeStamp_def simp del: One_nat_def split: option.splits)
  have "\<not> stamp_row (parts ! 1) q now' x" if "x \<in> set (submission_decisions s1)" for x
    using consumed_not_open [of x] that stamp_row_earlier [OF _ assms(2)] unfolding rows by blast
  then have "find (stamp_row (parts ! 1) q now') (submission_decisions s1) = None" by (simp add: find_None_iff del: One_nat_def)
  then show ?thesis by (simp add: ConsumeStamp_def Inr pe del: One_nat_def)
qed

lemma failed_sweep_spends_stamp:
  assumes "ConsumeStamp (ck_crypto c) \<lparr>adm_CapabilityKey = [], StampKey = key, adm_Domain = []\<rparr> (headerPrefix message) q (en_stamp_time en) s = (Inr d, s1)"
    and "SnapshotReportDestination (dec_SubmitterID d) s1 = Inl e" and "en_stamp_time en \<le> en_stamp_time en'"
  shows "stamped_entry c en k g message q key fs s = (Inl e, fs, s1) \<and>
    stamped_entry c en' k g message q key fs s1 = commits fs s1 (RecordRejectedCollection (ck_crypto c) (en_delivery_id en') g k (en_next_id en')
      ''admission_stamp_invalid'' (en_write_time en') s1)"
  using assms(1,2) consume_twice [OF assms(1,3)] by (auto simp: stamped_entry_def admitted_entry_def)

end
