(* ===== verification/Results_Http.thy ===== *)
theory Results_Http
  imports Results Analytics Http
begin

text \<open>
  \<open>internal/results/http.go\<close>: the read API over the results store and the analytics queries. A
  response is a status, headers and a body; the body is the value handed to \<open>json.Encoder\<close>. A query is
  \<open>URL.Query()\<close>, an association list with one entry per name. The analytics reader is the JSON
  extraction of its database and the time it reads; \<open>None\<close> is an API without one.
\<close>

section \<open>Resources\<close>

record result_resource =
  res_SchemaVersion :: string
  res_RunID :: string
  res_DeliveryID :: string
  res_SubmitterID :: "string option"
  res_OccurredAt :: time
  res_Outcome :: string
  res_Verdict :: string
  res_PolicyVersion :: string
  res_Artifact :: "string \<times> string"

record result_page =
  pg_SchemaVersion :: string
  pg_Items :: "result_resource list"
  pg_NextCursor :: string

definition resultView :: "result_record \<Rightarrow> result_resource" where
  "resultView x = (let i = rr_manifest_digest x; i' = (if HasPrefix i ''sha256:'' then i else ''sha256:'' @ i) in
     \<lparr>res_SchemaVersion = ''mailproof.result/v1'', res_RunID = rr_run_id x, res_DeliveryID = rr_delivery_id x,
      res_SubmitterID = rr_submitter_id x, res_OccurredAt = rr_occurred_at x, res_Outcome = ''COMPLETE'', res_Verdict = rr_verdict x,
      res_PolicyVersion = rr_policy_version x, res_Artifact = (''signed'', i')\<rparr>)"

definition resultViews :: "result_record list \<times> string \<Rightarrow> result_page" where
  "resultViews p = \<lparr>pg_SchemaVersion = ''mailproof.page/v1'', pg_Items = map resultView (fst p), pg_NextCursor = snd p\<rparr>"

datatype api_body =
  HealthBody
| ErrorBody string
| ResultsBody result_page
| ResultBody result_resource
| DecisionsBody "decision_record list" string
| SummaryBody "summary_bucket list"
| DashboardBody query snapshot
| CampaignsBody "campaign_projection list" string
| CampaignBody campaign_detail
| MembersBody "campaign_member list" string
| NoBody

record response =
  rs_Status :: int
  rs_Header :: "string \<rightharpoonup> string"
  rs_Body :: api_body

definition writeJSON :: "int \<Rightarrow> api_body \<Rightarrow> response" where
  "writeJSON status v = \<lparr>rs_Status = status, rs_Header = [''Content-Type'' \<mapsto> ''application/json; charset=utf-8''], rs_Body = v\<rparr>"

text \<open>\<open>None\<close> is the nil error that \<open>dashboard\<close> passes when the API has no analytics reader.\<close>

definition writeQueryError :: "err option \<Rightarrow> response" where
  "writeQueryError e =
     (if e \<in> {Some Results.ErrInvalidQuery, Some ErrInvalidCursor, Some Analytics.ErrInvalidQuery}
      then writeJSON 400 (ErrorBody ''invalid request'')
      else writeJSON 500 (ErrorBody ''internal error''))"

definition answer :: "('a \<Rightarrow> api_body) \<Rightarrow> 'a res \<Rightarrow> response" where
  "answer body r = (case r of Inl e \<Rightarrow> writeQueryError (Some e) | Inr v \<Rightarrow> writeJSON 200 (body v))"

section \<open>Decoding a query\<close>

definition pageLimit :: "string \<Rightarrow> int res" where
  "pageLimit raw =
     (if raw = [] then Inr 50
      else case ParseInt raw of
          None \<Rightarrow> Inl Results.ErrInvalidQuery
        | Some n \<Rightarrow> if n < 1 \<or> n > MaxPageSize then Inl Results.ErrInvalidQuery else Inr n)"

definition onlyQuery :: "string list \<Rightarrow> url_values \<Rightarrow> bool" where
  "onlyQuery names q = list_all (\<lambda>(name, values). name \<in> set names \<and> length values = 1) q"

text \<open>
  \<open>fmt.Sscanf(raw, "%d", &n)\<close>: blanks are skipped, a sign and digits are read, and what follows them is
  not looked at.
\<close>

definition Sscanf_d :: "string \<Rightarrow> int option" where
  "Sscanf_d raw =
     (let t = dropWhile (\<lambda>c. is_space c \<and> c \<noteq> CHR 0x0A) raw;
          sign = takeWhile (\<lambda>c. c = CHR ''-'' \<or> c = CHR ''+'') (take 1 t);
          digits = takeWhile is_digit (drop (length sign) t) in
      if digits = [] then None else ParseInt (sign @ digits))"

definition filter_keys :: "string list" where
  "filter_keys = [''id'', ''submitter_id'', ''outcome'', ''stage'', ''reason'', ''verdict'', ''policy_version'',
     ''selected_subject_domain'', ''from'', ''to'', ''limit'', ''cursor'', ''interval'']"

definition optional_time :: "string \<Rightarrow> time res" where
  "optional_time raw = (if raw = [] then Inr zero_time
     else case parse_rfc3339 raw of None \<Rightarrow> Inl Results.ErrInvalidQuery | Some t \<Rightarrow> Inr t)"

definition query_filter :: "url_values \<Rightarrow> result_filter res" where
  "query_filter q =
     (if \<not> onlyQuery filter_keys q then Inl Results.ErrInvalidQuery
      else bind_res (optional_time (query_get ''from'' q)) (\<lambda>from.
        bind_res (optional_time (query_get ''to'' q)) (\<lambda>until.
        bind_res (if query_get ''limit'' q = [] then Inr 0
           else case Sscanf_d (query_get ''limit'' q) of None \<Rightarrow> Inl Results.ErrInvalidQuery | Some n \<Rightarrow> Inr n) (\<lambda>n.
        Inr \<lparr>fl_ID = query_get ''id'' q, fl_SubmitterID = query_get ''submitter_id'' q, fl_Outcome = query_get ''outcome'' q,
          fl_Stage = query_get ''stage'' q, fl_Reason = query_get ''reason'' q, fl_Verdict = query_get ''verdict'' q,
          fl_PolicyVersion = query_get ''policy_version'' q, fl_SubjectDomain = query_get ''selected_subject_domain'' q,
          fl_From = from, fl_To = until, fl_Limit = n, fl_Cursor = query_get ''cursor'' q\<rparr>))))"

definition split_list :: "string \<Rightarrow> string list" where
  "split_list raw = (if raw = [] then [] else Split (CHR '','') raw)"

definition dashboardQuery :: "url_values \<Rightarrow> query res" where
  "dashboardQuery q =
     (if \<not> onlyQuery [''from'', ''to'', ''interval'', ''metric'', ''dimension'', ''series'', ''cards''] q then Inl Analytics.ErrInvalidQuery
      else case (parse_rfc3339 (query_get ''from'' q), parse_rfc3339 (query_get ''to'' q)) of
          (Some from, Some until) \<Rightarrow> Inr \<lparr>q_From = from, q_To = until, q_Interval = query_get ''interval'' q, q_Metric = query_get ''metric'' q,
             q_Dimension = query_get ''dimension'' q, q_Series = split_list (query_get ''series'' q), q_Cards = split_list (query_get ''cards'' q)\<rparr>
        | _ \<Rightarrow> Inl Analytics.ErrInvalidQuery)"

section \<open>Handlers\<close>

record api =
  api_Repository :: repository
  api_Dashboard :: "(json_extractor \<times> time) option"
  api_Token :: string

definition api_campaigns :: "api \<Rightarrow> http_request \<Rightarrow> db \<Rightarrow> response" where
  "api_campaigns a r s = (let q = rq_Query r in
     if \<not> onlyQuery [''status'', ''projection_version'', ''cursor'', ''limit''] q then writeQueryError (Some Results.ErrInvalidQuery)
     else answer (\<lambda>(items, next). CampaignsBody items next) (bind_res (pageLimit (query_get ''limit'' q)) (\<lambda>limit.
       Campaigns (api_Repository a) \<lparr>cf_Status = query_get ''status'' q, cf_ProjectionVersion = query_get ''projection_version'' q,
         cf_Cursor = query_get ''cursor'' q, cf_Limit = limit\<rparr> s)))"

definition api_campaign :: "api \<Rightarrow> http_request \<Rightarrow> db \<Rightarrow> response" where
  "api_campaign a r s =
     (let parts = Split (CHR ''/'') (TrimPrefix (url_Path r) ''/v1/campaigns/''); q = rq_Query r; version = query_get ''projection_version'' q in
      if length parts < 1 \<or> hd parts = [] \<or> length parts > 2 then writeQueryError (Some Results.ErrInvalidQuery)
      else if length parts = 1 then
        (if \<not> onlyQuery [''projection_version''] q \<or> version = [] then writeQueryError (Some Results.ErrInvalidQuery)
         else answer CampaignBody (CampaignDetail (hd parts) version s))
      else if parts ! 1 \<noteq> ''members'' then writeQueryError (Some Results.ErrInvalidQuery)
      else if \<not> onlyQuery [''projection_version'', ''cursor'', ''limit''] q \<or> version = [] then writeQueryError (Some Results.ErrInvalidQuery)
      else answer (\<lambda>(items, next). MembersBody items next) (bind_res (pageLimit (query_get ''limit'' q)) (\<lambda>limit.
        CampaignMembers (api_Repository a) (hd parts) version (query_get ''cursor'' q) limit s)))"

definition api_health :: response where
  "api_health = writeJSON 200 HealthBody"

definition api_results :: "api \<Rightarrow> url_values \<Rightarrow> db \<Rightarrow> response" where
  "api_results a q s = answer (\<lambda>p. ResultsBody (resultViews p)) (bind_res (query_filter q) (\<lambda>f. Results (api_Repository a) f s))"

definition api_decisions :: "api \<Rightarrow> url_values \<Rightarrow> db \<Rightarrow> response" where
  "api_decisions a q s = answer (\<lambda>(items, next). DecisionsBody items next) (bind_res (query_filter q) (\<lambda>f. Decisions (api_Repository a) f s))"

definition api_result :: "api \<Rightarrow> http_request \<Rightarrow> db \<Rightarrow> response" where
  "api_result a r s =
     (let i = TrimPrefix (url_Path r) ''/v1/results/'' in
      if i = [] \<or> CHR ''/'' \<in> set i then writeQueryError (Some Results.ErrInvalidQuery)
      else case bind_res (query_filter (query_set ''id'' i (rq_Query r))) (\<lambda>f. Results (api_Repository a) f s) of
          Inr ([x], _) \<Rightarrow> writeJSON 200 (ResultBody (resultView x))
        | Inr _ \<Rightarrow> writeJSON 404 (ErrorBody ''not found'')
        | Inl e \<Rightarrow> writeQueryError (Some e))"

definition api_decision :: "api \<Rightarrow> http_request \<Rightarrow> db \<Rightarrow> response" where
  "api_decision a r s =
     (let i = TrimPrefix (url_Path r) ''/v1/decisions/'' in
      if i = [] \<or> CHR ''/'' \<in> set i then writeQueryError (Some Results.ErrInvalidQuery)
      else api_decisions a (query_set ''id'' i (rq_Query r)) s)"

definition api_summary :: "api \<Rightarrow> url_values \<Rightarrow> db \<Rightarrow> response" where
  "api_summary a q s = answer SummaryBody (bind_res (query_filter q) (\<lambda>f.
     Summary (api_Repository a) (fl_From f) (fl_To f) (query_get ''interval'' q) s))"

definition api_dashboard :: "api \<Rightarrow> string \<Rightarrow> url_values \<Rightarrow> db \<Rightarrow> response" where
  "api_dashboard a kind raw s = (case dashboardQuery raw of
       Inl e \<Rightarrow> writeQueryError (Some e)
     | Inr q \<Rightarrow> (case api_Dashboard a of
         None \<Rightarrow> writeQueryError None
       | Some (ex, now) \<Rightarrow> answer (DashboardBody q)
           (if kind = ''overview'' then Overview ex now q s
            else if kind = ''funnel'' then Funnel ex now q s
            else if kind = ''series'' then Series ex now q s
            else Operations now q s)))"

section \<open>The handler\<close>

datatype api_route =
  RHealth | RResults | RResult | RDecisions | RDecision | RSummary | ROverview | RFunnel | RSeries | ROperations | RCampaigns | RCampaign

definition api_routes :: "api_route route list" where
  "api_routes = map (Pair ''GET'')
     [(''/healthz'', RHealth), (''/v1/results'', RResults), (''/v1/results/'', RResult), (''/v1/decisions'', RDecisions),
      (''/v1/decisions/'', RDecision), (''/v1/analytics/summary'', RSummary), (''/v1/dashboard/overview'', ROverview),
      (''/v1/dashboard/funnel'', RFunnel), (''/v1/dashboard/series'', RSeries), (''/v1/dashboard/operations'', ROperations),
      (''/v1/campaigns'', RCampaigns), (''/v1/campaigns/'', RCampaign)]"

fun api_route_handler :: "api \<Rightarrow> api_route \<Rightarrow> http_request \<Rightarrow> db \<Rightarrow> response" where
  "api_route_handler a RHealth r s = api_health"
| "api_route_handler a RResults r s = api_results a (rq_Query r) s"
| "api_route_handler a RResult r s = api_result a r s"
| "api_route_handler a RDecisions r s = api_decisions a (rq_Query r) s"
| "api_route_handler a RDecision r s = api_decision a r s"
| "api_route_handler a RSummary r s = api_summary a (rq_Query r) s"
| "api_route_handler a ROverview r s = api_dashboard a ''overview'' (rq_Query r) s"
| "api_route_handler a RFunnel r s = api_dashboard a ''funnel'' (rq_Query r) s"
| "api_route_handler a RSeries r s = api_dashboard a ''series'' (rq_Query r) s"
| "api_route_handler a ROperations r s = api_dashboard a ''operations'' (rq_Query r) s"
| "api_route_handler a RCampaigns r s = api_campaigns a r s"
| "api_route_handler a RCampaign r s = api_campaign a r s"

definition bare :: "int \<Rightarrow> response" where
  "bare status = \<lparr>rs_Status = status, rs_Header = Map.empty, rs_Body = NoBody\<rparr>"

definition api_mux :: "api \<Rightarrow> http_request \<Rightarrow> db \<Rightarrow> response" where
  "api_mux a r s = (case ServeMux api_routes r of
       Handled h \<Rightarrow> api_route_handler a h r s | Redirected \<Rightarrow> bare 307 | MethodNotAllowed \<Rightarrow> bare 405 | NotFound \<Rightarrow> bare 404)"

definition genericUnauthorized :: response where
  "genericUnauthorized = (let w = writeJSON 401 (ErrorBody ''unauthorized'') in w\<lparr>rs_Header := (rs_Header w)(''WWW-Authenticate'' \<mapsto> ''Bearer'')\<rparr>)"

definition api_auth :: "crypto \<Rightarrow> string \<Rightarrow> string \<Rightarrow> string \<Rightarrow> bool" where
  "api_auth cr token path raw =
     (if path = ''/healthz'' then True
      else if length token < 32 \<or> \<not> HasPrefix raw ''Bearer '' then False
      else sha256 cr token = sha256 cr (TrimPrefix raw ''Bearer ''))"

definition securityHeaders :: "response \<Rightarrow> response" where
  "securityHeaders w = w\<lparr>rs_Header := [''Cache-Control'' \<mapsto> ''no-store'', ''X-Content-Type-Options'' \<mapsto> ''nosniff''] ++ rs_Header w\<rparr>"

definition api_Handler :: "crypto \<Rightarrow> api \<Rightarrow> http_request \<Rightarrow> db \<Rightarrow> response" where
  "api_Handler cr a r s = securityHeaders
     (if api_auth cr (api_Token a) (url_Path r) (query_get ''Authorization'' (rq_Header r)) then api_mux a r s else genericUnauthorized)"

interpretation results_gate: bearer_gate api_auth
  by unfold_locales (auto simp: api_auth_def)

section \<open>Who may read, and what\<close>

lemma unauthenticated_health:
  assumes "HasPrefix (rq_EscapedPath r) ''/''" "url_Path r = ''/healthz''"
  shows "api_mux a r s = api_mux a r s'"
proof -
  have "hd (rq_EscapedPath r) = CHR ''/''" using assms(1) by (cases "rq_EscapedPath r") (auto simp: HasPrefix_def)
  moreover have "PathUnescape (rq_EscapedPath r) = Some (CHR ''/'' # ''healthz'')"
    using assms(2) by (simp add: url_Path_def split: option.splits)
  ultimately have segs: "path_segments (rq_EscapedPath r) = [''healthz'']" using path_segments_plain [of _ "''healthz''"] by simp
  have "h = RHealth" if "ServeMux api_routes r = Handled h" for h
    using that unfolding ServeMux_def segs
    by (cases "rq_Method r = ''GET''"; cases "rq_Method r = ''HEAD''")
      (auto simp: most_specific_def api_routes_def serves_def exact_match_def subtree_match_def pattern_segments_def split: if_splits)
  then show ?thesis by (auto simp: api_mux_def split: mux_reply.splits)
qed

text \<open>
  C26: Without the bearer token the read API reveals nothing. A request that does not carry the
  configured token, or any request when that token is shorter than 32 bytes, gets the same answer
  whatever the database holds, and the answer is 401 on every path other than the health check. The
  hypothesis on the digest says that the presented credential does not collide with the token.
\<close>

theorem unauthenticated_reads_nothing:
  assumes "HasPrefix (rq_EscapedPath r) ''/''"
    and "sha256 cr (api_Token a) = sha256 cr (TrimPrefix (query_get ''Authorization'' (rq_Header r)) ''Bearer '') \<Longrightarrow>
      TrimPrefix (query_get ''Authorization'' (rq_Header r)) ''Bearer '' = api_Token a"
    and "length (api_Token a) < 32 \<or> query_get ''Authorization'' (rq_Header r) \<noteq> ''Bearer '' @ api_Token a"
  shows "api_Handler cr a r s = api_Handler cr a r s' \<and>
    (url_Path r \<noteq> ''/healthz'' \<longrightarrow> api_Handler cr a r s = securityHeaders genericUnauthorized \<and> rs_Status (api_Handler cr a r s) = 401)"
proof (cases "url_Path r = ''/healthz''")
  case True
  have "api_mux a r s = api_mux a r s'" by (rule unauthenticated_health [OF assms(1) True])
  then show ?thesis using True by (simp add: api_Handler_def)
next
  case False
  with results_gate.only_the_token [OF False assms(2)] assms(3) show ?thesis
    by (auto simp: api_Handler_def genericUnauthorized_def securityHeaders_def writeJSON_def)
qed

text \<open>
  The read API exposes projections only. Its answer to any request depends on the result,
  decision, campaign and analytics tables and on the states of runs and rejections; the registry
  of submitters with their addresses and capabilities, the deliveries with their report
  destinations, the admission tables, the policy and the control tables can be anything.
\<close>

theorem api_exposes_projections_only:
  "api_Handler cr a r (s\<lparr>deliveries := t1, collector_lease := t2, submitters := t3, submitter_challenges := t4,
      submission_capabilities := t5, submission_decisions := t6, admission_events := t7, report_delivery_attempts := t8,
      decision_signing_outbox := t9, analytics_cursor := t10, analytics_projector_lease := t11, analytics_backup_markers := t12,
      intel_projection_outbox := t13, policy_versions := t14, policy_rules := t15, control_commands := t16,
      audit_events := t17, confirmation_tokens := t18, policy_bootstrap := t19, policy_bootstrap_observations := t20\<rparr>) =
   api_Handler cr a r s"
  (is "api_Handler cr a r ?s = _")
proof -
  have store: "Results R f ?s = Results R f s" "Decisions R f ?s = Decisions R f s" "Summary R x y i ?s = Summary R x y i s"
    "Campaigns R g ?s = Campaigns R g s" "CampaignMembers R c v k n ?s = CampaignMembers R c v k n s"
    "CampaignDetail c v ?s = CampaignDetail c v s" for R f x y i g c v k n
    by (simp_all add: Results_def Decisions_def Summary_def summary_rows_def Campaigns_def CampaignMembers_def CampaignDetail_def Let_def cong: option.case_cong sum.case_cong if_cong)
  have reader: "Overview ex now q ?s = Overview ex now q s" "Funnel ex now q ?s = Funnel ex now q s"
    "Series ex now q ?s = Series ex now q s" "Operations now q ?s = Operations now q s" for ex now q
    by (simp_all add: Overview_def Funnel_def Series_def Operations_def aggregate_def latencyP95_def latency_rows_def
        series_rows_def runs_created_def)
  have "api_route_handler a h r ?s = api_route_handler a h r s" for h
    by (cases h) (simp_all only: api_route_handler.simps api_results_def api_decisions_def api_result_def api_decision_def api_summary_def
        api_dashboard_def api_campaigns_def api_campaign_def store reader)
  then show ?thesis by (simp add: api_Handler_def api_mux_def cong: mux_reply.case_cong)
qed

section \<open>Looking up one result\<close>

lemma result_path:
  assumes "plain i" "CHR ''%'' \<notin> set i"
  shows "cleanPath (''/v1/results/'' @ i) = ''/v1/results/'' @ i" "path_segments (''/v1/results/'' @ i) = [''v1'', ''results'', i]"
    "PathUnescape (''/v1/results/'' @ i) = Some (''/v1/results/'' @ i)"
proof -
  have u: "PathUnescape i = Some i" using assms(2) by (induction i) auto
  have p: "''/v1/results/'' @ i = ''/v1/results'' @ CHR ''/'' # i" by simp
  have i: "i \<noteq> []" "last i \<noteq> CHR ''/''" "Split (CHR ''/'') i = [i]"
    using assms(1) by (auto simp: plain_def Split_plain dest: last_in_set)
  have "Clean (''/v1/results/'' @ i) = ''/v1/results/'' @ i"
    unfolding p using Clean_child [OF assms(1), of "''/v1/results''"] by (simp add: HasPrefix_def)
  then show "cleanPath (''/v1/results/'' @ i) = ''/v1/results/'' @ i" using i by (simp add: cleanPath_def Let_def)
  show "path_segments (''/v1/results/'' @ i) = [''v1'', ''results'', i]" using i(3) u by (simp add: path_segments_def)
  show "PathUnescape (''/v1/results/'' @ i) = Some (''/v1/results/'' @ i)" using u by simp
qed

lemma filter_row_by: "distinct (map k t) \<Longrightarrow> filter (\<lambda>x. k x = v) t = (case row_by k v t of None \<Rightarrow> [] | Some x \<Rightarrow> [x])"
proof (induction t)
  case (Cons a t)
  then have "k a = v \<Longrightarrow> row_by k v t = None" by (auto simp: row_by_None)
  with Cons show ?case by auto
qed simp

lemma Results_by_id:
  assumes "32 \<le> length (CursorKey R)" "i \<noteq> []" "length i \<le> 256" "distinct (map rr_run_id (result_records s))"
  shows "Results R (no_filter\<lparr>fl_ID := i\<rparr>) s = Inr (case row_by rr_run_id i (result_records s) of None \<Rightarrow> [] | Some x \<Rightarrow> [x], [])"
proof -
  have m: "result_matches (no_filter\<lparr>fl_ID := i\<rparr>) = (\<lambda>x. rr_run_id x = i)"
    using assms(2) by (auto simp: result_matches_def when_set_def no_filter_def in_range_def)
  have "repo_validate R (no_filter\<lparr>fl_ID := i\<rparr>) = Inr 50" "fl_Cursor (no_filter\<lparr>fl_ID := i\<rparr>) = []"
    using assms(1,3) by (simp_all add: repo_validate_def no_filter_def MaxPageSize_def)
  then show ?thesis
    by (simp add: Results_def m filter_row_by [OF assms(4)] list_page_def page_rows_def page_cut_def split: option.splits)
qed

text \<open>
  Looking a result up by its run gives exactly the stored record. An authenticated
  \<open>GET /v1/results/<run>\<close> answers 200 with the resource of the record of that run when there is one and
  404 when there is none, for every identifier that is one plain path component of at most 256
  bytes, whatever else the store holds.
\<close>

theorem result_lookup:
  assumes "32 \<le> length (api_Token a)" "query_get ''Authorization'' (rq_Header r) = ''Bearer '' @ api_Token a"
    and "rq_Method r = ''GET''" "rq_EscapedPath r = ''/v1/results/'' @ i" "rq_Query r = []"
    and i: "plain i" "CHR ''%'' \<notin> set i" "length i \<le> 256"
    and "32 \<le> length (CursorKey (api_Repository a))" "distinct (map rr_run_id (result_records s))"
  shows "api_Handler cr a r s = securityHeaders (case row_by rr_run_id i (result_records s) of
     None \<Rightarrow> writeJSON 404 (ErrorBody ''not found'') | Some x \<Rightarrow> writeJSON 200 (ResultBody (resultView x)))"
proof -
  have path: "url_Path r = ''/v1/results/'' @ i" using assms(4) result_path(3) [OF i(1,2)] by (simp add: url_Path_def)
  then have "api_auth cr (api_Token a) (url_Path r) (query_get ''Authorization'' (rq_Header r))"
    using assms(1,2) by (simp add: api_auth_def HasPrefix_def TrimPrefix_def)
  moreover have "ServeMux api_routes r = Handled RResult"
    using i(1) result_path(1,2) [OF i(1,2)] assms(3,4)
    by (simp add: ServeMux_def Let_def most_specific_def api_routes_def serves_def exact_match_def subtree_match_def pattern_segments_def plain_def)
  moreover have "query_filter (query_set ''id'' i []) = Inr (no_filter\<lparr>fl_ID := i\<rparr>)"
    by (simp add: query_filter_def query_set_def onlyQuery_def filter_keys_def query_get_def optional_time_def no_filter_def)
  moreover have "TrimPrefix (''/v1/results/'' @ i) ''/v1/results/'' = i" by (simp add: TrimPrefix_def HasPrefix_def)
  ultimately show ?thesis
    using i Results_by_id [OF assms(9) _ i(3) assms(10)] assms(5)
    by (simp add: api_Handler_def api_mux_def api_result_def path plain_def Let_def split: option.splits)
qed

section \<open>Examples\<close>

definition example_api :: api where
  "example_api = \<lparr>api_Repository = example_repo, api_Dashboard = None, api_Token = replicate 32 (CHR ''t'')\<rparr>"

definition example_get :: "string \<Rightarrow> string \<Rightarrow> http_request" where
  "example_get path token = \<lparr>rq_Method = ''GET'', rq_Host = ''results'', rq_EscapedPath = path, rq_Query = [],
     rq_Header = [(''Authorization'', [''Bearer '' @ token])], rq_Form = [], rq_Cookies = []\<rparr>"

lemma example_get_authorization: "query_get ''Authorization'' (rq_Header (example_get path token)) = ''Bearer '' @ token"
  by (simp add: example_get_def query_get_def)

theorem unauthenticated_reads_nothing_witness:
  "api_Handler example_crypto example_api (example_get ''/v1/results'' ''guess'') ((Migrate 0)\<lparr>result_records := [example_result ''r1'' 5]\<rparr>) =
     api_Handler example_crypto example_api (example_get ''/v1/results'' ''guess'') (Migrate 0) \<and>
   rs_Status (api_Handler example_crypto example_api (example_get ''/v1/results'' ''guess'') (Migrate 0)) = 401"
proof -
  let ?r = "example_get ''/v1/results'' ''guess''"
  have "url_Path ?r \<noteq> ''/healthz''" by (simp add: url_Path_def example_get_def)
  moreover have "HasPrefix (rq_EscapedPath ?r) ''/''" by (simp add: example_get_def HasPrefix_def)
  moreover have "TrimPrefix (query_get ''Authorization'' (rq_Header ?r)) ''Bearer '' = ''guess''"
    unfolding example_get_authorization by (simp add: TrimPrefix_def HasPrefix_def)
  moreover have "sha256 example_crypto (api_Token example_api) \<noteq> sha256 example_crypto ''guess''"
    by (simp add: example_crypto_def example_api_def numeral_eq_Suc)
  moreover have "query_get ''Authorization'' (rq_Header ?r) \<noteq> ''Bearer '' @ api_Token example_api"
    unfolding example_get_authorization by (simp add: example_api_def numeral_eq_Suc)
  ultimately show ?thesis using unauthenticated_reads_nothing [of ?r example_crypto example_api] by metis
qed

theorem result_lookup_witness:
  "rs_Status (api_Handler example_crypto example_api (example_get (''/v1/results/'' @ ''r1'') (api_Token example_api))
      ((Migrate 0)\<lparr>result_records := [example_result ''r1'' 5]\<rparr>)) = 200 \<and>
   rs_Status (api_Handler example_crypto example_api (example_get (''/v1/results/'' @ ''r2'') (api_Token example_api))
      ((Migrate 0)\<lparr>result_records := [example_result ''r1'' 5]\<rparr>)) = 404"
proof -
  let ?s = "(Migrate 0)\<lparr>result_records := [example_result ''r1'' 5]\<rparr>"
  have a: "32 \<le> length (api_Token example_api)" "32 \<le> length (CursorKey (api_Repository example_api))"
    by (simp_all add: example_api_def example_repo_def)
  have d: "distinct (map rr_run_id (result_records ?s))" by simp
  have l: "api_Handler example_crypto example_api (example_get (''/v1/results/'' @ i) (api_Token example_api)) ?s = securityHeaders
      (case row_by rr_run_id i (result_records ?s) of None \<Rightarrow> writeJSON 404 (ErrorBody ''not found'')
        | Some x \<Rightarrow> writeJSON 200 (ResultBody (resultView x)))" if "plain i" "CHR ''%'' \<notin> set i" "length i \<le> 256" for i
    by (rule result_lookup [OF a(1) example_get_authorization _ _ _ that a(2) d]) (simp_all add: example_get_def)
  have "plain ''r1''" "plain ''r2''" by (simp_all add: plain_def)
  then show ?thesis using l [of "''r1''"] l [of "''r2''"]
    by (simp add: example_result_def securityHeaders_def writeJSON_def)
qed

end
