(* ===== verification/Dashboard.thy ===== *)
theory Dashboard
  imports Control Analytics
begin

text \<open>
  \<open>internal/dashboard\<close>: the operator interface. \<open>boundary\<close> guards every request (no forwarded headers, the
  configured host, a signed session cookie, and for a POST the configured origin and a CSRF token
  bound to session, method and path); the pages show read models, and the management handlers turn
  a form into a command of the control API. A rendered page is the view given to the template. What
  the upstream servers answer is a parameter of a request: \<open>None\<close> is no answer; otherwise the status,
  what decoding the body left in the target and whether the strict decoding succeeded. Random bytes
  are parameters too; \<open>None\<close> is a failing source.
\<close>

section \<open>Configuration\<close>

record origin =
  og_Scheme :: string
  og_Host :: string

definition origin_String :: "origin \<Rightarrow> string" where
  "origin_String o' = og_Scheme o' @ ''://'' @ og_Host o'"

record client =
  cl_BaseURL :: "string option"
  cl_Token :: string

record config =
  cg_PublicOrigin :: "origin option"
  cg_SessionKey :: string
  cg_Control :: client

section \<open>Sessions and CSRF tokens\<close>

definition hasForwardedHeader :: "url_values \<Rightarrow> bool" where
  "hasForwardedHeader header = list_ex (\<lambda>(name, _). let n = ToLower name in n = ''forwarded'' \<or> HasPrefix n ''x-forwarded-'') header"

text \<open>The session \<open>boundary\<close> stored in the context, or else the first part of the cookie.\<close>

definition sessionID :: "string option \<Rightarrow> http_request \<Rightarrow> string" where
  "sessionID ctx r = (case ctx of Some s \<Rightarrow> s
     | None \<Rightarrow> (case map_of (rq_Cookies r) ''mailproof_session'' of None \<Rightarrow> [] | Some v \<Rightarrow> hd (Split (CHR ''.'') v)))"

definition FormValue :: "string \<Rightarrow> http_request \<Rightarrow> string" where
  "FormValue k r = query_get k (rq_Form r)"

definition dash_randomID :: "string option \<Rightarrow> string option" where
  "dash_randomID bytes = map_option b64_encode bytes"

definition csrf :: "crypto \<Rightarrow> string \<Rightarrow> string \<Rightarrow> string \<Rightarrow> string \<Rightarrow> string option \<Rightarrow> time \<Rightarrow> string option" where
  "csrf cr s method path key nonce_bytes now = map_option (\<lambda>nonce.
     let raw = Join ''|'' [s, method, path, show_int (now + 300), nonce] in
     b64_encode raw @ ''.'' @ b64_encode (hmac cr key raw)) (dash_randomID nonce_bytes)"

definition validCSRF :: "crypto \<Rightarrow> config \<Rightarrow> string option \<Rightarrow> time \<Rightarrow> http_request \<Rightarrow> bool" where
  "validCSRF cr c ctx now r =
     (let v = Split (CHR ''.'') (FormValue ''csrf'' r) in
      length v = 2 \<and>
      (case b64_decode (v ! 0) of None \<Rightarrow> False
       | Some raw \<Rightarrow> b64_decode (v ! 1) = Some (hmac cr (cg_SessionKey c) raw) \<and>
           (let p = Split (CHR ''|'') raw in
            length p = 5 \<and> p ! 0 = sessionID ctx r \<and> p ! 1 = rq_Method r \<and> p ! 2 = url_Path r \<and> p ! 4 \<noteq> [] \<and>
            (case ParseInt (p ! 3) of None \<Rightarrow> False | Some e \<Rightarrow> now \<le> e))))"

definition validSession :: "crypto \<Rightarrow> string \<Rightarrow> string \<Rightarrow> time \<Rightarrow> bool" where
  "validSession cr value key now =
     (let parts = Split (CHR ''.'') value in
      length parts = 3 \<and>
      (case ParseInt (parts ! 1) of None \<Rightarrow> False | Some expiry \<Rightarrow> \<not> now > expiry) \<and>
      b64_decode (parts ! 2) = Some (hmac cr key (parts ! 0 @ ''.'' @ parts ! 1)))"

text \<open>The cookie that \<open>ensureSession\<close> sets; it is always \<open>HttpOnly\<close>, \<open>SameSite=Strict\<close> and for the path \<open>/\<close>.\<close>

record cookie =
  ck_Value :: string
  ck_Secure :: bool
  ck_Expires :: time

definition session_value :: "crypto \<Rightarrow> string \<Rightarrow> string \<Rightarrow> time \<Rightarrow> string" where
  "session_value cr key bytes expires = (let body = b64_encode bytes @ ''.'' @ show_int expires in
     body @ ''.'' @ b64_encode (hmac cr key body))"

definition ensureSession :: "crypto \<Rightarrow> config \<Rightarrow> origin \<Rightarrow> string option \<Rightarrow> time \<Rightarrow> http_request \<Rightarrow> (string \<times> cookie option) option" where
  "ensureSession cr c o' bytes now r =
     (case map_of (rq_Cookies r) ''mailproof_session'' of
        Some v \<Rightarrow> if validSession cr v (cg_SessionKey c) now then Some (hd (Split (CHR ''.'') v), None)
          else map_option (\<lambda>b. (b64_encode b, Some \<lparr>ck_Value = session_value cr (cg_SessionKey c) b (now + 12 * 3600),
            ck_Secure = (og_Scheme o' = ''https''), ck_Expires = now + 12 * 3600\<rparr>)) bytes
      | None \<Rightarrow> map_option (\<lambda>b. (b64_encode b, Some \<lparr>ck_Value = session_value cr (cg_SessionKey c) b (now + 12 * 3600),
            ck_Secure = (og_Scheme o' = ''https''), ck_Expires = now + 12 * 3600\<rparr>)) bytes)"

section \<open>The boundary\<close>

text \<open>A request is refused with a status, or passes with the session of its context.\<close>

datatype gate = Refused int "cookie option" | Passed "string option" "cookie option"

definition boundary :: "crypto \<Rightarrow> config \<Rightarrow> string option \<Rightarrow> time \<Rightarrow> http_request \<Rightarrow> gate" where
  "boundary cr c bytes now r =
     (if hasForwardedHeader (rq_Header r) then Refused 400 None
      else case cg_PublicOrigin c of
          None \<Rightarrow> if rq_Method r = ''POST'' then Refused 400 None else Passed None None
        | Some o' \<Rightarrow>
            if rq_Host r \<noteq> og_Host o' then Refused 400 None
            else case (if length (cg_SessionKey c) \<ge> 32 \<and> url_Path r \<noteq> ''/healthz''
                then map_option (\<lambda>(s, k). (Some s, k)) (ensureSession cr c o' bytes now r) else Some (None, None)) of
                None \<Rightarrow> Refused 503 None
              | Some (ctx, k) \<Rightarrow>
                  if rq_Method r = ''POST'' \<and>
                     (query_get ''Origin'' (rq_Header r) \<noteq> origin_String o' \<or>
                      (query_get ''Sec-Fetch-Site'' (rq_Header r) \<noteq> [] \<and> query_get ''Sec-Fetch-Site'' (rq_Header r) \<noteq> ''same-origin'') \<or>
                      \<not> validCSRF cr c ctx now r)
                  then Refused 400 k else Passed ctx k)"

section \<open>The upstream clients\<close>

type_synonym 'a upstream = "(int \<times> 'a \<times> bool) option"

record rule_item =
  ru_ID :: string
  ru_Type :: string
  ru_Subject :: string
  ru_Value :: string
  ru_Version :: int
  ru_Expiry :: "int option"

record submitter_item =
  su_ID :: string
  su_Status :: string
  su_PolicyVersion :: string
  su_Minute :: int
  su_Hour :: int
  su_Day :: int

record bootstrap_item =
  bt_Imported :: bool
  bt_SourceDigest :: string
  bt_ImportedAt :: int
  bt_Observation :: "(string \<times> int \<times> string \<times> int) option"

record policy_reply =
  po_SchemaVersion :: string
  po_PolicyVersion :: int
  po_Items :: "rule_item list option"
  po_Submitters :: "submitter_item list option"
  po_Bootstrap :: bootstrap_item

record audit_item =
  ai_CommandID :: string
  ai_Actor :: string
  ai_SessionID :: string
  ai_CommandType :: string
  ai_Result :: string
  ai_BeforeDigest :: string
  ai_AfterDigest :: string
  ai_Reason :: string
  ai_CreatedAt :: int

record audit_reply =
  ar_SchemaVersion :: string
  ar_Items :: "audit_item list"

record preview_reply =
  pw_SchemaVersion :: string
  pw_DryRun :: bool
  pw_Preview :: preview

record result_reply =
  rp_SchemaVersion :: string
  rp_Result :: ctl_result

definition call :: "client \<Rightarrow> 'a \<Rightarrow> 'a upstream \<Rightarrow> 'a \<times> err option" where
  "call c zero resp =
     (if cl_BaseURL c = None \<or> length (cl_Token c) < 32 then (zero, Some (Err ''dashboard control client unavailable''))
      else case resp of
          None \<Rightarrow> (zero, Some (Err ''dashboard control unavailable''))
        | Some (status, out, decoded) \<Rightarrow>
            if status < 200 \<or> status > 299 then (zero, Some (Err ''dashboard control rejected request''))
            else (out, if decoded then None else Some (Err ''invalid dashboard control response'')))"

definition checked :: "('a \<Rightarrow> bool) \<Rightarrow> string \<Rightarrow> 'a \<times> err option \<Rightarrow> 'a \<times> err option" where
  "checked bad msg r = (case r of (v, None) \<Rightarrow> (v, if bad v then Some (Err msg) else None) | _ \<Rightarrow> r)"

definition no_policy :: policy_reply where
  "no_policy = \<lparr>po_SchemaVersion = [], po_PolicyVersion = 0, po_Items = None, po_Submitters = None,
     po_Bootstrap = \<lparr>bt_Imported = False, bt_SourceDigest = [], bt_ImportedAt = 0, bt_Observation = None\<rparr>\<rparr>"

definition client_Policy :: "client \<Rightarrow> policy_reply upstream \<Rightarrow> policy_reply \<times> err option" where
  "client_Policy c resp = checked (\<lambda>v. po_SchemaVersion v \<noteq> ctl_SchemaVersion \<or> po_PolicyVersion v < 0 \<or> po_Items v = None \<or> po_Submitters v = None)
     ''invalid dashboard control policy'' (call c no_policy resp)"

definition no_audit :: audit_reply where
  "no_audit = \<lparr>ar_SchemaVersion = [], ar_Items = []\<rparr>"

definition client_Audit :: "client \<Rightarrow> audit_reply upstream \<Rightarrow> audit_reply \<times> err option" where
  "client_Audit c resp = checked (\<lambda>v. ar_SchemaVersion v \<noteq> ctl_SchemaVersion) ''invalid dashboard control audit'' (call c no_audit resp)"

definition client_AuditDetail :: "client \<Rightarrow> string \<Rightarrow> audit_reply upstream \<Rightarrow> audit_item res" where
  "client_AuditDetail c commandID resp = (case client_Audit c resp of
       (_, Some e) \<Rightarrow> Inl e
     | (audit, None) \<Rightarrow> (case find (\<lambda>e. ai_CommandID e = commandID) (ar_Items audit) of
         Some e \<Rightarrow> Inr e | None \<Rightarrow> Inl (Err ''audit event not found'')))"

definition no_preview :: preview_reply where
  "no_preview = \<lparr>pw_SchemaVersion = [], pw_DryRun = False, pw_Preview = \<lparr>pv_ConfirmationToken = [], pv_BeforeDigest = [], pv_AfterDigest = [],
     pv_ExpiresAt = zero_time, pv_Normalized = empty_payload, pv_CurrentVersion = 0, pv_NextVersion = 0\<rparr>\<rparr>"

definition client_Preview :: "client \<Rightarrow> preview_reply upstream \<Rightarrow> preview_reply \<times> err option" where
  "client_Preview c resp = checked (\<lambda>v. pw_SchemaVersion v \<noteq> ctl_SchemaVersion \<or> \<not> pw_DryRun v \<or> pv_ConfirmationToken (pw_Preview v) = [] \<or>
       pv_BeforeDigest (pw_Preview v) = [] \<or> pv_AfterDigest (pw_Preview v) = [] \<or> pv_ExpiresAt (pw_Preview v) = zero_time \<or>
       pv_NextVersion (pw_Preview v) < pv_CurrentVersion (pw_Preview v))
     ''invalid dashboard control preview'' (call c no_preview resp)"

definition no_result :: result_reply where
  "no_result = \<lparr>rp_SchemaVersion = [], rp_Result = \<lparr>cr_CommandID = [], cr_PolicyVersion = 0, cr_ResultCode = [], cr_Capability = []\<rparr>\<rparr>"

definition client_Confirm :: "client \<Rightarrow> result_reply upstream \<Rightarrow> result_reply \<times> err option" where
  "client_Confirm c resp = checked (\<lambda>v. rp_SchemaVersion v \<noteq> ctl_SchemaVersion \<or> cr_CommandID (rp_Result v) = [] \<or>
       cr_ResultCode (rp_Result v) \<noteq> ''applied'' \<or> cr_PolicyVersion (rp_Result v) < 0)
     ''invalid dashboard control confirmation'' (call c no_result resp)"

text \<open>The query of \<open>Snapshot\<close>, and what it makes of the answer: the projection with its schema version.\<close>

definition snapshot_query :: "time \<Rightarrow> url_values" where
  "snapshot_query now = (let t = Truncate 3600 now in
     query_set ''interval'' ''hour'' (query_set ''to'' (format_rfc3339 t) (query_set ''from'' (format_rfc3339 (t - 86400)) [])))"

definition client_Snapshot :: "client \<Rightarrow> (int \<times> snapshot) upstream \<Rightarrow> snapshot res" where
  "client_Snapshot c resp =
     (if cl_BaseURL c = None \<or> length (cl_Token c) < 32 then Inl (Err ''dashboard results client is unavailable'')
      else case resp of
          None \<Rightarrow> Inl (Err ''dashboard upstream unavailable'')
        | Some (status, (version, snap), decoded) \<Rightarrow>
            if status \<noteq> 200 then Inl (Err ''dashboard upstream unavailable'')
            else if \<not> decoded \<or> version \<noteq> 1 then Inl (Err ''invalid dashboard projection'') else Inr snap)"

section \<open>Forms\<close>

definition parseVersion :: "string \<Rightarrow> int res" where
  "parseVersion v = (if v = [] then Inl (Err ''missing policy version'')
     else case ParseInt v of None \<Rightarrow> Inl (Err ''invalid policy version'')
       | Some n \<Rightarrow> if n < 0 then Inl (Err ''invalid policy version'') else Inr n)"

definition required :: "string \<Rightarrow> string res" where
  "required v = (let t = TrimSpace v in if t = [] \<or> length t > 255 then Inl (Err ''required field missing'') else Inr t)"

definition positive :: "string \<Rightarrow> int res" where
  "positive v = (case ParseInt v of None \<Rightarrow> Inl (Err ''invalid positive number'')
     | Some n \<Rightarrow> if n < 1 then Inl (Err ''invalid positive number'') else Inr n)"

definition validConfirmationFields :: "http_request \<Rightarrow> bool" where
  "validConfirmationFields r =
     (list_all (\<lambda>name. \<not> isl (required (FormValue name r)))
        [''command_id'', ''idempotency_key'', ''confirmation_token'', ''before_digest'', ''after_digest''] \<and>
      (let reason = TrimSpace (FormValue ''reason'' r) in length reason \<ge> 8 \<and> length reason \<le> 512))"

text \<open>The expiry of a rule: an instant that ends in \<open>Z\<close>, or a day from now where the rule is a block.\<close>

definition form_expiry :: "string \<Rightarrow> time \<Rightarrow> http_request \<Rightarrow> string res" where
  "form_expiry typ now r = (let e = FormValue ''expiry'' r in
     if e \<noteq> [] then
       (case parse_rfc3339 e of
          Some t \<Rightarrow> if HasSuffix e ''Z'' then Inr (format_rfc3339 t) else Inl (Err ''invalid expiry'')
        | None \<Rightarrow> Inl (Err ''invalid expiry''))
     else if typ \<noteq> ''subject_allowlist_put'' then Inr (format_rfc3339 (now + 86400)) else Inr [])"

definition managementCommand :: "time \<Rightarrow> http_request \<Rightarrow> payload res" where
  "managementCommand now r = (let typ = FormValue ''command_type'' r in
     if typ = ''quota_change'' then
       bind_res (required (FormValue ''submitter_id'' r)) (\<lambda>i.
       bind_res (positive (FormValue ''minute_limit'' r)) (\<lambda>minute.
       bind_res (positive (FormValue ''hour_limit'' r)) (\<lambda>hour.
       bind_res (positive (FormValue ''day_limit'' r)) (\<lambda>day.
       Inr (empty_payload\<lparr>p_submitter_id := i, p_minute_limit := minute, p_hour_limit := hour, p_day_limit := day\<rparr>)))))
     else if typ = ''submitter_suspend'' \<or> typ = ''submitter_reactivate'' \<or> typ = ''capability_rotate'' then
       bind_res (required (FormValue ''submitter_id'' r)) (\<lambda>i. Inr (empty_payload\<lparr>p_submitter_id := i\<rparr>))
     else if typ = ''peer_block_put'' \<or> typ = ''subject_allowlist_put'' \<or> typ = ''outer_domain_block_put'' \<or> typ = ''subject_domain_block_put'' then
       bind_res (required (FormValue ''value'' r)) (\<lambda>value.
       bind_res (form_expiry typ now r) (\<lambda>expiry.
       Inr (empty_payload\<lparr>p_value := value, p_subject := TrimSpace (FormValue ''subject'' r), p_expiry := expiry\<rparr>)))
     else Inl (Err ''unsupported command''))"

section \<open>Pages\<close>

record view =
  dv_Route :: string
  dv_Title :: string
  dv_Snapshot :: "snapshot option"
  dv_UpstreamError :: "err option"
  dv_Management :: bool
  dv_Policy :: policy_reply
  dv_Audit :: audit_reply
  dv_CSRF :: string
  dv_Preview :: "preview_reply option"
  dv_Command :: "command option"
  dv_Message :: string
  dv_Capability :: string
  dv_AuditDetail :: "audit_item option"
  dv_AuditLink :: string
  dv_AckCSRF :: string
  dv_CommandID :: string

definition no_view :: view where
  "no_view = \<lparr>dv_Route = [], dv_Title = [], dv_Snapshot = None, dv_UpstreamError = None, dv_Management = False, dv_Policy = no_policy,
     dv_Audit = no_audit, dv_CSRF = [], dv_Preview = None, dv_Command = None, dv_Message = [], dv_Capability = [], dv_AuditDetail = None,
     dv_AuditLink = [], dv_AckCSRF = [], dv_CommandID = []\<rparr>"

definition no_audit_item :: audit_item where
  "no_audit_item = \<lparr>ai_CommandID = [], ai_Actor = [], ai_SessionID = [], ai_CommandType = [], ai_Result = [], ai_BeforeDigest = [],
     ai_AfterDigest = [], ai_Reason = [], ai_CreatedAt = 0\<rparr>"

text \<open>
  A body is a template with its view (\<open>Fragment\<close> is the content template inside its \<open>main\<close> element), a
  text of \<open>http.Error\<close>, an embedded asset, the target of a redirect, or empty.
\<close>

datatype dash_body = Template string view | Fragment view | ErrorText string | Asset string | Location string | Empty

record dash_response =
  dr_Status :: int
  dr_Header :: "string \<rightharpoonup> string"
  dr_Cookie :: "cookie option"
  dr_Body :: dash_body

definition plain_response :: "int \<Rightarrow> dash_body \<Rightarrow> dash_response" where
  "plain_response status b = \<lparr>dr_Status = status, dr_Header = Map.empty, dr_Cookie = None, dr_Body = b\<rparr>"

definition html :: "dash_body \<Rightarrow> dash_response" where
  "html b = \<lparr>dr_Status = 200, dr_Header = [''Vary'' \<mapsto> ''HX-Request'', ''Content-Type'' \<mapsto> ''text/html; charset=utf-8''],
     dr_Cookie = None, dr_Body = b\<rparr>"

definition upper_char :: "char \<Rightarrow> char" where
  "upper_char c = (if 97 \<le> (of_char c :: nat) \<and> (of_char c :: nat) \<le> 122 then char_of ((of_char c :: nat) - 32) else c)"

definition title :: "string \<Rightarrow> string" where
  "title route = (if route = ''/'' then ''Overview'' else map upper_char (take 1 (drop 1 route)) @ drop 2 route)"

definition hx :: "http_request \<Rightarrow> bool" where
  "hx r = (query_get ''HX-Request'' (rq_Header r) = ''true'')"

text \<open>
  What one request meets: the answers of the servers behind the dashboard, for a preview and a confirmation as
  functions of what the dashboard sends, and random bytes.
\<close>

record world =
  up_Snapshot :: "(int \<times> snapshot) upstream"
  up_Policy :: "policy_reply upstream"
  up_Audit :: "audit_reply upstream"
  up_Preview :: "string \<Rightarrow> command \<Rightarrow> preview_reply upstream"
  up_Confirm :: "confirmation \<Rightarrow> result_reply upstream"
  dw_Session :: "string option"
  dw_Command :: "string option"
  dw_Key :: "string option"
  dw_Nonce :: "string option"
  dw_Now :: time

definition dash_page :: "client \<Rightarrow> string \<Rightarrow> world \<Rightarrow> http_request \<Rightarrow> dash_response" where
  "dash_page c route w r =
     (let v = no_view\<lparr>dv_Route := route, dv_Title := title route\<rparr>;
          v = (if route = ''/'' \<or> route = ''/operations'' then
                 (case client_Snapshot c (up_Snapshot w) of
                    Inl e \<Rightarrow> v\<lparr>dv_UpstreamError := Some e\<rparr> | Inr snap \<Rightarrow> v\<lparr>dv_Snapshot := Some snap\<rparr>)
               else v)
      in html (Template (if hx r then ''content'' else ''page'') v))"

definition render :: "http_request \<Rightarrow> view \<Rightarrow> dash_response" where
  "render r v = html (if hx r then Fragment v else Template ''page'' v)"

definition managementPage :: "crypto \<Rightarrow> config \<Rightarrow> bool \<Rightarrow> world \<Rightarrow> string option \<Rightarrow> http_request \<Rightarrow> dash_response" where
  "managementPage cr c audit w ctx r =
     (case csrf cr (sessionID ctx r) ''POST'' ''/policy/preview'' (cg_SessionKey c) (dw_Nonce w) (dw_Now w) of
        None \<Rightarrow> plain_response 503 (ErrorText ''unavailable'')
      | Some token \<Rightarrow>
          let v = no_view\<lparr>dv_Management := True, dv_Route := ''/policy'', dv_Title := ''Policy'', dv_CSRF := token\<rparr> in
          render r
            (if audit then
               let v = v\<lparr>dv_Route := ''/audit'', dv_Title := ''Audit''\<rparr>;
                   commandID = TrimPrefix (Clean (url_Path r)) ''/audit/'' in
               if commandID \<noteq> [] \<and> commandID \<noteq> ''.'' \<and> commandID \<noteq> ''audit'' \<and> CHR ''/'' \<notin> set commandID then
                 (case client_AuditDetail (cg_Control c) commandID (up_Audit w) of
                    Inl e \<Rightarrow> v\<lparr>dv_UpstreamError := Some e, dv_AuditDetail := Some no_audit_item, dv_Title := ''Audit event''\<rparr>
                  | Inr d \<Rightarrow> v\<lparr>dv_AuditDetail := Some d, dv_Title := ''Audit event''\<rparr>)
               else (case client_Audit (cg_Control c) (up_Audit w) of (a, e) \<Rightarrow> v\<lparr>dv_Audit := a, dv_UpstreamError := e\<rparr>)
             else (case client_Policy (cg_Control c) (up_Policy w) of (p, e) \<Rightarrow> v\<lparr>dv_Policy := p, dv_UpstreamError := e\<rparr>)))"

definition policy_message :: "string \<Rightarrow> string \<Rightarrow> view" where
  "policy_message t msg = no_view\<lparr>dv_Management := True, dv_Route := ''/policy'', dv_Title := t, dv_Message := msg\<rparr>"

definition form_command :: "http_request \<Rightarrow> int \<Rightarrow> string \<Rightarrow> string \<Rightarrow> payload \<Rightarrow> command" where
  "form_command r expected commandID idempotencyKey raw =
     \<lparr>cmd_SchemaVersion = ctl_SchemaVersion, cmd_CommandID = commandID, cmd_CommandType = FormValue ''command_type'' r,
      cmd_ExpectedVersion = expected, cmd_Reason = TrimSpace (FormValue ''reason'' r), cmd_IdempotencyKey = idempotencyKey,
      cmd_Command = Some raw\<rparr>"

definition managementPreview :: "crypto \<Rightarrow> config \<Rightarrow> world \<Rightarrow> string option \<Rightarrow> http_request \<Rightarrow> dash_response" where
  "managementPreview cr c w ctx r =
     (case (managementCommand (dw_Now w) r, parseVersion (FormValue ''expected_version'' r)) of
        (Inr raw, Inr expected) \<Rightarrow>
          if length (TrimSpace (FormValue ''reason'' r)) < 8 \<or> length (FormValue ''reason'' r) > 512
          then render r (policy_message ''Policy'' ''Check typed fields and reason.'')
          else (case (dash_randomID (dw_Command w), dash_randomID (dw_Key w),
                  csrf cr (sessionID ctx r) ''POST'' ''/policy/confirm'' (cg_SessionKey c) (dw_Nonce w) (dw_Now w)) of
              (Some commandID, Some idempotencyKey, Some confirmCSRF) \<Rightarrow>
                let cmd = form_command r expected commandID idempotencyKey raw;
                    v = (policy_message ''Policy preview'' ''Preview unavailable'')\<lparr>dv_Command := Some cmd, dv_CSRF := confirmCSRF\<rparr> in
                render r (case client_Preview (cg_Control c) (up_Preview w (sessionID ctx r) cmd) of
                    (p, None) \<Rightarrow> v\<lparr>dv_Preview := Some p, dv_Message := ''Review the preview before confirmation.''\<rparr>
                  | (_, Some _) \<Rightarrow> v)
            | _ \<Rightarrow> plain_response 503 (ErrorText ''unavailable''))
      | _ \<Rightarrow> render r (policy_message ''Policy'' ''Check typed fields and reason.''))"

definition form_confirmation :: "string option \<Rightarrow> http_request \<Rightarrow> int \<Rightarrow> confirmation" where
  "form_confirmation ctx r expected =
     \<lparr>cf_SchemaVersion = ctl_SchemaVersion, cf_CommandID = FormValue ''command_id'' r, cf_ExpectedVersion = expected,
      cf_IdempotencyKey = FormValue ''idempotency_key'' r, cf_ConfirmationToken = FormValue ''confirmation_token'' r,
      cf_BeforeDigest = FormValue ''before_digest'' r, cf_AfterDigest = FormValue ''after_digest'' r,
      cf_Reason = TrimSpace (FormValue ''reason'' r), cf_SessionID = sessionID ctx r\<rparr>"

text \<open>\<open>capabilityShown\<close> is the list of the keys stored in the \<open>sync.Map\<close>.\<close>

definition shown_capability :: "string \<Rightarrow> ctl_result \<Rightarrow> http_request \<Rightarrow> string list \<Rightarrow> string \<times> string list" where
  "shown_capability session out r shown =
     (if FormValue ''command_type'' r = ''capability_rotate'' \<and> cr_Capability out \<noteq> [] then
        let k = session @ ''|'' @ cr_CommandID out in
        if k \<in> set shown then ([], shown) else (cr_Capability out, k # shown)
      else ([], shown))"

definition managementConfirm :: "crypto \<Rightarrow> config \<Rightarrow> world \<Rightarrow> string option \<Rightarrow> http_request \<Rightarrow> string list \<Rightarrow> dash_response \<times> string list" where
  "managementConfirm cr c w ctx r shown =
     (case parseVersion (FormValue ''expected_version'' r) of
        Inl _ \<Rightarrow> (render r (policy_message ''Policy confirmation'' ''Confirmation is invalid or expired.''), shown)
      | Inr expected \<Rightarrow>
          if \<not> validConfirmationFields r then (render r (policy_message ''Policy confirmation'' ''Confirmation is invalid or expired.''), shown)
          else (case csrf cr (sessionID ctx r) ''POST'' ''/policy/ack'' (cg_SessionKey c) (dw_Nonce w) (dw_Now w) of
              None \<Rightarrow> (plain_response 503 (ErrorText ''unavailable''), shown)
            | Some ackCSRF \<Rightarrow>
                (case client_Confirm (cg_Control c) (up_Confirm w (form_confirmation ctx r expected)) of (reply, e) \<Rightarrow>
                   let out = rp_Result reply; (capability, shown') = shown_capability (sessionID ctx r) out r shown in
                   (render r ((policy_message ''Policy confirmation''
                        (if e = None then ''Command applied. Review the immutable audit event.'' else ''Confirmation unavailable''))\<lparr>
                      dv_Capability := capability, dv_AuditLink := ''/audit/'' @ cr_CommandID out, dv_AckCSRF := ackCSRF,
                      dv_CommandID := cr_CommandID out\<rparr>), shown'))))"

definition managementAcknowledge :: "http_request \<Rightarrow> dash_response" where
  "managementAcknowledge r =
     (if FormValue ''acknowledged'' r \<noteq> ''yes'' then plain_response 400 (ErrorText ''bad request'')
      else case required (FormValue ''command_id'' r) of
          Inl _ \<Rightarrow> plain_response 400 (ErrorText ''bad request'')
        | Inr commandID \<Rightarrow> plain_response 303 (Location (''/audit/'' @ TrimPrefix commandID ''/audit/'')))"

section \<open>The handler\<close>

datatype dash_route = DStatic | DHealth | DPage string | DPolicy | DAudit | DPreview | DConfirm | DAck

definition management_enabled :: "config \<Rightarrow> bool" where
  "management_enabled c = (cl_BaseURL (cg_Control c) \<noteq> None \<and> length (cl_Token (cg_Control c)) \<ge> 32)"

definition dash_routes :: "config \<Rightarrow> dash_route route list" where
  "dash_routes c =
     [(''GET'', ''/static/'', DStatic), (''GET'', ''/healthz'', DHealth), (''GET'', ''/'', DPage ''/''),
      (''GET'', ''/operations'', DPage ''/operations''), (''GET'', ''/campaigns'', DPage ''/campaigns''),
      (''GET'', ''/investigations'', DPage ''/investigations''), (''GET'', ''/campaigns/'', DPage ''/campaigns''),
      (''GET'', ''/investigations/'', DPage ''/investigations'')] @
     (if management_enabled c then
        [(''GET'', ''/policy'', DPolicy), (''GET'', ''/audit'', DAudit), (''GET'', ''/audit/'', DAudit),
         (''POST'', ''/policy/preview'', DPreview), (''POST'', ''/policy/confirm'', DConfirm), (''POST'', ''/policy/ack'', DAck)]
      else [])"

definition exactAssets :: "string \<Rightarrow> dash_response" where
  "exactAssets p = (if p \<in> set [''htmx-2.0.10.min.js'', ''dashboard.css'', ''dashboard.js''] then plain_response 200 (Asset p)
     else plain_response 404 (ErrorText ''404 page not found''))"

fun dash_handler :: "crypto \<Rightarrow> client \<Rightarrow> config \<Rightarrow> world \<Rightarrow> string option \<Rightarrow> dash_route \<Rightarrow> http_request \<Rightarrow> string list \<Rightarrow> dash_response \<times> string list" where
  "dash_handler cr rc c w ctx DStatic r shown = (exactAssets (TrimPrefix (url_Path r) ''/static/''), shown)"
| "dash_handler cr rc c w ctx DHealth r shown = (plain_response 204 Empty, shown)"
| "dash_handler cr rc c w ctx (DPage route) r shown = (dash_page rc route w r, shown)"
| "dash_handler cr rc c w ctx DPolicy r shown = (managementPage cr c False w ctx r, shown)"
| "dash_handler cr rc c w ctx DAudit r shown = (managementPage cr c True w ctx r, shown)"
| "dash_handler cr rc c w ctx DPreview r shown = (managementPreview cr c w ctx r, shown)"
| "dash_handler cr rc c w ctx DConfirm r shown = managementConfirm cr c w ctx r shown"
| "dash_handler cr rc c w ctx DAck r shown = (managementAcknowledge r, shown)"

definition privateHeaders :: "dash_response \<Rightarrow> dash_response" where
  "privateHeaders p = p\<lparr>dr_Header := [''Content-Security-Policy'' \<mapsto>
       ''default-src 'none'; script-src 'self'; style-src 'self'; img-src 'self'; connect-src 'self'; form-action 'self'; base-uri 'none'; frame-ancestors 'none'' @ [CHR 0x27],
     ''Referrer-Policy'' \<mapsto> ''no-referrer'', ''X-Content-Type-Options'' \<mapsto> ''nosniff'', ''Cache-Control'' \<mapsto> ''no-store''] ++ dr_Header p\<rparr>"

definition dash_mux :: "crypto \<Rightarrow> client \<Rightarrow> config \<Rightarrow> world \<Rightarrow> string option \<Rightarrow> http_request \<Rightarrow> string list \<Rightarrow> dash_response \<times> string list" where
  "dash_mux cr rc c w ctx r shown = (case ServeMux (dash_routes c) r of
       Handled h \<Rightarrow> dash_handler cr rc c w ctx h r shown
     | Redirected \<Rightarrow> (plain_response 307 Empty, shown)
     | MethodNotAllowed \<Rightarrow> (plain_response 405 Empty, shown)
     | NotFound \<Rightarrow> (plain_response 404 Empty, shown))"

definition NewWithConfig :: "crypto \<Rightarrow> client \<Rightarrow> config \<Rightarrow> world \<Rightarrow> http_request \<Rightarrow> string list \<Rightarrow> dash_response \<times> string list" where
  "NewWithConfig cr rc c w r shown =
     (case boundary cr c (dw_Session w) (dw_Now w) r of
        Refused status k \<Rightarrow> (privateHeaders ((plain_response status (ErrorText (if status = 503 then ''unavailable'' else ''bad request'')))\<lparr>dr_Cookie := k\<rparr>), shown)
      | Passed ctx k \<Rightarrow> (case dash_mux cr rc c w ctx r shown of (p, shown') \<Rightarrow> (privateHeaders (p\<lparr>dr_Cookie := k\<rparr>), shown')))"

section \<open>Tokens and sessions round trip\<close>

lemma bar_not_b64 [simp]: "\<not> is_b64_char (CHR ''|'')"
  by (simp add: is_b64_char_def b64_value_def Let_def)

lemma bar_not_decimal [simp]: "\<not> is_decimal_char (CHR ''|'')" "\<not> is_decimal_char (CHR ''.'')"
  by (simp_all add: is_decimal_char_def)

lemma not_in_b64 [simp]: "\<not> is_b64_char ch \<Longrightarrow> ch \<notin> set (b64_encode x)"
  by (rule b64c.not_in_enc) simp_all

lemma Split_bars:
  assumes "CHR ''|'' \<notin> set s" "CHR ''|'' \<notin> set m" "CHR ''|'' \<notin> set p" "int64_ok e"
  shows "Split (CHR ''|'') (Join ''|'' [s, m, p, show_int e, b64_encode nb]) = [s, m, p, show_int e, b64_encode nb]"
  using assms decc.not_in_enc [OF assms(4), of "CHR ''|''"] by (intro Split_Join) simp_all

lemma b64_encode_eq_Nil [simp]: "b64_encode x = [] \<longleftrightarrow> x = []"
  by (cases x rule: b64_encode.cases) (simp_all add: Let_def)

lemma validCSRF_minted:
  assumes "csrf cr s m p (cg_SessionKey c) (Some nb) t = Some token" "FormValue ''csrf'' r = token"
    and "CHR ''|'' \<notin> set s" "CHR ''|'' \<notin> set m" "CHR ''|'' \<notin> set p" "nb \<noteq> []" "int64_ok (t + 300)"
  shows "validCSRF cr c ctx now r \<longleftrightarrow> sessionID ctx r = s \<and> rq_Method r = m \<and> url_Path r = p \<and> now \<le> t + 300"
proof -
  let ?raw = "Join ''|'' [s, m, p, show_int (t + 300), b64_encode nb]"
  have "token = b64_encode ?raw @ CHR ''.'' # b64_encode (hmac cr (cg_SessionKey c) ?raw)"
    using assms(1) by (simp add: csrf_def dash_randomID_def Let_def)
  then have "Split (CHR ''.'') token = [b64_encode ?raw, b64_encode (hmac cr (cg_SessionKey c) ?raw)]"
    by (simp add: Split_append_sep Split_no_sep)
  then show ?thesis
    using assms(2,6,7) Split_bars [OF assms(3-5,7), of nb] decc.dec_enc [OF assms(7)]
    by (auto simp: validCSRF_def Let_def b64c.dec_enc)
qed

text \<open>
  C23: A CSRF token works for the session, method and path it was made for, for five minutes, and
  for nothing else. A form that carries a token made by \<open>csrf\<close> is accepted exactly when its session,
  method and path are those of the token and no more than 300 seconds have passed.
\<close>

theorem csrf_binding:
  assumes "csrf cr s m p (cg_SessionKey c) (Some nb) t = Some token" "FormValue ''csrf'' r = token"
    and "CHR ''|'' \<notin> set s" "CHR ''|'' \<notin> set m" "CHR ''|'' \<notin> set p" "nb \<noteq> []" "int64_ok (t + 300)"
  shows "validCSRF cr c ctx now r \<longleftrightarrow> sessionID ctx r = s \<and> rq_Method r = m \<and> url_Path r = p \<and> now \<le> t + 300"
  using assms by (rule validCSRF_minted)

lemma session_value_parts:
  assumes "int64_ok e"
  shows "Split (CHR ''.'') (session_value cr key b e) =
     [b64_encode b, show_int e, b64_encode (hmac cr key (b64_encode b @ ''.'' @ show_int e))]"
  using decc.not_in_enc [OF assms, of "CHR ''.''"] by (simp add: session_value_def Let_def Split_append_sep Split_no_sep)

lemma validSession_value: "int64_ok e \<Longrightarrow> validSession cr (session_value cr key b e) key now \<longleftrightarrow> now \<le> e"
  by (auto simp: validSession_def session_value_parts Let_def decc.dec_enc b64c.dec_enc)

text \<open>
  A session lasts twelve hours. When a request is given a new session, a later request that
  sends the cookie back is in the same session, without a new cookie, exactly until the cookie
  expires; after that it gets the session of fresh random bytes.
\<close>

theorem session_roundtrip:
  assumes "ensureSession cr c o' bytes now r = Some (session, Some k)" "int64_ok (now + 12 * 3600)"
    and "map_of (rq_Cookies r') ''mailproof_session'' = Some (ck_Value k)"
  shows "ensureSession cr c o' (Some b') now' r' =
     (if now' \<le> now + 12 * 3600 then Some (session, None)
      else Some (b64_encode b', Some \<lparr>ck_Value = session_value cr (cg_SessionKey c) b' (now' + 12 * 3600),
             ck_Secure = (og_Scheme o' = ''https''), ck_Expires = now' + 12 * 3600\<rparr>))"
proof -
  obtain b where b: "bytes = Some b" "session = b64_encode b" "ck_Value k = session_value cr (cg_SessionKey c) b (now + 12 * 3600)"
    using assms(1) by (auto simp: ensureSession_def split: option.splits if_splits)
  then show ?thesis
    using assms(3) validSession_value [OF assms(2)] session_value_parts [OF assms(2)] by (simp add: ensureSession_def)
qed

section \<open>From a page to its form\<close>

lemma boundary_passed_session:
  assumes "boundary cr c bytes now r = Passed ctx k" "cg_PublicOrigin c = Some o'" "32 \<le> length (cg_SessionKey c)" "url_Path r \<noteq> ''/healthz''"
  obtains s where "ctx = Some s" "ensureSession cr c o' bytes now r = Some (s, k)" "rq_Host r = og_Host o'"
  using assms by (auto simp: boundary_def split: if_splits option.splits)

lemma managementPage_token:
  assumes "dr_Body (managementPage cr c False w ctx r) = Template n v"
  obtains nb where "csrf cr (sessionID ctx r) ''POST'' ''/policy/preview'' (cg_SessionKey c) (Some nb) (dw_Now w) = Some (dv_CSRF v)"
    "dw_Nonce w = Some nb"
proof -
  from assms obtain token where token: "csrf cr (sessionID ctx r) ''POST'' ''/policy/preview'' (cg_SessionKey c) (dw_Nonce w) (dw_Now w) = Some token"
    by (auto simp: managementPage_def plain_response_def split: option.splits)
  then have "dv_CSRF v = token"
    using assms by (auto simp: managementPage_def Let_def render_def html_def split: prod.splits if_splits)
  moreover obtain nb where "dw_Nonce w = Some nb" using token by (auto simp: csrf_def dash_randomID_def)
  ultimately show thesis using token that by simp
qed

lemma management_mux:
  assumes "management_enabled c" "rq_Method r = ''POST''" "rq_EscapedPath r = ''/policy/preview''"
  shows "ServeMux (dash_routes c) r = Handled DPreview"
proof -
  have p: "Split (CHR ''/'') ''/policy/preview'' = [[], ''policy'', ''preview'']" by simp
  have "cleanPath ''/policy/preview'' = ''/policy/preview''" by code_simp
  moreover have "path_segments ''/policy/preview'' = [''policy'', ''preview'']" by (simp add: path_segments_def)
  ultimately show ?thesis using assms
    by (simp add: ServeMux_def Let_def most_specific_def dash_routes_def serves_def exact_match_def pattern_segments_def)
qed

text \<open>
  The form on the policy page can be submitted. When a first visit to \<open>/policy\<close> rendered the
  page and set the session cookie, a POST of the form to \<open>/policy/preview\<close> from the configured
  origin within five minutes, with that cookie and the token of the page, passes the boundary in
  the same session and reaches \<open>managementPreview\<close>.
\<close>

theorem policy_form_accepted:
  assumes page: "NewWithConfig cr rc c w r shown = (resp, shown')" "dr_Cookie resp = Some k" "dr_Body resp = Template ''page'' v"
    and cfg: "cg_PublicOrigin c = Some o'" "32 \<le> length (cg_SessionKey c)" "management_enabled c"
    and get: "rq_Method r = ''GET''" "rq_EscapedPath r = ''/policy''"
    and post: "rq_Method r' = ''POST''" "rq_EscapedPath r' = ''/policy/preview''" "rq_Host r' = og_Host o'"
      "query_get ''Origin'' (rq_Header r') = origin_String o'" "query_get ''Sec-Fetch-Site'' (rq_Header r') = ''same-origin''"
      "\<not> hasForwardedHeader (rq_Header r')" "map_of (rq_Cookies r') ''mailproof_session'' = Some (ck_Value k)"
      "FormValue ''csrf'' r' = dv_CSRF v"
    and time: "dw_Now w' \<le> dw_Now w + 300" "int64_ok (dw_Now w + 12 * 3600)" "int64_ok (dw_Now w + 300)" "dw_Nonce w \<noteq> Some []"
  shows "\<exists>session. boundary cr c (dw_Session w) (dw_Now w) r = Passed (Some session) (Some k) \<and>
     NewWithConfig cr rc c w' r' shown2 = (privateHeaders ((managementPreview cr c w' (Some session) r')\<lparr>dr_Cookie := None\<rparr>), shown2)"
proof -
  have path: "url_Path r = ''/policy''" "url_Path r' = ''/policy/preview''" using get(2) post(2) by (simp_all add: url_Path_def)
  have "Split (CHR ''/'') ''/policy'' = [[], ''policy'']" by simp
  moreover have "cleanPath ''/policy'' = ''/policy''" by code_simp
  ultimately have mux: "ServeMux (dash_routes c) r = Handled DPolicy" using get cfg(3)
    by (simp add: ServeMux_def Let_def most_specific_def dash_routes_def serves_def exact_match_def pattern_segments_def path_segments_def)
  obtain ctx where ctx: "boundary cr c (dw_Session w) (dw_Now w) r = Passed ctx (Some k)"
    "resp = privateHeaders ((managementPage cr c False w ctx r)\<lparr>dr_Cookie := Some k\<rparr>)"
    using page(1-3) mux by (auto simp: NewWithConfig_def dash_mux_def privateHeaders_def plain_response_def split: gate.splits)
  then obtain session where session: "ctx = Some session" "ensureSession cr c o' (dw_Session w) (dw_Now w) r = Some (session, Some k)"
    using boundary_passed_session [OF _ cfg(1,2), of cr "dw_Session w" "dw_Now w" r ctx "Some k"] path(1) by auto
  then obtain b where b: "session = b64_encode b" "ck_Value k = session_value cr (cg_SessionKey c) b (dw_Now w + 12 * 3600)"
    by (auto simp: ensureSession_def split: option.splits if_splits)
  have "dr_Body (managementPage cr c False w ctx r) = Template ''page'' v" using page(3) ctx(2) by (simp add: privateHeaders_def)
  then obtain nb where token: "csrf cr session ''POST'' ''/policy/preview'' (cg_SessionKey c) (Some nb) (dw_Now w) = Some (dv_CSRF v)"
    "dw_Nonce w = Some nb" by (rule managementPage_token) (simp add: session(1) sessionID_def)
  have "validCSRF cr c (Some session) (dw_Now w') r'"
    using validCSRF_minted [OF token(1), of r' "Some session" "dw_Now w'"] post(1,8) token(2) time b(1) path(2)
    by (simp add: sessionID_def)
  moreover have "ensureSession cr c o' bytes (dw_Now w') r' = Some (session, None)" for bytes
    using post(7) b time(1,2) validSession_value [OF time(2)] session_value_parts [OF time(2)] by (simp add: ensureSession_def)
  ultimately have "boundary cr c (dw_Session w') (dw_Now w') r' = Passed (Some session) None"
    using cfg(1,2) post path(2) by (simp add: boundary_def)
  then have "NewWithConfig cr rc c w' r' shown2 = (privateHeaders ((managementPreview cr c w' (Some session) r')\<lparr>dr_Cookie := None\<rparr>), shown2)"
    using management_mux [OF cfg(3) post(1,2)] by (simp add: NewWithConfig_def dash_mux_def)
  with ctx(1) session(1) show ?thesis by blast
qed

section \<open>A capability is shown once\<close>

text \<open>
  What a response shows: the session and command of a page that displays a capability, as the key
  under which the handler remembers it. \<open>displayed\<close> lists these keys for a sequence of requests, from
  the requests and the responses alone.
\<close>

fun body_view :: "dash_body \<Rightarrow> view option" where
  "body_view (Template _ v) = Some v"
| "body_view (Fragment v) = Some v"
| "body_view _ = None"

definition displayed_key :: "crypto \<Rightarrow> config \<Rightarrow> world \<Rightarrow> http_request \<Rightarrow> dash_response \<Rightarrow> string list" where
  "displayed_key cr c w r p = (case (boundary cr c (dw_Session w) (dw_Now w) r, body_view (dr_Body p)) of
       (Passed ctx _, Some v) \<Rightarrow> if dv_Capability v = [] then [] else [sessionID ctx r @ ''|'' @ dv_CommandID v]
     | _ \<Rightarrow> [])"

fun displayed :: "crypto \<Rightarrow> client \<Rightarrow> config \<Rightarrow> (world \<times> http_request) list \<Rightarrow> string list \<Rightarrow> string list" where
  "displayed cr rc c [] shown = []"
| "displayed cr rc c ((w, r) # xs) shown = (case NewWithConfig cr rc c w r shown of
     (p, shown') \<Rightarrow> displayed_key cr c w r p @ displayed cr rc c xs shown')"

definition shows_none :: "dash_response \<Rightarrow> bool" where
  "shows_none p = (case body_view (dr_Body p) of None \<Rightarrow> True | Some v \<Rightarrow> dv_Capability v = [])"

lemma shows_none_simps [simp]:
  "shows_none (privateHeaders p) = shows_none p" "shows_none (p\<lparr>dr_Cookie := k\<rparr>) = shows_none p"
  "shows_none (plain_response n (ErrorText t))" "shows_none (plain_response n (Asset t))" "shows_none (plain_response n (Location t))"
  "shows_none (plain_response n Empty)" "shows_none (render r v) \<longleftrightarrow> dv_Capability v = []" "shows_none (html (Template t v)) \<longleftrightarrow> dv_Capability v = []"
  by (simp_all add: shows_none_def privateHeaders_def plain_response_def render_def html_def)

lemma view_simps [simp]: "body_view (dr_Body (render r v)) = Some v" "dr_Body (privateHeaders p) = dr_Body p"
  by (simp_all add: render_def html_def privateHeaders_def)

lemma no_view_capability [simp]: "dv_Capability no_view = []" "dv_Capability (policy_message t m) = []"
  by (simp_all add: no_view_def policy_message_def)

lemma pages_show_none:
  "shows_none (dash_page rc route w r)" "shows_none (managementPage cr c audit w ctx r)"
  "shows_none (managementPreview cr c w ctx r)" "shows_none (managementAcknowledge r)" "shows_none (exactAssets p)"
  by (simp_all add: dash_page_def managementPage_def managementPreview_def managementAcknowledge_def exactAssets_def Let_def
      split: sum.split option.split prod.split)

lemma confirm_shows:
  assumes "managementConfirm cr c w ctx r shown = (p, shown')"
  shows "shows_none p \<and> shown' = shown \<or>
    (\<exists>v. body_view (dr_Body p) = Some v \<and> sessionID ctx r @ ''|'' @ dv_CommandID v \<notin> set shown \<and>
       shown' = (sessionID ctx r @ ''|'' @ dv_CommandID v) # shown)"
proof -
  show ?thesis
  proof (cases "\<exists>e ack. parseVersion (FormValue ''expected_version'' r) = Inr e \<and> validConfirmationFields r \<and>
      csrf cr (sessionID ctx r) ''POST'' ''/policy/ack'' (cg_SessionKey c) (dw_Nonce w) (dw_Now w) = Some ack")
    case True
    then obtain n where n: "parseVersion (FormValue ''expected_version'' r) = Inr n" by blast
    obtain reply e where "client_Confirm (cg_Control c) (up_Confirm w (form_confirmation ctx r n)) = (reply, e)"
      by (cases "client_Confirm (cg_Control c) (up_Confirm w (form_confirmation ctx r n))")
    with True n assms show ?thesis
      by (cases "shown_capability (sessionID ctx r) (rp_Result reply) r shown")
        (auto simp: managementConfirm_def Let_def shown_capability_def split: if_splits)
  next
    case False
    with assms show ?thesis by (auto simp: managementConfirm_def Let_def split: sum.splits if_splits option.splits)
  qed
qed

lemma displayed_step:
  assumes "NewWithConfig cr rc c w r shown = (p, shown')"
  shows "set shown \<subseteq> set shown'" "distinct (displayed_key cr c w r p)" "set (displayed_key cr c w r p) \<inter> set shown = {}"
    "set (displayed_key cr c w r p) \<subseteq> set shown'"
proof -
  have none: "displayed_key cr c w r p = []" if "shows_none p"
    using that by (auto simp: displayed_key_def shows_none_def split: gate.splits option.splits)
  have "set shown \<subseteq> set shown' \<and> distinct (displayed_key cr c w r p) \<and> set (displayed_key cr c w r p) \<inter> set shown = {} \<and>
    set (displayed_key cr c w r p) \<subseteq> set shown'"
  proof (cases "boundary cr c (dw_Session w) (dw_Now w) r")
    case (Refused status k)
    with assms none show ?thesis by (auto simp: NewWithConfig_def)
  next
    case (Passed ctx k)
    obtain q where q: "dash_mux cr rc c w ctx r shown = (q, shown')" "p = privateHeaders (q\<lparr>dr_Cookie := k\<rparr>)"
      using assms Passed by (auto simp: NewWithConfig_def split: prod.splits)
    show ?thesis
    proof (cases "ServeMux (dash_routes c) r = Handled DConfirm")
      case True
      with q(1) have "managementConfirm cr c w ctx r shown = (q, shown')" by (simp add: dash_mux_def)
      from confirm_shows [OF this] show ?thesis
      proof
        assume "shows_none q \<and> shown' = shown"
        with none q(2) show ?thesis by simp
      next
        assume "\<exists>v. body_view (dr_Body q) = Some v \<and> sessionID ctx r @ ''|'' @ dv_CommandID v \<notin> set shown \<and>
           shown' = (sessionID ctx r @ ''|'' @ dv_CommandID v) # shown"
        with Passed q(2) show ?thesis by (auto simp: displayed_key_def split: if_splits)
      qed
    next
      case False
      with q(1) have "shows_none q \<and> shown' = shown"
        using pages_show_none by (auto simp: dash_mux_def split: mux_reply.splits elim!: dash_handler.elims)
      with none q(2) show ?thesis by auto
    qed
  qed
  then show "set shown \<subseteq> set shown'" "distinct (displayed_key cr c w r p)" "set (displayed_key cr c w r p) \<inter> set shown = {}"
    "set (displayed_key cr c w r p) \<subseteq> set shown'" by blast+
qed

lemma displayed_once: "distinct (displayed cr rc c xs shown) \<and> set (displayed cr rc c xs shown) \<inter> set shown = {}"
proof (induction xs arbitrary: shown)
  case (Cons x xs)
  obtain w r p shown' where x: "x = (w, r)" "NewWithConfig cr rc c w r shown = (p, shown')"
    by (cases x, cases "NewWithConfig cr rc c (fst x) (snd x) shown") auto
  with displayed_step [OF x(2)] Cons [of shown'] show ?case by auto
qed simp

text \<open>
  A rotated capability is displayed at most once. Over any sequence of requests, with any
  answers of the control API, no two responses show a capability for the same session and command.
\<close>

theorem capability_displayed_once:
  "distinct (displayed cr rc c xs [])"
  using displayed_once by blast

section \<open>From a form to a command\<close>

lemma required_Inr: "required v = Inr t \<Longrightarrow> t \<noteq> [] \<and> length t \<le> 255"
  by (auto simp: required_def Let_def split: if_splits)

lemma positive_Inr: "positive v = Inr n \<Longrightarrow> 1 \<le> n \<and> int64_ok n"
  by (auto simp: positive_def ParseInt_def Let_def split: option.splits if_splits list.splits prod.splits)

text \<open>
  C27: Every command the dashboard builds from a form has the shape of its type. It is one of the
  types the control API allows; a submitter command names a submitter and satisfies
  \<open>validateOperation\<close>, with limits that are positive 64-bit integers; a rule command carries a value,
  never disables a rule, and names no submitter; and the members that do not belong to the type
  are empty.
\<close>

theorem form_command_typed:
  assumes "managementCommand now r = Inr v" and "typ = FormValue ''command_type'' r"
  shows "ctl_allowed typ \<and>
    (if typ \<in> set rule_types
     then p_value v \<noteq> [] \<and> length (p_value v) \<le> 255 \<and> p_enabled v = None \<and> p_submitter_id v = [] \<and> p_rule_id v = [] \<and>
       p_minute_limit v = 0 \<and> p_hour_limit v = 0 \<and> p_day_limit v = 0
     else validateOperation typ v = Inr () \<and> p_submitter_id v \<noteq> [] \<and> length (p_submitter_id v) \<le> 255 \<and>
       p_value v = [] \<and> p_subject v = [] \<and> p_expiry v = [] \<and> p_rule_id v = [] \<and> p_enabled v = None \<and>
       (typ = ''quota_change'' \<longrightarrow> (\<forall>n \<in> {p_minute_limit v, p_hour_limit v, p_day_limit v}. 1 \<le> n \<and> int64_ok n)))"
proof -
  consider (quota) "typ = ''quota_change''"
    | (sub) "typ \<in> {''submitter_suspend'', ''submitter_reactivate'', ''capability_rotate''}"
    | (rule) "typ \<in> set rule_types" "typ \<noteq> ''quota_change''" "typ \<notin> {''submitter_suspend'', ''submitter_reactivate'', ''capability_rotate''}"
    using assms by (auto simp: managementCommand_def Let_def rule_types_def split: if_splits)
  then show ?thesis
  proof cases
    case quota
    then obtain i a b d where v: "v = empty_payload\<lparr>p_submitter_id := i, p_minute_limit := a, p_hour_limit := b, p_day_limit := d\<rparr>"
      "i \<noteq> [] \<and> length i \<le> 255" "1 \<le> a \<and> int64_ok a" "1 \<le> b \<and> int64_ok b" "1 \<le> d \<and> int64_ok d"
      using assms by (auto simp: managementCommand_def bind_res_Inr_iff dest!: positive_Inr required_Inr)
    with quota show ?thesis
      by (simp add: ctl_allowed_def rule_types_def validateOperation_def empty_payload_def)
  next
    case sub
    then obtain i where v: "v = empty_payload\<lparr>p_submitter_id := i\<rparr>" "i \<noteq> [] \<and> length i \<le> 255"
      using assms by (auto simp: managementCommand_def bind_res_Inr_iff dest!: required_Inr)
    with sub show ?thesis
      by (auto simp: ctl_allowed_def rule_types_def validateOperation_def empty_payload_def)
  next
    case rule
    then obtain x e where v: "v = empty_payload\<lparr>p_value := x, p_subject := TrimSpace (FormValue ''subject'' r), p_expiry := e\<rparr>"
      "x \<noteq> [] \<and> length x \<le> 255"
      using assms by (auto simp: managementCommand_def Let_def bind_res_Inr_iff dest!: required_Inr split: if_splits)
    with rule show ?thesis by (simp add: ctl_allowed_def empty_payload_def)
  qed
qed

lemma dropWhile_rev_trim: "dropWhile P (rev (dropWhile P (rev (dropWhile P s)))) = rev (dropWhile P (rev (dropWhile P s)))"
proof (cases "dropWhile P s")
  case (Cons a t)
  then have "\<not> P a" by (metis hd_dropWhile list.sel(1) list.simps(3))
  then show ?thesis by (simp add: Cons dropWhile_append)
next
  case Nil
  show ?thesis unfolding Nil by simp
qed

lemma TrimSpace_idem [simp]: "TrimSpace (TrimSpace s) = TrimSpace s"
proof -
  have "dropWhile P (dropWhile P t) = dropWhile P t" for P and t :: string by (induction t) auto
  then show ?thesis by (simp add: TrimSpace_def dropWhile_rev_trim)
qed










lemma hex_encode_Nil [simp]: "hex_encode x = [] \<longleftrightarrow> x = []"
  by (cases x) (simp_all add: Let_def)


lemma writeError_no_value [simp]: "writeError e \<noteq> (status, Inr x)"
  by (simp add: writeError_def failure_def)





section \<open>Examples\<close>

definition example_origin :: origin where
  "example_origin = \<lparr>og_Scheme = ''http'', og_Host = ''localhost:3000''\<rparr>"

definition example_dash :: config where
  "example_dash = \<lparr>cg_PublicOrigin = Some example_origin, cg_SessionKey = replicate 32 (CHR ''k''),
     cg_Control = \<lparr>cl_BaseURL = Some ''http://control'', cl_Token = replicate 32 (CHR ''t'')\<rparr>\<rparr>"

definition example_visit :: "string \<Rightarrow> string \<Rightarrow> (string \<times> string) list \<Rightarrow> url_values \<Rightarrow> http_request" where
  "example_visit method path cookies form = \<lparr>rq_Method = method, rq_Host = ''localhost:3000'', rq_EscapedPath = path, rq_Query = [],
     rq_Header = [(''Origin'', [''http://localhost:3000'']), (''Sec-Fetch-Site'', [''same-origin''])], rq_Form = form, rq_Cookies = cookies\<rparr>"

definition example_world :: world where
  "example_world = \<lparr>up_Snapshot = None, up_Policy = None, up_Audit = None, up_Preview = (\<lambda>_ _. None), up_Confirm = (\<lambda>_. None), dw_Session = Some ''id'',
     dw_Command = Some (the (b64_decode ''command-00000001'')), dw_Key = Some (the (b64_decode ''idempotent-00001'')),
     dw_Nonce = Some ''nonce'', dw_Now = 0\<rparr>"

lemma example_world_simps [simp]: "dw_Session example_world = Some ''id''" "dw_Nonce example_world = Some ''nonce''" "dw_Now example_world = 0"
  by (simp_all add: example_world_def)

lemma example_visit_simps [simp]:
  "rq_Method (example_visit m p cs fm) = m" "rq_EscapedPath (example_visit m p cs fm) = p" "rq_Host (example_visit m p cs fm) = ''localhost:3000''"
  "rq_Cookies (example_visit m p cs fm) = cs" "FormValue k (example_visit m p cs fm) = query_get k fm"
  "\<not> hasForwardedHeader (rq_Header (example_visit m p cs fm))"
  "query_get ''Origin'' (rq_Header (example_visit m p cs fm)) = origin_String example_origin"
  "query_get ''Sec-Fetch-Site'' (rq_Header (example_visit m p cs fm)) = ''same-origin''"
  "\<not> hx (example_visit m p cs fm)"
  by (simp_all add: example_visit_def FormValue_def hasForwardedHeader_def Let_def ToLower_def lower_char_def HasPrefix_def query_get_def
      origin_String_def example_origin_def hx_def)

lemma example_dash_simps [simp]: "cg_PublicOrigin example_dash = Some example_origin" "length (cg_SessionKey example_dash) = 32"
  "management_enabled example_dash" "og_Host example_origin = ''localhost:3000''"
  by (simp_all add: example_dash_def management_enabled_def example_origin_def)

theorem csrf_binding_witness:
  "\<exists>r. validCSRF example_ctl_crypto example_dash (Some ''s'') 300 r \<and> \<not> validCSRF example_ctl_crypto example_dash (Some ''s'') 301 r \<and>
     \<not> validCSRF example_ctl_crypto example_dash (Some ''other'') 300 r"
proof -
  obtain token where t: "csrf example_ctl_crypto ''s'' ''POST'' ''/policy/preview'' (cg_SessionKey example_dash) (Some ''n'') 0 = Some token"
    by (simp add: csrf_def dash_randomID_def)
  let ?r = "example_visit ''POST'' ''/policy/preview'' [] [(''csrf'', [token])]"
  have "FormValue ''csrf'' ?r = token" "url_Path ?r = ''/policy/preview''" by (simp_all add: query_get_def url_Path_def)
  then show ?thesis
    using csrf_binding [OF t, of ?r] by (intro exI [of _ ?r]) (simp add: sessionID_def int64_ok_def)
qed

theorem session_roundtrip_witness:
  "\<exists>k r'. ensureSession example_ctl_crypto example_dash example_origin (Some ''id'') 0 (example_visit ''GET'' ''/'' [] []) = Some (b64_encode ''id'', Some k) \<and>
     ensureSession example_ctl_crypto example_dash example_origin (Some ''x'') 43200 r' = Some (b64_encode ''id'', None)"
proof -
  let ?r = "example_visit ''GET'' ''/'' [] []"
  obtain k where k: "ensureSession example_ctl_crypto example_dash example_origin (Some ''id'') 0 ?r = Some (b64_encode ''id'', Some k)"
    by (simp add: ensureSession_def)
  let ?r' = "example_visit ''GET'' ''/'' [(''mailproof_session'', ck_Value k)] []"
  have "ensureSession example_ctl_crypto example_dash example_origin (Some ''x'') 43200 ?r' = Some (b64_encode ''id'', None)"
    using session_roundtrip [OF k, of ?r' "''x''" 43200] by (simp add: int64_ok_def)
  with k show ?thesis by blast
qed

theorem form_command_typed_witness:
  "\<exists>v. managementCommand 0 (example_visit ''POST'' ''/policy/preview'' [] [(''command_type'', [''submitter_suspend'']), (''submitter_id'', ['' sub1 ''])]) = Inr v \<and>
     p_submitter_id v = ''sub1'' \<and> validateOperation ''submitter_suspend'' v = Inr ()"
proof -
  let ?r = "example_visit ''POST'' ''/policy/preview'' [] [(''command_type'', [''submitter_suspend'']), (''submitter_id'', ['' sub1 ''])]"
  have v: "managementCommand 0 ?r = Inr (empty_payload\<lparr>p_submitter_id := ''sub1''\<rparr>)"
    by (simp add: managementCommand_def query_get_def required_def Let_def TrimSpace_def is_space_def)
  have ty: "''submitter_suspend'' = FormValue ''command_type'' ?r" by (simp add: query_get_def)
  show ?thesis
    using form_command_typed [OF v ty] v by (simp add: rule_types_def)
qed

lemma example_policy_page:
  obtains resp k v where "NewWithConfig example_ctl_crypto \<lparr>cl_BaseURL = None, cl_Token = []\<rparr> example_dash example_world (example_visit ''GET'' ''/policy'' [] []) [] = (resp, [])"
    "dr_Cookie resp = Some k" "dr_Body resp = Template ''page'' v"
proof -
  let ?r = "example_visit ''GET'' ''/policy'' [] []"
  obtain k where "boundary example_ctl_crypto example_dash (dw_Session example_world) (dw_Now example_world) ?r = Passed (Some (b64_encode ''id'')) (Some k)"
    by (simp add: boundary_def ensureSession_def url_Path_def)
  moreover have "cleanPath ''/policy'' = ''/policy''" by code_simp
  then have "ServeMux (dash_routes example_dash) ?r = Handled DPolicy"
    by (simp add: ServeMux_def Let_def most_specific_def dash_routes_def serves_def exact_match_def pattern_segments_def path_segments_def)
  moreover obtain v where "dr_Body (managementPage example_ctl_crypto example_dash False example_world (Some (b64_encode ''id'')) ?r) = Template ''page'' v"
    by (simp add: managementPage_def csrf_def dash_randomID_def Let_def render_def html_def split: prod.splits)
  ultimately show thesis
    by (intro that [of "privateHeaders ((managementPage example_ctl_crypto example_dash False example_world (Some (b64_encode ''id'')) ?r)\<lparr>dr_Cookie := Some k\<rparr>)" k v])
      (simp_all add: NewWithConfig_def dash_mux_def privateHeaders_def)
qed

theorem policy_form_accepted_witness:
  "\<exists>r' session. NewWithConfig example_ctl_crypto \<lparr>cl_BaseURL = None, cl_Token = []\<rparr> example_dash example_world r' [] =
     (privateHeaders ((managementPreview example_ctl_crypto example_dash example_world (Some session) r')\<lparr>dr_Cookie := None\<rparr>), [])"
proof -
  obtain resp k v where p: "NewWithConfig example_ctl_crypto \<lparr>cl_BaseURL = None, cl_Token = []\<rparr> example_dash example_world (example_visit ''GET'' ''/policy'' [] []) [] = (resp, [])"
    "dr_Cookie resp = Some k" "dr_Body resp = Template ''page'' v" by (rule example_policy_page)
  let ?r' = "example_visit ''POST'' ''/policy/preview'' [(''mailproof_session'', ck_Value k)] [(''csrf'', [dv_CSRF v])]"
  have "query_get ''csrf'' [(''csrf'', [x])] = x" for x by (simp add: query_get_def)
  then show ?thesis
    using policy_form_accepted [OF p, of example_origin ?r' example_world "[]"] by (simp add: int64_ok_def) blast
qed

definition example_suspend_form :: url_values where
  "example_suspend_form = [(''command_type'', [''submitter_suspend'']), (''submitter_id'', [''sub1'']), (''expected_version'', [''0'']),
     (''reason'', [''left the company''])]"

lemma example_suspend_values [simp]:
  "query_get ''command_type'' example_suspend_form = ''submitter_suspend''" "query_get ''submitter_id'' example_suspend_form = ''sub1''"
  "query_get ''expected_version'' example_suspend_form = ''0''" "query_get ''reason'' example_suspend_form = ''left the company''"
  by (simp_all add: example_suspend_form_def query_get_def)





end
