(* ===== verification/Observers.thy ===== *)
theory Observers
  imports Evidence Netip
begin

text \<open>
  The infrastructure and signature analyzers: \<open>internal/analyzers/dns.go\<close> and
  \<open>internal/analyzers/crypto.go\<close>. A DNS reply is what the DNS package decodes: its code, the authenticated
  data bit, the answers with their time to live and alias, and the extended error codes of its options;
  the exchange with the resolver, the printing of names and addresses and JSON are parameters. The
  signature tools run under the bounded runner of theory \<open>Evidence\<close>.
\<close>

section \<open>DNS observations\<close>

abbreviation DNSSECSecure :: string where "DNSSECSecure \<equiv> ''secure''"
abbreviation DNSSECInsecure :: string where "DNSSECInsecure \<equiv> ''insecure''"
abbreviation DNSSECBogus :: string where "DNSSECBogus \<equiv> ''bogus''"
abbreviation DNSSECIndeterminate :: string where "DNSSECIndeterminate \<equiv> ''indeterminate''"

record dns_answer =
  da_String :: string
  da_Ttl :: nat
  da_CNAME :: "string option"

record dns_reply =
  dr_Rcode :: int
  dr_AuthenticatedData :: bool
  dr_Answer :: "dns_answer list"
  dr_Extra :: "nat option list list"
  dr_Wire :: "string option"

record trusted_resolver =
  tr_Address :: string
  tr_Timeout :: int

record dns_observation =
  do_Name :: string
  do_Type :: string
  do_RCode :: int
  do_DNSSEC :: string
  do_ExtendedError :: "nat list"
  do_Answers :: "string list"
  do_TTL :: nat
  do_CNAME :: "string list"
  do_RawReply :: string
  do_ReplyDigest :: string
  do_Error :: string

text \<open>The exchange gives an error text or a reply; \<open>ctx\<close> is the error of a context that has ended.\<close>

record dns_env =
  dn_ctx :: "string option"
  dn_exchange :: "string \<Rightarrow> string \<Rightarrow> string \<Rightarrow> string + dns_reply"
  dn_Fqdn :: "string \<Rightarrow> string"

text \<open>Each element of \<open>dr_Extra\<close> is an OPT record: its options, an extended error or another.\<close>

definition edeCodes :: "dns_reply \<Rightarrow> nat list" where
  "edeCodes r = sort (concat (map (\<lambda>opts. map the (filter (\<lambda>x. x \<noteq> None) opts)) (dr_Extra r)))"

definition classifyDNSSEC :: "dns_reply \<Rightarrow> string" where
  "classifyDNSSEC r =
     (if dr_AuthenticatedData r then DNSSECSecure
      else if dr_Rcode r = 0 \<or> dr_Rcode r = 3 then DNSSECInsecure
      else if dr_Rcode r = 2 \<and> length (edeCodes r) > 0 then DNSSECBogus
      else DNSSECIndeterminate)"

definition min_ttl :: "dns_answer \<Rightarrow> nat \<Rightarrow> nat" where
  "min_ttl a t = (if t = 0 \<or> da_Ttl a < t then da_Ttl a else t)"

definition empty_observation :: dns_observation where
  "empty_observation = \<lparr>do_Name = [], do_Type = [], do_RCode = 0, do_DNSSEC = [], do_ExtendedError = [], do_Answers = [], do_TTL = 0, do_CNAME = [],
     do_RawReply = [], do_ReplyDigest = [], do_Error = []\<rparr>"

text \<open>The observation and the error, if there is one.\<close>

definition Lookup :: "crypto \<Rightarrow> dns_env \<Rightarrow> trusted_resolver \<Rightarrow> string \<Rightarrow> string \<Rightarrow> dns_observation \<times> err option" where
  "Lookup cr env r name qtype =
     (if tr_Address r = [] \<or> tr_Timeout r \<le> 0 then (empty_observation, Some (Err ''internal resolver address and timeout are required''))
      else case dn_ctx env of
          Some e \<Rightarrow> (empty_observation, Some (Err e))
        | None \<Rightarrow> (case dn_exchange env (tr_Address r) (dn_Fqdn env name) qtype of
            Inl e \<Rightarrow> (empty_observation\<lparr>do_Name := dn_Fqdn env name, do_Type := qtype, do_DNSSEC := DNSSECIndeterminate, do_Error := e\<rparr>,
              Some (Err (''query internal resolver: '' @ e)))
          | Inr reply \<Rightarrow> (case dr_Wire reply of
              None \<Rightarrow> (empty_observation, Some (Err ''pack resolver reply''))
            | Some wire \<Rightarrow>
                (\<lparr>do_Name = dn_Fqdn env name, do_Type = qtype, do_RCode = dr_Rcode reply, do_DNSSEC = classifyDNSSEC reply,
                  do_ExtendedError = edeCodes reply, do_Answers = sort (map da_String (dr_Answer reply)), do_TTL = fold min_ttl (dr_Answer reply) 0,
                  do_CNAME = sort (map the (filter (\<lambda>x. x \<noteq> None) (map da_CNAME (dr_Answer reply)))), do_RawReply = wire,
                  do_ReplyDigest = hex_encode (sha256 cr wire), do_Error = []\<rparr>, None))))"

definition dns_queries :: "string \<Rightarrow> string \<Rightarrow> (string \<times> string) list" where
  "dns_queries domain dkimSelector =
     [(domain, ''A''), (domain, ''AAAA''), (domain, ''MX''), (domain, ''NS''), (domain, ''TXT''), (''_dmarc.'' @ domain, ''TXT''), (''_25._tcp.'' @ domain, ''TLSA'')] @
     (if dkimSelector \<noteq> [] then [(dkimSelector @ ''._domainkey.'' @ domain, ''TXT'')] else [])"

definition ObserveInfrastructure :: "crypto \<Rightarrow> dns_env \<Rightarrow> trusted_resolver \<Rightarrow> string \<Rightarrow> string \<Rightarrow> dns_observation list res" where
  "ObserveInfrastructure cr env r domain dkimSelector = Inr (map (\<lambda>(name, qtype). fst (Lookup cr env r name qtype)) (dns_queries domain dkimSelector))"

definition PTRNameForIP :: "(ip \<Rightarrow> string res) \<Rightarrow> string \<Rightarrow> string res" where
  "PTRNameForIP reverse v = (case ParseIP v of None \<Rightarrow> Inl (Err ''invalid IP address'') | Some ip \<Rightarrow> reverse ip)"

record spf_identity =
  si_Scope :: string
  si_MailFrom :: string
  si_HELO :: string
  si_RemoteIP :: string
  si_NotApplicable :: bool

definition NewSPFIdentity :: "string \<Rightarrow> string \<Rightarrow> string \<Rightarrow> string \<Rightarrow> spf_identity res" where
  "NewSPFIdentity scope mailFrom helo remoteIP =
     (if scope = Detached then
        (if mailFrom \<noteq> [] \<or> helo \<noteq> [] \<or> remoteIP \<noteq> [] then Inl (Err ''detached SPF cannot have SMTP inputs'')
         else Inr \<lparr>si_Scope = scope, si_MailFrom = [], si_HELO = [], si_RemoteIP = [], si_NotApplicable = True\<rparr>)
      else if scope \<noteq> LocalIngress \<or> helo = [] \<or> ParseIP remoteIP = None then Inl (Err ''local ingress SPF requires HELO and remote IP'')
      else Inr \<lparr>si_Scope = scope, si_MailFrom = mailFrom, si_HELO = helo, si_RemoteIP = remoteIP, si_NotApplicable = False\<rparr>)"

record dmarc_inputs =
  dm_FromDomain :: string
  dm_SPFResult :: string
  dm_DKIMDomains :: "string list"
  dm_PolicyRecords :: "string list"

definition dmarc_Validate :: "dmarc_inputs \<Rightarrow> unit res" where
  "dmarc_Validate d =
     (if dm_FromDomain d = [] then Inl (Err ''DMARC requires From domain'')
      else if ContainsAny (dm_FromDomain d) [CHR 0x0D, CHR 0x0A] then Inl (Err ''invalid From domain'') else Inr ())"

section \<open>Signatures\<close>

abbreviation RevocationNotChecked :: string where "RevocationNotChecked \<equiv> ''not_checked''"
abbreviation RevocationIndeterminate :: string where "RevocationIndeterminate \<equiv> ''indeterminate''"

record crypto_config =
  cc_OpenSSLPath :: string
  cc_GPGVPath :: string
  cc_TrustRoot :: string
  cc_WorkRoot :: string
  cc_Timeout :: int
  cc_OutputLimit :: int

record crypto_result =
  cx_Format :: string
  cx_Status :: string
  cx_CryptographicallyValid :: bool
  cx_ConfiguredTrust :: string
  cx_Signer :: string
  cx_Fingerprint :: string
  cx_Revocation :: string
  cx_ToolVersion :: string
  cx_ExitCode :: int
  cx_OutputDigest :: string
  cx_Limitations :: "string list"

text \<open>
  What the file system and the tool do in one verification: whether the trust root can be inspected and
  is a directory, the run directory that is made, whether the two files can be written, and the child process.
\<close>

record crypto_world =
  cw_trust_dir :: "bool option"
  cw_run_dir :: "string option"
  cw_write_message :: bool
  cw_write_signature :: bool
  cw_child :: "string list \<Rightarrow> child"

definition config_Validate :: "crypto_world \<Rightarrow> crypto_config \<Rightarrow> unit res" where
  "config_Validate w c =
     (if cc_WorkRoot c = [] \<or> cc_Timeout c \<le> 0 \<or> cc_OutputLimit c \<le> 0 then Inl (Err ''crypto work root, timeout, and output bound are required'')
      else if cc_TrustRoot c \<noteq> [] then
        (case cw_trust_dir w of None \<Rightarrow> Inl (Err ''inspect trust root'')
         | Some isdir \<Rightarrow> if \<not> isdir then Inl (Err ''trust root must be a directory'') else Inr ())
      else Inr ())"

definition unavailableCrypto :: "string \<Rightarrow> crypto_result" where
  "unavailableCrypto format = \<lparr>cx_Format = format, cx_Status = Unavailable, cx_CryptographicallyValid = False, cx_ConfiguredTrust = ''unavailable'',
     cx_Signer = [], cx_Fingerprint = [], cx_Revocation = RevocationIndeterminate, cx_ToolVersion = [], cx_ExitCode = 0, cx_OutputDigest = [],
     cx_Limitations = [''operator trust material is not mounted'']\<rparr>"

definition normalizeCryptoResult :: "string \<Rightarrow> command_result \<Rightarrow> string \<Rightarrow> crypto_result" where
  "normalizeCryptoResult format command version =
     (let r = \<lparr>cx_Format = format, cx_Status = rs_Status command, cx_CryptographicallyValid = False, cx_ConfiguredTrust = ''not_verified'',
            cx_Signer = [], cx_Fingerprint = [], cx_Revocation = RevocationIndeterminate, cx_ToolVersion = version, cx_ExitCode = rs_ExitCode command,
            cx_OutputDigest = rs_StdoutDigest command, cx_Limitations = []\<rparr> in
      if rs_Status command = Observed
      then r\<lparr>cx_CryptographicallyValid := True, cx_ConfiguredTrust := ''verified'', cx_Revocation := RevocationNotChecked, cx_Status := Observed\<rparr>
      else if rs_Error command \<noteq> [] then r\<lparr>cx_Limitations := [rs_Error command]\<rparr> else r)"

definition tool_command :: "crypto_config \<Rightarrow> string \<Rightarrow> string list \<Rightarrow> adapter_command" where
  "tool_command c path args = \<lparr>ac_Path = path, ac_Args = args, ac_Timeout = cc_Timeout c, ac_StdoutLimit = cc_OutputLimit c, ac_StderrLimit = cc_OutputLimit c\<rparr>"

definition smime_args :: "crypto_config \<Rightarrow> string list" where
  "smime_args c = [''cms'', ''-verify'', ''-inform'', ''SMIME'', ''-CApath'', cc_TrustRoot c, ''-noout'']"

definition openpgp_args :: "crypto_config \<Rightarrow> string \<Rightarrow> string list" where
  "openpgp_args c dir = [''--homedir'', cc_TrustRoot c, ''--status-fd'', ''1'', path_Join [dir, ''signature.asc''], path_Join [dir, ''signed.eml'']]"

definition VerifySMIME :: "crypto \<Rightarrow> crypto_world \<Rightarrow> crypto_config \<Rightarrow> crypto_result res" where
  "VerifySMIME cr w c = bind_res (config_Validate w c) (\<lambda>_.
     if cc_TrustRoot c = [] \<or> cc_OpenSSLPath c = [] then Inr (unavailableCrypto ''smime'')
     else case cw_run_dir w of
         None \<Rightarrow> Inl (Err ''create isolated S/MIME directory'')
       | Some dir \<Rightarrow> let args = smime_args c in
           Inr (normalizeCryptoResult ''smime'' (Run cr {cc_OpenSSLPath c} (tool_command c (cc_OpenSSLPath c) args) (cw_child w args)) (cc_OpenSSLPath c)))"

definition VerifyOpenPGP :: "crypto \<Rightarrow> crypto_world \<Rightarrow> crypto_config \<Rightarrow> crypto_result res" where
  "VerifyOpenPGP cr w c = bind_res (config_Validate w c) (\<lambda>_.
     if cc_TrustRoot c = [] \<or> cc_GPGVPath c = [] then Inr (unavailableCrypto ''openpgp'')
     else case cw_run_dir w of
         None \<Rightarrow> Inl (Err ''create isolated OpenPGP directory'')
       | Some dir \<Rightarrow>
           if \<not> cw_write_message w then Inl (Err ''write signed content'')
           else if \<not> cw_write_signature w then Inl (Err ''write detached signature'')
           else let args = openpgp_args c dir in
             Inr (normalizeCryptoResult ''openpgp'' (Run cr {cc_GPGVPath c} (tool_command c (cc_GPGVPath c) args) (cw_child w args)) (cc_GPGVPath c)))"

definition crypto_Evidence :: "(crypto_result \<Rightarrow> string) \<Rightarrow> crypto_result \<Rightarrow> string \<Rightarrow> string \<Rightarrow> string \<Rightarrow> time \<Rightarrow> evidence" where
  "crypto_Evidence json r subjectDigest configDigest rawPath observedAt =
     (let category = (if cx_Format r = ''openpgp'' then ''openpgp'' else ''smime'') in
      \<lparr>ev_ID = ''crypto-'' @ category, ev_Category = category, ev_Adapter = cx_Format r, ev_AdapterVersion = cx_ToolVersion r,
       ev_ConfigDigest = configDigest, ev_SubjectDigest = subjectDigest, ev_InputDigest = subjectDigest, ev_ResponseDigest = [],
       ev_ObservedAt = observedAt, ev_Value = json r, ev_RawResponsePath = rawPath, ev_Status = cx_Status r, ev_Limitations = cx_Limitations r,
       ev_Authority = Strong, ev_Error = []\<rparr>)"

section \<open>What a DNS observation says\<close>

lemma fold_min_ttl:
  assumes "0 < t" "\<forall>a \<in> set as. 0 < da_Ttl a"
  shows "fold min_ttl as t = Min (insert t (da_Ttl ` set as))"
  using assms
proof (induction as arbitrary: t)
  case (Cons a as)
  have "fold min_ttl (a # as) t = fold min_ttl as (min (da_Ttl a) t)"
    using Cons.prems(1) by (simp add: min_ttl_def min_def)
  also have "\<dots> = Min (insert (min (da_Ttl a) t) (da_Ttl ` set as))"
    using Cons.prems by (intro Cons.IH) simp_all
  also have "\<dots> = Min (insert t (da_Ttl ` set (a # as)))"
    by (cases "set as = {}") (simp_all add: min.assoc min.left_commute)
  finally show ?case .
qed simp

lemma observed_ttl:
  assumes "as \<noteq> []" "\<forall>a \<in> set as. 0 < da_Ttl a"
  shows "fold min_ttl as 0 = Min (da_Ttl ` set as)"
proof -
  obtain a as' where "as = a # as'" using assms(1) by (cases as) auto
  with assms(2) show ?thesis by (simp add: min_ttl_def fold_min_ttl)
qed

text \<open>An answer that must not be cached does not bring the time to live down: zero stands for no answer yet.\<close>

lemma zero_ttl_forgotten:
  "fold min_ttl [\<lparr>da_String = a, da_Ttl = 0, da_CNAME = None\<rparr>, \<lparr>da_String = b, da_Ttl = 300, da_CNAME = None\<rparr>] 0 = 300"
  by (simp add: min_ttl_def)

lemma Lookup_answered:
  assumes "tr_Address r \<noteq> []" "tr_Timeout r > 0" "dn_ctx env = None"
    and "dn_exchange env (tr_Address r) (dn_Fqdn env name) qtype = Inr reply" "dr_Wire reply = Some wire"
  obtains ob where "Lookup cr env r name qtype = (ob, None)"
    "do_Name ob = dn_Fqdn env name" "do_Type ob = qtype" "do_RCode ob = dr_Rcode reply" "do_DNSSEC ob = classifyDNSSEC reply"
    "do_Answers ob = sort (map da_String (dr_Answer reply))" "do_TTL ob = fold min_ttl (dr_Answer reply) 0"
    "do_RawReply ob = wire" "do_ReplyDigest ob = hex_encode (sha256 cr wire)"
  using assms by (simp add: Lookup_def)

text \<open>
  An answered query is recorded as it was answered. The observation has the name and type that were
  asked, the digest of the very reply it keeps, the answers as a sorted permutation of the reply's and,
  where every answer may be cached, the least of their times to live; it says that the answer is
  authenticated exactly when the resolver set the authenticated data bit, and bogus only for a server failure with an extended error.
\<close>

theorem dns_observation_faithful:
  assumes "tr_Address r \<noteq> []" "tr_Timeout r > 0" "dn_ctx env = None"
    and "dn_exchange env (tr_Address r) (dn_Fqdn env name) qtype = Inr reply" "dr_Wire reply = Some wire"
  shows "\<exists>ob. Lookup cr env r name qtype = (ob, None) \<and> do_Name ob = dn_Fqdn env name \<and> do_Type ob = qtype \<and>
    do_RawReply ob = wire \<and> do_ReplyDigest ob = hex_encode (sha256 cr wire) \<and>
    mset (do_Answers ob) = mset (map da_String (dr_Answer reply)) \<and> sorted (do_Answers ob) \<and>
    (do_DNSSEC ob = DNSSECSecure \<longleftrightarrow> dr_AuthenticatedData reply) \<and>
    (do_DNSSEC ob = DNSSECBogus \<longrightarrow> dr_Rcode reply = 2 \<and> edeCodes reply \<noteq> []) \<and>
    (dr_Answer reply \<noteq> [] \<longrightarrow> (\<forall>a \<in> set (dr_Answer reply). 0 < da_Ttl a) \<longrightarrow> do_TTL ob = Min (da_Ttl ` set (dr_Answer reply)))"
proof -
  obtain ob where ob: "Lookup cr env r name qtype = (ob, None)"
    "do_Name ob = dn_Fqdn env name" "do_Type ob = qtype" "do_RCode ob = dr_Rcode reply" "do_DNSSEC ob = classifyDNSSEC reply"
    "do_Answers ob = sort (map da_String (dr_Answer reply))" "do_TTL ob = fold min_ttl (dr_Answer reply) 0"
    "do_RawReply ob = wire" "do_ReplyDigest ob = hex_encode (sha256 cr wire)"
    by (rule Lookup_answered [OF assms])
  have "classifyDNSSEC reply = DNSSECSecure \<longleftrightarrow> dr_AuthenticatedData reply"
    "classifyDNSSEC reply = DNSSECBogus \<longrightarrow> dr_Rcode reply = 2 \<and> edeCodes reply \<noteq> []"
    by (simp_all add: classifyDNSSEC_def)
  then show ?thesis
    by (intro exI [of _ ob] conjI impI) (simp_all add: ob observed_ttl)
qed

definition example_reply :: dns_reply where
  "example_reply = \<lparr>dr_Rcode = 0, dr_AuthenticatedData = True, dr_Answer = [\<lparr>da_String = ''b'', da_Ttl = 60, da_CNAME = None\<rparr>, \<lparr>da_String = ''a'', da_Ttl = 30, da_CNAME = None\<rparr>],
     dr_Extra = [], dr_Wire = Some ''wire''\<rparr>"

theorem dns_observation_faithful_witness:
  "\<exists>ob. Lookup \<lparr>sha256 = (\<lambda>s. s), hmac = (\<lambda>k s. s)\<rparr> \<lparr>dn_ctx = None, dn_exchange = (\<lambda>_ _ _. Inr example_reply), dn_Fqdn = (\<lambda>n. n @ ''.'')\<rparr>
       \<lparr>tr_Address = ''127.0.0.1:53'', tr_Timeout = 5\<rparr> ''example.org'' ''A'' = (ob, None) \<and>
     do_DNSSEC ob = DNSSECSecure \<and> do_TTL ob = 30"
  using dns_observation_faithful [of "\<lparr>tr_Address = ''127.0.0.1:53'', tr_Timeout = 5\<rparr>"
      "\<lparr>dn_ctx = None, dn_exchange = (\<lambda>_ _ _. Inr example_reply), dn_Fqdn = (\<lambda>n. n @ ''.'')\<rparr>" "''example.org''" "''A''" example_reply "''wire''"
      "\<lparr>sha256 = (\<lambda>s. s), hmac = (\<lambda>k s. s)\<rparr>"]
  by (auto simp: example_reply_def)

text \<open>
  An infrastructure observation never fails as a whole: it has one entry for each query, in the order of
  the queries, also for those the resolver could not answer.
\<close>

lemma ObserveInfrastructure_total:
  "\<exists>obs. ObserveInfrastructure cr env r domain selector = Inr obs \<and> length obs = (if selector = [] then 7 else 8) \<and>
     (\<forall>i < length obs. obs ! i = (case dns_queries domain selector ! i of (name, qtype) \<Rightarrow> fst (Lookup cr env r name qtype)))"
proof -
  have "length (dns_queries domain selector) = (if selector = [] then 7 else 8)" by (simp add: dns_queries_def)
  then show ?thesis by (simp add: ObserveInfrastructure_def nth_map)
qed

text \<open>Mail that was not observed on ingress has no SMTP identity to evaluate SPF for.\<close>

lemma detached_has_no_spf_identity:
  "NewSPFIdentity scope mf helo ip = Inr i \<Longrightarrow> si_NotApplicable i = (scope = Detached) \<and>
     (scope = Detached \<longrightarrow> si_MailFrom i = [] \<and> si_HELO i = [] \<and> si_RemoteIP i = []) \<and>
     (scope \<noteq> Detached \<longrightarrow> scope = LocalIngress \<and> helo \<noteq> [] \<and> ParseIP ip \<noteq> None \<and> si_RemoteIP i = ip)"
  by (auto simp: NewSPFIdentity_def split: if_splits)

section \<open>When a signature counts as valid\<close>

text \<open>The verification tool ran to a successful end within its bounds.\<close>

definition verified_by :: "crypto_config \<Rightarrow> string \<Rightarrow> child \<Rightarrow> bool" where
  "verified_by c path p = (HasPrefix path ''/'' \<and> \<not> ch_deadline p \<and> ch_exit p = ExitOK \<and>
     int (length (concat (ch_stdout p))) \<le> cc_OutputLimit c \<and> int (length (concat (ch_stderr p))) \<le> cc_OutputLimit c)"

lemma tool_observed:
  assumes "config_Validate w c = Inr ()"
  shows "rs_Status (Run cr {path} (tool_command c path args) p) = Observed \<longleftrightarrow> verified_by c path p"
proof -
  have "0 < cc_Timeout c" "0 < cc_OutputLimit c" using assms by (auto simp: config_Validate_def split: if_splits)
  then show ?thesis using Run_bounded [of "tool_command c path args" cr "{path}" p] by (auto simp: tool_command_def verified_by_def)
qed

lemma normalize_fields:
  "cx_CryptographicallyValid (normalizeCryptoResult format command version) = (rs_Status command = Observed)"
  "cx_Status (normalizeCryptoResult format command version) = rs_Status command"
  "cx_Revocation (normalizeCryptoResult format command version) \<noteq> ''checked''"
  by (auto simp: normalizeCryptoResult_def Let_def)

lemma unavailable_fields:
  "\<not> cx_CryptographicallyValid (unavailableCrypto format)" "cx_Status (unavailableCrypto format) = Unavailable"
  "cx_Revocation (unavailableCrypto format) \<noteq> ''checked''"
  by (simp_all add: unavailableCrypto_def)

lemma Run_status: "rs_Status (Run cr allowed c p) = Observed \<or> rs_Status (Run cr allowed c p) = Failed"
  by (simp add: Run_def Let_def split: exit_state.split)

lemma Validate_Inr: "config_Validate w c = Inr u \<Longrightarrow> config_Validate w c = Inr ()"
  by simp

definition sound_result :: "crypto_config \<Rightarrow> string \<Rightarrow> child \<Rightarrow> crypto_result \<Rightarrow> bool" where
  "sound_result c path p r =
     ((cx_CryptographicallyValid r \<longleftrightarrow> cc_TrustRoot c \<noteq> [] \<and> verified_by c path p) \<and> (cx_Status r = Observed \<longleftrightarrow> cx_CryptographicallyValid r) \<and>
      cx_Status r \<in> {Observed, Failed, Unavailable} \<and> cx_Revocation r \<noteq> ''checked'')"

lemma sound_unavailable: "cc_TrustRoot c = [] \<or> path = [] \<Longrightarrow> sound_result c path p (unavailableCrypto format)"
  by (auto simp: sound_result_def unavailable_fields verified_by_def HasPrefix_def)

lemma sound_run:
  assumes "config_Validate w c = Inr ()" "cc_TrustRoot c \<noteq> []"
  shows "sound_result c path p (normalizeCryptoResult format (Run cr {path} (tool_command c path args) p) version)"
  using assms(2) Run_status [of cr "{path}" "tool_command c path args" p]
    tool_observed [OF assms(1), of cr path args p]
  unfolding sound_result_def normalize_fields by (auto simp: normalize_fields)

lemma SMIME_sound:
  assumes "VerifySMIME cr w c = Inr r"
  shows "sound_result c (cc_OpenSSLPath c) (cw_child w (smime_args c)) r"
proof -
  obtain u where v: "config_Validate w c = Inr u" using assms by (cases "config_Validate w c") (simp_all add: VerifySMIME_def)
  show ?thesis
  proof (cases "cc_TrustRoot c = [] \<or> cc_OpenSSLPath c = []")
    case True
    with assms v have "r = unavailableCrypto ''smime''" by (simp add: VerifySMIME_def)
    then show ?thesis using sound_unavailable [OF True] by simp
  next
    case False
    with assms v show ?thesis
      by (auto simp: VerifySMIME_def Let_def split: option.splits intro: sound_run)
  qed
qed

lemma OpenPGP_sound:
  assumes "VerifyOpenPGP cr w c = Inr r"
  shows "sound_result c (cc_GPGVPath c) (cw_child w (openpgp_args c (case cw_run_dir w of None \<Rightarrow> [] | Some d \<Rightarrow> d))) r"
proof -
  obtain u where v: "config_Validate w c = Inr u" using assms by (cases "config_Validate w c") (simp_all add: VerifyOpenPGP_def)
  show ?thesis
  proof (cases "cc_TrustRoot c = [] \<or> cc_GPGVPath c = []")
    case True
    with assms v have "r = unavailableCrypto ''openpgp''" by (simp add: VerifyOpenPGP_def)
    then show ?thesis using sound_unavailable [OF True] by simp
  next
    case False
    with assms v show ?thesis
      by (auto simp: VerifyOpenPGP_def Let_def split: option.splits if_splits intro: sound_run)
  qed
qed

text \<open>In the verdict a signature counts for nothing but the completeness of the analysis.\<close>

lemma crypto_evidence_inert:
  "\<not> authenticates (crypto_Evidence json r sd cd rp at)" "\<not> proves_malice (crypto_Evidence json r sd cd rp at)"
  "\<not> shows_behavior (crypto_Evidence json r sd cd rp at)"
  "not_conclusive (crypto_Evidence json r sd cd rp at) = (cx_Status r \<in> set [Failed, Unavailable, Skipped, Unknown])"
  by (simp_all add: crypto_Evidence_def authenticates_def proves_malice_def shows_behavior_def not_conclusive_def Let_def)

text \<open>
  A signature counts as valid only on the word of the operator's tool. The result of an S/MIME
  verification is cryptographically valid exactly when trust material is configured and the configured
  executable, named by an absolute path, ended successfully before its deadline with its output within
  bounds on arguments that name that trust material; the status observed means the same, and
  revocation is never said to have been checked. As evidence, a valid signature leaves the category of
  every verdict as it was.
\<close>

theorem smime_valid_iff_tool_verified:
  assumes "VerifySMIME cr w c = Inr r"
  shows "sound_result c (cc_OpenSSLPath c) (cw_child w (smime_args c)) r \<and>
    (cx_CryptographicallyValid r \<longrightarrow>
      vd_Category (Decide scope (crypto_Evidence json r sd cd rp at # es) cs) = vd_Category (Decide scope es cs))"
proof -
  have s: "sound_result c (cc_OpenSSLPath c) (cw_child w (smime_args c)) r" by (rule SMIME_sound [OF assms])
  moreover have "\<not> not_conclusive (crypto_Evidence json r sd cd rp at)" if "cx_CryptographicallyValid r"
    using s that by (simp add: sound_result_def crypto_evidence_inert)
  ultimately show ?thesis by (simp add: Decide_fields crypto_evidence_inert)
qed

definition example_config :: crypto_config where
  "example_config = \<lparr>cc_OpenSSLPath = ''/usr/bin/openssl'', cc_GPGVPath = [], cc_TrustRoot = ''/trust'', cc_WorkRoot = ''/work'', cc_Timeout = 5, cc_OutputLimit = 10\<rparr>"

definition example_world :: crypto_world where
  "example_world = \<lparr>cw_trust_dir = Some True, cw_run_dir = Some ''/work/1'', cw_write_message = True, cw_write_signature = True,
     cw_child = (\<lambda>args. \<lparr>ch_stdout = [''ok''], ch_stderr = [], ch_deadline = False, ch_exit = ExitOK\<rparr>)\<rparr>"

lemma example_smime_verifies:
  "\<exists>r. VerifySMIME cr example_world example_config = Inr r"
  by (simp add: VerifySMIME_def config_Validate_def example_world_def example_config_def)

theorem smime_valid_iff_tool_verified_witness:
  "\<exists>r. VerifySMIME \<lparr>sha256 = (\<lambda>s. s), hmac = (\<lambda>k s. s)\<rparr> example_world example_config = Inr r \<and> cx_CryptographicallyValid r"
proof -
  obtain r where r: "VerifySMIME \<lparr>sha256 = (\<lambda>s. s), hmac = (\<lambda>k s. s)\<rparr> example_world example_config = Inr r"
    using example_smime_verifies by blast
  have "cx_CryptographicallyValid r"
    using smime_valid_iff_tool_verified [OF r] by (simp add: sound_result_def verified_by_def example_world_def example_config_def HasPrefix_def)
  with r show ?thesis by blast
qed

end
