(* ===== verification/Indicators.thy ===== *)
theory Indicators
  imports Intel
begin

text \<open>
  \<open>internal/intel/indicators.go\<close>: the normalisation of typed campaign evidence into indicators. What the
  code takes from \<open>net/url\<close>, the regular expressions and the Unicode tables, and from the packages
  outside the repository (IDNA, the public suffix list, Unicode normalisation and folding) is the
  parameter \<open>intel_env\<close>. Runes are those of theory \<open>Report\<close>.
\<close>

section \<open>Text\<close>

record url =
  u_User :: bool
  u_Host :: string
  u_Port :: string
  u_Hostname :: string
  u_Path :: string
  u_RawQuery :: string
  u_Fragment :: string

record intel_env =
  url_Parse :: "string \<Rightarrow> url option"
  idna_ToASCII :: "string \<Rightarrow> string option"
  PublicSuffix :: "string \<Rightarrow> string"
  EffectiveTLDPlusOne :: "string \<Rightarrow> string option"
  NFKC :: "string \<Rightarrow> string"
  Fold :: "string \<Rightarrow> string"
  emailToken :: "string \<Rightarrow> string"
  urlToken :: "string \<Rightarrow> string"
  numberToken :: "string \<Rightarrow> string"
  unicode_ToLower :: "string \<Rightarrow> string"
  IsLetter :: "nat \<Rightarrow> bool"
  IsDigit :: "nat \<Rightarrow> bool"

definition IsSpace :: "nat \<Rightarrow> bool" where
  "IsSpace r = ((9 \<le> r \<and> r \<le> 13) \<or> r = 32 \<or> r = 0x85 \<or> r = 0xA0 \<or> r = 0x1680 \<or> (0x2000 \<le> r \<and> r \<le> 0x200A) \<or>
     r = 0x2028 \<or> r = 0x2029 \<or> r = 0x202F \<or> r = 0x205F \<or> r = 0x3000)"

definition of_runes :: "nat list \<Rightarrow> string" where
  "of_runes rs = concat (map encode_rune rs)"

text \<open>\<open>utf8.ValidString\<close>: an invalid byte decodes to U+FFFD, which encodes to three bytes.\<close>

definition ValidString :: "string \<Rightarrow> bool" where
  "ValidString s = (of_runes (runes s) = s)"

fun split_spaces :: "nat list \<Rightarrow> nat list \<Rightarrow> nat list list" where
  "split_spaces cur [] = (if cur = [] then [] else [cur])"
| "split_spaces cur (r # rs) =
     (if IsSpace r then (if cur = [] then [] else [cur]) @ split_spaces [] rs else split_spaces (cur @ [r]) rs)"

definition FieldsSpace :: "string \<Rightarrow> string list" where
  "FieldsSpace s = map of_runes (split_spaces [] (runes s))"

definition TrimSpaces :: "string \<Rightarrow> string" where
  "TrimSpaces s = of_runes (rev (dropWhile IsSpace (rev (dropWhile IsSpace (runes s)))))"

definition hasUnsafe :: "string \<Rightarrow> bool" where
  "hasUnsafe v = list_ex (\<lambda>r. r < 0x20 \<or> r = 0x7F \<or> (0x202A \<le> r \<and> r \<le> 0x202E) \<or> (0x2066 \<le> r \<and> r \<le> 0x2069)) (runes v)"

definition path_Ext :: "string \<Rightarrow> string" where
  "path_Ext p = (let base = takeWhile (\<lambda>c. c \<noteq> CHR ''/'') (rev p) in
     if CHR ''.'' \<in> set base then CHR ''.'' # rev (takeWhile (\<lambda>c. c \<noteq> CHR ''.'') base) else [])"

section \<open>Single values\<close>

definition ErrUnavailable :: err where "ErrUnavailable = Err ''indicator unavailable''"

definition RegistrableDomain :: "intel_env \<Rightarrow> string \<Rightarrow> string res" where
  "RegistrableDomain env raw0 =
     (if length raw0 = 0 \<or> length raw0 > 2048 \<or> hasUnsafe raw0 then Inl ErrUnavailable
      else let raw = (if \<not> Contains raw0 ''://'' then ''https://'' @ raw0 else raw0) in
        case url_Parse env raw of
          None \<Rightarrow> Inl ErrUnavailable
        | Some u \<Rightarrow>
            if u_User u \<or> u_Host u = [] \<or> u_Port u \<noteq> [] \<or> (u_Path u \<noteq> [] \<and> u_Path u \<noteq> ''/'') \<or> u_RawQuery u \<noteq> [] \<or> u_Fragment u \<noteq> []
            then Inl ErrUnavailable
            else let host = TrimSuffix (u_Hostname u) ''.'' in
              if host = [] \<or> ParseIP host \<noteq> None then Inl ErrUnavailable
              else (case idna_ToASCII env host of
                  None \<Rightarrow> Inl ErrUnavailable
                | Some ascii \<Rightarrow>
                    if length ascii > 253 then Inl ErrUnavailable
                    else let host = unicode_ToLower env ascii in
                      if PublicSuffix env host = host then Inl ErrUnavailable
                      else (case EffectiveTLDPlusOne env host of None \<Rightarrow> Inl ErrUnavailable | Some domain \<Rightarrow> Inr domain)))"

definition subject_text :: "intel_env \<Rightarrow> string \<Rightarrow> string" where
  "subject_text env subject = Join '' '' (FieldsSpace (numberToken env (urlToken env (emailToken env (Fold env (NFKC env subject))))))"

definition subjectFingerprint :: "crypto \<Rightarrow> intel_env \<Rightarrow> string \<Rightarrow> string \<Rightarrow> string res" where
  "subjectFingerprint cr env subject key =
     (if length key < 32 \<or> length subject > 8192 \<or> hasUnsafe subject \<or> \<not> ValidString subject then Inl ErrUnavailable
      else if subject_text env subject = [] then Inl ErrUnavailable
      else Inr (hex_encode (hmac cr key (subject_text env subject))))"

definition keyID :: "crypto \<Rightarrow> string \<Rightarrow> string" where
  "keyID cr key = hex_encode (take 8 (sha256 cr key))"

definition validSHA :: "intel_env \<Rightarrow> string \<Rightarrow> string res" where
  "validSHA env v = (if length v \<noteq> 64 then Inl ErrUnavailable
     else case hex_decode v of None \<Rightarrow> Inl (Err ''encoding/hex: invalid byte'') | Some _ \<Rightarrow> Inr (unicode_ToLower env v))"

definition safeExtension :: "intel_env \<Rightarrow> string \<Rightarrow> string" where
  "safeExtension env v =
     (if length v > 255 \<or> hasUnsafe v then []
      else let e = unicode_ToLower env (TrimPrefix (path_Ext v) ''.'') in
        if length e = 0 \<or> length e > 16 then []
        else if list_all (\<lambda>r. (97 \<le> r \<and> r \<le> 122) \<or> (48 \<le> r \<and> r \<le> 57)) (runes e) then e else [])"

definition coarse_types :: "string list" where
  "coarse_types = [''application/pdf'', ''application/zip'', ''application/vnd.ms-excel'',
     ''application/vnd.openxmlformats-officedocument.wordprocessingml.document'', ''image/jpeg'', ''image/png'']"

definition coarseMIME :: "intel_env \<Rightarrow> string \<Rightarrow> string" where
  "coarseMIME env v = (let l = unicode_ToLower env v in if l \<in> set coarse_types then l else [])"

definition safeOrganization :: "intel_env \<Rightarrow> string \<Rightarrow> string" where
  "safeOrganization env v0 =
     (let v = unicode_ToLower env (TrimSpaces v0) in
      if length v = 0 \<or> length v > 64 \<or> hasUnsafe v then []
      else if list_all (\<lambda>r. IsLetter env r \<or> IsDigit env r \<or> r = 32 \<or> r = 45 \<or> r = 95) (runes v) then v else [])"

section \<open>Normalisation\<close>

record intel_input =
  ii_SourceArtifactDigest :: string
  ii_RiskyURLs :: "string list"
  ii_RedirectURLs :: "string list"
  ii_SelectedFromDomain :: string
  ii_DKIMDomain :: string
  ii_Subject :: string
  ii_AttachmentSHA256 :: string
  ii_MIMEType :: string
  ii_Filename :: string
  ii_ImpersonatedOrganization :: string

fun slicesCompact :: "('a \<Rightarrow> 'a \<Rightarrow> bool) \<Rightarrow> 'a list \<Rightarrow> 'a list" where
  "slicesCompact eq [] = []"
| "slicesCompact eq [x] = [x]"
| "slicesCompact eq (x # y # xs) = (if eq x y then slicesCompact eq (x # xs) else x # slicesCompact eq (y # xs))"

definition dedupe :: "string list \<Rightarrow> string list" where
  "dedupe = slicesCompact (\<lambda>a b. a = b)"

definition dedupeIndicators :: "indicator list \<Rightarrow> indicator list" where
  "dedupeIndicators = slicesCompact (\<lambda>a b. i_Type a = i_Type b \<and> i_Value a = i_Value b \<and> i_KeyID a = i_KeyID b)"

definition domain_values :: "intel_env \<Rightarrow> string list \<Rightarrow> string list" where
  "domain_values env raw = dedupe (sort (map projr (filter (\<lambda>x. \<not> isl x) (map (RegistrableDomain env) raw))))"

definition addDomains :: "crypto \<Rightarrow> intel_env \<Rightarrow> string \<Rightarrow> string \<Rightarrow> string list \<Rightarrow> nat \<Rightarrow> intel_result \<Rightarrow> intel_result" where
  "addDomains cr env source kind raw cap r =
     (let values = domain_values env raw;
          rejected = list_ex (\<lambda>v. isl (RegistrableDomain env v) \<and> v \<noteq> []) raw;
          r1 = (if length values > cap then r\<lparr>ir_Truncated := (ir_Truncated r)(kind \<mapsto>
                  (case ir_Truncated r kind of None \<Rightarrow> 0 | Some n \<Rightarrow> n) + int (length values - cap))\<rparr> else r);
          r2 = r1\<lparr>ir_Indicators := ir_Indicators r1 @ map (\<lambda>v. make_indicator cr kind v [] source) (take cap values)\<rparr> in
      if rejected then r2\<lparr>ir_Unavailable := (ir_Unavailable r2)(kind \<mapsto> ''unsafe_value'')\<rparr> else r2)"

definition add_value :: "crypto \<Rightarrow> string \<Rightarrow> string \<Rightarrow> string \<Rightarrow> string \<Rightarrow> intel_result \<Rightarrow> intel_result" where
  "add_value cr source kind value kid r = r\<lparr>ir_Indicators := ir_Indicators r @ [make_indicator cr kind value kid source]\<rparr>"

definition add_subject :: "crypto \<Rightarrow> intel_env \<Rightarrow> intel_input \<Rightarrow> string \<Rightarrow> intel_result \<Rightarrow> intel_result" where
  "add_subject cr env i key r = (case subjectFingerprint cr env (ii_Subject i) key of
       Inr fp \<Rightarrow> add_value cr (ii_SourceArtifactDigest i) ''subject_fingerprint'' fp (keyID cr key) r
     | Inl _ \<Rightarrow> if ii_Subject i \<noteq> [] then r\<lparr>ir_Unavailable := (ir_Unavailable r)(''subject_fingerprint'' \<mapsto> ''unsafe_subject'')\<rparr> else r)"

definition add_attachment :: "crypto \<Rightarrow> intel_env \<Rightarrow> intel_input \<Rightarrow> intel_result \<Rightarrow> intel_result" where
  "add_attachment cr env i r =
     (let src = ii_SourceArtifactDigest i;
          r = (case validSHA env (ii_AttachmentSHA256 i) of Inr sha \<Rightarrow> add_value cr src ''attachment_sha256'' sha [] r | Inl _ \<Rightarrow> r);
          e = safeExtension env (ii_Filename i); r = (if e \<noteq> [] then add_value cr src ''filename_extension'' e [] r else r);
          m = coarseMIME env (ii_MIMEType i); r = (if m \<noteq> [] then add_value cr src ''attachment_mime'' m [] r else r);
          org = safeOrganization env (ii_ImpersonatedOrganization i) in
      if org \<noteq> [] then add_value cr src ''impersonated_organization'' org [] r else r)"

text \<open>\<open>sort.Slice\<close> by type and then value.\<close>

definition sortIndicators :: "indicator list \<Rightarrow> indicator list" where
  "sortIndicators = sort_key (\<lambda>x. (i_Type x, i_Value x))"

definition collect_indicators :: "crypto \<Rightarrow> intel_env \<Rightarrow> intel_input \<Rightarrow> string \<Rightarrow> intel_result" where
  "collect_indicators cr env i key =
     (let src = ii_SourceArtifactDigest i; r = \<lparr>ir_Indicators = [], ir_Truncated = Map.empty, ir_Unavailable = Map.empty\<rparr>;
          r = addDomains cr env src ''risky_landing_domain'' (ii_RiskyURLs i) 32 r;
          r = addDomains cr env src ''redirect_domain'' (ii_RedirectURLs i) 16 r;
          r = addDomains cr env src ''selected_from_domain'' [ii_SelectedFromDomain i] 8 r;
          r = addDomains cr env src ''dkim_domain'' [ii_DKIMDomain i] 8 r in
      add_attachment cr env i (add_subject cr env i key r))"

definition Normalize :: "crypto \<Rightarrow> intel_env \<Rightarrow> intel_input \<Rightarrow> string \<Rightarrow> intel_result" where
  "Normalize cr env i key =
     (if isl (validSHA env (ii_SourceArtifactDigest i))
      then \<lparr>ir_Indicators = [], ir_Truncated = Map.empty, ir_Unavailable = [''evidence'' \<mapsto> ''unverified_artifact'']\<rparr>
      else let r = collect_indicators cr env i key in
        r\<lparr>ir_Indicators := dedupeIndicators (sortIndicators (ir_Indicators r))\<rparr>)"

section \<open>The result is canonical\<close>

lemma slicesCompact_strict:
  fixes k :: "'a \<Rightarrow> 'k::linorder"
  assumes "sorted (map k xs)" "\<And>x y. x \<in> set xs \<Longrightarrow> y \<in> set xs \<Longrightarrow> eq x y \<longleftrightarrow> k x = k y"
  shows "sorted_wrt (<) (map k (slicesCompact eq xs)) \<and> k ` set (slicesCompact eq xs) = k ` set xs \<and> set (slicesCompact eq xs) \<subseteq> set xs"
  using assms
proof (induction eq xs rule: slicesCompact.induct)
  case (3 eq x y xs)
  show ?case
  proof (cases "eq x y")
    case True
    with 3(4) have "k x = k y" by simp
    with 3(1) [OF True] 3(3,4) True show ?thesis by auto
  next
    case False
    have ih: "sorted_wrt (<) (map k (slicesCompact eq (y # xs)))" "k ` set (slicesCompact eq (y # xs)) = k ` set (y # xs)"
      "set (slicesCompact eq (y # xs)) \<subseteq> set (y # xs)"
      using 3(2) [OF False] 3(3,4) by simp_all
    have "k x < k y" using 3(3,4) False by (auto simp: order.strict_iff_order)
    then have "\<forall>z \<in> set (y # xs). k x < k z" using 3(3) by auto
    then have "\<forall>v \<in> k ` set (slicesCompact eq (y # xs)). k x < v" unfolding ih(2) by blast
    then show ?thesis using ih False by auto
  qed
qed simp_all

lemma length_slicesCompact: "length (slicesCompact eq xs) \<le> length xs"
  by (induction eq xs rule: slicesCompact.induct) auto

lemma domain_values_eq:
  "domain_values env raw = sorted_list_of_set {d. \<exists>v \<in> set raw. RegistrableDomain env v = Inr d}"
proof -
  let ?xs = "map projr (filter (\<lambda>x. \<not> isl x) (map (RegistrableDomain env) raw))"
  have "set ?xs = {d. \<exists>v \<in> set raw. RegistrableDomain env v = Inr d}" by (force simp: isl_def image_iff split: sum.splits)
  moreover have "dedupe (sort ?xs) = sorted_list_of_set (set ?xs)"
    using slicesCompact_strict [of "\<lambda>x. x" "sort ?xs" "\<lambda>a b. a = b"]
    by (intro sorted_distinct_set_unique) (simp_all add: dedupe_def strict_sorted_iff)
  ultimately show ?thesis by (simp add: domain_values_def)
qed

lemma addDomains_cong: "set raw' = set raw \<Longrightarrow> addDomains cr env source kind raw' cap r = addDomains cr env source kind raw cap r"
  by (simp add: addDomains_def domain_values_eq list_ex_iff)

text \<open>What every step may add: well-formed indicators of one source whose key is fixed by their type.\<close>

definition indicator_ok :: "string \<Rightarrow> string \<Rightarrow> indicator \<Rightarrow> bool" where
  "indicator_ok source kid x = (i_Source x = source \<and> i_Type x \<in> set indicator_types \<and>
     i_KeyID x = (if i_Type x = ''subject_fingerprint'' then kid else []))"

definition grows :: "string \<Rightarrow> string \<Rightarrow> nat \<Rightarrow> intel_result \<Rightarrow> intel_result \<Rightarrow> bool" where
  "grows source kid n r r' = (list_all (indicator_ok source kid) (ir_Indicators r) \<longrightarrow>
     list_all (indicator_ok source kid) (ir_Indicators r') \<and> length (ir_Indicators r') \<le> length (ir_Indicators r) + n)"

lemma grows_trans: "grows source kid m r1 r2 \<Longrightarrow> grows source kid n r2 r3 \<Longrightarrow> grows source kid (m + n) r1 r3"
  by (auto simp: grows_def)

lemma grows_addDomains:
  assumes "kind \<in> set indicator_types" "kind \<noteq> ''subject_fingerprint''"
  shows "grows source kid cap r (addDomains cr env source kind raw cap r)"
  using assms by (auto simp: grows_def addDomains_def Let_def indicator_ok_def make_indicator_def list_all_iff dest!: in_set_takeD)

lemma grows_add_value:
  assumes "kind \<in> set indicator_types" "kid' = (if kind = ''subject_fingerprint'' then kid else [])"
  shows "grows source kid (Suc 0) r (add_value cr source kind v kid' r)"
  using assms by (simp add: grows_def add_value_def indicator_ok_def make_indicator_def)

lemma grows_refl: "grows source kid (Suc 0) r r" "grows source kid (Suc 0) r (r\<lparr>ir_Unavailable := u\<rparr>)"
  by (simp_all add: grows_def)

lemma grows_collect: "grows (ii_SourceArtifactDigest i) (keyID cr key) 69 \<lparr>ir_Indicators = [], ir_Truncated = Map.empty, ir_Unavailable = Map.empty\<rparr>
   (collect_indicators cr env i key)"
proof -
  let ?g = "grows (ii_SourceArtifactDigest i) (keyID cr key)"
  note d = grows_addDomains [where source = "ii_SourceArtifactDigest i" and kid = "keyID cr key" and cr = cr and env = env]
  have subj: "?g (Suc 0) r (add_subject cr env i key r)" for r
    by (auto simp: add_subject_def indicator_types_def grows_refl split: sum.split intro!: grows_add_value)
  have att: "?g (Suc 0 + Suc 0 + Suc 0 + Suc 0) r (add_attachment cr env i r)" for r
  proof -
    have opt: "?g (Suc 0) r (if P then add_value cr (ii_SourceArtifactDigest i) kind v [] r else r)"
      if "kind \<in> set indicator_types" "kind \<noteq> ''subject_fingerprint''" for P kind v r
      using that by (auto simp: grows_refl intro!: grows_add_value)
    have sha: "?g (Suc 0) r (case validSHA env (ii_AttachmentSHA256 i) of Inr sha \<Rightarrow> add_value cr (ii_SourceArtifactDigest i) ''attachment_sha256'' sha [] r | Inl _ \<Rightarrow> r)" for r
      by (auto simp: grows_refl indicator_types_def split: sum.split intro!: grows_add_value)
    show ?thesis
      unfolding add_attachment_def Let_def
      by (rule grows_trans [OF grows_trans [OF grows_trans [OF sha opt] opt] opt]) (simp_all add: indicator_types_def)
  qed
  have total: "(69 :: nat) = 32 + 16 + 8 + 8 + Suc 0 + (Suc 0 + Suc 0 + Suc 0 + Suc 0)" by simp
  show ?thesis
    unfolding collect_indicators_def Let_def
    by (subst total, rule grows_trans [OF grows_trans [OF grows_trans [OF grows_trans [OF grows_trans [OF d d] d] d] subj] att])
      (simp_all add: indicator_types_def)
qed

text \<open>
  Normalisation is canonical and bounded. The result does not depend on the order or the repetition
  of the URLs; the indicators are strictly sorted by type and value, so none occurs twice; there
  are at most 69 of them, all of declared types, and each names the artifact it was derived from;
  with a source digest that is not a SHA-256 there are none.
\<close>

theorem Normalize_canonical:
  assumes "set (ii_RiskyURLs i') = set (ii_RiskyURLs i)" "set (ii_RedirectURLs i') = set (ii_RedirectURLs i)"
    and "i' = i\<lparr>ii_RiskyURLs := ii_RiskyURLs i', ii_RedirectURLs := ii_RedirectURLs i'\<rparr>"
  shows "Normalize cr env i' key = Normalize cr env i key \<and>
    sorted_wrt (<) (map (\<lambda>x. (i_Type x, i_Value x)) (ir_Indicators (Normalize cr env i key))) \<and>
    length (ir_Indicators (Normalize cr env i key)) \<le> 69 \<and>
    (\<forall>x \<in> set (ir_Indicators (Normalize cr env i key)). i_Source x = ii_SourceArtifactDigest i \<and> i_Type x \<in> set indicator_types) \<and>
    (\<not> hexDigest (ii_SourceArtifactDigest i) \<longrightarrow> ir_Indicators (Normalize cr env i key) = [])"
proof -
  let ?r = "collect_indicators cr env i key" and ?k = "\<lambda>x. (i_Type x, i_Value x)"
  have same: "ii_SourceArtifactDigest i' = ii_SourceArtifactDigest i" "ii_SelectedFromDomain i' = ii_SelectedFromDomain i" "ii_DKIMDomain i' = ii_DKIMDomain i"
    "ii_Subject i' = ii_Subject i" "ii_AttachmentSHA256 i' = ii_AttachmentSHA256 i" "ii_MIMEType i' = ii_MIMEType i" "ii_Filename i' = ii_Filename i"
    "ii_ImpersonatedOrganization i' = ii_ImpersonatedOrganization i" by (subst assms(3), simp)+
  have "collect_indicators cr env i' key = ?r"
    unfolding collect_indicators_def add_attachment_def add_subject_def same addDomains_cong [OF assms(1)] addDomains_cong [OF assms(2)] ..
  then have eq: "Normalize cr env i' key = Normalize cr env i key" by (simp add: Normalize_def same)
  have ok: "list_all (indicator_ok (ii_SourceArtifactDigest i) (keyID cr key)) (ir_Indicators ?r)" "length (ir_Indicators ?r) \<le> 69"
    using grows_collect [of i cr key env] by (simp_all add: grows_def)
  let ?s = "sortIndicators (ir_Indicators ?r)"
  have mem: "set ?s = set (ir_Indicators ?r)" and srt: "sorted (map ?k ?s)" by (simp_all add: sortIndicators_def)
  have "sorted_wrt (<) (map ?k (dedupeIndicators ?s)) \<and> ?k ` set (dedupeIndicators ?s) = ?k ` set ?s \<and> set (dedupeIndicators ?s) \<subseteq> set ?s"
    unfolding dedupeIndicators_def using ok(1) mem
    by (intro slicesCompact_strict [OF srt]) (auto simp: list_all_iff indicator_ok_def)
  moreover have "length (dedupeIndicators ?s) \<le> 69"
    using length_slicesCompact [of _ ?s] ok(2) unfolding dedupeIndicators_def by (simp add: sortIndicators_def) (meson le_trans)
  moreover have "isl (validSHA env (ii_SourceArtifactDigest i))" if "\<not> hexDigest (ii_SourceArtifactDigest i)"
    using that by (auto simp: validSHA_def hexDigest_def split: option.splits)
  ultimately show ?thesis
    using eq ok(1) mem by (auto simp: Normalize_def Let_def list_all_iff indicator_ok_def)
qed

definition example_intel :: intel_env where
  "example_intel = \<lparr>url_Parse = (\<lambda>s. Some \<lparr>u_User = False, u_Host = s, u_Port = [], u_Hostname = drop 8 s, u_Path = [], u_RawQuery = [], u_Fragment = []\<rparr>),
     idna_ToASCII = Some, PublicSuffix = (\<lambda>_. ''test''), EffectiveTLDPlusOne = Some, NFKC = (\<lambda>s. s), Fold = (\<lambda>s. s), emailToken = (\<lambda>s. s),
     urlToken = (\<lambda>s. s), numberToken = (\<lambda>s. s), unicode_ToLower = ToLower, IsLetter = (\<lambda>_. True), IsDigit = (\<lambda>_. True)\<rparr>"

definition example_evidence :: intel_input where
  "example_evidence = \<lparr>ii_SourceArtifactDigest = replicate 64 (CHR ''0''), ii_RiskyURLs = [''b.test'', ''a.test''], ii_RedirectURLs = [],
     ii_SelectedFromDomain = [], ii_DKIMDomain = [], ii_Subject = [], ii_AttachmentSHA256 = [], ii_MIMEType = [], ii_Filename = [],
     ii_ImpersonatedOrganization = []\<rparr>"

theorem Normalize_canonical_witness:
  "Normalize example_crypto example_intel (example_evidence\<lparr>ii_RiskyURLs := [''a.test'', ''b.test'', ''a.test'']\<rparr>) [] =
     Normalize example_crypto example_intel example_evidence []"
  by (rule Normalize_canonical [THEN conjunct1]) (auto simp: example_evidence_def)

end
