(* ===== verification/Content.thy ===== *)
theory Content
  imports Indicators
begin

text \<open>
  The analyzers of \<open>internal/analyzers/content.go\<close>: URL observations and their canonical form, the guard of
  the URL fetcher, part bindings, archive member paths, the supplementary tools with the QR decoder,
  and the semantic rules. What comes from \<open>net/url\<close>, the Unicode tables, JSON, IDNA, the public suffix list
  and the UTS 39 skeleton is the parameter \<open>content_env\<close>; the bounded runner is that of theory \<open>Evidence\<close>.
\<close>

section \<open>White space\<close>

text \<open>\<open>strings.TrimSpace\<close> on bytes: the encodings of the white space runes are taken off either end.\<close>

definition space_texts :: "string list" where
  "space_texts = map encode_rune ([9, 10, 11, 12, 13, 32, 0x85, 0xA0, 0x1680] @ [0x2000..<0x200B] @ [0x2028, 0x2029, 0x202F, 0x205F, 0x3000])"

lemma space_texts_nonempty: "w \<in> set space_texts \<Longrightarrow> w \<noteq> []"
  by (auto simp: space_texts_def encode_rune_def)

lemma found_prefix: "find (HasPrefix s) space_texts = Some w \<Longrightarrow> w \<noteq> [] \<and> s \<noteq> []"
proof -
  assume "find (HasPrefix s) space_texts = Some w"
  then have "w \<in> set space_texts" "HasPrefix s w" by (auto simp: find_Some_iff)
  then show ?thesis using space_texts_nonempty [of w] by (auto simp: HasPrefix_def)
qed

lemma found_suffix: "find (HasSuffix s) space_texts = Some w \<Longrightarrow> 0 < length w \<and> 0 < length s"
proof -
  assume "find (HasSuffix s) space_texts = Some w"
  then have "w \<in> set space_texts" "HasSuffix s w" by (auto simp: find_Some_iff)
  then show ?thesis using space_texts_nonempty [of w] by (auto simp: HasSuffix_def)
qed

function trim_left :: "string \<Rightarrow> string" where
  "trim_left s = (case find (HasPrefix s) space_texts of None \<Rightarrow> s | Some w \<Rightarrow> trim_left (drop (length w) s))"
  by pat_completeness auto
termination
  by (relation "measure length") (auto dest: found_prefix)

function trim_right :: "string \<Rightarrow> string" where
  "trim_right s = (case find (HasSuffix s) space_texts of None \<Rightarrow> s | Some w \<Rightarrow> trim_right (take (length s - length w) s))"
  by pat_completeness auto
termination
  by (relation "measure length") (auto dest: found_suffix)

declare trim_left.simps [simp del] trim_right.simps [simp del]

definition utf8_TrimSpace :: "string \<Rightarrow> string" where
  "utf8_TrimSpace s = trim_right (trim_left s)"

lemma length_trim_left: "length (trim_left s) \<le> length s"
proof (induction s rule: trim_left.induct)
  case (1 s)
  show ?case
  proof (cases "find (HasPrefix s) space_texts")
    case None
    then show ?thesis by (subst trim_left.simps) simp
  next
    case (Some w)
    with 1 have "length (trim_left (drop (length w) s)) \<le> length (drop (length w) s)" by blast
    then have "length (trim_left (drop (length w) s)) \<le> length s" by simp
    with Some show ?thesis by (subst trim_left.simps) simp
  qed
qed

lemma length_trim_right: "length (trim_right s) \<le> length s"
proof (induction s rule: trim_right.induct)
  case (1 s)
  show ?case
  proof (cases "find (HasSuffix s) space_texts")
    case None
    then show ?thesis by (subst trim_right.simps) simp
  next
    case (Some w)
    with 1 have "length (trim_right (take (length s - length w) s)) \<le> length (take (length s - length w) s)" by blast
    then have "length (trim_right (take (length s - length w) s)) \<le> length s" by simp
    with Some show ?thesis by (subst trim_right.simps) simp
  qed
qed

lemma trim_left_shorter: "w \<in> set space_texts \<Longrightarrow> HasPrefix s w \<Longrightarrow> length (trim_left s) < length s"
proof -
  assume w: "w \<in> set space_texts" "HasPrefix s w"
  then obtain v where v: "find (HasPrefix s) space_texts = Some v" by (cases "find (HasPrefix s) space_texts") (auto simp: find_None_iff)
  have "length (trim_left (drop (length v) s)) \<le> length s - length v" using length_trim_left [of "drop (length v) s"] by simp
  with found_prefix [OF v] v show ?thesis by (subst trim_left.simps) (auto intro: le_less_trans)
qed

lemma trim_right_shorter: "w \<in> set space_texts \<Longrightarrow> HasSuffix s w \<Longrightarrow> length (trim_right s) < length s"
proof -
  assume w: "w \<in> set space_texts" "HasSuffix s w"
  then obtain v where v: "find (HasSuffix s) space_texts = Some v" by (cases "find (HasSuffix s) space_texts") (auto simp: find_None_iff)
  have "length (trim_right (take (length s - length v) s)) \<le> length s - length v"
    using length_trim_right [of "take (length s - length v) s"] by simp
  with found_suffix [OF v] v show ?thesis by (subst trim_right.simps) (auto intro: le_less_trans)
qed

lemma TrimSpace_shorter:
  assumes "w \<in> set space_texts" "HasPrefix s w \<or> HasSuffix s w"
  shows "length (utf8_TrimSpace s) < length s"
proof (cases "trim_left s = s")
  case True
  then have "HasSuffix s w" using assms trim_left_shorter [OF assms(1), of s] by auto
  from trim_right_shorter [OF assms(1) this] show ?thesis by (simp add: utf8_TrimSpace_def True)
next
  case False
  then have "find (HasPrefix s) space_texts \<noteq> None" by (subst (asm) trim_left.simps) (auto split: option.splits)
  then obtain v where v: "v \<in> set space_texts" "HasPrefix s v" by (auto simp: find_Some_iff in_set_conv_nth)
  from trim_left_shorter [OF this] length_trim_right [of "trim_left s"] show ?thesis by (simp add: utf8_TrimSpace_def)
qed

text \<open>A text that begins and ends with a visible ASCII character is left as it is.\<close>

definition visible_char :: "char \<Rightarrow> bool" where
  "visible_char c = (33 \<le> (of_char c :: nat) \<and> (of_char c :: nat) \<le> 126)"

lemma space_texts_invisible:
  assumes "w \<in> set space_texts"
  shows "\<not> visible_char (hd w)" "\<not> visible_char (last w)"
proof -
  obtain r where w: "w = encode_rune r" and "r \<in> set [9, 10, 11, 12, 13, 32, 0x85, 0xA0, 0x1680] \<union> {0x2000..<0x200B} \<union> set [0x2028, 0x2029, 0x202F, 0x205F, 0x3000]"
    using assms by (auto simp: space_texts_def)
  then have r: "r < 33 \<or> 128 \<le> r" "r < 65536" by auto
  have big: "\<not> visible_char (char_of n)" if "128 \<le> n" "n < 256" for n :: nat
    using that by (simp add: visible_char_def)
  consider "r < 33" | "128 \<le> r" "r < 2048" | "2048 \<le> r" using r(1) by linarith
  then show "\<not> visible_char (hd w)" "\<not> visible_char (last w)"
  proof (atomize (full), cases)
    case 1
    then show "\<not> visible_char (hd w) \<and> \<not> visible_char (last w)" by (simp add: w encode_rune_def visible_char_def)
  next
    case 2
    then show "\<not> visible_char (hd w) \<and> \<not> visible_char (last w)" by (simp add: w encode_rune_def big)
  next
    case 3
    then show "\<not> visible_char (hd w) \<and> \<not> visible_char (last w)" using r(2) by (simp add: w encode_rune_def big)
  qed
qed

lemma TrimSpace_visible:
  assumes "s \<noteq> []" "visible_char (hd s)" "visible_char (last s)"
  shows "utf8_TrimSpace s = s"
proof -
  have "\<not> HasPrefix s w \<and> \<not> HasSuffix s w" if w: "w \<in> set space_texts" for w
  proof -
    have "hd s = hd w" if "HasPrefix s w"
      using that space_texts_nonempty [OF w] by (auto simp: HasPrefix_iff_prefix prefix_def)
    moreover have "last s = last w" if "HasSuffix s w"
      using that space_texts_nonempty [OF w] by (auto simp: HasSuffix_iff_suffix suffix_def)
    ultimately show ?thesis using space_texts_invisible [OF w] assms(2,3) by metis
  qed
  then have "find (HasPrefix s) space_texts = None" "find (HasSuffix s) space_texts = None" by (auto simp: find_None_iff)
  then show ?thesis by (simp add: utf8_TrimSpace_def trim_left.simps trim_right.simps)
qed

lemma newline_is_space: "[CHR 0x0A] \<in> set space_texts"
proof -
  have "[CHR 0x0A] = encode_rune 10" by code_simp
  then show ?thesis unfolding space_texts_def set_map by (rule image_eqI) simp
qed

section \<open>URLs\<close>

record projection_record =
  pj_Symbol :: string
  pj_Value :: string

record url_observation =
  uo_SchemaVersion :: int
  uo_PartID :: string
  uo_Raw :: string
  uo_Display :: string
  uo_Target :: string
  uo_Flags :: "string list option"

record canonical_url =
  cu_URL :: string
  cu_ALabel :: string
  cu_ULabel :: string
  cu_Organization :: string
  cu_Scripts :: "string list"
  cu_Skeleton :: string
  cu_IsIPLiteral :: bool

record web_url =
  w_Scheme :: string
  w_User :: bool
  w_Host :: string
  w_Hostname :: string

text \<open>\<open>print_url\<close> prints the parsed URL with the given host and no fragment.\<close>

record content_env =
  observation_of :: "string \<Rightarrow> url_observation option"
  parse_url :: "string \<Rightarrow> web_url option"
  print_url :: "string \<Rightarrow> string \<Rightarrow> string"
  addr_text :: "string \<Rightarrow> string option"
  to_ascii_host :: "string \<Rightarrow> string option"
  to_unicode_host :: "string \<Rightarrow> string option"
  registrable :: "string \<Rightarrow> string option"
  uts39_Skeleton :: "string \<Rightarrow> string"
  text_lower :: "string \<Rightarrow> string"
  is_Latin :: "nat \<Rightarrow> bool"
  is_Cyrillic :: "nat \<Rightarrow> bool"
  is_Greek :: "nat \<Rightarrow> bool"
  is_letter :: "nat \<Rightarrow> bool"

definition DecodeURLObservation :: "content_env \<Rightarrow> projection_record \<Rightarrow> url_observation res" where
  "DecodeURLObservation env r =
     (if pj_Symbol r \<noteq> ''MAILPROOF_URL_OBSERVATION'' then Inl (Err ''unexpected URL projection symbol'')
      else case observation_of env (pj_Value r) of
          None \<Rightarrow> Inl (Err ''decode URL observation'')
        | Some o1 \<Rightarrow>
            if uo_SchemaVersion o1 \<noteq> 1 \<or> uo_PartID o1 = [] \<or> uo_Raw o1 = [] then Inl (Err ''invalid URL observation'')
            else Inr (if uo_Flags o1 = None then o1\<lparr>uo_Flags := Some []\<rparr> else o1))"

definition rune_script :: "content_env \<Rightarrow> nat \<Rightarrow> string list" where
  "rune_script env r = (if is_Latin env r then [''Latin''] else if is_Cyrillic env r then [''Cyrillic'']
     else if is_Greek env r then [''Greek''] else if is_letter env r then [''Other''] else [])"

definition unicodeSignals :: "content_env \<Rightarrow> string \<Rightarrow> string list \<times> string" where
  "unicodeSignals env v = (sort (remdups (concat (map (rune_script env) (runes (text_lower env v))))), uts39_Skeleton env v)"

text \<open>\<open>net.JoinHostPort\<close>.\<close>

definition JoinHostPort :: "string \<Rightarrow> string \<Rightarrow> string" where
  "JoinHostPort host port = (if CHR '':'' \<in> set host then ''['' @ host @ '']:'' @ port else host @ '':'' @ port)"

text \<open>
  \<open>URL.Port\<close>: what follows the last colon of the host, when it has only digits. \<open>CanonicalizeURL\<close> asks for
  the port after it has put the A-label in place of the host.
\<close>

definition host_Port :: "string \<Rightarrow> string" where
  "host_Port host =
     (let port = rev (takeWhile (\<lambda>c. c \<noteq> CHR '':'') (rev host)) in
      if CHR '':'' \<in> set host \<and> list_all (\<lambda>c. CHR ''0'' \<le> c \<and> c \<le> CHR ''9'') port then port else [])"

definition canonical_host :: "content_env \<Rightarrow> string \<Rightarrow> canonical_url res" where
  "canonical_host env host =
     (let c = \<lparr>cu_URL = [], cu_ALabel = [], cu_ULabel = [], cu_Organization = [], cu_Scripts = [], cu_Skeleton = [], cu_IsIPLiteral = False\<rparr> in
      case addr_text env host of
        Some a \<Rightarrow> Inr (c\<lparr>cu_IsIPLiteral := True, cu_ALabel := a, cu_ULabel := a\<rparr>)
      | None \<Rightarrow> (case to_ascii_host env host of
          None \<Rightarrow> Inl (Err ''convert IDN to A-label'')
        | Some ascii \<Rightarrow> (case to_unicode_host env ascii of
            None \<Rightarrow> Inl (Err ''convert IDN to U-label'')
          | Some u \<Rightarrow> let a = text_lower env ascii; (scripts, skeleton) = unicodeSignals env u in
              Inr (c\<lparr>cu_ALabel := a, cu_ULabel := u, cu_Scripts := scripts, cu_Skeleton := skeleton,
                cu_Organization := (case registrable env a of None \<Rightarrow> [] | Some d \<Rightarrow> d)\<rparr>))))"

definition CanonicalizeURL :: "content_env \<Rightarrow> string \<Rightarrow> canonical_url res" where
  "CanonicalizeURL env raw = (case parse_url env raw of
       None \<Rightarrow> Inl (Err ''parse URL'')
     | Some u \<Rightarrow>
         if w_Scheme u \<noteq> ''http'' \<and> w_Scheme u \<noteq> ''https'' then Inl (Err ''URL scheme is not HTTP(S)'')
         else if w_User u \<or> w_Host u = [] then Inl (Err ''URL has credentials or no host'')
         else if w_Hostname u = [] then Inl (Err ''URL has no hostname'')
         else bind_res (canonical_host env (w_Hostname u)) (\<lambda>c.
           let port = host_Port (cu_ALabel c) in
           Inr (c\<lparr>cu_URL := print_url env raw (if port \<noteq> [] then JoinHostPort (cu_ALabel c) port else cu_ALabel c)\<rparr>)))"

section \<open>The fetcher\<close>

text \<open>
  \<open>netip.Addr\<close>: the zero value, the four bytes of an IPv4 address, or the sixteen of an IPv6 address
  with its zone. Comparisons under a mask of leading bits are divisions.
\<close>

datatype addr = NoAddr | Addr4 "nat list" | Addr6 "nat list" string

fun Unmap :: "addr \<Rightarrow> addr" where
  "Unmap (Addr6 b z) = (if take 12 b = replicate 10 0 @ [255, 255] then Addr4 (drop 12 b) else Addr6 b z)"
| "Unmap a = a"

fun loopback :: "addr \<Rightarrow> bool" where
  "loopback (Addr4 b) = (b ! 0 = 127)"
| "loopback (Addr6 b z) = (b = replicate 15 0 @ [1])"
| "loopback NoAddr = False"

fun isPrivate :: "addr \<Rightarrow> bool" where
  "isPrivate (Addr4 b) = (b ! 0 = 10 \<or> (b ! 0 = 172 \<and> b ! 1 div 16 = 1) \<or> (b ! 0 = 192 \<and> b ! 1 = 168))"
| "isPrivate (Addr6 b z) = (b ! 0 div 2 = 126)"
| "isPrivate NoAddr = False"

fun linkLocalUnicast :: "addr \<Rightarrow> bool" where
  "linkLocalUnicast (Addr4 b) = (b ! 0 = 169 \<and> b ! 1 = 254)"
| "linkLocalUnicast (Addr6 b z) = (b ! 0 = 254 \<and> b ! 1 div 64 = 2)"
| "linkLocalUnicast NoAddr = False"

fun linkLocalMulticast :: "addr \<Rightarrow> bool" where
  "linkLocalMulticast (Addr4 b) = (b ! 0 = 224 \<and> b ! 1 = 0 \<and> b ! 2 = 0)"
| "linkLocalMulticast (Addr6 b z) = (b ! 0 = 255 \<and> b ! 1 mod 16 = 2)"
| "linkLocalMulticast NoAddr = False"

fun multicast :: "addr \<Rightarrow> bool" where
  "multicast (Addr4 b) = (b ! 0 div 16 = 14)"
| "multicast (Addr6 b z) = (b ! 0 = 255)"
| "multicast NoAddr = False"

definition unspecified :: "addr \<Rightarrow> bool" where
  "unspecified a = (a = Addr4 (replicate 4 0) \<or> a = Addr6 (replicate 16 0) [])"

definition publicAddress :: "addr \<Rightarrow> bool" where
  "publicAddress a = (a \<noteq> NoAddr \<and> \<not> loopback (Unmap a) \<and> \<not> isPrivate (Unmap a) \<and> \<not> linkLocalUnicast (Unmap a) \<and>
     \<not> linkLocalMulticast (Unmap a) \<and> \<not> multicast (Unmap a) \<and> \<not> unspecified a)"

text \<open>The address and the port that are dialled for a destination.\<close>

definition DialContext :: "(string \<Rightarrow> (string \<times> string) option) \<Rightarrow> (string \<Rightarrow> addr list option) \<Rightarrow> string \<Rightarrow> (addr \<times> string) res" where
  "DialContext split resolver address = (case split address of
       None \<Rightarrow> Inl (Err ''split destination'')
     | Some (host, port) \<Rightarrow> (case resolver host of
         None \<Rightarrow> Inl (Err ''resolve destination'')
       | Some [a] \<Rightarrow> if \<not> publicAddress a then Inl (Err ''destination address is forbidden'') else Inr (a, port)
       | Some _ \<Rightarrow> Inl (Err ''destination must resolve to exactly one address'')))"

definition CheckRedirect :: "content_env \<Rightarrow> string \<Rightarrow> nat \<Rightarrow> unit res" where
  "CheckRedirect env target via = (if via \<ge> 5 then Inl (Err ''redirect limit exceeded'')
     else bind_res (CanonicalizeURL env target) (\<lambda>_. Inr ()))"

section \<open>Parts and archives\<close>

record part_binding =
  pb_PartID :: string
  pb_PartPath :: string
  pb_Digest :: string
  pb_DeclaredType :: string
  pb_DetectedType :: string

definition BindPart :: "crypto \<Rightarrow> string \<Rightarrow> string \<Rightarrow> string \<Rightarrow> string \<Rightarrow> string \<Rightarrow> part_binding res" where
  "BindPart cr partID partPath declaredType detectedType decoded =
     (if partID = [] \<or> partPath = [] \<or> decoded = [] then Inl (Err ''part binding requires ID, path, and decoded bytes'')
      else Inr \<lparr>pb_PartID = partID, pb_PartPath = partPath, pb_Digest = hex_encode (sha256 cr decoded),
        pb_DeclaredType = declaredType, pb_DetectedType = detectedType\<rparr>)"

definition part_Contradiction :: "part_binding \<Rightarrow> string \<Rightarrow> contradiction option" where
  "part_Contradiction b expectedDigest =
     (if expectedDigest = pb_Digest b \<and> (pb_DeclaredType b = [] \<or> pb_DetectedType b = [] \<or> pb_DeclaredType b = pb_DetectedType b) then None
      else Some \<lparr>co_ID = ''part-binding-'' @ pb_PartID b, co_EvidenceIDs = [],
        co_Reason = ''Rspamd part digest or type disagrees with Go binding'', co_Material = True\<rparr>)"

definition SafeArchivePath :: "string \<Rightarrow> unit res" where
  "SafeArchivePath name =
     (if name = [] \<or> HasPrefix name ''/'' \<or> CHR 0x00 \<in> set name then Inl (Err ''archive member path is unsafe'')
      else let clean = Clean name in
        if clean = ''.'' \<or> clean = ''..'' \<or> HasPrefix clean ''../'' then Inl (Err ''archive member traverses outside run directory'')
        else Inr ())"

section \<open>Supplementary tools\<close>

text \<open>\<open>filepath.Base\<close>.\<close>

definition path_Base :: "string \<Rightarrow> string" where
  "path_Base p = (if p = [] then ''.''
     else let q = rev (dropWhile (\<lambda>c. c = CHR ''/'') (rev p)); b = rev (takeWhile (\<lambda>c. c \<noteq> CHR ''/'') (rev q)) in
       if b = [] then ''/'' else b)"

definition skipped_result :: "string \<Rightarrow> command_result" where
  "skipped_result e = \<lparr>rs_Status = Skipped, rs_ExitCode = 0, rs_Stdout = [], rs_Stderr = [], rs_StdoutDigest = [], rs_StderrDigest = [], rs_Error = e\<rparr>"

definition RunSupplementaryTool :: "crypto \<Rightarrow> content_env \<Rightarrow> string set \<Rightarrow> adapter_command \<Rightarrow> child \<Rightarrow> command_result" where
  "RunSupplementaryTool cr env allowed tool p =
     (let name = text_lower env (path_Base (ac_Path tool)) in
      if name = ''file'' \<or> Contains name ''clam'' \<or> Contains name ''olevba'' then skipped_result ''tool is owned by Rspamd''
      else Run cr allowed tool p)"

record qr_value =
  qr_ParentDigest :: string
  qr_PartDigest :: string
  qr_Page :: int
  qr_Frame :: int
  qr_ValueDigest :: string
  qr_URL :: "canonical_url option"
  qr_Limitation :: string

definition NewQRValue :: "crypto \<Rightarrow> content_env \<Rightarrow> string \<Rightarrow> string \<Rightarrow> string \<Rightarrow> int \<Rightarrow> int \<Rightarrow> qr_value res" where
  "NewQRValue cr env parentDigest partDigest v page frame =
     (if parentDigest = [] \<or> partDigest = [] \<or> v = [] then Inl (Err ''QR value requires parent, part, and value'')
      else Inr \<lparr>qr_ParentDigest = parentDigest, qr_PartDigest = partDigest, qr_Page = page, qr_Frame = frame,
        qr_ValueDigest = hex_encode (sha256 cr v), qr_URL = (case CanonicalizeURL env v of Inl _ \<Rightarrow> None | Inr c \<Rightarrow> Some c), qr_Limitation = []\<rparr>)"

definition DecodeQR :: "crypto \<Rightarrow> content_env \<Rightarrow> string set \<Rightarrow> adapter_command \<Rightarrow> child \<Rightarrow> string \<Rightarrow> string \<Rightarrow> int \<Rightarrow> int \<Rightarrow> qr_value list \<times> command_result" where
  "DecodeQR cr env allowed tool p parentDigest partDigest page frame =
     (if path_Base (ac_Path tool) \<noteq> ''zbarimg'' then ([], skipped_result ''QR decoder must be zbarimg'')
      else let result = RunSupplementaryTool cr env allowed tool p in
        if rs_Status result \<noteq> Observed then ([], result)
        else (concat (map (\<lambda>line. let v = utf8_TrimSpace line in
            if v = [] then [] else case NewQRValue cr env parentDigest partDigest v page frame of Inl _ \<Rightarrow> [] | Inr d \<Rightarrow> [d]) (Split LF (rs_Stdout result))), result))"

section \<open>Semantic rules\<close>

record semantic_rule =
  sr_ID :: string
  sr_Phrases :: "string list"
  sr_Strength :: string

definition Trim_quotes :: "string \<Rightarrow> string" where
  "Trim_quotes s = rev (dropWhile (\<lambda>c. c = CHR 0x22) (rev (dropWhile (\<lambda>c. c = CHR 0x22) s)))"

definition rule_line :: "string \<Rightarrow> semantic_rule list \<Rightarrow> semantic_rule list" where
  "rule_line line rules =
     (let t = utf8_TrimSpace line in
      if HasPrefix t ''- id: '' then rules @ [\<lparr>sr_ID = Trim_quotes (TrimPrefix t ''- id: ''), sr_Phrases = [], sr_Strength = Weak\<rparr>]
      else if rules \<noteq> [] \<and> HasPrefix t ''phrases: ['' \<and> HasSuffix t '']'' then
        let phrases = filter (\<lambda>p. p \<noteq> []) (map (\<lambda>p. Trim_quotes (utf8_TrimSpace p)) (Split (CHR '','') (TrimSuffix (TrimPrefix t ''phrases: ['') '']'')));
            current = last rules in
        butlast rules @ [current\<lparr>sr_Phrases := sr_Phrases current @ phrases\<rparr>]
      else rules)"

definition DefaultSemanticRules :: "string \<Rightarrow> semantic_rule list" where
  "DefaultSemanticRules yaml = fold rule_line (Split LF yaml) []"

record semantic_match =
  sm_RuleID :: string
  sm_Excerpt :: string
  sm_PartPath :: string
  sm_Strength :: string

fun Index :: "string \<Rightarrow> string \<Rightarrow> nat option" where
  "Index [] p = (if p = [] then Some 0 else None)"
| "Index (c # s) p = (if HasPrefix (c # s) p then Some 0 else map_option Suc (Index s p))"

definition ends_body :: "content_env \<Rightarrow> string \<Rightarrow> bool" where
  "ends_body env line = (let t = utf8_TrimSpace line in
     t = ''--'' \<or> HasPrefix t ''>'' \<or> (HasPrefix (text_lower env t) ''on '' \<and> Contains (text_lower env t) '' wrote:''))"

definition stripQuotedAndSignature :: "content_env \<Rightarrow> string \<Rightarrow> string" where
  "stripQuotedAndSignature env v = Join [LF] (takeWhile (\<lambda>line. \<not> ends_body env line) (Split LF v))"

definition sanitizeExcerpt :: "string \<Rightarrow> string" where
  "sanitizeExcerpt v = utf8_TrimSpace (of_runes (map (\<lambda>r. if r < 0x20 \<or> (0x7F \<le> r \<and> r < 0xA0) then 32 else r) (runes v)))"

text \<open>The first phrase of a rule that occurs; the slice of the text panics beyond its end.\<close>

fun match_phrases :: "content_env \<Rightarrow> string \<Rightarrow> string \<Rightarrow> string list \<Rightarrow> string option res" where
  "match_phrases env text lower [] = Inr None"
| "match_phrases env text lower (phrase # phrases) = (case Index lower (text_lower env phrase) of
       None \<Rightarrow> match_phrases env text lower phrases
     | Some i \<Rightarrow> if i + length phrase > length text then Inl (Err ''slice bounds out of range'')
         else Inr (Some (sanitizeExcerpt (take (length phrase) (drop i text)))))"

fun match_rules :: "content_env \<Rightarrow> string \<Rightarrow> string \<Rightarrow> string \<Rightarrow> semantic_rule list \<Rightarrow> semantic_match list res" where
  "match_rules env text lower partPath [] = Inr []"
| "match_rules env text lower partPath (rule # rules) =
     (if sr_ID rule = [] \<or> sr_Strength rule \<noteq> Weak then match_rules env text lower partPath rules
      else bind_res (match_phrases env text lower (sr_Phrases rule)) (\<lambda>m.
        bind_res (match_rules env text lower partPath rules) (\<lambda>ms. Inr (case m of None \<Rightarrow> ms
          | Some excerpt \<Rightarrow> \<lparr>sm_RuleID = sr_ID rule, sm_Excerpt = excerpt, sm_PartPath = partPath, sm_Strength = Weak\<rparr> # ms))))"

definition MatchSemanticRules :: "content_env \<Rightarrow> string \<Rightarrow> string \<Rightarrow> semantic_rule list \<Rightarrow> semantic_match list res" where
  "MatchSemanticRules env text partPath rules =
     (if length text > 1048576 \<or> partPath = [] then Inr []
      else match_rules env text (text_lower env (stripQuotedAndSignature env text)) partPath rules)"

section \<open>Canonical URLs lose their port\<close>

text \<open>
  A canonical URL is HTTP or HTTPS, carries no credentials and names a host. The port of a host name is
  not kept: the A-label that has replaced the host has no colon to find one after.
\<close>

lemma canonical_url_drops_port:
  assumes "CanonicalizeURL env raw = Inr c"
  obtains u where "parse_url env raw = Some u" "w_Scheme u \<in> {''http'', ''https''}" "\<not> w_User u" "w_Hostname u \<noteq> []"
    "CHR '':'' \<notin> set (cu_ALabel c) \<Longrightarrow> cu_URL c = print_url env raw (cu_ALabel c)"
  using assms by (auto simp: CanonicalizeURL_def bind_res_def host_Port_def split: option.splits if_splits sum.splits)

text \<open>The last group of an IPv6 literal is taken for a port when it has only decimal digits, and otherwise the literal has no brackets.\<close>

lemma ipv6_group_read_as_port:
  "host_Port ''2001:db8::25'' = ''25''" "host_Port ''2001:db8::a'' = []"
  by (simp_all add: host_Port_def less_eq_char_def)

section \<open>Archive members stay inside\<close>

lemma clean_parts_dotdot: "stack \<noteq> [] \<Longrightarrow> hd stack = ''..'' \<Longrightarrow> clean_parts False stack ps \<noteq> [] \<and> hd (clean_parts False stack ps) = ''..''"
proof (induction "False" stack ps rule: clean_parts.induct)
  case (2 stack p ps)
  show ?case
  proof (cases "p = ''..'' \<and> last stack \<noteq> ''..''")
    case True
    obtain q rest where q: "stack = q # rest" using 2(6) by (cases stack) auto
    with 2(7) True have "rest \<noteq> []" by auto
    then have "butlast stack \<noteq> []" "hd (butlast stack) = ''..''" using q 2(7) by simp_all
    with 2(2) True 2(6) show ?thesis by simp
  qed (use 2 in auto)
qed simp

lemma clean_parts_inside:
  assumes "''..'' \<notin> set stack" "clean_parts False stack ps = [] \<or> hd (clean_parts False stack ps) \<noteq> ''..''"
  shows "clean_parts rooted (base @ stack) ps = base @ clean_parts False stack ps \<and> ''..'' \<notin> set (clean_parts False stack ps)"
  using assms
proof (induction "False" stack ps rule: clean_parts.induct)
  case (2 stack p ps)
  show ?case
  proof (cases "p = ''..''")
    case True
    have "stack \<noteq> []"
      using 2(7) True clean_parts_dotdot [of "[''..'']" ps] by auto
    moreover have "last stack \<noteq> ''..''" using 2(6) calculation by (metis last_in_set)
    moreover have "''..'' \<notin> set (butlast stack)" using 2(6) by (meson in_set_butlastD)
    ultimately show ?thesis using 2(2,7) True by (simp add: butlast_append)
  next
    case False
    with 2 show ?thesis by auto
  qed
qed simp

lemma Clean_relative: "\<not> HasPrefix name ''/'' \<Longrightarrow> Clean name = (let st = clean_parts False [] (Split (CHR ''/'') name) in if Join ''/'' st = [] then ''.'' else Join ''/'' st)"
  by (simp add: Clean_def Let_def)

lemma clean_parts_nonempty_names: "[] \<notin> set stack \<Longrightarrow> [] \<notin> set (clean_parts rooted stack ps)"
proof (induction rooted stack ps rule: clean_parts.induct)
  case (2 rooted stack p ps)
  have "[] \<notin> set (butlast stack)" using 2(6) by (meson in_set_butlastD)
  with 2 show ?case by auto
qed simp

lemma safe_parts:
  assumes "SafeArchivePath name = Inr ()"
  shows "clean_parts False [] (Split (CHR ''/'') name) \<noteq> []" "hd (clean_parts False [] (Split (CHR ''/'') name)) \<noteq> ''..''" "\<not> HasPrefix name ''/''"
proof -
  let ?st = "clean_parts False [] (Split (CHR ''/'') name)"
  have a: "\<not> HasPrefix name ''/''" "Clean name \<noteq> ''.''" "Clean name \<noteq> ''..''" "\<not> HasPrefix (Clean name) ''../''"
    using assms by (auto simp: SafeArchivePath_def Let_def split: if_splits)
  note c = Clean_relative [OF a(1), unfolded Let_def]
  show "\<not> HasPrefix name ''/''" by (rule a(1))
  show "?st \<noteq> []" using a(2) c by (cases "?st = []") auto
  show "hd ?st \<noteq> ''..''"
  proof
    assume h: "hd ?st = ''..''"
    obtain p rest where st: "?st = p # rest" using \<open>?st \<noteq> []\<close> by (cases ?st) auto
    with h have "p = ''..''" by simp
    then show False using a(3,4) c st by (cases rest) (auto simp: HasPrefix_def)
  qed
qed

text \<open>
  An accepted archive member stays inside the directory it is extracted to. When \<open>SafeArchivePath\<close>
  accepts a name, joining it to any directory gives a path whose components are those of the directory
  followed by at least one more, none of them a parent reference, however the name is written.
\<close>

theorem archive_member_contained:
  assumes "SafeArchivePath name = Inr ()" "dir \<noteq> []"
  shows "\<exists>rest. rest \<noteq> [] \<and> ''..'' \<notin> set rest \<and>
    path_Join [dir, name] = (if HasPrefix dir ''/'' then ''/'' else []) @
      Join ''/'' (clean_parts (HasPrefix dir ''/'') [] (Split (CHR ''/'') dir) @ rest)"
proof -
  let ?rest = "clean_parts False [] (Split (CHR ''/'') name)" and ?r = "HasPrefix dir ''/''"
  let ?st = "clean_parts ?r [] (Split (CHR ''/'') dir)"
  note s = safe_parts [OF assms(1)]
  have name: "name \<noteq> []" using assms(1) by (auto simp: SafeArchivePath_def)
  have in1: "clean_parts ?r (?st @ []) (Split (CHR ''/'') name) = ?st @ ?rest" "''..'' \<notin> set ?rest"
    using clean_parts_inside [of "[]" "Split (CHR ''/'') name" ?r ?st] s(2) by simp_all
  have "HasPrefix (dir @ CHR ''/'' # name) ''/'' = ?r" using assms(2) by (cases dir) (auto simp: HasPrefix_def)
  moreover have "clean_parts ?r [] (Split (CHR ''/'') (dir @ CHR ''/'' # name)) = ?st @ ?rest"
    using in1(1) by (simp add: Split_append clean_parts_append)
  moreover have "Join ''/'' (?st @ ?rest) \<noteq> []"
  proof -
    have "[] \<notin> set (?st @ ?rest)" using clean_parts_nonempty_names [of "[]"] by simp
    moreover have "Join ''/'' xs \<noteq> []" if "xs \<noteq> []" "[] \<notin> set xs" for xs using that by (cases xs; cases "tl xs") auto
    ultimately show ?thesis using s(1) by blast
  qed
  ultimately have "path_Join [dir, name] = (if ?r then ''/'' else []) @ Join ''/'' (?st @ ?rest)"
    using assms(2) name by (simp add: path_Join_def Clean_def Let_def)
  with s(1) in1(2) show ?thesis by blast
qed

theorem archive_member_contained_witness:
  "\<exists>rest. SafeArchivePath ''a/../b//c'' = Inr () \<and> rest \<noteq> [] \<and> ''..'' \<notin> set rest \<and>
     path_Join [''/run/x'', ''a/../b//c''] = ''/'' @ Join ''/'' ([''run'', ''x''] @ rest)"
proof -
  have "SafeArchivePath ''a/../b//c'' = Inr ()"
    by (simp add: SafeArchivePath_def Clean_def HasPrefix_def Let_def)
  from archive_member_contained [OF this, of "''/run/x''"] this show ?thesis by (auto simp: HasPrefix_def)
qed

section \<open>The fetcher dials public addresses only\<close>

definition blocked_nets :: "ipnet list" where
  "blocked_nets = map (\<lambda>(b, n). \<lparr>net_ip = b, net_bits = 32, net_ones = n\<rparr>)
       [([127, 0, 0, 0], 8), ([10, 0, 0, 0], 8), ([172, 16, 0, 0], 12), ([192, 168, 0, 0], 16), ([169, 254, 0, 0], 16), ([224, 0, 0, 0], 4)] @
     map (\<lambda>(b, n). \<lparr>net_ip = b, net_bits = 128, net_ones = n\<rparr>)
       [(replicate 15 0 @ [1], 128), (252 # replicate 15 0, 7), (254 # 128 # replicate 14 0, 10), (255 # replicate 15 0, 8)]"

fun addr_bytes :: "addr \<Rightarrow> ip option" where
  "addr_bytes NoAddr = None"
| "addr_bytes (Addr4 b) = Some b"
| "addr_bytes (Addr6 b z) = Some b"

fun addr_ok :: "addr \<Rightarrow> bool" where
  "addr_ok NoAddr = True"
| "addr_ok (Addr4 b) = (length b = 4 \<and> list_all (\<lambda>x. x < 256) b)"
| "addr_ok (Addr6 b z) = (length b = 16 \<and> list_all (\<lambda>x. x < 256) b)"

lemma take_byte_bits:
  assumes "b < 256" "c < 256" "n \<le> 8"
  shows "take n (byte_bits b) = take n (byte_bits c) \<longleftrightarrow> b div 2 ^ (8 - n) = c div 2 ^ (8 - n)"
  using assms(3)
proof (induction n)
  case 0
  then show ?case using assms by simp
next
  case (Suc n)
  have byte: "take (Suc n) (byte_bits x) = take n (byte_bits x) @ [odd (x div 2 ^ (7 - n))]" for x
    using Suc.prems by (simp add: byte_bits_def take_map take_Suc_conv_app_nth)
  have half: "x div 2 ^ (8 - n) = (x div 2 ^ (7 - n)) div 2" for x :: nat
  proof -
    have "8 - n = Suc (7 - n)" using Suc.prems by simp
    then have "2 ^ (8 - n) = 2 ^ (7 - n) * (2 :: nat)" by simp
    then show ?thesis by (simp only: div_mult2_eq)
  qed
  have "8 - Suc n = 7 - n" by simp
  moreover have "(u div 2 = v div 2 \<and> odd u = odd v) = (u = v)" for u v :: nat by (metis odd_two_times_div_two_succ even_two_times_div_two)
  ultimately show ?case using Suc by (simp add: byte half)
qed

lemma byte_bits_inj: "b < 256 \<Longrightarrow> c < 256 \<Longrightarrow> byte_bits b = byte_bits c \<longleftrightarrow> b = c"
  using take_byte_bits [of b c 8] by simp

lemma ip_bits_Cons [simp]: "ip_bits (b # bs) = byte_bits b @ ip_bits bs" "ip_bits [] = []"
  by (simp_all add: ip_bits_def)

lemma length_ip_bits: "length (ip_bits b) = 8 * length b"
  by (induction b) simp_all

lemma ip_bits_inj: "length bs = length cs \<Longrightarrow> list_all (\<lambda>x. x < 256) bs \<Longrightarrow> list_all (\<lambda>x. x < 256) cs \<Longrightarrow> ip_bits bs = ip_bits cs \<longleftrightarrow> bs = cs"
  by (induction bs cs rule: list_induct2) (auto simp: byte_bits_inj)

lemma public4:
  assumes "addr_ok (Addr4 b)"
  shows "(loopback (Addr4 b) \<or> isPrivate (Addr4 b) \<or> linkLocalUnicast (Addr4 b) \<or> linkLocalMulticast (Addr4 b) \<or> multicast (Addr4 b)) =
    (\<exists>n \<in> set blocked_nets. ip_contains n (Some b))"
proof -
  obtain w x y z where b: "b = [w, x, y, z]" using assms by (auto simp: length_Suc_conv numeral_eq_Suc)
  with assms have lt: "w < 256" "x < 256" by simp_all
  have "To4 b = Some b" "To4 (replicate 15 0 @ [1]) = None" "To4 (252 # replicate 15 0) = None" "To4 (254 # 128 # replicate 14 0) = None"
    "To4 (255 # replicate 15 0) = None"
    by (simp_all add: b To4_def numeral_eq_Suc)
  then show ?thesis
    using lt take_byte_bits [OF lt(1), of 224 4] take_byte_bits [OF lt(2), of 16 4]
    by (auto simp: blocked_nets_def ip_contains_def b To4_def byte_bits_inj)
qed

lemma public6:
  assumes "addr_ok (Addr6 b z)" "take 12 b \<noteq> replicate 10 0 @ [255, 255]"
  shows "(loopback (Addr6 b z) \<or> isPrivate (Addr6 b z) \<or> linkLocalUnicast (Addr6 b z) \<or> linkLocalMulticast (Addr6 b z) \<or> multicast (Addr6 b z)) =
    (\<exists>n \<in> set blocked_nets. ip_contains n (Some b))"
proof -
  obtain w x rest where b: "b = w # x # rest" using assms by (cases b; cases "tl b") auto
  with assms have lt: "w < 256" "x < 256" by simp_all
  have t: "To4 b = None" using assms by (auto simp: To4_def)
  have n: "To4 (replicate 15 0 @ [1]) = None" "To4 (252 # replicate 15 0) = None" "To4 (254 # 128 # replicate 14 0) = None"
    "To4 (255 # replicate 15 0) = None" by (simp_all add: To4_def numeral_eq_Suc)
  have len: "length b = 16" "length (replicate 15 0 @ [1 :: nat]) = 16" "length (ip_bits b) = 128" "length (ip_bits (replicate 15 0 @ [1])) = 128"
    using assms(1) by (simp_all add: length_ip_bits)
  have m4: "\<not> ip_contains \<lparr>net_ip = c, net_bits = 32, net_ones = k\<rparr> (Some b)" if "length c = 4" for c k
  proof -
    have "To4 c = Some c" using that by (simp add: To4_def)
    then show ?thesis using len(1) that by (simp add: ip_contains_def t)
  qed
  have m6: "ip_contains \<lparr>net_ip = c, net_bits = 128, net_ones = k\<rparr> (Some b) = (take k (ip_bits b) = take k (ip_bits c))"
    if "To4 c = None" "length c = 16" for c k
    using len(1) that by (simp add: ip_contains_def t)
  have lo: "ip_contains \<lparr>net_ip = replicate 15 0 @ [1], net_bits = 128, net_ones = 128\<rparr> (Some b) = (b = replicate 15 0 @ [1])"
  proof -
    have "list_all (\<lambda>x. x < 256) (replicate 15 0 @ [1 :: nat])" by (simp add: list_all_iff)
    then have "(ip_bits b = ip_bits (replicate 15 0 @ [1])) = (b = replicate 15 0 @ [1])"
      using assms(1) len(1,2) by (intro ip_bits_inj) simp_all
    moreover have "take 128 (ip_bits b) = ip_bits b" "take 128 (ip_bits (replicate 15 0 @ [1])) = ip_bits (replicate 15 0 @ [1])"
      using len(3,4) by simp_all
    ultimately show ?thesis unfolding m6 [OF n(1) len(2)] by (simp only:)
  qed
  have fc: "ip_contains \<lparr>net_ip = 252 # replicate 15 0, net_bits = 128, net_ones = 7\<rparr> (Some b) = (w div 2 = 126)"
    using take_byte_bits [OF lt(1), of 252 7] by (subst m6 [OF n(2)]) (simp_all add: b)
  have fe: "ip_contains \<lparr>net_ip = 254 # 128 # replicate 14 0, net_bits = 128, net_ones = 10\<rparr> (Some b) = (w = 254 \<and> x div 64 = 2)"
    using take_byte_bits [OF lt(2), of 128 2] lt by (subst m6 [OF n(3)]) (simp_all add: b byte_bits_inj)
  have ff: "ip_contains \<lparr>net_ip = 255 # replicate 15 0, net_bits = 128, net_ones = 8\<rparr> (Some b) = (w = 255)"
    using lt by (subst m6 [OF n(4)]) (simp_all add: b byte_bits_inj)
  have "(\<exists>n \<in> set blocked_nets. ip_contains n (Some b)) = (b = replicate 15 0 @ [1] \<or> w div 2 = 126 \<or> (w = 254 \<and> x div 64 = 2) \<or> w = 255)"
    by (simp only: blocked_nets_def list.map prod.case set_append list.set Un_iff bex_Un bex_simps insert_iff empty_iff lo fc fe ff) (simp add: m4)
  then show ?thesis by (auto simp: b)
qed

text \<open>
  C32: What the fetcher may dial. For every address a resolver can return, \<open>publicAddress\<close> accepts it exactly
  when it is valid, is not one of the two unspecified addresses, and its shortest form lies in none of the
  loopback, private, link-local and multicast networks, so an IPv4 address is refused also when it is
  written as an IPv6 address; and \<open>DialContext\<close> connects only to such an address, the only one its
  host resolves to.
\<close>

theorem dial_public_only:
  assumes "addr_ok a"
  shows "(publicAddress a \<longleftrightarrow> a \<noteq> NoAddr \<and> \<not> unspecified a \<and> (\<forall>n \<in> set blocked_nets. \<not> ip_contains n (addr_bytes a))) \<and>
    (DialContext split resolver address = Inr (a, port) \<longleftrightarrow>
      (\<exists>host. split address = Some (host, port) \<and> resolver host = Some [a]) \<and> publicAddress a)"
proof -
  have "publicAddress a \<longleftrightarrow> a \<noteq> NoAddr \<and> \<not> unspecified a \<and> (\<forall>n \<in> set blocked_nets. \<not> ip_contains n (addr_bytes a))"
  proof (cases a)
    case (Addr4 b)
    show ?thesis using public4 [of b] assms unfolding Addr4 publicAddress_def Unmap.simps addr_bytes.simps by blast
  next
    case (Addr6 b z)
    show ?thesis
    proof (cases "take 12 b = replicate 10 0 @ [255, 255]")
      case True
      have ok: "addr_ok (Addr4 (drop 12 b))" using assms Addr6 by (auto simp: list_all_iff dest: in_set_dropD)
      have ipc: "ip_contains n (Some b) = ip_contains n (Some (drop 12 b))" for n
        using assms Addr6 True by (simp add: ip_contains_def To4_def)
      have um: "Unmap (Addr6 b z) = Addr4 (drop 12 b)" using True by simp
      show ?thesis using public4 [OF ok] unfolding Addr6 publicAddress_def addr_bytes.simps um ipc by blast
    next
      case False
      then have um: "Unmap (Addr6 b z) = Addr6 b z" by simp
      show ?thesis using public6 [OF assms [unfolded Addr6] False] unfolding Addr6 publicAddress_def addr_bytes.simps um by blast
    qed
  qed (simp add: publicAddress_def)
  moreover have "DialContext split resolver address = Inr (a, port) \<longleftrightarrow>
      (\<exists>host. split address = Some (host, port) \<and> resolver host = Some [a]) \<and> publicAddress a"
    by (auto simp: DialContext_def split: option.splits list.splits if_splits)
  ultimately show ?thesis by blast
qed

theorem dial_public_only_witness:
  "addr_ok (Addr4 [169, 254, 169, 254]) \<and> \<not> publicAddress (Addr4 [169, 254, 169, 254]) \<and>
   DialContext (\<lambda>_. Some (''h'', ''80'')) (\<lambda>_. Some [Addr4 [9, 9, 9, 9]]) ''h:80'' = Inr (Addr4 [9, 9, 9, 9], ''80'')"
  using dial_public_only [of "Addr4 [169, 254, 169, 254]"]
    dial_public_only [of "Addr4 [9, 9, 9, 9]" "\<lambda>_. Some (''h'', ''80'')" "\<lambda>_. Some [Addr4 [9, 9, 9, 9]]" "''h:80''" "''80''"]
  by (simp add: publicAddress_def unspecified_def) (metis nth_Cons_0 nth_replicate zero_less_numeral zero_neq_numeral)

text \<open>The IPv4-mapped form of the unspecified address is not recognised.\<close>

lemma mapped_unspecified_is_public: "publicAddress (Addr6 (replicate 10 0 @ [255, 255] @ replicate 4 0) [])"
  by (auto simp: publicAddress_def unspecified_def dest!: arg_cong [where f = set])

section \<open>Semantic matches\<close>

lemma Index_Some: "Index s p = Some i \<Longrightarrow> i + length p \<le> length s \<and> take (length p) (drop i s) = p"
proof (induction s arbitrary: i)
  case Nil
  then show ?case by (auto split: if_splits)
next
  case (Cons c s)
  show ?case
  proof (cases "HasPrefix (c # s) p")
    case True
    then have "take (length p) (c # s) = p" by (simp add: HasPrefix_def)
    moreover from this have "length p \<le> length (c # s)" by (metis length_take min.cobounded1)
    ultimately show ?thesis using Cons.prems True by simp
  next
    case False
    with Cons.prems obtain j where "Index s p = Some j" "i = Suc j" by (auto split: if_splits)
    with Cons.IH show ?thesis by simp
  qed
qed

lemma Join_prefix: "prefix (Join sep xs) (Join sep (xs @ ys))"
proof (induction sep xs rule: Join.induct)
  case (2 sep x)
  then show ?case by (cases ys) auto
qed auto

lemma stripped_prefix: "prefix (stripQuotedAndSignature env v) v"
proof -
  have "Split LF v = takeWhile (\<lambda>line. \<not> ends_body env line) (Split LF v) @ dropWhile (\<lambda>line. \<not> ends_body env line) (Split LF v)" by simp
  then have "prefix (Join [LF] (takeWhile (\<lambda>line. \<not> ends_body env line) (Split LF v))) (Join [LF] (Split LF v))" by (metis Join_prefix)
  then show ?thesis by (simp add: stripQuotedAndSignature_def Join_Split)
qed

lemma ToLower_take_drop: "ToLower (take n (drop i s)) = take n (drop i (ToLower s))" "length (ToLower s) = length s"
  by (simp_all add: ToLower_def take_map drop_map)

text \<open>An excerpt: a stretch of the text that spells a phrase, up to case.\<close>

definition quotes_phrase :: "string \<Rightarrow> string list \<Rightarrow> string \<Rightarrow> bool" where
  "quotes_phrase text phrases excerpt = (\<exists>phrase \<in> set phrases. \<exists>i \<le> length text.
     ToLower (take (length phrase) (drop i text)) = ToLower phrase \<and> excerpt = sanitizeExcerpt (take (length phrase) (drop i text)))"

lemma match_phrases_quotes:
  assumes "prefix body text" "lower = ToLower body" "\<forall>p \<in> set phrases. text_lower env p = ToLower p"
  shows "\<exists>m. match_phrases env text lower phrases = Inr m \<and> (\<forall>e. m = Some e \<longrightarrow> quotes_phrase text phrases e)"
  using assms(3)
proof (induction phrases)
  case (Cons p ps)
  show ?case
  proof (cases "Index lower (ToLower p)")
    case None
    with Cons show ?thesis by (fastforce simp: quotes_phrase_def)
  next
    case (Some i)
    obtain rest where tx: "text = body @ rest" using assms(1) by (auto simp: prefix_def)
    from Index_Some [OF Some] have i: "i + length p \<le> length body" "take (length p) (drop i (ToLower body)) = ToLower p"
      by (simp_all add: assms(2) ToLower_take_drop(2))
    have "ToLower (take (length p) (drop i text)) = ToLower p"
      using i by (simp add: tx ToLower_def take_map drop_map)
    moreover have "i \<le> length text" using i(1) by (simp add: tx)
    ultimately have "quotes_phrase text (p # ps) (sanitizeExcerpt (take (length p) (drop i text)))"
      unfolding quotes_phrase_def by (intro bexI [of _ p] exI [of _ i]) simp_all
    moreover have "match_phrases env text lower (p # ps) = Inr (Some (sanitizeExcerpt (take (length p) (drop i text))))"
      using Cons(2) Some i(1) by (simp add: tx)
    ultimately show ?thesis by (metis option.inject)
  qed
qed simp

lemma match_rules_quotes:
  assumes "prefix body text" "lower = ToLower body" "\<forall>r \<in> set rules. \<forall>p \<in> set (sr_Phrases r). text_lower env p = ToLower p"
  shows "\<exists>ms. match_rules env text lower partPath rules = Inr ms \<and> subseq (map sm_RuleID ms) (map sr_ID rules) \<and>
    (\<forall>m \<in> set ms. sm_Strength m = Weak \<and> sm_PartPath m = partPath \<and> (\<exists>r \<in> set rules. sr_ID r = sm_RuleID m \<and> quotes_phrase text (sr_Phrases r) (sm_Excerpt m)))"
  using assms(3)
proof (induction rules)
  case (Cons r rules)
  obtain m where m: "match_phrases env text lower (sr_Phrases r) = Inr m" "\<forall>e. m = Some e \<longrightarrow> quotes_phrase text (sr_Phrases r) e"
    using match_phrases_quotes [OF assms(1,2), of "sr_Phrases r" env] Cons.prems by auto
  obtain ms where ms: "match_rules env text lower partPath rules = Inr ms" "subseq (map sm_RuleID ms) (map sr_ID rules)"
    "\<forall>m \<in> set ms. sm_Strength m = Weak \<and> sm_PartPath m = partPath \<and> (\<exists>r \<in> set rules. sr_ID r = sm_RuleID m \<and> quotes_phrase text (sr_Phrases r) (sm_Excerpt m))"
    using Cons by auto
  show ?case using m ms by (cases m) (auto simp: bind_res_def)
qed simp

text \<open>
  Semantic matches quote the message and stay weak. When lower-casing acts on bytes, as it does on
  ASCII text, matching never fails, every match has the authority weak and the part it was asked for,
  the matched rules are a subsequence of the rules, and each excerpt is a stretch of the text that spells
  one of the phrases of its rule, up to case and to the replacement of control characters.
\<close>

theorem semantic_matches_quote:
  assumes "text_lower env (stripQuotedAndSignature env text) = ToLower (stripQuotedAndSignature env text)"
    and "\<forall>r \<in> set rules. \<forall>p \<in> set (sr_Phrases r). text_lower env p = ToLower p"
  shows "\<exists>ms. MatchSemanticRules env text partPath rules = Inr ms \<and> subseq (map sm_RuleID ms) (map sr_ID rules) \<and>
    (\<forall>m \<in> set ms. sm_Strength m = Weak \<and> sm_PartPath m = partPath \<and> (\<exists>r \<in> set rules. sr_ID r = sm_RuleID m \<and> quotes_phrase text (sr_Phrases r) (sm_Excerpt m)))"
proof (cases "length text > 1048576 \<or> partPath = []")
  case True
  then show ?thesis by (auto simp: MatchSemanticRules_def)
next
  case False
  then have "MatchSemanticRules env text partPath rules = match_rules env text (ToLower (stripQuotedAndSignature env text)) partPath rules"
    using assms(1) by (auto simp: MatchSemanticRules_def)
  with match_rules_quotes [OF stripped_prefix refl assms(2)] show ?thesis by simp
qed

definition example_content :: content_env where
  "example_content = \<lparr>observation_of = (\<lambda>_. None), parse_url = (\<lambda>_. None), print_url = (\<lambda>_ h. h), addr_text = (\<lambda>_. None), to_ascii_host = Some,
     to_unicode_host = Some, registrable = (\<lambda>_. None), uts39_Skeleton = (\<lambda>s. s), text_lower = ToLower, is_Latin = (\<lambda>_. True), is_Cyrillic = (\<lambda>_. False),
     is_Greek = (\<lambda>_. False), is_letter = (\<lambda>_. True)\<rparr>"

definition example_rules :: "semantic_rule list" where
  "example_rules = [\<lparr>sr_ID = ''gift'', sr_Phrases = [''gift card''], sr_Strength = Weak\<rparr>]"

theorem semantic_matches_quote_witness:
  "\<exists>ms. MatchSemanticRules example_content ''send Gift Card now'' ''1'' example_rules = Inr ms \<and> (\<forall>m \<in> set ms. sm_Strength m = Weak)"
  using semantic_matches_quote [of example_content "''send Gift Card now''" example_rules "''1''"]
  by (auto simp: example_content_def)

text \<open>
  A rune whose lower case is longer than itself moves the index beyond the end of the text: U+023A
  takes two bytes and its lower case U+2C65 three.
\<close>

lemma longer_lower_case_panics:
  "match_phrases (example_content\<lparr>text_lower := (\<lambda>s. if s = [CHR 0xC8, CHR 0xBA] @ ''x'' then [CHR 0xE2, CHR 0xB1, CHR 0xA5] @ ''x'' else s)\<rparr>)
     ([CHR 0xC8, CHR 0xBA] @ ''x'') ([CHR 0xE2, CHR 0xB1, CHR 0xA5] @ ''x'') [''x''] = Inl (Err ''slice bounds out of range'')"
  by (simp add: HasPrefix_def)

end
