(* ===== verification/Launch.thy ===== *)
theory Launch
  imports Dashboard Results_Http Content
begin

text \<open>
  What the servers of \<open>cmd/mailproof/main.go\<close> require before they serve: \<open>dashboardCommand\<close>, \<open>controlAPI\<close>,
  \<open>resultsAPI\<close> and \<open>admissionCommand\<close>. A command is a function of its parsed flags to an error or what it hands
  to the HTTP or policy server: the address to listen on, the service and its secrets. The file system is
  the permission bits and the contents of a path (\<open>None\<close> where the call fails); \<open>url.Parse\<close> is a parameter.
\<close>

section \<open>Files and addresses\<close>

record os_files =
  os_Perm :: "string \<Rightarrow> nat option"
  os_Read :: "string \<Rightarrow> string option"

text \<open>\<open>Mode().Perm() & 0o077\<close> of the nine permission bits: the lower six.\<close>

definition shared_mode :: "nat \<Rightarrow> bool" where
  "shared_mode perm = (perm mod 64 \<noteq> 0)"

record base_url =
  bu_Scheme :: string
  bu_Host :: string
  bu_Hostname :: string
  bu_User :: bool
  bu_Path :: string
  bu_RawQuery :: string
  bu_Fragment :: string

definition is_origin :: "base_url \<Rightarrow> bool" where
  "is_origin u = (bu_Scheme u \<noteq> [] \<and> bu_Host u \<noteq> [] \<and> \<not> bu_User u \<and> bu_Path u = [] \<and> bu_RawQuery u = [] \<and> bu_Fragment u = [])"

definition base_String :: "base_url \<Rightarrow> string" where
  "base_String u = bu_Scheme u @ ''://'' @ bu_Host u"

text \<open>\<open>net.IP.IsLoopback\<close>.\<close>

definition IsLoopback :: "ip \<Rightarrow> bool" where
  "IsLoopback a = (case To4 a of Some b \<Rightarrow> b ! 0 = 127 | None \<Rightarrow> a = replicate 15 0 @ [1])"

text \<open>\<open>net.SplitHostPort\<close>: the last colon separates the port; an IPv6 host stands in brackets.\<close>

definition split_last :: "char \<Rightarrow> string \<Rightarrow> (string \<times> string) option" where
  "split_last c s = (if c \<notin> set s then None
     else let tl = rev (takeWhile (\<lambda>x. x \<noteq> c) (rev s)) in Some (take (length s - length tl - 1) s, tl))"

definition SplitHostPort :: "string \<Rightarrow> (string \<times> string) option" where
  "SplitHostPort s = (case split_last (CHR '':'') s of
       None \<Rightarrow> None
     | Some (before, port) \<Rightarrow>
         if HasPrefix s ''['' then
           (case Cut (CHR '']'') (drop 1 s) of
              None \<Rightarrow> None
            | Some (host, rest) \<Rightarrow>
                if rest = CHR '':'' # port \<and> CHR ''['' \<notin> set (drop 1 s) \<and> CHR '']'' \<notin> set rest then Some (host, port) else None)
         else if CHR '':'' \<in> set before \<or> CHR ''['' \<in> set s \<or> CHR '']'' \<in> set s then None
         else Some (before, port))"

section \<open>The dashboard\<close>

definition dashboardLoopbackHost :: "string \<Rightarrow> bool" where
  "dashboardLoopbackHost host = (EqualFold host ''localhost'' \<or> (case ParseIP host of None \<Rightarrow> False | Some a \<Rightarrow> IsLoopback a))"

definition dashboardPublicOrigin :: "(string \<Rightarrow> base_url option) \<Rightarrow> string \<Rightarrow> base_url res" where
  "dashboardPublicOrigin parse o' = (case parse o' of
       None \<Rightarrow> Inl (Err ''dashboard public origin must be an allowed absolute origin'')
     | Some u \<Rightarrow>
         if \<not> is_origin u \<or> (bu_Scheme u \<noteq> ''https'' \<and> \<not> (bu_Scheme u = ''http'' \<and> dashboardLoopbackHost (bu_Hostname u)))
         then Inl (Err ''dashboard public origin must be an allowed absolute origin'') else Inr u)"

record dashboard_flags =
  fl_host :: string
  fl_port :: int
  fl_publicOrigin :: string
  fl_resultsURL :: string
  fl_resultsTokenFile :: string
  fl_sessionKeyFile :: string
  fl_controlURL :: string
  fl_controlTokenFile :: string

definition read_long :: "os_files \<Rightarrow> string \<Rightarrow> string \<Rightarrow> string res" where
  "read_long os path message = (case os_Read os path of
       None \<Rightarrow> Inl (Err message) | Some b \<Rightarrow> if length b < 32 then Inl (Err message) else Inr b)"

definition dashboard_control :: "os_files \<Rightarrow> (string \<Rightarrow> base_url option) \<Rightarrow> dashboard_flags \<Rightarrow> client res" where
  "dashboard_control os parse f =
     (if (fl_controlURL f = []) \<noteq> (fl_controlTokenFile f = []) then Inl (Err ''dashboard control URL and token must be configured together'')
      else if fl_controlURL f = [] then Inr \<lparr>cl_BaseURL = None, cl_Token = []\<rparr>
      else case parse (fl_controlURL f) of
          None \<Rightarrow> Inl (Err ''dashboard control URL must be an origin'')
        | Some u \<Rightarrow>
            if \<not> is_origin u then Inl (Err ''dashboard control URL must be an origin'')
            else bind_res (read_long os (fl_controlTokenFile f) ''dashboard control token must contain at least 32 bytes'') (\<lambda>t.
              Inr \<lparr>cl_BaseURL = Some (base_String u), cl_Token = utf8_TrimSpace t\<rparr>))"

record dashboard_server =
  dserve_Addr :: string
  dserve_Results :: client
  dserve_Config :: config

definition dashboardCommand :: "os_files \<Rightarrow> (string \<Rightarrow> base_url option) \<Rightarrow> dashboard_flags \<Rightarrow> dashboard_server res" where
  "dashboardCommand os parse f =
     (if fl_port f < 1 \<or> fl_port f > 65535 \<or> fl_resultsURL f = [] \<or> fl_resultsTokenFile f = [] \<or> fl_sessionKeyFile f = []
      then Inl (Err ''dashboard requires valid --host, --port, --results-url, --results-token-file, and --session-key-file'')
      else case parse (fl_resultsURL f) of
          None \<Rightarrow> Inl (Err ''dashboard results URL must be an origin'')
        | Some base \<Rightarrow>
            if \<not> is_origin base then Inl (Err ''dashboard results URL must be an origin'')
            else let o' = (if fl_publicOrigin f = [] then ''http://localhost:'' @ show_int (fl_port f) else fl_publicOrigin f) in
              bind_res (dashboardPublicOrigin parse o') (\<lambda>browser.
              if \<not> dashboardLoopbackHost (fl_host f) \<and> fl_publicOrigin f = []
              then Inl (Err ''dashboard non-loopback bind requires --public-origin'')
              else bind_res (read_long os (fl_resultsTokenFile f) ''dashboard results token must contain at least 32 bytes'') (\<lambda>token.
              bind_res (read_long os (fl_sessionKeyFile f) ''dashboard session key must contain at least 32 bytes'') (\<lambda>key.
              bind_res (dashboard_control os parse f) (\<lambda>control.
              Inr \<lparr>dserve_Addr = JoinHostPort (fl_host f) (show_int (fl_port f)),
                dserve_Results = \<lparr>cl_BaseURL = Some (base_String base), cl_Token = utf8_TrimSpace token\<rparr>,
                dserve_Config = \<lparr>cg_PublicOrigin = Some \<lparr>og_Scheme = bu_Scheme browser, og_Host = bu_Host browser\<rparr>, cg_SessionKey = key,
                  cg_Control = control\<rparr>\<rparr>)))))"

section \<open>The internal APIs\<close>

definition readKey :: "os_files \<Rightarrow> string \<Rightarrow> string \<Rightarrow> string res" where
  "readKey os path name = (case os_Perm os path of
       None \<Rightarrow> Inl (Err (''stat '' @ name))
     | Some perm \<Rightarrow>
         if shared_mode perm then Inl (Err (name @ '' must not be group or world readable''))
         else (case os_Read os path of
             None \<Rightarrow> Inl (Err (''read '' @ name))
           | Some raw \<Rightarrow> let b = utf8_TrimSpace raw in
               if length b < 32 then Inl (Err (name @ '' is too short'')) else Inr b))"

definition controlListenAddress :: "string \<Rightarrow> unit res" where
  "controlListenAddress address = (case SplitHostPort address of
       None \<Rightarrow> Inl (Err ''control API listen address must have a valid host and port'')
     | Some (host, port) \<Rightarrow>
         if port = [] then Inl (Err ''control API listen address must have a valid host and port'')
         else (case ParseInt port of
             None \<Rightarrow> Inl (Err ''control API listen address has an invalid port'')
           | Some n \<Rightarrow>
               if n < 1 \<or> n > 65535 then Inl (Err ''control API listen address has an invalid port'')
               else if host = [] then Inr ()
               else case ParseIP host of
                   None \<Rightarrow> Inl (Err ''control API must bind to a loopback address or container-local wildcard'')
                 | Some a \<Rightarrow> if IsLoopback a then Inr ()
                     else Inl (Err ''control API must bind to a loopback address or container-local wildcard'')))"

record control_flags =
  cf_listen :: string
  cf_tokenFile :: string
  cf_confirmationFile :: string
  cf_capabilityFile :: string

definition controlAPI :: "os_files \<Rightarrow> control_flags \<Rightarrow> (string \<times> ctl_service \<times> string) res" where
  "controlAPI os f =
     bind_res (controlListenAddress (cf_listen f)) (\<lambda>_.
     bind_res (readKey os (cf_tokenFile f) ''control API token'') (\<lambda>token.
     bind_res (readKey os (cf_confirmationFile f) ''confirmation HMAC key'') (\<lambda>confirmation.
     bind_res (readKey os (cf_capabilityFile f) ''capability HMAC key'') (\<lambda>capability.
     Inr (cf_listen f, \<lparr>ConfirmationKey = confirmation, ctl_CapabilityKey = capability, CapabilityDomain = ''mailproof.test''\<rparr>, token)))))"

text \<open>The token is also the key of the page cursors. The clock, JSON and the extractor are parameters.\<close>

definition resultsAPI :: "os_files \<Rightarrow> string \<Rightarrow> time \<Rightarrow> (string \<Rightarrow> cursor option) \<Rightarrow> crypto \<Rightarrow> json_extractor \<Rightarrow> api res" where
  "resultsAPI os tokenPath now cursor cr ext = (case os_Perm os tokenPath of
       None \<Rightarrow> Inl (Err ''stat API token'')
     | Some perm \<Rightarrow>
         if shared_mode perm then Inl (Err ''API token file must not be group or world readable'')
         else (case os_Read os tokenPath of
             None \<Rightarrow> Inl (Err ''read API token'')
           | Some raw \<Rightarrow> let token = utf8_TrimSpace raw in
               if length token < 32 then Inl (Err ''API token is too short'')
               else Inr \<lparr>api_Repository = \<lparr>CursorKey = token, repo_Now = now, cursor_of = cursor, repo_crypto = cr\<rparr>,
                 api_Dashboard = Some (ext, now), api_Token = token\<rparr>))"

record admission_flags =
  af_capabilityKey :: string
  af_stampKey :: string
  af_domain :: string

text \<open>The service and the policy snapshot it starts with.\<close>

definition admissionCommand :: "os_files \<Rightarrow> admission_flags \<Rightarrow> db \<Rightarrow> (adm_service \<times> policy_snapshot option) res" where
  "admissionCommand os f s = (case os_Read os (af_capabilityKey f) of
       None \<Rightarrow> Inl (Err ''read capability HMAC key'')
     | Some cap \<Rightarrow> (case os_Read os (af_stampKey f) of
         None \<Rightarrow> Inl (Err ''read admission stamp HMAC key'')
       | Some stamp \<Rightarrow> (case Refresh s None of
           (Inl _, _) \<Rightarrow> Inl (Err ''load admission policy snapshot'')
         | (Inr _, store) \<Rightarrow> Inr (\<lparr>adm_CapabilityKey = cap, StampKey = stamp, adm_Domain = af_domain f\<rparr>, store))))"

section \<open>Who can reach the control API\<close>

lemma readKey_Inr:
  assumes "readKey os path name = Inr k"
  obtains perm raw where "os_Perm os path = Some perm" "\<not> shared_mode perm" "os_Read os path = Some raw" "k = utf8_TrimSpace raw" "32 \<le> length k"
  using assms by (auto simp: readKey_def Let_def split: option.splits if_splits)

lemma controlListenAddress_Inr:
  assumes "controlListenAddress address = Inr u"
  obtains host port n where "SplitHostPort address = Some (host, port)" "ParseInt port = Some n" "1 \<le> n" "n \<le> 65535"
    "host = [] \<or> (\<exists>a. ParseIP host = Some a \<and> IsLoopback a)"
  using assms by (auto simp: controlListenAddress_def split: option.splits if_splits)

lemma controlAPI_Inr:
  assumes "controlAPI os f = Inr (addr, svc, token)"
  shows "controlListenAddress addr = Inr ()" "addr = cf_listen f" "CapabilityDomain svc = ''mailproof.test''"
    "readKey os (cf_tokenFile f) ''control API token'' = Inr token"
    "readKey os (cf_confirmationFile f) ''confirmation HMAC key'' = Inr (ConfirmationKey svc)"
    "readKey os (cf_capabilityFile f) ''capability HMAC key'' = Inr (ctl_CapabilityKey svc)"
  using assms by (auto simp: controlAPI_def bind_res_Inr_iff)

text \<open>
  C25: A control API that starts is closed. It listens on the wildcard or on a loopback address, on a port
  from 1 to 65535; its token and both keys come from files only their owner can read and have at least 32
  bytes; and, as long as the digest separates tokens, a request for anything but the health check
  passes exactly when it presents that token.
\<close>

theorem control_api_closed:
  assumes "controlAPI os f = Inr (addr, svc, token)" and "path \<noteq> ''/healthz''"
    and "sha256 cr token = sha256 cr (TrimPrefix authorization ''Bearer '') \<Longrightarrow> TrimPrefix authorization ''Bearer '' = token"
  shows "(\<exists>host port n. SplitHostPort addr = Some (host, port) \<and> ParseInt port = Some n \<and> 1 \<le> n \<and> n \<le> 65535 \<and>
      (host = [] \<or> (\<exists>a. ParseIP host = Some a \<and> IsLoopback a))) \<and>
    (\<forall>p \<in> {cf_tokenFile f, cf_confirmationFile f, cf_capabilityFile f}. \<exists>perm. os_Perm os p = Some perm \<and> \<not> shared_mode perm) \<and>
    32 \<le> length (ConfirmationKey svc) \<and> 32 \<le> length (ctl_CapabilityKey svc) \<and>
    (ctl_auth cr token path authorization \<longleftrightarrow> authorization = ''Bearer '' @ token)"
proof -
  note c = controlAPI_Inr [OF assms(1)]
  have "\<exists>host port n. SplitHostPort addr = Some (host, port) \<and> ParseInt port = Some n \<and> 1 \<le> n \<and> n \<le> 65535 \<and>
      (host = [] \<or> (\<exists>a. ParseIP host = Some a \<and> IsLoopback a))"
    using controlListenAddress_Inr [OF c(1)] by metis
  moreover have "\<exists>perm. os_Perm os p = Some perm \<and> \<not> shared_mode perm" if "readKey os p name = Inr k" for p name k
    using readKey_Inr [OF that] by metis
  moreover have "32 \<le> length k" if "readKey os p name = Inr k" for p name k
    using readKey_Inr [OF that] by metis
  ultimately show ?thesis
    using c(4-6) control_gate.only_the_token [OF assms(2,3)] by (metis insert_iff singletonD)
qed

definition example_os :: os_files where
  "example_os = \<lparr>os_Perm = (\<lambda>_. Some 384), os_Read = (\<lambda>_. Some (replicate 32 (CHR ''k'')))\<rparr>"

definition example_control :: control_flags where
  "example_control = \<lparr>cf_listen = ''127.0.0.1:8081'', cf_tokenFile = ''t'', cf_confirmationFile = ''c'', cf_capabilityFile = ''k''\<rparr>"

lemma example_key_untrimmed: "utf8_TrimSpace (replicate 32 (CHR ''k'')) = replicate 32 (CHR ''k'')"
  by (rule TrimSpace_visible) (simp_all add: visible_char_def)

lemma example_control_starts: "controlAPI example_os example_control = Inr (''127.0.0.1:8081'',
    \<lparr>ConfirmationKey = replicate 32 (CHR ''k''), ctl_CapabilityKey = replicate 32 (CHR ''k''), CapabilityDomain = ''mailproof.test''\<rparr>, replicate 32 (CHR ''k''))"
proof -
  have "controlListenAddress ''127.0.0.1:8081'' = Inr ()" by code_simp
  then show ?thesis
    by (simp add: controlAPI_def example_control_def readKey_def example_os_def shared_mode_def example_key_untrimmed Let_def)
qed

theorem control_api_closed_witness:
  "\<exists>addr svc token. controlAPI example_os example_control = Inr (addr, svc, token) \<and>
     \<not> ctl_auth \<lparr>sha256 = (\<lambda>s. s), hmac = (\<lambda>k s. s)\<rparr> token ''/v1/control/policy'' ''Bearer guess''"
proof -
  have "\<not> ctl_auth \<lparr>sha256 = (\<lambda>s. s), hmac = (\<lambda>k s. s)\<rparr> (replicate 32 (CHR ''k'')) ''/v1/control/policy'' ''Bearer guess''"
    using control_api_closed [OF example_control_starts, of "''/v1/control/policy''" "\<lparr>sha256 = (\<lambda>s. s), hmac = (\<lambda>k s. s)\<rparr>" "''Bearer guess''"]
    by (simp add: numeral_eq_Suc)
  with example_control_starts show ?thesis by blast
qed

section \<open>Binary keys lose their white space\<close>

text \<open>
  C30: A key of 32 random bytes may stop the control API. When a 32-byte key begins or ends with white space,
  \<open>readKey\<close> trims it and then refuses it as too short, while the admission server takes the same file as it is.
\<close>

theorem binary_key_refused:
  assumes "os_Read os path = Some key" "length key = 32" "w \<in> set space_texts" "HasPrefix key w \<or> HasSuffix key w"
    and "os_Perm os path = Some perm" "\<not> shared_mode perm"
  shows "readKey os path name = Inl (Err (name @ '' is too short'')) \<and>
    (\<forall>f s svc store. af_capabilityKey f = path \<longrightarrow> admissionCommand os f s = Inr (svc, store) \<longrightarrow> adm_CapabilityKey svc = key)"
proof
  have "length (utf8_TrimSpace key) < 32" using TrimSpace_shorter [OF assms(3,4)] assms(2) by simp
  then show "readKey os path name = Inl (Err (name @ '' is too short''))" using assms by (simp add: readKey_def)
  show "\<forall>f s svc store. af_capabilityKey f = path \<longrightarrow> admissionCommand os f s = Inr (svc, store) \<longrightarrow> adm_CapabilityKey svc = key"
    using assms(1) by (auto simp: admissionCommand_def split: option.splits prod.splits sum.splits)
qed

definition newline_os :: os_files where
  "newline_os = \<lparr>os_Perm = (\<lambda>_. Some 384), os_Read = (\<lambda>_. Some (CHR 0x0A # replicate 31 (CHR ''k'')))\<rparr>"

theorem binary_key_refused_witness:
  "readKey newline_os ''k'' ''capability HMAC key'' = Inl (Err ''capability HMAC key is too short'')"
  using binary_key_refused [of newline_os "''k''" "CHR 0x0A # replicate 31 (CHR ''k'')" "[CHR 0x0A]" 384 "''capability HMAC key''"] newline_is_space
  by (simp add: newline_os_def HasPrefix_def shared_mode_def)

section \<open>The domain of a rotated address\<close>

text \<open>The control API issues addresses in one domain whatever domain the admission server was started for.\<close>

lemma rotated_address_refused:
  assumes "controlAPI os f = Inr (addr, svc, token)" "\<not> EqualFold ''mailproof.test'' domain"
  shows "capability_of (''verify+'' @ cap @ ''@'' @ CapabilityDomain svc) domain = Inl ErrMalformed"
proof (cases "CHR ''@'' \<in> set cap")
  case True
  then have "0 < count_list cap (CHR ''@'')" by (meson count_list_0_iff gr0I)
  then show ?thesis by (simp add: capability_of_def)
next
  case False
  have "Cut (CHR ''@'') (x @ CHR ''@'' # y) = Some (x, y)" if "CHR ''@'' \<notin> set x" for x y using that by (induction x) auto
  from this [of "''verify+'' @ cap"] False show ?thesis using assms(2) controlAPI_Inr(3) [OF assms(1)] by (simp add: capability_of_def)
qed

section \<open>Where the dashboard may be reached from\<close>

text \<open>
  The dashboard is reachable from beyond the machine only when the operator said under which origin.
  A dashboard that starts has a session key of at least 32 bytes and a browser origin that is HTTPS, or HTTP on a
  loopback host; when it binds to an address that is not loopback, the origin was given explicitly.
\<close>

theorem dashboard_exposure:
  assumes "dashboardCommand os parse f = Inr d"
  shows "32 \<le> length (cg_SessionKey (dserve_Config d)) \<and> (dashboardLoopbackHost (fl_host f) \<or> fl_publicOrigin f \<noteq> []) \<and>
    (\<exists>u. parse (if fl_publicOrigin f = [] then ''http://localhost:'' @ show_int (fl_port f) else fl_publicOrigin f) = Some u \<and>
       cg_PublicOrigin (dserve_Config d) = Some \<lparr>og_Scheme = bu_Scheme u, og_Host = bu_Host u\<rparr> \<and> is_origin u \<and>
       (bu_Scheme u = ''https'' \<or> bu_Scheme u = ''http'' \<and> dashboardLoopbackHost (bu_Hostname u)))"
  using assms
  by (auto simp: dashboardCommand_def Let_def bind_res_Inr_iff dashboardPublicOrigin_def read_long_def
      split: option.splits if_splits)

end
