(* ===== verification/Policy_Server.thy ===== *)
theory Policy_Server
  imports Launch
begin

text \<open>
  The admission server as a concurrent system: \<open>Serve\<close> of \<open>internal/admission/server.go\<close> with its semaphore of
  connections, the handlers it starts, and \<open>SnapshotStore.Poll\<close>, which replaces the policy snapshot behind them. The steps are what
  each goroutine does between two points where the others can act: a connection is accepted or turned away, a handler
  reads its request, decides on the snapshot of that moment and replies, the poller refreshes, another process
  writes the database.
\<close>

section \<open>The server\<close>

record policy_server =
  ps_inflight :: nat
  ps_store :: "policy_snapshot option"
  ps_db :: db
  ps_replies :: "string list"

definition Serve_start :: "int \<Rightarrow> nat res" where
  "Serve_start maxConnections = (if maxConnections < 1 then Inl (Err ''admission max connections must be positive'') else Inr (nat maxConnections))"

definition busy_reply :: string where
  "busy_reply = ''action=DEFER_IF_PERMIT 450 4.7.1 admission service busy'' @ newline @ newline"

inductive serve_step :: "crypto \<Rightarrow> to_ascii \<Rightarrow> spf_check \<Rightarrow> adm_service \<Rightarrow> nat \<Rightarrow> policy_server \<Rightarrow> policy_server \<Rightarrow> bool"
  for cr ta spf svc n where
  accept: "ps_inflight p < n \<Longrightarrow> serve_step cr ta spf svc n p (p\<lparr>ps_inflight := ps_inflight p + 1\<rparr>)"
| busy: "\<not> ps_inflight p < n \<Longrightarrow> serve_step cr ta spf svc n p (p\<lparr>ps_replies := ps_replies p @ [busy_reply]\<rparr>)"
| finish: "0 < ps_inflight p \<Longrightarrow> handle cr ta spf svc (ps_store p) id_bytes now eof input (ps_db p) = (reply, s) \<Longrightarrow>
    serve_step cr ta spf svc n p (p\<lparr>ps_inflight := ps_inflight p - 1, ps_db := s, ps_replies := ps_replies p @ [reply]\<rparr>)"
| poll: "serve_step cr ta spf svc n p (p\<lparr>ps_store := snd (Refresh (ps_db p) (ps_store p))\<rparr>)"
| other: "serve_step cr ta spf svc n p (p\<lparr>ps_db := s\<rparr>)"

inductive_cases serve_stepE: "serve_step cr ta spf svc n p q"

text \<open>The server starts from what \<open>admissionCommand\<close> hands over.\<close>

definition serve_init :: "os_files \<Rightarrow> admission_flags \<Rightarrow> adm_service \<Rightarrow> policy_server \<Rightarrow> bool" where
  "serve_init os f svc p = (admissionCommand os f (ps_db p) = Inr (svc, ps_store p) \<and> ps_inflight p = 0 \<and> ps_replies p = [])"

section \<open>Replies\<close>

definition fixed_replies :: "string set" where
  "fixed_replies = {busy_reply, respond ''action=DEFER_IF_PERMIT 450 4.7.1 malformed policy request'',
     respond ''action=REJECT 550 5.7.1 invalid submission identity'', respond ''action=DEFER_IF_PERMIT 450 4.7.1 admission temporarily unavailable'',
     respond ''action=REJECT 550 5.7.1 submission rejected''}"

definition stamp_char :: "char \<Rightarrow> bool" where
  "stamp_char c = (is_b64_char c \<or> c = CHR ''.'')"

definition good_reply :: "string \<Rightarrow> bool" where
  "good_reply r = (r \<in> fixed_replies \<or> (\<exists>stamp. r = respond (''action=PREPEND X-Mailproof-Admission: '' @ stamp) \<and> list_all stamp_char stamp))"

lemma stamp_safe_chars: "list_all stamp_char (stamp_of cr svc d r)"
  by (auto simp: stamp_of_def stamp_char_def list_all_iff dest: b64c.enc_alphabet [OF TrueI])

lemma admitted_stamp: "\<exists>e. dec_Stamp (admitted_decision cr svc r sid envelope policy id_bytes now) = stamp_of cr svc e r"
  by (simp add: admitted_decision_def Let_def) blast

lemma handle_reply:
  assumes "handle cr ta spf svc snap id_bytes now eof input s = (reply, s')"
  shows "good_reply reply"
proof (cases "read_request (eof \<or> length input > 16384) [] (take 16385 input)")
  case None
  with assms show ?thesis by (auto simp: handle_def good_reply_def fixed_replies_def)
next
  case (Some raw)
  show ?thesis
  proof (cases "ParseRequest raw")
    case (Inl e)
    with assms Some show ?thesis by (auto simp: handle_def good_reply_def fixed_replies_def)
  next
    case (Inr r)
    obtain res t where a: "Admit cr ta spf svc snap id_bytes now r s = (res, t)" by (cases "Admit cr ta spf svc snap id_bytes now r s")
    show ?thesis
    proof (cases res)
      case (Admitted d)
      with a have "Admit cr ta spf svc snap id_bytes now r s = (Admitted d, t)" by simp
      then obtain e where "dec_Stamp d = stamp_of cr svc e r" by (rule Admit_admitted) (use admitted_stamp in metis)
      with assms Some Inr a Admitted stamp_safe_chars show ?thesis by (auto simp: handle_def good_reply_def)
    qed (use assms Some Inr a in \<open>auto simp: handle_def good_reply_def fixed_replies_def\<close>)
  qed
qed

section \<open>The invariant\<close>

definition serve_ok :: "nat \<Rightarrow> policy_server \<Rightarrow> bool" where
  "serve_ok n p = (ps_inflight p \<le> n \<and> (\<exists>s q. ps_store p = Some q \<and> LoadPolicySnapshot s = Inr q) \<and> list_all good_reply (ps_replies p))"

lemma busy_good: "good_reply busy_reply"
  by (simp add: good_reply_def fixed_replies_def)

lemma serve_ok_step: "serve_ok n p \<Longrightarrow> serve_step cr ta spf svc n p q \<Longrightarrow> serve_ok n q"
  by (erule serve_stepE)
    (auto simp: serve_ok_def busy_good Refresh_def dest: handle_reply split: sum.splits)

lemma serve_init_ok: "serve_init os f svc p \<Longrightarrow> serve_ok n p"
proof -
  assume i: "serve_init os f svc p"
  then obtain q where "LoadPolicySnapshot (ps_db p) = Inr q" "ps_store p = Some q"
    by (auto simp: serve_init_def admissionCommand_def Refresh_def split: option.splits sum.splits)
  with i show ?thesis by (auto simp: serve_init_def serve_ok_def)
qed

interpretation server_system: invariant_system "serve_init os f svc" "serve_step cr ta spf svc n" "serve_ok n"
proof
  show "serve_init os f svc p \<Longrightarrow> serve_ok n p" for p
    by (rule serve_init_ok)
qed (rule serve_ok_step)

text \<open>
  C14: The policy server keeps its limit and its protocol. In every interleaving of connections, handlers,
  refreshes and writes by other processes, no more connections are served at once than the limit, decisions rest on a snapshot
  that was loaded as a whole from one state of the database, and every reply is one of five fixed refusals or the prepending of a header whose value
  consists of base64 characters and dots; so whatever a client sends, a reply is a single action line and a blank line.
\<close>

theorem policy_server_protocol:
  assumes "reach (serve_init os f svc) (serve_step cr ta spf svc n) p"
  shows "ps_inflight p \<le> n \<and> (\<exists>s q. ps_store p = Some q \<and> LoadPolicySnapshot s = Inr q) \<and>
    (\<forall>reply \<in> set (ps_replies p). good_reply reply \<and> (\<exists>action. reply = action @ newline @ newline \<and> LF \<notin> set action \<and> HasPrefix action ''action=''))"
proof -
  have line: "\<exists>action. reply = action @ newline @ newline \<and> LF \<notin> set action \<and> HasPrefix action ''action=''" if "good_reply reply" for reply
    using that unfolding good_reply_def
  proof
    assume "reply \<in> fixed_replies"
    then show ?thesis by (auto simp: fixed_replies_def busy_reply_def respond_def HasPrefix_def LF_def)
  next
    assume "\<exists>stamp. reply = respond (''action=PREPEND X-Mailproof-Admission: '' @ stamp) \<and> list_all stamp_char stamp"
    then obtain stamp where s: "reply = respond (''action=PREPEND X-Mailproof-Admission: '' @ stamp)" "list_all stamp_char stamp" by blast
    have "\<not> stamp_char LF" by (simp add: stamp_char_def is_b64_char_def b64_value_def LF_def Let_def)
    with s(2) have "LF \<notin> set stamp" by (auto simp: list_all_iff)
    then show ?thesis using s(1) by (intro exI [of _ "''action=PREPEND X-Mailproof-Admission: '' @ stamp"]) (simp add: respond_def HasPrefix_def LF_def)
  qed
  from server_system.reach_inv [OF assms] show ?thesis by (auto simp: serve_ok_def list_all_iff intro: line)
qed

definition example_admission :: admission_flags where
  "example_admission = \<lparr>af_capabilityKey = ''c'', af_stampKey = ''s'', af_domain = ''mailproof.test''\<rparr>"

definition example_admission_service :: adm_service where
  "example_admission_service = \<lparr>adm_CapabilityKey = replicate 32 (CHR ''k''), StampKey = replicate 32 (CHR ''k''), adm_Domain = ''mailproof.test''\<rparr>"

theorem policy_server_protocol_witness:
  "\<exists>p. reach (serve_init example_os example_admission example_admission_service)
       (serve_step example_mac Some (\<lambda>_ _ _. Inl NoRows) example_admission_service 1) p \<and> ps_replies p = [busy_reply] \<and> ps_inflight p \<le> 1"
proof -
  let ?init = "serve_init example_os example_admission example_admission_service"
  let ?step = "serve_step example_mac Some (\<lambda>_ _ _. Inl NoRows) example_admission_service 1"
  let ?p = "\<lparr>ps_inflight = 0, ps_store = Some example_snapshot, ps_db = example_adm_db, ps_replies = []\<rparr>"
  have r0: "reach ?init ?step ?p"
    by (rule reach_init) (simp add: serve_init_def admissionCommand_def example_os_def example_admission_def example_admission_service_def Refresh_def example_loads)
  have "?step ?p (?p\<lparr>ps_inflight := ps_inflight ?p + 1\<rparr>)" by (rule accept) simp
  note r1 = reach_step [where step = ?step, OF r0 this]
  let ?q = "?p\<lparr>ps_inflight := ps_inflight ?p + 1\<rparr>"
  have "?step ?q (?q\<lparr>ps_replies := ps_replies ?q @ [busy_reply]\<rparr>)" by (rule busy) simp
  note r2 = reach_step [where step = ?step, OF r1 this]
  show ?thesis
    using policy_server_protocol [OF r2] r2
    by (intro exI [of _ "?q\<lparr>ps_replies := ps_replies ?q @ [busy_reply]\<rparr>"] conjI) simp_all
qed

end
