(* ===== verification/Analysis.thy ===== *)
theory Analysis
  imports Collector Queue
begin

text \<open>
  The analysis of a queued run: the Rspamd adapter (\<open>internal/analyzers/rspamd.go\<close>), \<open>analyzeRun\<close> and one
  round of the \<open>worker\<close> loop (\<open>cmd/mailproof/main.go\<close>). The scanner is a parameter: the function
  from a request to \<open>None\<close> (it could not be made or the exchange failed) or the status and the body (\<open>None\<close> when reading it
  failed); so are the texts and the decoding of JSON. A decoded symbol table is an association list
  with the options of each symbol; the scores are carried as text.
\<close>

section \<open>The scan request\<close>

record scan_request =
  sc_Scope :: string
  sc_Message :: string
  sc_PeerIP :: string
  sc_HELO :: string
  sc_EnvelopeFrom :: string
  sc_SubjectDigest :: string
  sc_ConfigDigest :: string
  sc_AdapterVersion :: string

definition scan_Validate :: "scan_request \<Rightarrow> unit res" where
  "scan_Validate r =
     (if sc_Message r = [] \<or> sc_SubjectDigest r = [] \<or> sc_ConfigDigest r = []
      then Inl (Err ''rspamd request requires message, subject digest, and config digest'')
      else if sc_Scope r \<noteq> LocalIngress \<and> sc_Scope r \<noteq> Detached then Inl (Err ''invalid authentication scope'')
      else if sc_Scope r = Detached \<and> (sc_PeerIP r \<noteq> [] \<or> sc_HELO r \<noteq> [] \<or> sc_EnvelopeFrom r \<noteq> [])
      then Inl (Err ''detached subjects must not supply SMTP metadata'')
      else Inr ())"

record scan_client =
  sn_Endpoint :: string
  sn_MaxBytes :: int

definition scan_headers :: "scan_request \<Rightarrow> (string \<times> string) list" where
  "scan_headers r = [(''Content-Type'', ''message/rfc822''), (''Queue-Id'', sc_SubjectDigest r)] @
     (if sc_Scope r = LocalIngress then [(''IP'', sc_PeerIP r), (''Helo'', sc_HELO r), (''From'', sc_EnvelopeFrom r)] else [])"

section \<open>The scan response\<close>

record scan_response =
  sr_Action :: string
  sr_Score :: string
  sr_Symbols :: "(string \<times> string list) list option"

record capability_report =
  cap_Name :: string
  cap_Status :: string
  cap_Hits :: "string list"
  cap_Fails :: "string list"

record normalized =
  nr_RawResponse :: string
  nr_ResponseDigest :: string
  nr_Action :: string
  nr_Score :: string
  nr_Symbols :: "string list"
  nr_Projections :: "(string \<times> string) list"
  nr_Capabilities :: "capability_report list"
  nr_SPFNotApplicable :: bool
  nr_UntrustedReplayAR :: bool

record scan_env =
  response_of :: "string \<Rightarrow> scan_response option"
  raw_message :: "string \<Rightarrow> string option"
  marker_of :: "string \<Rightarrow> (int \<times> bool) option"
  capability_json :: "capability_report \<Rightarrow> string"

abbreviation rspamdProjection :: string where "rspamdProjection \<equiv> ''MAILPROOF_PROJECTION''"
abbreviation rspamdProjectionMarker :: string where "rspamdProjectionMarker \<equiv> ''MAILPROOF_PROJECTION_COMPLETE''"

definition maxProjectionRecords :: nat where "maxProjectionRecords = 1000"
definition maxProjectionBytes :: nat where "maxProjectionBytes = 4096"

type_synonym scan_state = "nat \<times> (string \<times> string) list"

definition scan_option :: "scan_env \<Rightarrow> string \<Rightarrow> string \<Rightarrow> scan_state \<Rightarrow> scan_state res" where
  "scan_option env symbol opt st =
     (if length opt > maxProjectionBytes then Inl (Err (symbol @ '' option exceeds bound''))
      else case raw_message env opt of
          None \<Rightarrow> Inl (Err (''decode '' @ symbol @ '' option''))
        | Some v \<Rightarrow>
            if symbol = rspamdProjectionMarker then
              (if marker_of env v = Some (1, True) then Inr (fst st + 1, snd st) else Inl (Err ''invalid projection completion marker''))
            else if length (snd st) + 1 > maxProjectionRecords then Inl (Err ''too many projection records'')
            else Inr (fst st, snd st @ [(symbol, v)]))"

fun scan_options :: "scan_env \<Rightarrow> string \<Rightarrow> string list \<Rightarrow> scan_state \<Rightarrow> scan_state res" where
  "scan_options env symbol [] st = Inr st"
| "scan_options env symbol (opt # opts) st = bind_res (scan_option env symbol opt st) (scan_options env symbol opts)"

fun scan_symbols :: "scan_env \<Rightarrow> (string \<times> string list) list \<Rightarrow> string list \<Rightarrow> scan_state \<Rightarrow> scan_state res" where
  "scan_symbols env table [] st = Inr st"
| "scan_symbols env table (symbol # symbols) st =
     (if symbol \<noteq> rspamdProjection \<and> symbol \<noteq> rspamdProjectionMarker then scan_symbols env table symbols st
      else bind_res (scan_options env symbol (the (map_of table symbol)) st) (scan_symbols env table symbols))"

definition capability_of_contract :: "string set \<Rightarrow> bool \<Rightarrow> string \<times> string \<times> string \<Rightarrow> capability_report" where
  "capability_of_contract symbols complete = (\<lambda>(name, hit, failed).
     let hits = (if hit \<in> symbols then [hit] else []); fails = (if failed \<in> symbols then [failed] else []) in
     \<lparr>cap_Name = name,
      cap_Status = (if complete \<and> hits = [] \<and> fails = [] then CleanConfirmed else if fails \<noteq> [] then Failed else if hits \<noteq> [] then Observed else Unknown),
      cap_Hits = hits, cap_Fails = fails\<rparr>)"

definition capabilityCoverage :: "string set \<Rightarrow> bool \<Rightarrow> capability_report list" where
  "capabilityCoverage symbols complete = map (capability_of_contract symbols complete)
     [(''clamav'', ''MAILPROOF_CLAM_HIT'', ''MAILPROOF_CLAM_FAIL''), (''oletools'', ''MAILPROOF_OLETOOLS_HIT'', ''MAILPROOF_OLETOOLS_FAIL'')]"

definition NormalizeRspamd :: "crypto \<Rightarrow> scan_env \<Rightarrow> string \<Rightarrow> scan_request \<Rightarrow> normalized res" where
  "NormalizeRspamd cr env raw r = (case response_of env raw of
       None \<Rightarrow> Inl (Err ''decode Rspamd response'')
     | Some resp \<Rightarrow> (case sr_Symbols resp of
         None \<Rightarrow> Inl (Err ''rspamd response has no symbols'')
       | Some table \<Rightarrow>
           let names = sort (map fst table) in
           bind_res (scan_symbols env table names (0, [])) (\<lambda>(markers, projections).
           if markers \<noteq> 1 then Inl (Err (''expected exactly one projection completion marker, got '' @ show_nat markers))
           else Inr \<lparr>nr_RawResponse = raw, nr_ResponseDigest = hex_encode (sha256 cr raw), nr_Action = sr_Action resp, nr_Score = sr_Score resp,
                 nr_Symbols = names, nr_Projections = projections, nr_Capabilities = capabilityCoverage (set names) True,
                 nr_SPFNotApplicable = (sc_Scope r = Detached), nr_UntrustedReplayAR = (sc_Scope r = Detached)\<rparr>)))"

type_synonym scanner = "string \<Rightarrow> (string \<times> string) list \<Rightarrow> string \<Rightarrow> (int \<times> string option) option"

definition scan_Analyze :: "crypto \<Rightarrow> scan_env \<Rightarrow> scanner \<Rightarrow> scan_client \<Rightarrow> scan_request \<Rightarrow> normalized res" where
  "scan_Analyze cr env http c r = bind_res (scan_Validate r) (\<lambda>_.
     if sn_Endpoint c = [] \<or> sn_MaxBytes c \<le> 0 then Inl (Err ''rspamd endpoint and response bound are required'')
     else case http (sn_Endpoint c) (scan_headers r) (sc_Message r) of
         None \<Rightarrow> Inl (Err ''submit Rspamd scan'')
       | Some (status, body) \<Rightarrow>
           if status \<noteq> 200 then Inl (Err (''rspamd scan status '' @ show_int status))
           else (case body of
               None \<Rightarrow> Inl (Err ''read Rspamd response'')
             | Some b \<Rightarrow> let raw = take (nat (sn_MaxBytes c + 1)) b in
                 if int (length raw) > sn_MaxBytes c then Inl (Err ''rspamd response exceeds bound'')
                 else NormalizeRspamd cr env raw r))"

definition scan_Evidence :: "scan_env \<Rightarrow> normalized \<Rightarrow> scan_request \<Rightarrow> string \<Rightarrow> time \<Rightarrow> evidence list" where
  "scan_Evidence env n r rawPath observedAt = map (\<lambda>c.
     \<lparr>ev_ID = ''rspamd-'' @ cap_Name c, ev_Category = cap_Name c, ev_Adapter = ''rspamd'', ev_AdapterVersion = sc_AdapterVersion r,
      ev_ConfigDigest = sc_ConfigDigest r, ev_SubjectDigest = sc_SubjectDigest r, ev_InputDigest = sc_SubjectDigest r,
      ev_ResponseDigest = nr_ResponseDigest n, ev_ObservedAt = observedAt, ev_Value = capability_json env c, ev_RawResponsePath = rawPath,
      ev_Status = cap_Status c, ev_Limitations = [], ev_Authority = Supporting, ev_Error = []\<rparr>) (nr_Capabilities n)"

section \<open>The analysis of a run\<close>

record analysis_env =
  az_crypto :: crypto
  az_mail :: mail_env
  az_scan :: scan_env
  az_http :: scanner
  az_root :: string
  az_endpoint :: string
  az_version :: string
  az_now :: time
  az_selection_json :: "subject_selection \<Rightarrow> string"
  az_evidence_json :: "evidence list \<Rightarrow> string"
  az_verdict_json :: "verdict \<Rightarrow> string"

fun Error :: "err \<Rightarrow> string" where
  "Error (Err m) = m"
| "Error (Constraint c) = ''constraint failed: '' @ c"
| "Error NoRows = ''sql: no rows in result set''"

definition runtimeDigest :: "crypto \<Rightarrow> string" where
  "runtimeDigest cr = hex_encode (sha256 cr ''mailproof-runtime-v1'')"

definition unavailableEvidence :: "analysis_env \<Rightarrow> string \<Rightarrow> string \<Rightarrow> string \<Rightarrow> evidence" where
  "unavailableEvidence a i digest reason =
     \<lparr>ev_ID = i, ev_Category = i, ev_Adapter = ''mailproof'', ev_AdapterVersion = az_version a, ev_ConfigDigest = runtimeDigest (az_crypto a),
      ev_SubjectDigest = digest, ev_InputDigest = digest, ev_ResponseDigest = [], ev_ObservedAt = az_now a,
      ev_Value = ''{\"status\":\"unavailable\"}'', ev_RawResponsePath = [], ev_Status = Unavailable, ev_Limitations = [], ev_Authority = Weak,
      ev_Error = reason\<rparr>"

definition subject_evidence :: "analysis_env \<Rightarrow> string \<Rightarrow> string \<Rightarrow> string \<Rightarrow> evidence list" where
  "subject_evidence a scope digest subject =
     (let r = \<lparr>sc_Scope = scope, sc_Message = subject, sc_PeerIP = [], sc_HELO = [], sc_EnvelopeFrom = [], sc_SubjectDigest = digest,
            sc_ConfigDigest = runtimeDigest (az_crypto a), sc_AdapterVersion = ''checkv3''\<rparr> in
      case scan_Analyze (az_crypto a) (az_scan a) (az_http a) \<lparr>sn_Endpoint = az_endpoint a, sn_MaxBytes = 8388608\<rparr> r of
        Inl e \<Rightarrow> [unavailableEvidence a ''rspamd'' digest (Error e)]
      | Inr n \<Rightarrow> scan_Evidence (az_scan a) n r [] (az_now a))"

definition subject_contradictions :: "analysis_env \<Rightarrow> string \<Rightarrow> string \<Rightarrow> contradiction list" where
  "subject_contradictions a digest subject = (case Project (az_mail a) subject digest of
       Inl _ \<Rightarrow> [] | Inr p \<Rightarrow> SenderAmbiguities (pr_Headers p))"

definition ambiguous_verdict :: verdict where
  "ambiguous_verdict = \<lparr>vd_Category = Indeterminate, vd_Technical = ''indeterminate'', vd_Behavior = ''indeterminate'', vd_Support = [],
     vd_Contradictions = [], vd_Unavailable = [''subject-selection''], vd_Rules = [''multiple-top-level-rfc822'']\<rparr>"

definition selected :: "string \<Rightarrow> subject_selection \<Rightarrow> subject_selection" where
  "selected digest sel = (if ss_SubjectDigest sel = [] \<and> ss_SelectionError sel = []
     then sel\<lparr>ss_SubjectDigest := digest, ss_Scope := LocalIngress\<rparr> else sel)"

definition judge :: "analysis_env \<Rightarrow> string \<Rightarrow> subject_selection \<Rightarrow> files \<Rightarrow> (evidence list \<times> verdict) res" where
  "judge a digest sel fs =
     (if ss_SelectionError sel \<noteq> [] then
        Inr ([unavailableEvidence a ''subject-selection'' digest (ss_SelectionError sel)], ambiguous_verdict)
      else case fs (message_path (az_root a) (ss_SubjectDigest sel)) of
          None \<Rightarrow> Inl (Err ''read selected subject'')
        | Some subject \<Rightarrow>
            let items = subject_evidence a (ss_Scope sel) (ss_SubjectDigest sel) subject in
            Inr (items, Decide (ss_Scope sel) items (subject_contradictions a (ss_SubjectDigest sel) subject)))"

definition analyzeRun :: "analysis_env \<Rightarrow> string \<Rightarrow> string \<Rightarrow> db \<Rightarrow> files \<Rightarrow> unit res \<times> files" where
  "analyzeRun a runID deliveryID s fs = (case row_by d_delivery_id deliveryID (deliveries s) of
       None \<Rightarrow> (Inl (Err ''find delivery digest''), fs)
     | Some d \<Rightarrow> (case fs (message_path (az_root a) (d_message_digest d)) of
         None \<Rightarrow> (Inl (Err ''read sealed message''), fs)
       | Some message \<Rightarrow> (case SelectTopLevelRFC822 (az_crypto a) (az_mail a) message (d_message_digest d) (az_root a) fs of
           (Inl e, fs1) \<Rightarrow> (Inl e, fs1)
         | (Inr sel0, fs1) \<Rightarrow>
             let sel = selected (d_message_digest d) sel0;
                 fs2 = publishJSON (path_Join [az_root a, ''deliveries'', deliveryID, ''subjects.json'']) (az_selection_json a sel) fs1 in
             (case judge a (d_message_digest d) sel fs2 of
                Inl e \<Rightarrow> (Inl e, fs2)
              | Inr (items, verdict) \<Rightarrow>
                  (case PublishAnalysis (az_root a) runID (az_evidence_json a items) (az_verdict_json a verdict) fs2 of
                     (Inl e, fs3) \<Rightarrow> (Inl e, fs3) | (Inr _, fs3) \<Rightarrow> (Inr (), fs3))))))"

section \<open>A round of the worker\<close>

datatype round = Idle | Worked

text \<open>One turn of the loop: the time of the claim, of the retry and of the finish, and the duration measured.\<close>

definition worker_round ::
  "analysis_env \<Rightarrow> string \<Rightarrow> time \<Rightarrow> time \<Rightarrow> time \<Rightarrow> int \<Rightarrow> files \<Rightarrow> db \<Rightarrow> round res \<times> files \<times> db" where
  "worker_round a owner now retry_at finish_at duration_ms fs s =
     (case Claim (az_crypto a) owner ''analysis'' now (WorkerLease budget_Default) s of
        (Inl e, s1) \<Rightarrow> (Inl e, fs, s1)
      | (Inr None, s1) \<Rightarrow> (Inr Idle, fs, s1)
      | (Inr (Some c), s1) \<Rightarrow> (case analyzeRun a (run_ID c) (run_DeliveryID c) s1 fs of
          (Inl e, fs1) \<Rightarrow> (case Retry (az_crypto a) (run_ID c) ''analysis'' (Error e) (retry_at + 1) 3 s1 of
              Inl e' \<Rightarrow> (Inl e', fs1, s1) | Inr s2 \<Rightarrow> (Inr Worked, fs1, s2))
        | (Inr _, fs1) \<Rightarrow> (case FinishAnalysisMeasured (az_crypto a) (run_ID c) owner duration_ms finish_at s1 of
              Inl e' \<Rightarrow> (Inl e', fs1, s1) | Inr s2 \<Rightarrow> (Inr Worked, fs1, s2))))"

section \<open>Files are written once\<close>

lemma map_le_upd_fresh: "fs p = None \<Longrightarrow> fs \<subseteq>\<^sub>m fs(p \<mapsto> x)"
  by (auto simp: map_le_def)

lemma map_le_Some: "fs \<subseteq>\<^sub>m fs' \<Longrightarrow> fs p = Some x \<Longrightarrow> fs' p = Some x"
  by (force simp: map_le_def dom_def)

lemma publish_le: "publish dir name contents fs = Inr fs' \<Longrightarrow> fs \<subseteq>\<^sub>m fs'"
  by (auto simp: publish_Inr intro: map_le_upd_fresh)

lemma publishJSON_le: "fs \<subseteq>\<^sub>m publishJSON path json fs"
  by (auto simp: publishJSON_def intro: map_le_upd_fresh)

lemma SelectTopLevelRFC822_le: "fs \<subseteq>\<^sub>m snd (SelectTopLevelRFC822 cr env delivered digest root fs)"
  by (auto simp: SelectTopLevelRFC822_def Let_def intro: map_le_upd_fresh split: sum.split option.split list.split)

definition analysis_file :: "string \<Rightarrow> string \<Rightarrow> string \<Rightarrow> string" where
  "analysis_file root runID name = path_Join [path_Join [root, ''runs'', runID, ''analysis''], name]"

lemma analysis_file_neq: "analysis_file root runID ''evidence.json'' \<noteq> analysis_file root runID ''verdict.json''"
proof -
  have "path_Join [root, ''runs'', runID, ''analysis''] \<noteq> []" by (simp add: path_Join_def Clean_def Let_def)
  from path_Join_inj [OF _ _ this, of "''evidence.json''" "''verdict.json''"] show ?thesis
    by (auto simp: analysis_file_def plain_def)
qed

lemma PublishAnalysis_cases:
  obtains (published) fs' where "PublishAnalysis root runID ej vj fs = (Inr fs', fs')" "fs \<subseteq>\<^sub>m fs'"
      "fs (analysis_file root runID ''evidence.json'') = None" "fs (analysis_file root runID ''verdict.json'') = None"
      "fs' (analysis_file root runID ''evidence.json'') = Some ej" "fs' (analysis_file root runID ''verdict.json'') = Some vj"
  | (refused) e fs' where "PublishAnalysis root runID ej vj fs = (Inl e, fs')" "fs \<subseteq>\<^sub>m fs'"
      "fs (analysis_file root runID ''evidence.json'') \<noteq> None \<or> fs (analysis_file root runID ''verdict.json'') \<noteq> None"
proof -
  let ?d = "path_Join [root, ''runs'', runID, ''analysis'']"
  show thesis
  proof (cases "fs (analysis_file root runID ''evidence.json'') = None \<and> fs (analysis_file root runID ''verdict.json'') = None")
    case True
    then show thesis using analysis_file_neq [of root runID]
      by (intro published [where fs' = "snd (PublishAnalysis root runID ej vj fs)"]) (auto simp: PublishAnalysis_def Let_def publish_def analysis_file_def map_le_def)
  next
    case False
    then show thesis using analysis_file_neq [of root runID]
      by (intro refused [where fs' = "snd (PublishAnalysis root runID ej vj fs)" and e = "projl (fst (PublishAnalysis root runID ej vj fs))"])
        (auto simp: PublishAnalysis_def Let_def publish_def analysis_file_def map_le_def)
  qed
qed

text \<open>How an analysis ends: it fails, or it publishes the verdict of one selection of the subject.\<close>

lemma analyzeRun_cases:
  obtains (failed) e fs' where "analyzeRun a runID deliveryID s fs = (Inl e, fs')" "fs \<subseteq>\<^sub>m fs'"
  | (analysed) d message sel fs1 fs2 items v fs' where
      "row_by d_delivery_id deliveryID (deliveries s) = Some d" "fs (message_path (az_root a) (d_message_digest d)) = Some message"
      "SelectTopLevelRFC822 (az_crypto a) (az_mail a) message (d_message_digest d) (az_root a) fs = (Inr sel, fs1)"
      "judge a (d_message_digest d) (selected (d_message_digest d) sel) fs2 = Inr (items, v)" "fs \<subseteq>\<^sub>m fs2" "fs2 \<subseteq>\<^sub>m fs'"
      "fs2 (analysis_file (az_root a) runID ''evidence.json'') = None" "fs2 (analysis_file (az_root a) runID ''verdict.json'') = None"
      "fs' (analysis_file (az_root a) runID ''evidence.json'') = Some (az_evidence_json a items)"
      "fs' (analysis_file (az_root a) runID ''verdict.json'') = Some (az_verdict_json a v)"
      "analyzeRun a runID deliveryID s fs = (Inr (), fs')"
proof (cases "row_by d_delivery_id deliveryID (deliveries s)")
  case None
  show thesis by (rule failed [OF _ map_le_refl]) (simp add: analyzeRun_def None)
next
  case d: (Some d)
  show thesis
  proof (cases "fs (message_path (az_root a) (d_message_digest d))")
    case None
    show thesis by (rule failed [OF _ map_le_refl]) (simp add: analyzeRun_def d None)
  next
    case m: (Some message)
    obtain x fs1 where sel: "SelectTopLevelRFC822 (az_crypto a) (az_mail a) message (d_message_digest d) (az_root a) fs = (x, fs1)" by force
    have le1: "fs \<subseteq>\<^sub>m fs1" using SelectTopLevelRFC822_le [of fs "az_crypto a" "az_mail a" message "d_message_digest d" "az_root a"] by (simp add: sel)
    show thesis
    proof (cases x)
      case (Inl e)
      show thesis by (rule failed [OF _ le1]) (simp add: analyzeRun_def d m sel Inl)
    next
      case (Inr sel0)
      define fs2 where "fs2 = publishJSON (path_Join [az_root a, ''deliveries'', deliveryID, ''subjects.json''])
        (az_selection_json a (selected (d_message_digest d) sel0)) fs1"
      have le2: "fs \<subseteq>\<^sub>m fs2" unfolding fs2_def using le1 publishJSON_le by (rule map_le_trans)
      note eq = analyzeRun_def [of a runID deliveryID s fs, unfolded d m sel Inr Let_def option.case prod.case sum.case fs2_def [symmetric]]
      show thesis
      proof (cases "judge a (d_message_digest d) (selected (d_message_digest d) sel0) fs2")
        case (Inl e)
        show thesis by (rule failed [OF _ le2]) (simp add: eq Inl)
      next
        case j: (Inr iv)
        obtain items v where iv: "iv = (items, v)" by force
        show thesis
        proof (cases rule: PublishAnalysis_cases [of "az_root a" runID "az_evidence_json a items" "az_verdict_json a v" fs2])
          case (published fs')
          show thesis
            by (rule analysed [OF d m sel [unfolded Inr] j [unfolded iv] le2 published(2-6)]) (simp add: eq j iv published(1))
        next
          case (refused e fs')
          show thesis by (rule failed [OF _ map_le_trans [OF le2 refused(2)]]) (simp add: eq j iv refused(1))
        qed
      qed
    qed
  qed
qed

lemma analyzeRun_le: "fs \<subseteq>\<^sub>m snd (analyzeRun a runID deliveryID s fs)"
  by (rule analyzeRun_cases [of a runID deliveryID s fs]) (auto intro: map_le_trans)

section \<open>The verdict of the pipeline\<close>

lemma capabilityCoverage_Cons:
  "capabilityCoverage symbols complete =
     [capability_of_contract symbols complete (''clamav'', ''MAILPROOF_CLAM_HIT'', ''MAILPROOF_CLAM_FAIL''),
      capability_of_contract symbols complete (''oletools'', ''MAILPROOF_OLETOOLS_HIT'', ''MAILPROOF_OLETOOLS_FAIL'')]"
  by (simp add: capabilityCoverage_def)

lemma cap_Name_contract [simp]: "cap_Name (capability_of_contract symbols complete (name, hit, failed)) = name"
  by (simp add: capability_of_contract_def Let_def)

lemma NormalizeRspamd_Inr:
  assumes "NormalizeRspamd cr env raw r = Inr n"
  obtains resp table projections where "response_of env raw = Some resp" "sr_Symbols resp = Some table"
    "scan_symbols env table (sort (map fst table)) (0, []) = Inr (1, projections)" "nr_Projections n = projections"
    "nr_Capabilities n = capabilityCoverage (fst ` set table) True" "nr_ResponseDigest n = hex_encode (sha256 cr raw)"
proof (cases "response_of env raw")
  case None
  with assms show thesis by (simp add: NormalizeRspamd_def)
next
  case resp: (Some resp)
  show thesis
  proof (cases "sr_Symbols resp")
    case None
    with assms resp show thesis by (simp add: NormalizeRspamd_def)
  next
    case table: (Some table)
    from assms obtain ms ps where scan: "scan_symbols env table (sort (map fst table)) (0, []) = Inr (ms, ps)"
      by (auto simp: NormalizeRspamd_def Let_def resp table bind_res_Inr_iff)
    with assms have "ms = 1" by (auto simp: NormalizeRspamd_def Let_def resp table split: if_splits)
    with assms scan show thesis by (intro that [OF resp table]) (auto simp: NormalizeRspamd_def Let_def resp table)
  qed
qed

lemma scan_Analyze_Inr:
  assumes "scan_Analyze cr env http c r = Inr n"
  obtains body where "http (sn_Endpoint c) (scan_headers r) (sc_Message r) = Some (200, Some body)" "int (length body) \<le> sn_MaxBytes c"
    "NormalizeRspamd cr env body r = Inr n"
proof -
  from assms obtain body where b: "http (sn_Endpoint c) (scan_headers r) (sc_Message r) = Some (200, Some body)" "sn_MaxBytes c > 0"
    "int (length (take (nat (sn_MaxBytes c + 1)) body)) \<le> sn_MaxBytes c" "NormalizeRspamd cr env (take (nat (sn_MaxBytes c + 1)) body) r = Inr n"
    by (auto simp: scan_Analyze_def Let_def bind_res_Inr_iff split: option.splits if_splits)
  then have "length body \<le> nat (sn_MaxBytes c)" by (auto simp: min_def split: if_splits)
  with b show thesis by (intro that [of body]) auto
qed

lemma subject_evidence_category:
  assumes "e \<in> set (subject_evidence a scope digest subject)"
  shows "ev_Category e \<in> {''rspamd'', ''clamav'', ''oletools''}"
  using assms
  by (auto simp: subject_evidence_def Let_def scan_Evidence_def unavailableEvidence_def capabilityCoverage_Cons
      elim!: scan_Analyze_Inr NormalizeRspamd_Inr split: sum.splits)

lemma subject_evidence_flags:
  "\<not> list_ex authenticates (subject_evidence a scope digest subject)"
  "\<not> list_ex proves_malice (subject_evidence a scope digest subject)"
  "\<not> list_ex shows_behavior (subject_evidence a scope digest subject)"
  by (auto simp: list_ex_iff authenticates_def proves_malice_def shows_behavior_def dest: subject_evidence_category)

lemma subject_contradictions_material: "list_ex co_Material (subject_contradictions a digest subject) = (subject_contradictions a digest subject \<noteq> [])"
proof -
  have "\<forall>c \<in> set (subject_contradictions a digest subject). co_Material c"
    by (auto simp: subject_contradictions_def SenderAmbiguities_def Let_def split: sum.splits)
  then show ?thesis by (cases "subject_contradictions a digest subject") auto
qed

lemma judge_category:
  assumes "judge a digest sel fs = Inr (items, v)"
  shows "(ss_SelectionError sel \<noteq> [] \<and> v = ambiguous_verdict) \<or>
    (ss_SelectionError sel = [] \<and> (\<exists>subject. fs (message_path (az_root a) (ss_SubjectDigest sel)) = Some subject \<and>
       items = subject_evidence a (ss_Scope sel) (ss_SubjectDigest sel) subject \<and>
       vd_Category v = (if subject_contradictions a (ss_SubjectDigest sel) subject \<noteq> [] then Suspicious else Indeterminate)))"
  using assms
  by (auto simp: judge_def Let_def Decide_fields category_of_def subject_evidence_flags subject_contradictions_material
      split: if_splits option.splits)

text \<open>
  C8: What the pipeline can conclude. When the analysis of a run succeeds, its evidence and its verdict are
  published, every file there was before is as it was, and the verdict is SUSPICIOUS when the sender
  headers of the selected subject are ambiguous and INDETERMINATE otherwise, also when the subject
  could not be selected: what the scanner reports has no influence on the category, a malware hit
  included, and no run is ever called VERIFIED or KNOWN_MALICIOUS.
\<close>

theorem analyzeRun_verdict:
  assumes "analyzeRun a runID deliveryID s fs = (Inr (), fs')"
  shows "fs \<subseteq>\<^sub>m fs' \<and> (\<exists>d message sel0 fs1 sel items v.
     row_by d_delivery_id deliveryID (deliveries s) = Some d \<and> fs (message_path (az_root a) (d_message_digest d)) = Some message \<and>
     SelectTopLevelRFC822 (az_crypto a) (az_mail a) message (d_message_digest d) (az_root a) fs = (Inr sel0, fs1) \<and>
     sel = selected (d_message_digest d) sel0 \<and>
     fs' (analysis_file (az_root a) runID ''evidence.json'') = Some (az_evidence_json a items) \<and>
     fs' (analysis_file (az_root a) runID ''verdict.json'') = Some (az_verdict_json a v) \<and>
     (if ss_SelectionError sel \<noteq> [] then v = ambiguous_verdict
      else (\<exists>subject. fs' (message_path (az_root a) (ss_SubjectDigest sel)) = Some subject \<and>
        items = subject_evidence a (ss_Scope sel) (ss_SubjectDigest sel) subject \<and>
        vd_Category v = (if subject_contradictions a (ss_SubjectDigest sel) subject \<noteq> [] then Suspicious else Indeterminate))))"
proof (cases rule: analyzeRun_cases [of a runID deliveryID s fs])
  case (failed e fs'')
  with assms show ?thesis by simp
next
  case (analysed d message sel fs1 fs2 items v fs'')
  have [simp]: "fs'' = fs'" using assms analysed(11) by simp
  let ?sel = "selected (d_message_digest d) sel"
  have "if ss_SelectionError ?sel \<noteq> [] then v = ambiguous_verdict
      else (\<exists>subject. fs' (message_path (az_root a) (ss_SubjectDigest ?sel)) = Some subject \<and>
        items = subject_evidence a (ss_Scope ?sel) (ss_SubjectDigest ?sel) subject \<and>
        vd_Category v = (if subject_contradictions a (ss_SubjectDigest ?sel) subject \<noteq> [] then Suspicious else Indeterminate))"
    using judge_category [OF analysed(4)] map_le_Some [OF analysed(6)] by (simp split: if_splits) blast+
  moreover have "fs \<subseteq>\<^sub>m fs'" using map_le_trans [OF analysed(5,6)] by simp
  ultimately show ?thesis using analysed(1-3,9,10) unfolding \<open>fs'' = fs'\<close> by blast
qed

text \<open>
  An analysis is published once. When evidence or verdict of a run exist, analysing the run again
  fails on every input and leaves both as they are; a worker that stopped between the publication and
  the transition of the queue therefore never finishes the run.
\<close>

theorem reanalysis_fails:
  assumes "fs (analysis_file (az_root a) runID ''evidence.json'') \<noteq> None \<or> fs (analysis_file (az_root a) runID ''verdict.json'') \<noteq> None"
  shows "\<exists>e fs'. analyzeRun a runID deliveryID s fs = (Inl e, fs') \<and> fs \<subseteq>\<^sub>m fs'"
proof (cases rule: analyzeRun_cases [of a runID deliveryID s fs])
  case (failed e fs')
  then show ?thesis by blast
next
  case (analysed d message sel fs1 fs2 items v fs')
  then have "fs p = None" if "fs2 p = None" for p using that map_le_Some [of fs fs2 p] by (cases "fs p") auto
  with analysed(7,8) assms show ?thesis by simp
qed

section \<open>A clean result\<close>

definition completion_marker :: "scan_env \<Rightarrow> string \<Rightarrow> bool" where
  "completion_marker env opt = (length opt \<le> maxProjectionBytes \<and>
     (case raw_message env opt of None \<Rightarrow> False | Some v \<Rightarrow> marker_of env v = Some (1, True)))"

lemma scan_options_marker:
  assumes "scan_options env rspamdProjectionMarker opts st = Inr st'"
  shows "st' = (fst st + length opts, snd st) \<and> list_all (completion_marker env) opts"
  using assms
  by (induction opts arbitrary: st)
    (fastforce simp: bind_res_Inr_iff scan_option_def completion_marker_def split: if_splits option.splits)+

lemma scan_options_projection:
  assumes "scan_options env rspamdProjection opts st = Inr st'" "length (snd st) \<le> maxProjectionRecords"
  shows "fst st' = fst st \<and> length (snd st') \<le> maxProjectionRecords"
  using assms
  by (induction opts arbitrary: st) (fastforce simp: bind_res_Inr_iff scan_option_def split: if_splits option.splits)+

lemma scan_symbols_markers:
  assumes "scan_symbols env table names st = Inr st'" "length (snd st) \<le> maxProjectionRecords"
  shows "fst st' = fst st + count_list names rspamdProjectionMarker * length (the (map_of table rspamdProjectionMarker)) \<and>
    (rspamdProjectionMarker \<in> set names \<longrightarrow> list_all (completion_marker env) (the (map_of table rspamdProjectionMarker))) \<and>
    length (snd st') \<le> maxProjectionRecords"
  using assms
proof (induction names arbitrary: st)
  case (Cons symbol names)
  show ?case
  proof (cases "symbol = rspamdProjectionMarker \<or> symbol = rspamdProjection")
    case False
    with Cons show ?thesis by auto
  next
    case True
    with Cons.prems obtain st1 where s: "scan_options env symbol (the (map_of table symbol)) st = Inr st1" "scan_symbols env table names st1 = Inr st'"
      by (auto simp: bind_res_Inr_iff)
    from True show ?thesis
    proof
      assume m: "symbol = rspamdProjectionMarker"
      note o1 = scan_options_marker [OF s(1) [unfolded m]]
      have "length (snd st1) \<le> maxProjectionRecords" using o1 Cons.prems(2) by simp
      from Cons.IH [OF s(2) this] o1 m show ?thesis by simp
    next
      assume m: "symbol = rspamdProjection"
      note o1 = scan_options_projection [OF s(1) [unfolded m] Cons.prems(2)]
      from Cons.IH [OF s(2) conjunct2 [OF o1]] o1 m show ?thesis by simp
    qed
  qed
qed simp

lemma count_list_map_of: "count_list (map fst t) k * length (the (map_of t k)) = 1 \<Longrightarrow> \<exists>v. map_of t k = Some [v]"
proof -
  assume a: "count_list (map fst t) k * length (the (map_of t k)) = 1"
  then have "k \<in> fst ` set t" using count_notin [of k "map fst t"] by fastforce
  then obtain vs where "map_of t k = Some vs" by (cases "map_of t k") (auto simp: map_of_eq_None_iff)
  with a show ?thesis by (simp add: nat_mult_eq_1_iff length_Suc_conv)
qed

lemma count_list_sort: "count_list (sort xs) k = count_list xs (k :: string)"
  by (metis count_mset mset_sort)

lemma set_capability_clean:
  assumes "c \<in> set (capabilityCoverage symbols complete)" "cap_Status c = CleanConfirmed"
  shows "(cap_Name c = ''clamav'' \<and> symbols \<inter> {''MAILPROOF_CLAM_HIT'', ''MAILPROOF_CLAM_FAIL''} = {}) \<or>
    (cap_Name c = ''oletools'' \<and> symbols \<inter> {''MAILPROOF_OLETOOLS_HIT'', ''MAILPROOF_OLETOOLS_FAIL''} = {})"
proof -
  have "hit \<notin> symbols \<and> failed \<notin> symbols" if "cap_Status (capability_of_contract symbols complete (name, hit, failed)) = CleanConfirmed"
    for name hit failed
    using that by (cases "hit \<in> symbols"; cases "failed \<in> symbols"; simp add: capability_of_contract_def split: if_splits)
  then show ?thesis using assms by (auto simp: capabilityCoverage_Cons)
qed

text \<open>
  C9: Nothing is called clean without proof that the scan ran to its end. An item of the evidence of a
  subject is clean_confirmed only when the scanner answered 200 with a body of at most 8 MiB whose
  symbol table has exactly one completion marker, decoded as version 1 and complete, and neither the
  detection nor the failure symbol of that engine; the item carries the digest of that body, and a
  detached subject is sent without any SMTP metadata.
\<close>

theorem clean_only_on_complete_scan:
  assumes "e \<in> set (subject_evidence a scope digest subject)" "ev_Status e = CleanConfirmed"
  shows "\<exists>headers body resp table marker.
     az_http a (az_endpoint a) headers subject = Some (200, Some body) \<and> length body \<le> 8388608 \<and>
     (scope = Detached \<longrightarrow> headers = [(''Content-Type'', ''message/rfc822''), (''Queue-Id'', digest)]) \<and>
     response_of (az_scan a) body = Some resp \<and> sr_Symbols resp = Some table \<and>
     map_of table rspamdProjectionMarker = Some [marker] \<and> completion_marker (az_scan a) marker \<and>
     ev_ResponseDigest e = hex_encode (sha256 (az_crypto a) body) \<and>
     ((ev_Category e = ''clamav'' \<and> fst ` set table \<inter> {''MAILPROOF_CLAM_HIT'', ''MAILPROOF_CLAM_FAIL''} = {}) \<or>
      (ev_Category e = ''oletools'' \<and> fst ` set table \<inter> {''MAILPROOF_OLETOOLS_HIT'', ''MAILPROOF_OLETOOLS_FAIL''} = {}))"
proof -
  define r where "r = \<lparr>sc_Scope = scope, sc_Message = subject, sc_PeerIP = [], sc_HELO = [], sc_EnvelopeFrom = [], sc_SubjectDigest = digest,
     sc_ConfigDigest = runtimeDigest (az_crypto a), sc_AdapterVersion = ''checkv3''\<rparr>"
  note ev = assms(1) [unfolded subject_evidence_def Let_def, folded r_def]
  obtain n where n: "scan_Analyze (az_crypto a) (az_scan a) (az_http a) \<lparr>sn_Endpoint = az_endpoint a, sn_MaxBytes = 8388608\<rparr> r = Inr n"
    "e \<in> set (scan_Evidence (az_scan a) n r [] (az_now a))"
    using ev assms(2) by (auto simp: unavailableEvidence_def split: sum.splits)
  obtain body where b: "az_http a (az_endpoint a) (scan_headers r) subject = Some (200, Some body)" "length body \<le> 8388608"
    "NormalizeRspamd (az_crypto a) (az_scan a) body r = Inr n"
    using scan_Analyze_Inr [OF n(1)] by (auto simp: r_def)
  obtain resp table ps where t: "response_of (az_scan a) body = Some resp" "sr_Symbols resp = Some table"
    "scan_symbols (az_scan a) table (sort (map fst table)) (0, []) = Inr (1, ps)"
    "nr_Capabilities n = capabilityCoverage (fst ` set table) True" "nr_ResponseDigest n = hex_encode (sha256 (az_crypto a) body)"
    by (rule NormalizeRspamd_Inr [OF b(3)])
  note marks = scan_symbols_markers [OF t(3), simplified, unfolded count_list_sort]
  then obtain marker where marker: "map_of table rspamdProjectionMarker = Some [marker]"
    using count_list_map_of [of table rspamdProjectionMarker] by auto
  then have "rspamdProjectionMarker \<in> fst ` set table" by (metis map_of_SomeD fst_conv image_eqI)
  with marks marker have m: "completion_marker (az_scan a) marker" by simp
  have h: "scope = Detached \<longrightarrow> scan_headers r = [(''Content-Type'', ''message/rfc822''), (''Queue-Id'', digest)]"
    by (simp add: scan_headers_def r_def)
  obtain c where c: "c \<in> set (capabilityCoverage (fst ` set table) True)" "ev_Category e = cap_Name c" "cap_Status c = CleanConfirmed"
    "ev_ResponseDigest e = hex_encode (sha256 (az_crypto a) body)"
    using n(2) assms(2) by (auto simp: scan_Evidence_def t(4,5))
  have "(ev_Category e = ''clamav'' \<and> fst ` set table \<inter> {''MAILPROOF_CLAM_HIT'', ''MAILPROOF_CLAM_FAIL''} = {}) \<or>
      (ev_Category e = ''oletools'' \<and> fst ` set table \<inter> {''MAILPROOF_OLETOOLS_HIT'', ''MAILPROOF_OLETOOLS_FAIL''} = {})"
    unfolding c(2) by (rule set_capability_clean [OF c(1,3)])
  note facts = b(1,2) h t(1,2) marker m c(4) this
  show ?thesis
    by (rule exI [of _ "scan_headers r"], rule exI [of _ body], rule exI [of _ resp], rule exI [of _ table], rule exI [of _ marker])
      (intro conjI; rule facts)
qed

section \<open>Witnesses\<close>

definition example_scan :: scan_env where
  "example_scan = \<lparr>response_of = (\<lambda>_. Some \<lparr>sr_Action = ''no action'', sr_Score = ''0'', sr_Symbols = Some [(rspamdProjectionMarker, [''{}''])]\<rparr>),
     raw_message = Some, marker_of = (\<lambda>_. Some (1, True)), capability_json = cap_Name\<rparr>"

definition example_analysis :: analysis_env where
  "example_analysis = \<lparr>az_crypto = example_crypto,
     az_mail = \<lparr>message_Read = (\<lambda>_. Inr \<lparr>me_fields = [(''From'', ''a@b''), (''From'', ''c@d'')], me_type = None, me_parts = None\<rparr>),
       ReadMessage_From = (\<lambda>_. None), ParseAddress = (\<lambda>_. None), env_ascii = (\<lambda>_. None)\<rparr>,
     az_scan = example_scan, az_http = (\<lambda>_ _ _. Some (200, Some ''body'')), az_root = ''/a'', az_endpoint = ''http://rspamd'', az_version = ''v'',
     az_now = 9, az_selection_json = ss_SubjectDigest, az_evidence_json = (\<lambda>es. concat (map ev_ID es)), az_verdict_json = vd_Category\<rparr>"

lemma example_analysis_simps:
  "az_crypto example_analysis = example_crypto" "az_scan example_analysis = example_scan" "az_root example_analysis = ''/a''"
  "az_http example_analysis e h m = Some (200, Some ''body'')" "az_endpoint example_analysis = ''http://rspamd''"
  "message_Read (az_mail example_analysis) m = Inr \<lparr>me_fields = [(''From'', ''a@b''), (''From'', ''c@d'')], me_type = None, me_parts = None\<rparr>"
  "az_verdict_json example_analysis = vd_Category"
  by (simp_all add: example_analysis_def)

lemma example_select:
  "SelectTopLevelRFC822 cr (az_mail example_analysis) m d root fs =
     (Inr \<lparr>ss_DeliveredDigest = d, ss_SubjectDigest = [], ss_PartPath = [], ss_Scope = LocalIngress, ss_SelectionError = []\<rparr>, fs)"
  by (simp add: SelectTopLevelRFC822_def example_analysis_simps)

definition example_artifacts :: files where
  "example_artifacts = [message_path ''/a'' ''dig'' \<mapsto> ''mail'']"

lemma example_files_free:
  "example_artifacts (message_path ''/a'' ''dig'') = Some ''mail''"
  "publishJSON (path_Join [''/a'', ''deliveries'', ''d1'', ''subjects.json'']) j example_artifacts (analysis_file ''/a'' ''r1'' ''evidence.json'') = None"
  "publishJSON (path_Join [''/a'', ''deliveries'', ''d1'', ''subjects.json'']) j example_artifacts (analysis_file ''/a'' ''r1'' ''verdict.json'') = None"
  "publishJSON (path_Join [''/a'', ''deliveries'', ''d1'', ''subjects.json'']) j example_artifacts (message_path ''/a'' ''dig'') = Some ''mail''"
  by (simp_all add: example_artifacts_def publishJSON_def analysis_file_def message_path_def path_Join_def Clean_def HasPrefix_def Let_def)

lemma example_analyzed: "\<exists>fs'. analyzeRun example_analysis ''r1'' ''d1'' example_queue example_artifacts = (Inr (), fs')"
proof -
  let ?sel = "\<lparr>ss_DeliveredDigest = ''dig'', ss_SubjectDigest = ''dig'', ss_PartPath = [], ss_Scope = LocalIngress, ss_SelectionError = []\<rparr>"
  let ?fs = "publishJSON (path_Join [''/a'', ''deliveries'', ''d1'', ''subjects.json'']) (az_selection_json example_analysis ?sel) example_artifacts"
  obtain items v where j: "judge example_analysis ''dig'' ?sel ?fs = Inr (items, v)"
    by (simp add: judge_def example_analysis_simps example_files_free Let_def)
  have d: "row_by d_delivery_id ''d1'' (deliveries example_queue) = Some example_delivery" "d_message_digest example_delivery = ''dig''"
    by (simp_all add: example_tables example_delivery_def delivery_row_def row_by_def)
  show ?thesis
  proof (cases rule: PublishAnalysis_cases [of "''/a''" "''r1''" "az_evidence_json example_analysis items" "az_verdict_json example_analysis v" ?fs])
    case (published fs')
    then show ?thesis
      unfolding analyzeRun_def d option.case example_select example_analysis_simps(3) example_files_free(1) prod.case sum.case Let_def
      by (simp add: selected_def j example_analysis_simps)
  next
    case (refused e fs')
    then show ?thesis by (simp add: example_files_free)
  qed
qed

theorem analyzeRun_verdict_witness:
  "\<exists>fs'. analyzeRun example_analysis ''r1'' ''d1'' example_queue example_artifacts = (Inr (), fs') \<and>
     fs' (analysis_file ''/a'' ''r1'' ''verdict.json'') = Some Suspicious"
proof -
  obtain fs' where fs': "analyzeRun example_analysis ''r1'' ''d1'' example_queue example_artifacts = (Inr (), fs')"
    using example_analyzed by blast
  have amb: "subject_contradictions example_analysis d m \<noteq> []" for d m
    by (simp add: subject_contradictions_def Project_def example_analysis_simps SenderAmbiguities_def Let_def EqualFold_def)
  have "ss_SelectionError (selected d \<lparr>ss_DeliveredDigest = d, ss_SubjectDigest = [], ss_PartPath = [], ss_Scope = LocalIngress, ss_SelectionError = []\<rparr>) = []" for d
    by (simp add: selected_def)
  with analyzeRun_verdict [OF fs'] fs' show ?thesis
    by (auto simp: example_select example_analysis_simps amb)
qed

theorem reanalysis_fails_witness:
  "\<exists>e fs'. analyzeRun example_analysis ''r1'' ''d1'' example_queue (example_artifacts(analysis_file ''/a'' ''r1'' ''evidence.json'' \<mapsto> ''[]'')) = (Inl e, fs')"
  using reanalysis_fails [of "example_artifacts(analysis_file ''/a'' ''r1'' ''evidence.json'' \<mapsto> ''[]'')" example_analysis "''r1''" "''d1''" example_queue]
  by (auto simp: example_analysis_simps)

lemma example_scanned:
  "\<exists>e \<in> set (subject_evidence example_analysis Detached ''dig'' ''mail''). ev_Status e = CleanConfirmed \<and> ev_Category e = ''clamav''"
proof -
  have dg: "runtimeDigest example_crypto \<noteq> []"
    using hexc.enc_eq_iff [of "''mail''" "[]"] by (simp add: runtimeDigest_def example_crypto_def)
  show ?thesis
    by (simp add: subject_evidence_def example_analysis_simps scan_Analyze_def scan_Validate_def dg example_scan_def NormalizeRspamd_def
        scan_option_def maxProjectionBytes_def scan_Evidence_def capabilityCoverage_Cons capability_of_contract_def Let_def)
qed

theorem clean_only_on_complete_scan_witness:
  "\<exists>e \<in> set (subject_evidence example_analysis Detached ''dig'' ''mail''). ev_ResponseDigest e = hex_encode (sha256 example_crypto ''body'')"
proof -
  obtain e where e: "e \<in> set (subject_evidence example_analysis Detached ''dig'' ''mail'')" "ev_Status e = CleanConfirmed"
    using example_scanned by blast
  from clean_only_on_complete_scan [OF this] e(1) show ?thesis by (auto simp: example_analysis_simps)
qed

end
