(* ===== verification/Delivery.thy ===== *)
theory Delivery
  imports Analysis Report Results
begin

text \<open>
  The report of an analysed run: the reply mail and its submission (\<open>internal/report/reply.go\<close>), the
  key files (\<open>internal/report/signing.go\<close>), and of \<open>cmd/mailproof/main.go\<close> \<open>reportRun\<close>, one round of the
  \<open>reporter\<close> loop and the operator commands \<open>redeliver\<close>, \<open>bundle\<close>, \<open>verify-report\<close>, \<open>replay\<close> and
  \<open>inspect\<close>. PEM and DER decoding, address parsing and the SMTP server are parameters: the server is
  given by its answers to the greeting, the sender, the recipient and the message.
\<close>

section \<open>The reply\<close>

record reply =
  ry_EnvelopeFrom :: string
  ry_Recipient :: string
  ry_DeliveryID :: string
  ry_Manifest :: string
  ry_ReportText :: string
  ry_ReportHTML :: string
  ry_ReportJSON :: string
  ry_Signature :: string

definition CRLF :: string where "CRLF = [CHR 0x0D, CHR 0x0A]"

definition IdempotencyKey :: "crypto \<Rightarrow> reply \<Rightarrow> string" where
  "IdempotencyKey cr r = ry_DeliveryID r @ '':'' @ hex_encode (sha256 cr (ry_Manifest r))"

definition MessageID :: "crypto \<Rightarrow> reply \<Rightarrow> string" where
  "MessageID cr r = ''<'' @ hex_encode (sha256 cr (IdempotencyKey cr r)) @ ''@mailproof.local>''"

definition writePart :: "string \<Rightarrow> string \<Rightarrow> string \<Rightarrow> string \<Rightarrow> string" where
  "writePart bnd contentType disposition content =
     ''--'' @ bnd @ CRLF @ ''Content-Type: '' @ contentType @ CRLF @
     (if disposition \<noteq> [] then ''Content-Disposition: '' @ disposition @ CRLF else []) @ CRLF @ content @ CRLF"

definition reply_boundary :: "crypto \<Rightarrow> reply \<Rightarrow> string" where
  "reply_boundary cr r = ''mailproof-'' @ take 24 (hex_encode (sha256 cr (IdempotencyKey cr r)))"

definition reply_headers :: "crypto \<Rightarrow> reply \<Rightarrow> string list" where
  "reply_headers cr r = [''To: '' @ ry_Recipient r, ''Subject: Mailproof verification report'', ''Message-ID: '' @ MessageID cr r,
     ''Auto-Submitted: auto-replied'', ''X-Mailproof-Loop: v1'', ''X-Mailproof-Idempotency: '' @ IdempotencyKey cr r, ''MIME-Version: 1.0'',
     ''Content-Type: multipart/mixed; boundary='' @ [CHR 0x22] @ reply_boundary cr r @ [CHR 0x22]]"

definition Message :: "crypto \<Rightarrow> (string \<Rightarrow> bool) \<Rightarrow> reply \<Rightarrow> string res" where
  "Message cr address_ok r =
     (if \<not> address_ok (ry_Recipient r) \<or> ContainsAny (ry_Recipient r) CRLF then Inl (Err ''invalid authorized recipient'')
      else if ContainsAny (ry_EnvelopeFrom r) CRLF then Inl (Err ''invalid envelope sender'')
      else let b = reply_boundary cr r; alt = b @ ''-alt'' in
        Inr (concat (map (\<lambda>h. h @ CRLF) (reply_headers cr r)) @ CRLF @
          ''--'' @ b @ CRLF @ ''Content-Type: multipart/alternative; boundary='' @ [CHR 0x22] @ alt @ [CHR 0x22] @ CRLF @ CRLF @
          writePart alt ''text/plain; charset=utf-8'' [] (ry_ReportText r) @
          writePart alt ''text/html; charset=utf-8'' [] (ry_ReportHTML r) @ ''--'' @ alt @ ''--'' @ CRLF @
          writePart b ''application/json'' ''attachment; filename=report.json'' (ry_ReportJSON r) @
          writePart b ''application/json'' ''attachment; filename=manifest.json'' (ry_Manifest r) @
          writePart b ''application/octet-stream'' ''attachment; filename=manifest.sig'' (ry_Signature r) @
          ''--'' @ b @ ''--'' @ CRLF))"

text \<open>
  What the mail server answers to the steps of a submission, each answer depending on what has been sent: the greeting name, the envelope sender,
  the recipient and, from \<open>Write\<close> on, the message. A step is reached only when those before it succeeded.
\<close>

record smtp =
  sm_Dial :: bool
  sm_Hello :: "string \<Rightarrow> bool"
  sm_Mail :: "string \<Rightarrow> bool"
  sm_Rcpt :: "string \<Rightarrow> string \<Rightarrow> bool"
  sm_Data :: "string \<Rightarrow> string \<Rightarrow> bool"
  sm_Write :: "string \<Rightarrow> string \<Rightarrow> string \<Rightarrow> bool"
  sm_Close :: "string \<Rightarrow> string \<Rightarrow> string \<Rightarrow> bool"
  sm_Quit :: "string \<Rightarrow> string \<Rightarrow> string \<Rightarrow> bool"

text \<open>Whether the outcome is unknown, and the error.\<close>

definition Submit :: "crypto \<Rightarrow> (string \<Rightarrow> bool) \<Rightarrow> smtp \<Rightarrow> reply \<Rightarrow> bool \<times> unit res" where
  "Submit cr address_ok m r = (case Message cr address_ok r of
       Inl e \<Rightarrow> (False, Inl e)
     | Inr message \<Rightarrow>
         if \<not> sm_Dial m then (False, Inl (Err ''dial internal Postfix''))
         else if \<not> sm_Hello m ''mailproof.local'' then (False, Inl (Err ''SMTP hello''))
         else if \<not> sm_Mail m (ry_EnvelopeFrom r) then (False, Inl (Err ''SMTP mail''))
         else if \<not> sm_Rcpt m (ry_EnvelopeFrom r) (ry_Recipient r) then (False, Inl (Err ''SMTP recipient''))
         else if \<not> sm_Data m (ry_EnvelopeFrom r) (ry_Recipient r) then (False, Inl (Err ''SMTP data''))
         else if \<not> sm_Write m (ry_EnvelopeFrom r) (ry_Recipient r) message then (False, Inl (Err ''write SMTP body''))
         else if \<not> sm_Close m (ry_EnvelopeFrom r) (ry_Recipient r) message then (True, Inl (Err ''SMTP outcome unknown after DATA terminator''))
         else if \<not> sm_Quit m (ry_EnvelopeFrom r) (ry_Recipient r) message then (False, Inl (Err ''SMTP quit''))
         else (False, Inr ()))"

text \<open>The server took responsibility for the message, from this sender to this recipient.\<close>

definition mail_accepted :: "crypto \<Rightarrow> (string \<Rightarrow> bool) \<Rightarrow> smtp \<Rightarrow> reply \<Rightarrow> bool" where
  "mail_accepted cr address_ok m r = (case Message cr address_ok r of Inl _ \<Rightarrow> False
     | Inr message \<Rightarrow> sm_Dial m \<and> sm_Hello m ''mailproof.local'' \<and> sm_Mail m (ry_EnvelopeFrom r) \<and> sm_Rcpt m (ry_EnvelopeFrom r) (ry_Recipient r) \<and>
         sm_Data m (ry_EnvelopeFrom r) (ry_Recipient r) \<and> sm_Write m (ry_EnvelopeFrom r) (ry_Recipient r) message \<and>
         sm_Close m (ry_EnvelopeFrom r) (ry_Recipient r) message)"

section \<open>Keys\<close>

datatype parsed_key = Ed25519 string | OtherKey

record key_env =
  pem_Decode :: "string \<Rightarrow> (string \<times> string \<times> string) option"
  parse_pkcs8 :: "string \<Rightarrow> parsed_key option"
  parse_pkix :: "string \<Rightarrow> parsed_key option"

definition ParsePrivateKey :: "key_env \<Rightarrow> string \<Rightarrow> string res" where
  "ParsePrivateKey k pem = (case pem_Decode k pem of
       Some (typ, bytes, []) \<Rightarrow>
         if typ \<noteq> ''PRIVATE KEY'' then Inl (Err ''expected one PKCS#8 private key PEM block'')
         else (case parse_pkcs8 k bytes of None \<Rightarrow> Inl (Err ''parse PKCS#8 private key'')
           | Some OtherKey \<Rightarrow> Inl (Err ''private key is not Ed25519'') | Some (Ed25519 key) \<Rightarrow> Inr key)
     | _ \<Rightarrow> Inl (Err ''expected one PKCS#8 private key PEM block''))"

definition ParsePublicKey :: "key_env \<Rightarrow> string \<Rightarrow> string res" where
  "ParsePublicKey k pem = (case pem_Decode k pem of
       Some (typ, bytes, []) \<Rightarrow>
         if typ \<noteq> ''PUBLIC KEY'' then Inl (Err ''expected one public key PEM block'')
         else (case parse_pkix k bytes of None \<Rightarrow> Inl (Err ''parse public key'')
           | Some OtherKey \<Rightarrow> Inl (Err ''public key is not Ed25519'') | Some (Ed25519 key) \<Rightarrow> Inr key)
     | _ \<Rightarrow> Inl (Err ''expected one public key PEM block''))"

text \<open>A directory entry: its name, whether it is a directory, and its contents.\<close>

fun ReadTrustedPublicKeys :: "key_env \<Rightarrow> (string \<times> bool \<times> string option) list \<Rightarrow> string list res" where
  "ReadTrustedPublicKeys k [] = Inr []"
| "ReadTrustedPublicKeys k ((name, dir, contents) # es) =
     (if dir \<or> \<not> HasSuffix name ''.pem'' then ReadTrustedPublicKeys k es
      else case contents of
          None \<Rightarrow> Inl (Err ''read trusted key'')
        | Some pem \<Rightarrow> bind_res (ParsePublicKey k pem) (\<lambda>key. bind_res (ReadTrustedPublicKeys k es) (\<lambda>keys. Inr (key # keys))))"

section \<open>Reporting a run\<close>

record report_env =
  re_crypto :: crypto
  re_bundle :: bundle_env
  re_keys :: key_env
  re_root :: string
  re_key_file :: "string option"
  re_version :: string
  re_verdict_of :: "string \<Rightarrow> verdict option"
  re_address_ok :: "string \<Rightarrow> bool"
  re_smtp :: smtp
  re_issued_at :: time
  re_occurred_at :: time
  re_begin_at :: time
  re_finish_at :: time

definition report_file :: "string \<Rightarrow> string \<Rightarrow> string \<Rightarrow> string" where
  "report_file root runID name = path_Join [report_dir root runID, name]"

definition report_campaign_evidence :: "crypto \<Rightarrow> string \<Rightarrow> campaign_evidence" where
  "report_campaign_evidence cr evidence_bytes =
     \<lparr>ce_Schema = CampaignEvidenceSchema, ce_NormalizationVersion = ''campaign-indicators/v1'', ce_PolicyVersion = ''v1'', ce_KeyID = [],
      ce_SourceArtifactDigest = digest_of cr evidence_bytes, ce_Indicators = [],
      ce_Availability = map (\<lambda>t. (t, ''unavailable'')) [''risky_landing_domain'', ''redirect_domain'', ''selected_from_domain'', ''dkim_domain'',
        ''attachment_sha256'', ''subject_fingerprint''],
      ce_Truncation = []\<rparr>"

definition report_input_of :: "report_env \<Rightarrow> string \<Rightarrow> string \<Rightarrow> string \<Rightarrow> verdict \<Rightarrow> string \<Rightarrow> report_input" where
  "report_input_of e runID deliveryID digest verdict evidence_bytes =
     \<lparr>in_RunID = runID, in_DeliveryID = deliveryID, in_DeliveredOriginalDigest = digest, in_SelectedSubjectDigest = [],
      in_AuthContextScope = LocalIngress, in_Verdict = verdict, in_PolicyVersion = ''v1'', in_ToolVersions = [re_version e],
      in_MissingAnalyzers = vd_Unavailable verdict,
      in_Timeline = [\<lparr>te_Kind = ''analysis'', te_Claim = ''sealed analysis published'', te_EvidenceID = []\<rparr>],
      in_CampaignEvidence = Some (report_campaign_evidence (re_crypto e) evidence_bytes)\<rparr>"

definition report_manifest :: "report_env \<Rightarrow> string \<Rightarrow> string \<Rightarrow> documents \<Rightarrow> manifest" where
  "report_manifest e deliveryID digest docs =
     \<lparr>mf_Schema = ManifestSchema, mf_DeliveryID = deliveryID, mf_SelectedSubjectDigest = [], mf_DeliveredOriginal = digest, mf_Ingress = [],
      mf_Subjects = [], mf_Evidence = [], mf_Verdict = [], mf_ReportJSON = digest_of (re_crypto e) (dc_json docs),
      mf_ReportText = digest_of (re_crypto e) (dc_text docs), mf_ReportHTML = digest_of (re_crypto e) (dc_html docs),
      mf_Policy = runtimeDigest (re_crypto e), mf_Config = runtimeDigest (re_crypto e), mf_AdapterResponses = [],
      mf_IssuedAt = re_issued_at e, mf_KeyID = ''pending''\<rparr>"

definition report_record :: "report_env \<Rightarrow> string \<Rightarrow> string \<Rightarrow> verdict \<Rightarrow> string \<Rightarrow> documents \<Rightarrow> result_record" where
  "report_record e runID deliveryID verdict manifest_bytes docs =
     \<lparr>rr_run_id = runID, rr_delivery_id = deliveryID, rr_submitter_id = None, rr_occurred_at = re_occurred_at e,
      rr_verdict = vd_Category verdict, rr_policy_version = ''v1'', rr_schema_version = ''mailproof.result/v1'', rr_auth_scope = LocalIngress,
      rr_selected_subject_status = ''selected'', rr_unavailable_analyzers = int (length (vd_Unavailable verdict)),
      rr_risk_summary = vd_Technical verdict, rr_category_summary = vd_Behavior verdict,
      rr_manifest_digest = digest_of (re_crypto e) manifest_bytes, rr_manifest_path = path_Join [''runs'', runID, ''report'', ''manifest.json''],
      rr_source_artifact_digests = digest_of (re_crypto e) (dc_json docs), rr_created_at = re_occurred_at e\<rparr>"

definition report_reply :: "string \<Rightarrow> documents \<Rightarrow> string \<Rightarrow> string \<Rightarrow> report_destination \<Rightarrow> reply" where
  "report_reply deliveryID docs manifest_bytes signature dest =
     \<lparr>ry_EnvelopeFrom = [], ry_Recipient = rd_ReplyAddress dest, ry_DeliveryID = deliveryID, ry_Manifest = manifest_bytes,
      ry_ReportText = dc_text docs, ry_ReportHTML = dc_html docs, ry_ReportJSON = dc_json docs, ry_Signature = signature\<rparr>"

text \<open>The result of \<open>reportRun\<close>: the terminal state or the error, and whether the outcome is unknown.\<close>

type_synonym report_result = "(run_state res \<times> bool) \<times> files \<times> db"

definition send_report :: "report_env \<Rightarrow> string \<Rightarrow> string \<Rightarrow> documents \<Rightarrow> string \<Rightarrow> report_destination \<Rightarrow> files \<Rightarrow> db \<Rightarrow> report_result" where
  "send_report e runID deliveryID docs manifest_bytes dest fs s =
     (case BeginReportAttempt (re_crypto e) runID dest (re_begin_at e) s of
        Inl x \<Rightarrow> ((Inl x, False), fs, s)
      | Inr (attemptID, s1) \<Rightarrow> (case fs (report_file (re_root e) runID ''manifest.sig'') of
          None \<Rightarrow> ((Inl (Err ''read manifest.sig''), False), fs, commit s1 (FinishReportAttempt (re_crypto e) attemptID ''failed'' ''smtp'' (re_finish_at e) s1))
        | Some signature \<Rightarrow>
            (case Submit (re_crypto e) (re_address_ok e) (re_smtp e) (report_reply deliveryID docs manifest_bytes signature dest) of
               (unknown, Inl x) \<Rightarrow>
                 (case FinishReportAttempt (re_crypto e) attemptID (if unknown then ''unknown'' else ''failed'') ''smtp'' (re_finish_at e) s1 of
                    Inl y \<Rightarrow> ((Inl y, unknown), fs, s1) | Inr s2 \<Rightarrow> ((Inl x, unknown), fs, s2))
             | (_, Inr _) \<Rightarrow>
                 (case FinishReportAttempt (re_crypto e) attemptID ''accepted'' [] (re_finish_at e) s1 of
                    Inl y \<Rightarrow> ((Inl y, False), fs, s1) | Inr s2 \<Rightarrow> ((Inr Complete, False), fs, s2)))))"

definition record_report :: "report_env \<Rightarrow> string \<Rightarrow> string \<Rightarrow> verdict \<Rightarrow> documents \<Rightarrow> string \<Rightarrow> files \<Rightarrow> db \<Rightarrow> report_result" where
  "record_report e runID deliveryID verdict docs key fs s =
     (if \<not> vf_Valid (VerifyBundle (re_crypto e) (re_bundle e) (report_dir (re_root e) runID) [ed_public (re_bundle e) key] fs)
      then ((Inl (Err ''verify signed report bundle''), False), fs, s)
      else case fs (report_file (re_root e) runID ''manifest.json'') of
          None \<Rightarrow> ((Inl (Err ''read manifest.json''), False), fs, s)
        | Some manifest_bytes \<Rightarrow>
            (case InsertRecord (report_record e runID deliveryID verdict manifest_bytes docs) s of
               Inl x \<Rightarrow> ((Inl x, False), fs, s)
             | Inr s1 \<Rightarrow> (case ReportDestinationForRun runID s1 of
                 Inl x \<Rightarrow> if x = ErrNoReportDestination then ((Inr ReplySuppressed, False), fs, s1) else ((Inl x, False), fs, s1)
               | Inr dest \<Rightarrow> send_report e runID deliveryID docs manifest_bytes dest fs s1)))"

definition reportRun :: "report_env \<Rightarrow> string \<Rightarrow> string \<Rightarrow> files \<Rightarrow> db \<Rightarrow> report_result" where
  "reportRun e runID deliveryID fs s = (case row_by d_delivery_id deliveryID (deliveries s) of
       None \<Rightarrow> ((Inl NoRows, False), fs, s)
     | Some d \<Rightarrow> (case Option.bind (fs (analysis_file (re_root e) runID ''verdict.json'')) (re_verdict_of e) of
         None \<Rightarrow> ((Inl (Err ''read analysis verdict''), False), fs, s)
       | Some verdict \<Rightarrow> (case fs (analysis_file (re_root e) runID ''evidence.json'') of
           None \<Rightarrow> ((Inl (Err ''read analysis evidence''), False), fs, s)
         | Some evidence_bytes \<Rightarrow>
             (case Publish (re_bundle e) (re_root e) (report_input_of e runID deliveryID (d_message_digest d) verdict evidence_bytes) fs of
                (Inl x, fs1) \<Rightarrow> ((Inl x, False), fs1, s)
              | (Inr docs, fs1) \<Rightarrow> (case re_key_file e of
                  None \<Rightarrow> ((Inl (Err ''read signing key''), False), fs1, s)
                | Some pem \<Rightarrow> (case ParsePrivateKey (re_keys e) pem of
                    Inl x \<Rightarrow> ((Inl x, False), fs1, s)
                  | Inr key \<Rightarrow> (case SignAndPublish (re_crypto e) (re_bundle e) (re_root e) runID
                          (report_manifest e deliveryID (d_message_digest d) docs) key fs1 of
                      (Inl x, fs2) \<Rightarrow> ((Inl x, False), fs2, s)
                    | (Inr _, fs2) \<Rightarrow> record_report e runID deliveryID verdict docs key fs2 s)))))))"

definition reporter_round :: "report_env \<Rightarrow> string \<Rightarrow> time \<Rightarrow> time \<Rightarrow> files \<Rightarrow> db \<Rightarrow> round res \<times> files \<times> db" where
  "reporter_round e owner now after fs s =
     (case Claim (re_crypto e) owner ''report'' now (WorkerLease budget_Default) s of
        (Inl x, s1) \<Rightarrow> (Inl x, fs, s1)
      | (Inr None, s1) \<Rightarrow> (Inr Idle, fs, s1)
      | (Inr (Some c), s1) \<Rightarrow> (case reportRun e (run_ID c) (run_DeliveryID c) fs s1 of
          ((Inl x, unknown), fs1, s2) \<Rightarrow>
            (case (if unknown then QuarantineReply (re_crypto e) (run_ID c) owner (''smtp_outcome_unknown: '' @ Error x) after s2
                   else Retry (re_crypto e) (run_ID c) ''report'' (Error x) (after + 1) 3 s2) of
               Inl y \<Rightarrow> (Inl y, fs1, s2) | Inr s3 \<Rightarrow> (Inr Worked, fs1, s3))
        | ((Inr st, _), fs1, s2) \<Rightarrow> (case FinishReport (re_crypto e) (run_ID c) owner st after s2 of
               Inl y \<Rightarrow> (Inl y, fs1, s2) | Inr s3 \<Rightarrow> (Inr Worked, fs1, s3))))"

section \<open>Operator commands\<close>

definition safeID :: "string \<Rightarrow> bool" where
  "safeID i = (length i = 32 \<and> list_all (\<lambda>c. let n = (of_char c :: nat) in (48 \<le> n \<and> n \<le> 57) \<or> (97 \<le> n \<and> n \<le> 102)) i)"

definition redeliver :: "string \<Rightarrow> bool \<Rightarrow> bool \<Rightarrow> bool \<Rightarrow> bool \<Rightarrow> db \<Rightarrow> (run_state \<times> db) res" where
  "redeliver runID json dryRun confirm duplicateRisk s =
     (if \<not> safeID runID \<or> \<not> json \<or> dryRun = confirm
      then Inl (Err ''redeliver requires --run, --json, and exactly one of --dry-run or --confirm'')
      else case row_by r_run_id runID (runs s) of
          None \<Rightarrow> Inl (Err ''find report run'')
        | Some r \<Rightarrow>
            if r_state r \<noteq> ReportDead then Inl (Err ''redelivery allowed only from report_dead'')
            else if Contains (r_last_error r) ''smtp_outcome_unknown'' \<and> \<not> duplicateRisk
            then Inl (Err ''unknown SMTP outcome requires --accept-duplicate-risk after Postfix log reconciliation'')
            else if confirm then bind_res (Redeliver runID s) (\<lambda>s'. Inr (ReportPending, s')) else Inr (ReportDead, s))"

definition copyFixed :: "string \<Rightarrow> string \<Rightarrow> files \<Rightarrow> files res" where
  "copyFixed source destination fs =
     (if fs destination \<noteq> None then Inl (Err ''bundle destination exists'')
      else case fs source of None \<Rightarrow> Inl (Err ''read bundle artifact'') | Some contents \<Rightarrow> Inr (fs(destination \<mapsto> contents)))"

definition bundle_names :: "string list" where
  "bundle_names = [''report.json'', ''report.txt'', ''report.html'', ''manifest.json'', ''manifest.sig'']"

fun copy_all :: "(string \<times> string) list \<Rightarrow> files \<Rightarrow> unit res \<times> files" where
  "copy_all [] fs = (Inr (), fs)"
| "copy_all ((source, destination) # ps) fs = (case copyFixed source destination fs of Inl e \<Rightarrow> (Inl e, fs) | Inr fs1 \<Rightarrow> copy_all ps fs1)"

definition bundle_command :: "string \<Rightarrow> string \<Rightarrow> string \<Rightarrow> files \<Rightarrow> unit res \<times> files" where
  "bundle_command artifacts runID output fs =
     (if \<not> safeID runID \<or> output = [] then (Inl (Err ''bundle requires a valid --run and --output''), fs)
      else copy_all (map (\<lambda>name. (report_file artifacts runID name, path_Join [output, name])) bundle_names) fs)"

definition verifyReport :: "crypto \<Rightarrow> bundle_env \<Rightarrow> key_env \<Rightarrow> string \<Rightarrow> string \<Rightarrow> (string \<times> bool \<times> string option) list option \<Rightarrow> bool \<Rightarrow> files \<Rightarrow> verification res" where
  "verifyReport cr env k bundleDir keys entries json fs =
     (if bundleDir = [] \<or> keys = [] \<or> \<not> json then Inl (Err ''verify-report requires --bundle, --keys, and --json'')
      else case entries of
          None \<Rightarrow> Inl (Err ''read trusted key directory'')
        | Some es \<Rightarrow> bind_res (ReadTrustedPublicKeys k es) (\<lambda>trusted. Inr (VerifyBundle cr env bundleDir trusted fs)))"

definition replay :: "string \<Rightarrow> bool \<Rightarrow> string \<Rightarrow> time \<Rightarrow> db \<Rightarrow> ((string \<times> string) \<times> db) res" where
  "replay runID json next_bytes now s =
     (if \<not> json \<or> runID = [] then Inl (Err ''replay requires --run and --json'')
      else case row_by r_run_id runID (runs s) of
          None \<Rightarrow> Inl (Err ''find replay source'')
        | Some r \<Rightarrow> let next = hex_encode next_bytes in
            bind_res (Replay (r_delivery_id r) next now s) (\<lambda>s'. Inr ((next, r_delivery_id r), s')))"

definition inspect :: "string \<Rightarrow> string \<Rightarrow> bool \<Rightarrow> db \<Rightarrow> (string \<times> run_state) res" where
  "inspect delivery runID json s =
     (if \<not> json \<or> (delivery = [] \<and> runID = []) then Inl (Err ''inspect requires --json and --delivery or --run'')
      else case first_min r_created_at (filter (\<lambda>r. r_run_id r = runID \<or> r_delivery_id r = delivery) (runs s)) of
          None \<Rightarrow> Inl (Err ''inspect'') | Some r \<Rightarrow> Inr (r_run_id r, r_state r))"

section \<open>What a report leaves behind\<close>

lemma publish_all_le: "fs \<subseteq>\<^sub>m snd (publish_all dir ps fs)"
  by (induction dir ps fs rule: publish_all.induct)
    (auto split: sum.split dest: publish_le intro: map_le_trans)

lemma Publish_le: "fs \<subseteq>\<^sub>m snd (Publish env root d fs)"
proof (cases "Render env d")
  case (Inr docs)
  obtain x fs' where p: "publish_all (report_dir root (in_RunID d))
      [(''report.json'', dc_json docs), (''report.txt'', dc_text docs), (''report.html'', dc_html docs)] fs = (x, fs')" by fastforce
  have "fs \<subseteq>\<^sub>m fs'" using publish_all_le [of fs] p by (metis snd_conv)
  then show ?thesis by (cases x) (simp_all add: Publish_def Inr p del: publish_all.simps)
qed (simp add: Publish_def)

lemma Publish_fresh: "Publish env root d fs = (Inr docs, fs') \<Longrightarrow> fs (report_file root (in_RunID d) ''report.json'') = None"
  by (auto simp: Publish_def publish_Inr report_file_def split: sum.splits prod.splits)

lemma SignAndPublish_le: "fs \<subseteq>\<^sub>m snd (SignAndPublish cr env root runID m private fs)"
  by (auto simp: SignAndPublish_def split: sum.split dest!: publish_le intro: map_le_trans)

lemma reportRun_cases:
  obtains (failed) x fs' where "reportRun e runID deliveryID fs s = ((Inl x, False), fs', s)" "fs \<subseteq>\<^sub>m fs'"
  | (signed) dl verdict evidence_bytes docs fs1 pem key fs' where
      "row_by d_delivery_id deliveryID (deliveries s) = Some dl"
      "Option.bind (fs (analysis_file (re_root e) runID ''verdict.json'')) (re_verdict_of e) = Some verdict"
      "fs (analysis_file (re_root e) runID ''evidence.json'') = Some evidence_bytes"
      "Publish (re_bundle e) (re_root e) (report_input_of e runID deliveryID (d_message_digest dl) verdict evidence_bytes) fs = (Inr docs, fs1)"
      "re_key_file e = Some pem" "ParsePrivateKey (re_keys e) pem = Inr key"
      "SignAndPublish (re_crypto e) (re_bundle e) (re_root e) runID (report_manifest e deliveryID (d_message_digest dl) docs) key fs1 = (Inr (), fs')"
      "reportRun e runID deliveryID fs s = record_report e runID deliveryID verdict docs key fs' s" "fs \<subseteq>\<^sub>m fs'"
proof (cases "row_by d_delivery_id deliveryID (deliveries s)")
  case None
  show thesis by (rule failed [OF _ map_le_refl]) (simp add: reportRun_def None)
next
  case dl: (Some dl)
  show thesis
  proof (cases "Option.bind (fs (analysis_file (re_root e) runID ''verdict.json'')) (re_verdict_of e)")
    case None
    show thesis by (rule failed [OF _ map_le_refl]) (simp add: reportRun_def dl None)
  next
    case v: (Some verdict)
    show thesis
    proof (cases "fs (analysis_file (re_root e) runID ''evidence.json'')")
      case None
      show thesis by (rule failed [OF _ map_le_refl]) (simp add: reportRun_def dl v None)
    next
      case ev: (Some evidence_bytes)
      note eq = reportRun_def [of e runID deliveryID fs s, unfolded dl v ev option.case]
      let ?d = "report_input_of e runID deliveryID (d_message_digest dl) verdict evidence_bytes"
      obtain x fs1 where p: "Publish (re_bundle e) (re_root e) ?d fs = (x, fs1)" by force
      have le1: "fs \<subseteq>\<^sub>m fs1" using Publish_le [of fs "re_bundle e" "re_root e" ?d] by (simp add: p)
      show thesis
      proof (cases x)
        case (Inl err)
        show thesis by (rule failed [OF _ le1]) (simp add: eq p Inl)
      next
        case docs: (Inr docs)
        show thesis
        proof (cases "Option.bind (re_key_file e) (\<lambda>pem. case ParsePrivateKey (re_keys e) pem of Inl _ \<Rightarrow> None | Inr key \<Rightarrow> Some (pem, key))")
          case None
          then show thesis
            by (intro failed [OF _ le1, where x = "projl (fst (fst (reportRun e runID deliveryID fs s)))"])
              (auto simp: eq p docs split: option.splits sum.splits)
        next
          case (Some pk)
          then obtain pem key where k: "re_key_file e = Some pem" "ParsePrivateKey (re_keys e) pem = Inr key"
            by (cases "re_key_file e"; cases "ParsePrivateKey (re_keys e) (the (re_key_file e))") auto
          let ?m = "report_manifest e deliveryID (d_message_digest dl) docs"
          obtain y fs2 where sg: "SignAndPublish (re_crypto e) (re_bundle e) (re_root e) runID ?m key fs1 = (y, fs2)" by force
          have le2: "fs \<subseteq>\<^sub>m fs2"
            using map_le_trans [OF le1 SignAndPublish_le [of fs1 "re_crypto e" "re_bundle e" "re_root e" runID ?m key]] by (simp add: sg)
          show thesis
          proof (cases y)
            case (Inl err)
            show thesis by (rule failed [OF _ le2]) (simp add: eq p docs k sg Inl)
          next
            case (Inr u)
            show thesis
              by (rule signed [OF dl v ev p [unfolded docs] k _ _ le2]) (simp_all add: eq p docs k sg Inr)
          qed
        qed
      qed
    qed
  qed
qed

lemma Submit_accepted: "Submit cr address_ok m r = (unknown, Inr ()) \<Longrightarrow> \<not> unknown \<and> mail_accepted cr address_ok m r"
  by (auto simp: Submit_def mail_accepted_def split: sum.splits if_splits)

lemma Submit_unknown: "Submit cr address_ok m r = (True, res) \<Longrightarrow> \<exists>b. Message cr address_ok r = Inr b \<and>
    sm_Write m (ry_EnvelopeFrom r) (ry_Recipient r) b \<and> \<not> sm_Close m (ry_EnvelopeFrom r) (ry_Recipient r) b"
  by (auto simp: Submit_def split: sum.splits if_splits)

lemma eventTx_records: "eventTx cr p st sid et out now s = Inr s' \<Longrightarrow> result_records s' = result_records s"
  by (subst eventTx_frame) simp_all

lemma BeginReportAttempt_row:
  assumes "BeginReportAttempt cr runID dest t s = Inr (a, s')"
  shows "result_records s' = result_records s"
    "report_delivery_attempts s' = report_delivery_attempts s @ [\<lparr>ra_attempt_id = a, ra_run_id = runID, ra_submitter_id = rd_SubmitterID dest,
       ra_reply_address = rd_ReplyAddress dest, ra_started_at = t, ra_finished_at = None, ra_outcome = ''started'', ra_error_class = []\<rparr>]"
proof -
  obtain s1 where s1: "insert_report_attempt \<lparr>ra_attempt_id = a, ra_run_id = runID, ra_submitter_id = rd_SubmitterID dest,
       ra_reply_address = rd_ReplyAddress dest, ra_started_at = t, ra_finished_at = None, ra_outcome = ''started'', ra_error_class = []\<rparr> s = Inr s1"
    "eventTx cr ''reporter'' ''run'' (runID @ '':attempt:'' @ show_int a @ '':started'') ''report_delivery_state'' ''started'' t s1 = Inr s'"
    using assms unfolding BeginReportAttempt_def Let_def by (auto simp only: bind_res_Inr_iff Inr_inject prod.inject)
  have "s1 = s\<lparr>report_delivery_attempts := report_delivery_attempts s @ [\<lparr>ra_attempt_id = a, ra_run_id = runID, ra_submitter_id = rd_SubmitterID dest,
       ra_reply_address = rd_ReplyAddress dest, ra_started_at = t, ra_finished_at = None, ra_outcome = ''started'', ra_error_class = []\<rparr>]\<rparr>"
    using s1(1) by (simp add: insert_report_attempt_def split: if_splits)
  then show "result_records s' = result_records s"
    "report_delivery_attempts s' = report_delivery_attempts s @ [\<lparr>ra_attempt_id = a, ra_run_id = runID, ra_submitter_id = rd_SubmitterID dest,
       ra_reply_address = rd_ReplyAddress dest, ra_started_at = t, ra_finished_at = None, ra_outcome = ''started'', ra_error_class = []\<rparr>]"
    using eventTx_tables(4) [OF s1(2)] eventTx_records [OF s1(2)] by simp_all
qed

lemma FinishReportAttempt_records:
  assumes "FinishReportAttempt cr b out ec now s = Inr s'"
  shows "result_records s' = result_records s"
proof -
  obtain sid f where "eventTx cr ''reporter'' ''run'' sid ''report_delivery_state'' out now (s\<lparr>report_delivery_attempts := f\<rparr>) = Inr s'"
    using FinishReportAttempt_Inr [OF assms] by blast
  from eventTx_records [OF this] show ?thesis by simp
qed

lemma attempt_frames:
  "BeginReportAttempt cr r dest t s = Inr (a, s') \<Longrightarrow> runs s' = runs s \<and> deliveries s' = deliveries s \<and> result_records s' = result_records s"
  "FinishReportAttempt cr b out ec t s = Inr s' \<Longrightarrow> runs s' = runs s \<and> deliveries s' = deliveries s \<and> result_records s' = result_records s"
  using BeginReportAttempt_tables BeginReportAttempt_row(1) FinishReportAttempt_tables FinishReportAttempt_records by metis+

lemma send_report_frame:
  assumes "send_report e runID deliveryID docs manifest_bytes dest fs s = (x, fs', s')"
  shows "fs' = fs" "runs s' = runs s" "deliveries s' = deliveries s" "result_records s' = result_records s"
  using assms
  by (auto simp: send_report_def Let_def commit_def split: sum.splits prod.splits option.splits if_splits
      dest!: attempt_frames)

lemma attempt_outcome:
  assumes start: "BeginReportAttempt cr runID dest t s = Inr (a, s1)" and finish: "FinishReportAttempt cr a out ec now s1 = Inr s'"
  shows "\<exists>x \<in> set (report_delivery_attempts s'). ra_run_id x = runID \<and> ra_reply_address x = rd_ReplyAddress dest \<and> ra_outcome x = out"
proof -
  let ?row = "\<lparr>ra_attempt_id = a, ra_run_id = runID, ra_submitter_id = rd_SubmitterID dest, ra_reply_address = rd_ReplyAddress dest,
     ra_started_at = t, ra_finished_at = None, ra_outcome = ''started'', ra_error_class = []\<rparr>"
  have "?row \<in> set (report_delivery_attempts s1)" by (simp add: BeginReportAttempt_row(2) [OF start])
  then show ?thesis
    by (intro bexI [of _ "?row\<lparr>ra_finished_at := Some now, ra_outcome := out, ra_error_class := ec\<rparr>"])
      (simp_all add: FinishReportAttempt_attempts(1) [OF finish] in_sql_update_iff, intro disjI1 bexI [of _ ?row], simp_all)
qed

lemma send_report_Inr:
  assumes "send_report e runID deliveryID docs manifest_bytes dest fs s = ((Inr st, unknown), fs', s')"
  shows "st = Complete" "\<not> unknown"
    "\<exists>signature. fs (report_file (re_root e) runID ''manifest.sig'') = Some signature \<and>
       mail_accepted (re_crypto e) (re_address_ok e) (re_smtp e) (report_reply deliveryID docs manifest_bytes signature dest)"
    "\<exists>x \<in> set (report_delivery_attempts s'). ra_run_id x = runID \<and> ra_reply_address x = rd_ReplyAddress dest \<and> ra_outcome x = ''accepted''"
  using assms
  by (auto simp: send_report_def Let_def split: sum.splits prod.splits option.splits
      dest!: attempt_outcome dest: Submit_accepted)

lemma InsertRecord_tables: "InsertRecord r s = Inr s' \<Longrightarrow> runs s' = runs s \<and> deliveries s' = deliveries s"
  by (auto simp: InsertRecord_def insert_result_record_def insert_outbox_item_def bind_res_Inr_iff split: if_splits option.splits)

lemma InsertRecord_row:
  assumes "InsertRecord r s = Inr s'"
  shows "\<exists>row \<in> set (result_records s'). rr_run_id row = rr_run_id r \<and> rr_verdict row = rr_verdict r \<and> rr_manifest_digest row = rr_manifest_digest r"
  using InsertRecord_Inr [OF assms] by (auto dest!: row_by_Some)

lemma ReportDestinationForRun_cong: "runs s' = runs s \<Longrightarrow> deliveries s' = deliveries s \<Longrightarrow> ReportDestinationForRun i s' = ReportDestinationForRun i s"
  by (simp add: ReportDestinationForRun_def cong: option.case_cong)

lemma record_report_cases:
  obtains (failed) x where "record_report e runID deliveryID verdict docs key fs s = ((Inl x, False), fs, s)"
  | (recorded) manifest_bytes s1 where
      "vf_Valid (VerifyBundle (re_crypto e) (re_bundle e) (report_dir (re_root e) runID) [ed_public (re_bundle e) key] fs)"
      "fs (report_file (re_root e) runID ''manifest.json'') = Some manifest_bytes"
      "InsertRecord (report_record e runID deliveryID verdict manifest_bytes docs) s = Inr s1"
      "record_report e runID deliveryID verdict docs key fs s = (case ReportDestinationForRun runID s of
         Inl x \<Rightarrow> if x = ErrNoReportDestination then ((Inr ReplySuppressed, False), fs, s1) else ((Inl x, False), fs, s1)
       | Inr dest \<Rightarrow> send_report e runID deliveryID docs manifest_bytes dest fs s1)"
proof (cases "vf_Valid (VerifyBundle (re_crypto e) (re_bundle e) (report_dir (re_root e) runID) [ed_public (re_bundle e) key] fs)")
  case False
  show thesis by (rule failed) (simp add: record_report_def False)
next
  case v: True
  show thesis
  proof (cases "fs (report_file (re_root e) runID ''manifest.json'')")
    case None
    show thesis by (rule failed) (simp add: record_report_def v None)
  next
    case m: (Some manifest_bytes)
    show thesis
    proof (cases "InsertRecord (report_record e runID deliveryID verdict manifest_bytes docs) s")
      case (Inl x)
      show thesis by (rule failed) (simp add: record_report_def v m Inl)
    next
      case (Inr s1)
      have "ReportDestinationForRun runID s1 = ReportDestinationForRun runID s"
        using InsertRecord_tables [OF Inr] by (intro ReportDestinationForRun_cong) simp_all
      note rd = this
      show thesis
        by (rule recorded [OF v m Inr], unfold record_report_def, simp only: v m Inr rd option.case sum.case not_True_eq_False if_False)
    qed
  qed
qed

lemma reportRun_frame:
  assumes "reportRun e runID deliveryID fs s = (x, fs', s')"
  shows "fs \<subseteq>\<^sub>m fs'" "runs s' = runs s" "deliveries s' = deliveries s"
proof -
  have "fs \<subseteq>\<^sub>m fs' \<and> runs s' = runs s \<and> deliveries s' = deliveries s"
  proof (cases rule: reportRun_cases [of e runID deliveryID fs s])
    case (failed y fs'')
    with assms show ?thesis by simp
  next
    case (signed dl verdict evidence_bytes docs fs1 pem key fs2)
    show ?thesis
    proof (cases rule: record_report_cases [of e runID deliveryID verdict docs key fs2 s])
      case (failed y)
      with assms signed(8,9) show ?thesis by simp
    next
      case (recorded manifest_bytes s1)
      note t = InsertRecord_tables [OF recorded(3)]
      show ?thesis
        using assms signed(9) t unfolding signed(8) recorded(4)
        by (auto dest: send_report_frame split: sum.splits if_splits)
    qed
  qed
  then show "fs \<subseteq>\<^sub>m fs'" "runs s' = runs s" "deliveries s' = deliveries s" by simp_all
qed

text \<open>
  C6: A run is reported on verified evidence only. When \<open>reportRun\<close> returns a terminal state, the signed
  bundle in the artifact tree verifies under the reporter's key, the result record of the run carries the
  digest of that manifest and the category of the stored verdict, and no file that existed has
  changed. The state is \<open>reply_suppressed\<close> exactly when the run has no reply destination; otherwise
  it is \<open>complete\<close>, the mail server has accepted the report for the address the run was admitted with,
  and the attempt is recorded as accepted.
\<close>

theorem reported_run:
  assumes "reportRun e runID deliveryID fs s = ((Inr st, unknown), fs', s')"
  shows "\<not> unknown \<and> fs \<subseteq>\<^sub>m fs' \<and> (\<exists>pem key verdict docs manifest_bytes.
     re_key_file e = Some pem \<and> ParsePrivateKey (re_keys e) pem = Inr key \<and>
     vf_Valid (VerifyBundle (re_crypto e) (re_bundle e) (report_dir (re_root e) runID) [ed_public (re_bundle e) key] fs') \<and>
     Option.bind (fs (analysis_file (re_root e) runID ''verdict.json'')) (re_verdict_of e) = Some verdict \<and>
     fs' (report_file (re_root e) runID ''manifest.json'') = Some manifest_bytes \<and>
     (\<exists>row \<in> set (result_records s'). rr_run_id row = runID \<and> rr_verdict row = vd_Category verdict \<and>
        rr_manifest_digest row = digest_of (re_crypto e) manifest_bytes) \<and>
     (case ReportDestinationForRun runID s of
        Inl x \<Rightarrow> x = ErrNoReportDestination \<and> st = ReplySuppressed
      | Inr dest \<Rightarrow> st = Complete \<and> (\<exists>x \<in> set (report_delivery_attempts s'). ra_run_id x = runID \<and>
            ra_reply_address x = rd_ReplyAddress dest \<and> ra_outcome x = ''accepted'') \<and>
          (\<exists>signature. fs' (report_file (re_root e) runID ''manifest.sig'') = Some signature \<and>
             mail_accepted (re_crypto e) (re_address_ok e) (re_smtp e) (report_reply deliveryID docs manifest_bytes signature dest))))"
proof (cases rule: reportRun_cases [of e runID deliveryID fs s])
  case (failed y fs'')
  with assms show ?thesis by simp
next
  case (signed dl verdict evidence_bytes docs fs1 pem key fs2)
  show ?thesis
  proof (cases rule: record_report_cases [of e runID deliveryID verdict docs key fs2 s])
    case (failed y)
    with assms signed(8) show ?thesis by simp
  next
    case (recorded manifest_bytes s1)
    show ?thesis
    proof (cases "ReportDestinationForRun runID s")
      case (Inl x)
      then have r: "x = ErrNoReportDestination" "st = ReplySuppressed" "\<not> unknown" "fs' = fs2" "s' = s1"
        using assms unfolding signed(8) recorded(4) by (simp_all split: if_splits)
      show ?thesis
        using InsertRecord_row [OF recorded(3)] signed(2,5,6,9) recorded(1,2) r
        by (auto simp: Inl report_record_def)
    next
      case (Inr dest)
      then have sent: "send_report e runID deliveryID docs manifest_bytes dest fs2 s1 = ((Inr st, unknown), fs', s')"
        using assms unfolding signed(8) recorded(4) by simp
      show ?thesis
        using InsertRecord_row [OF recorded(3)] signed(2,5,6,9) recorded(1,2) send_report_Inr [OF sent] send_report_frame [OF sent]
        by (auto simp: Inr report_record_def)
    qed
  qed
qed

lemma report_exists_fails:
  assumes "fs (report_file (re_root e) runID ''report.json'') \<noteq> None"
  shows "\<exists>x fs'. reportRun e runID deliveryID fs s = ((Inl x, False), fs', s) \<and> fs \<subseteq>\<^sub>m fs'"
proof (cases rule: reportRun_cases [of e runID deliveryID fs s])
  case (failed x fs')
  then show ?thesis by blast
next
  case (signed dl verdict evidence_bytes docs fs1 pem key fs')
  with assms Publish_fresh [OF signed(4)] show ?thesis by (simp add: report_input_of_def)
qed

lemma reportRun_publishes:
  assumes "reportRun e runID deliveryID fs s = (x, fs', s')" "s' \<noteq> s"
  shows "fs' (report_file (re_root e) runID ''report.json'') \<noteq> None"
proof (cases rule: reportRun_cases [of e runID deliveryID fs s])
  case (failed y fs'')
  with assms show ?thesis by simp
next
  case (signed dl verdict evidence_bytes docs fs1 pem key fs2)
  have "fs2 (report_file (re_root e) runID ''report.json'') \<noteq> None"
    using Publish_files(1) [OF signed(4)] SignAndPublish_files(4) [OF signed(7), of "''report.json''"]
    by (simp add: report_file_def report_input_of_def)
  moreover have "fs' = fs2"
  proof (cases rule: record_report_cases [of e runID deliveryID verdict docs key fs2 s])
    case (failed y)
    with assms(1) signed(8) show ?thesis by simp
  next
    case (recorded manifest_bytes s1)
    show ?thesis using assms(1) unfolding signed(8) recorded(4) by (auto dest: send_report_frame(1) split: sum.splits if_splits)
  qed
  ultimately show ?thesis by simp
qed

text \<open>
  C7: A report is submitted at most once. After a call of \<open>reportRun\<close> that changed the database, so in
  particular after one that began to send, every later call for the run fails before it touches the
  database, whatever has happened in between and however often the run is retried or redelivered: no
  second attempt is begun and no second mail is sent, also when the first was refused.
\<close>

theorem report_sent_at_most_once:
  assumes "reportRun e runID deliveryID fs s = (x, fs1, s1)" "s1 \<noteq> s" "fs1 \<subseteq>\<^sub>m fs2" "re_root e' = re_root e"
  shows "\<exists>y fs3. reportRun e' runID deliveryID' fs2 s2 = ((Inl y, False), fs3, s2)"
proof -
  have "fs2 (report_file (re_root e') runID ''report.json'') \<noteq> None"
    using reportRun_publishes [OF assms(1,2)] map_le_Some [OF assms(3)] assms(4) by auto
  from report_exists_fails [of fs2 e' runID, OF this] show ?thesis by blast
qed

section \<open>A copied bundle\<close>

lemma copyFixed_Inr:
  "copyFixed source destination fs = Inr fs' \<longleftrightarrow> fs destination = None \<and> (\<exists>contents. fs source = Some contents \<and> fs' = fs(destination \<mapsto> contents))"
  by (auto simp: copyFixed_def split: option.splits)

lemma copy_all_copies:
  assumes "copy_all ps fs = (Inr (), fs')"
  shows "fs \<subseteq>\<^sub>m fs' \<and> (\<forall>(src, dst) \<in> set ps. fs' dst = fs' src \<and> fs' src \<noteq> None)"
  using assms
proof (induction ps fs rule: copy_all.induct)
  case (2 src dst ps fs)
  from 2(2) obtain fs1 where c: "copyFixed src dst fs = Inr fs1" and rest: "copy_all ps fs1 = (Inr (), fs')"
    by (auto split: sum.splits)
  from c obtain contents where d: "fs dst = None" "fs src = Some contents" "fs1 = fs(dst \<mapsto> contents)"
    by (auto simp: copyFixed_Inr)
  have le: "fs \<subseteq>\<^sub>m fs1" using d(1,3) by (simp add: map_le_upd_fresh)
  have ih: "fs1 \<subseteq>\<^sub>m fs'" "\<forall>(src, dst) \<in> set ps. fs' dst = fs' src \<and> fs' src \<noteq> None" using 2(1) [OF c rest] by auto
  have "fs' dst = Some contents" "fs' src = Some contents"
    using map_le_Some [OF ih(1)] map_le_Some [OF le d(2)] d(3) by auto
  then show ?case using ih map_le_trans [OF le ih(1)] by simp
qed simp

lemma VerifyBundle_cong:
  assumes "\<And>n. n \<in> set bundle_names \<Longrightarrow> fs (path_Join [dir', n]) = fs (path_Join [dir, n])"
  shows "VerifyBundle cr env dir' trusted fs = VerifyBundle cr env dir trusted fs"
proof -
  have b: "bound_ok cr dir' fs (n, w) = bound_ok cr dir fs (n, w)" if "n \<in> set bundle_names" for n w
    unfolding bound_ok_def prod.case assms [OF that] ..
  have m: "fs (path_Join [dir', ''manifest.json'']) = fs (path_Join [dir, ''manifest.json''])"
    "fs (path_Join [dir', ''manifest.sig'']) = fs (path_Join [dir, ''manifest.sig''])" by (rule assms, simp add: bundle_names_def)+
  have "list_all (bound_ok cr dir' fs) [(''report.json'', a), (''report.txt'', t), (''report.html'', h)] =
      list_all (bound_ok cr dir fs) [(''report.json'', a), (''report.txt'', t), (''report.html'', h)]" for a t h
    by (simp add: b bundle_names_def)
  then show ?thesis unfolding VerifyBundle_def m by (simp only:)
qed

text \<open>
  A copied bundle verifies exactly as the original does. When the bundle command succeeds, its five
  files stand in the output directory, no existing file was changed, and \<open>VerifyBundle\<close> gives the
  same answer on the copy as on the published report, for every set of trusted keys.
\<close>

theorem bundle_verifies_like_original:
  assumes "bundle_command artifacts runID output fs = (Inr (), fs')"
  shows "fs \<subseteq>\<^sub>m fs' \<and> (\<forall>n \<in> set bundle_names. fs' (path_Join [output, n]) \<noteq> None) \<and>
    VerifyBundle cr env output trusted fs' = VerifyBundle cr env (report_dir artifacts runID) trusted fs'"
proof -
  let ?ps = "map (\<lambda>name. (report_file artifacts runID name, path_Join [output, name])) bundle_names"
  have "copy_all ?ps fs = (Inr (), fs')" using assms by (simp add: bundle_command_def split: if_splits)
  note c = copy_all_copies [OF this]
  then have eq: "fs' (path_Join [output, n]) = fs' (path_Join [report_dir artifacts runID, n])" "fs' (path_Join [output, n]) \<noteq> None"
    if "n \<in> set bundle_names" for n
    using that by (auto simp: report_file_def)
  show ?thesis using c eq VerifyBundle_cong [where fs = fs' and dir' = "output" and dir = "report_dir artifacts runID"] by simp
qed

lemma copy_all_total:
  assumes "\<forall>(src, dst) \<in> set ps. fs src \<noteq> None \<and> fs dst = None" "distinct (map snd ps)"
  shows "\<exists>fs'. copy_all ps fs = (Inr (), fs')"
  using assms
proof (induction ps fs rule: copy_all.induct)
  case (2 src dst ps fs)
  then obtain contents where c: "fs src = Some contents" "fs dst = None" by auto
  then have cf: "copyFixed src dst fs = Inr (fs(dst \<mapsto> contents))" by (simp add: copyFixed_def)
  have "\<forall>(src', dst') \<in> set ps. (fs(dst \<mapsto> contents)) src' \<noteq> None \<and> (fs(dst \<mapsto> contents)) dst' = None"
    using 2(2,3) by (force simp: image_iff)
  then have "\<exists>fs'. copy_all ps (fs(dst \<mapsto> contents)) = (Inr (), fs')" by (rule 2(1) [OF cf]) (use 2(3) in simp)
  then show ?case by (simp add: cf)
qed simp

section \<open>Witnesses\<close>

definition const_crypto :: crypto where
  "const_crypto = \<lparr>sha256 = (\<lambda>_. replicate 32 (CHR ''h'')), hmac = (\<lambda>k s. s)\<rparr>"

abbreviation const_digest :: string where
  "const_digest \<equiv> hex_encode (replicate 32 (CHR ''h''))"

definition signed_manifest :: manifest where
  "signed_manifest = \<lparr>mf_Schema = ManifestSchema, mf_DeliveryID = ''d1'', mf_SelectedSubjectDigest = [], mf_DeliveredOriginal = ''dig'', mf_Ingress = [],
      mf_Subjects = [], mf_Evidence = [], mf_Verdict = [], mf_ReportJSON = const_digest, mf_ReportText = const_digest, mf_ReportHTML = const_digest,
      mf_Policy = const_digest, mf_Config = const_digest, mf_AdapterResponses = [], mf_IssuedAt = 7, mf_KeyID = const_digest\<rparr>"

definition example_reporter :: report_env where
  "example_reporter = \<lparr>re_crypto = const_crypto, re_bundle = example_env signed_manifest,
     re_keys = \<lparr>pem_Decode = (\<lambda>_. Some (''PRIVATE KEY'', ''k'', [])), parse_pkcs8 = (\<lambda>_. Some (Ed25519 (replicate 64 (CHR ''k'')))), parse_pkix = (\<lambda>_. None)\<rparr>,
     re_root = ''/a'', re_key_file = Some ''pem'', re_version = ''v'', re_verdict_of = (\<lambda>_. Some ambiguous_verdict), re_address_ok = (\<lambda>_. True),
     re_smtp = \<lparr>sm_Dial = True, sm_Hello = (\<lambda>_. True), sm_Mail = (\<lambda>_. True), sm_Rcpt = (\<lambda>_ _. True), sm_Data = (\<lambda>_ _. True), sm_Write = (\<lambda>_ _ _. True),
       sm_Close = (\<lambda>_ _ _. True), sm_Quit = (\<lambda>_ _ _. True)\<rparr>,
     re_issued_at = 7, re_occurred_at = 8, re_begin_at = 9, re_finish_at = 10\<rparr>"

lemma example_reporter_simps:
  "re_crypto example_reporter = const_crypto" "re_bundle example_reporter = example_env signed_manifest" "re_root example_reporter = ''/a''"
  "re_key_file example_reporter = Some ''pem''" "ParsePrivateKey (re_keys example_reporter) ''pem'' = Inr (replicate 64 (CHR ''k''))"
  "re_verdict_of example_reporter b = Some ambiguous_verdict" "re_address_ok example_reporter = (\<lambda>_. True)"
  "re_issued_at example_reporter = 7" "re_occurred_at example_reporter = 8" "re_begin_at example_reporter = 9" "re_finish_at example_reporter = 10"
  by (simp_all add: example_reporter_def ParsePrivateKey_def)

lemma const_digest_of: "digest_of const_crypto s = const_digest" "sha256 const_crypto s = replicate 32 (CHR ''h'')"
  by (simp_all only: digest_of_def const_crypto_def crypto.simps)

lemma const_digest_hex: "hexDigest const_digest" "const_digest \<noteq> []"
  by (simp_all only: hexDigest_def hexc.dec_enc [OF TrueI] length_hex_encode length_replicate) (simp_all only: hex_encode.simps replicate.simps numeral_eq_Suc pred_numeral_simps, simp_all)

lemma KeyID_const: "KeyID const_crypto (example_env signed_manifest) k = const_digest"
  by (simp only: KeyID_def const_digest_of)

lemma example_render: "\<exists>docs. Render (example_env signed_manifest) (report_input_of example_reporter ''r1'' ''d1'' ''dig'' ambiguous_verdict ev) = Inr docs"
proof -
  have "ce_Validate (report_campaign_evidence const_crypto ev) = Inr ()"
    using const_digest_hex
    by (simp add: ce_Validate_def report_campaign_evidence_def const_digest_of indicator_types_def safeToken_def ContainsAny_def)
  then show ?thesis
    by (simp add: Render_def report_input_of_def example_reporter_simps bind_res_def Let_def) (simp add: example_env_def)
qed

definition example_analysed_files :: files where
  "example_analysed_files = [analysis_file ''/a'' ''r1'' ''verdict.json'' \<mapsto> ''v'', analysis_file ''/a'' ''r1'' ''evidence.json'' \<mapsto> ''e'']"

lemma example_analysed_files:
  "example_analysed_files (analysis_file ''/a'' ''r1'' ''verdict.json'') = Some ''v''"
  "example_analysed_files (analysis_file ''/a'' ''r1'' ''evidence.json'') = Some ''e''"
  using analysis_file_neq [of "''/a''" "''r1''"] by (simp_all add: example_analysed_files_def)

lemma example_report_files: "n \<in> set bundle_names \<Longrightarrow> example_analysed_files (path_Join [report_dir ''/a'' ''r1'', n]) = None"
  by (auto simp: bundle_names_def example_analysed_files_def analysis_file_def report_dir_def path_Join_def Clean_def HasPrefix_def Let_def)

lemma Publish_total:
  assumes "Render env d = Inr docs" "\<And>n. n \<in> set bundle_names \<Longrightarrow> fs (path_Join [report_dir root (in_RunID d), n]) = None"
  shows "\<exists>fs1. Publish env root d fs = (Inr docs, fs1) \<and>
    fs1 (path_Join [report_dir root (in_RunID d), ''manifest.json'']) = None \<and> fs1 (path_Join [report_dir root (in_RunID d), ''manifest.sig'']) = None"
  using assms by (simp add: Publish_def publish_def Let_def report_path_eq bundle_names_def)

definition example_destined :: db where
  "example_destined = (Migrate 0)\<lparr>deliveries := [delivery_row ''d1'' ''dig'' ''k1'' (Some example_dest) 5],
     runs := [lease_run_to ReportLeased ''w'' 100 example_run]\<rparr>"

lemma example_destined_tables:
  "deliveries example_destined = [delivery_row ''d1'' ''dig'' ''k1'' (Some example_dest) 5]"
  "runs example_destined = [lease_run_to ReportLeased ''w'' 100 example_run]" "result_records example_destined = []"
  "report_delivery_attempts example_destined = []" "analytics_events example_destined = []"
  by (simp_all add: example_destined_def Migrate_def)

lemma example_signed:
  "\<exists>docs fs1 fs'. Publish (example_env signed_manifest) ''/a'' (report_input_of example_reporter ''r1'' ''d1'' ''dig'' ambiguous_verdict ''e'')
       example_analysed_files = (Inr docs, fs1) \<and>
     SignAndPublish const_crypto (example_env signed_manifest) ''/a'' ''r1'' (report_manifest example_reporter ''d1'' ''dig'' docs)
       (replicate 64 (CHR ''k'')) fs1 = (Inr (), fs')"
proof -
  let ?d = "report_input_of example_reporter ''r1'' ''d1'' ''dig'' ambiguous_verdict ''e''" and ?k = "replicate 64 (CHR ''k'')"
  have run: "in_RunID ?d = ''r1''" by (simp add: report_input_of_def)
  obtain docs where docs: "Render (example_env signed_manifest) ?d = Inr docs" using example_render by blast
  obtain fs1 where fs1: "Publish (example_env signed_manifest) ''/a'' ?d example_analysed_files = (Inr docs, fs1)"
    "fs1 (path_Join [report_dir ''/a'' ''r1'', ''manifest.json'']) = None" "fs1 (path_Join [report_dir ''/a'' ''r1'', ''manifest.sig'']) = None"
    using Publish_total [OF docs, of example_analysed_files "''/a''"] example_report_files unfolding run by blast
  have m: "(report_manifest example_reporter ''d1'' ''dig'' docs)\<lparr>mf_KeyID := const_digest\<rparr> = signed_manifest"
    by (simp only: report_manifest_def signed_manifest_def example_reporter_simps const_digest_of runtimeDigest_def manifest.simps)
  have "Bytes (example_env signed_manifest) signed_manifest = Inr (''m'' @ [LF])"
    using const_digest_hex(2) by (simp add: Bytes_def signed_manifest_def zero_time_def example_env_def)
  then have "Sign const_crypto (example_env signed_manifest) (report_manifest example_reporter ''d1'' ''dig'' docs) ?k = Inr (''m'' @ [LF], ?k @ ''m'' @ [LF])"
    unfolding Sign_def KeyID_const m by (simp add: example_env_def)
  then have "\<exists>fs'. SignAndPublish const_crypto (example_env signed_manifest) ''/a'' ''r1'' (report_manifest example_reporter ''d1'' ''dig'' docs) ?k fs1 = (Inr (), fs')"
    unfolding SignAndPublish_def using fs1(2,3) by (simp add: publish_def Let_def report_path_eq)
  with fs1(1) show ?thesis by blast
qed

lemma example_verifies:
  assumes "Publish (example_env signed_manifest) ''/a'' (report_input_of example_reporter ''r1'' ''d1'' ''dig'' ambiguous_verdict ''e'')
       example_analysed_files = (Inr docs, fs1)"
    "SignAndPublish const_crypto (example_env signed_manifest) ''/a'' ''r1'' (report_manifest example_reporter ''d1'' ''dig'' docs)
       (replicate 64 (CHR ''k'')) fs1 = (Inr (), fs')"
  shows "vf_Valid (VerifyBundle const_crypto (example_env signed_manifest) (report_dir ''/a'' ''r1'')
      [ed_public (example_env signed_manifest) (replicate 64 (CHR ''k''))] fs')"
    "\<exists>sig. fs' (report_file ''/a'' ''r1'' ''manifest.json'') = Some (''m'' @ [LF]) \<and> fs' (report_file ''/a'' ''r1'' ''manifest.sig'') = Some sig"
proof -
  let ?k = "replicate 64 (CHR ''k'')"
  note p = Publish_files [OF assms(1)] and sg = SignAndPublish_files [OF assms(2)]
  have r: "in_RunID (report_input_of example_reporter ''r1'' ''d1'' ''dig'' ambiguous_verdict ''e'') = ''r1''" by (simp add: report_input_of_def)
  have files: "fs' (path_Join [report_dir ''/a'' ''r1'', ''report.json'']) = Some (dc_json docs)" "fs' (path_Join [report_dir ''/a'' ''r1'', ''report.txt'']) = Some (dc_text docs)"
    "fs' (path_Join [report_dir ''/a'' ''r1'', ''report.html'']) = Some (dc_html docs)"
    using sg(4) p unfolding r by simp_all
  have env: "manifest_of (example_env signed_manifest) b = Some signed_manifest" "manifest_json (example_env signed_manifest) n = ''m''"
    "ed_sign (example_env signed_manifest) ?k b = ?k @ b" "ed_public (example_env signed_manifest) ?k = ?k"
    "ed_verify (example_env signed_manifest) ?k b (?k @ b)" for b n
    by (simp_all only: example_env_def bundle_env.simps)
  have "Bytes (example_env signed_manifest) signed_manifest = Inr (''m'' @ [LF])"
    using const_digest_hex(2) by (simp add: Bytes_def signed_manifest_def zero_time_def example_env_def)
  moreover have "mf_KeyID signed_manifest = const_digest" "mf_ReportJSON signed_manifest = const_digest" "mf_ReportText signed_manifest = const_digest"
    "mf_ReportHTML signed_manifest = const_digest" by (simp_all only: signed_manifest_def manifest.simps)
  ultimately show "vf_Valid (VerifyBundle const_crypto (example_env signed_manifest) (report_dir ''/a'' ''r1'') [ed_public (example_env signed_manifest) ?k] fs')"
    unfolding VerifyBundle_def sg(2,3) [unfolded env] option.case env Let_def Verify_def
    by (simp add: KeyID_const env bound_ok_def files const_digest_of)
  show "\<exists>sig. fs' (report_file ''/a'' ''r1'' ''manifest.json'') = Some (''m'' @ [LF]) \<and> fs' (report_file ''/a'' ''r1'' ''manifest.sig'') = Some sig"
    using sg(2,3) unfolding env by (simp add: report_file_def)
qed

lemma example_attempt:
  assumes "runs s = runs example_destined" "report_delivery_attempts s = []"
  shows "\<exists>s1 s2. BeginReportAttempt const_crypto ''r1'' example_dest 9 s = Inr (1, s1) \<and> FinishReportAttempt const_crypto 1 ''accepted'' [] 10 s1 = Inr s2"
proof -
  let ?row = "\<lparr>ra_attempt_id = 1, ra_run_id = ''r1'', ra_submitter_id = rd_SubmitterID example_dest, ra_reply_address = rd_ReplyAddress example_dest,
     ra_started_at = 9, ra_finished_at = None, ra_outcome = ''started'', ra_error_class = []\<rparr>"
  have ev: "\<exists>s'. eventTx const_crypto ''reporter'' ''run'' (CHR ''r'' # sid) ''report_delivery_state'' out now s = Inr s'"
    if "out \<in> {''started'', ''accepted''}" for sid out now s
    by (rule eventTx_total) (use that in \<open>auto simp: analytics_allowed_def\<close>)
  have "insert_report_attempt ?row s = Inr (s\<lparr>report_delivery_attempts := [?row]\<rparr>)"
    using assms by (simp add: insert_report_attempt_def example_destined_tables example_run_def new_run_def lease_run_to_def parent_def)
  moreover obtain s1 where s1: "eventTx const_crypto ''reporter'' ''run'' (''r1'' @ '':attempt:'' @ show_int 1 @ '':started'') ''report_delivery_state'' ''started'' 9
      (s\<lparr>report_delivery_attempts := [?row]\<rparr>) = Inr s1"
    using ev [where out = "''started''" and sid = "''1:attempt:'' @ show_int 1 @ '':started''" and now = 9 and s = "s\<lparr>report_delivery_attempts := [?row]\<rparr>"]
    by auto
  ultimately have b: "BeginReportAttempt const_crypto ''r1'' example_dest 9 s = Inr (1, s1)"
    using assms by (simp add: BeginReportAttempt_def next_rowid_def bind_res_def)
  have "report_delivery_attempts s1 = [?row]" using BeginReportAttempt_row(2) [OF b] assms by simp
  then have "\<exists>s2. FinishReportAttempt const_crypto 1 ''accepted'' [] 10 s1 = Inr s2"
    unfolding FinishReportAttempt_def Let_def using ev [of "''accepted''"] by simp
  with b show ?thesis by blast
qed

lemma example_complete:
  "\<exists>fs' s'. reportRun example_reporter ''r1'' ''d1'' example_analysed_files example_destined = ((Inr Complete, False), fs', s') \<and> s' \<noteq> example_destined"
proof -
  obtain docs fs1 fs' where p: "Publish (example_env signed_manifest) ''/a'' (report_input_of example_reporter ''r1'' ''d1'' ''dig'' ambiguous_verdict ''e'')
       example_analysed_files = (Inr docs, fs1)"
    and sg: "SignAndPublish const_crypto (example_env signed_manifest) ''/a'' ''r1'' (report_manifest example_reporter ''d1'' ''dig'' docs)
       (replicate 64 (CHR ''k'')) fs1 = (Inr (), fs')"
    using example_signed by blast
  note v = example_verifies [OF p sg]
  obtain sig where m: "fs' (report_file ''/a'' ''r1'' ''manifest.json'') = Some (''m'' @ [LF])" "fs' (report_file ''/a'' ''r1'' ''manifest.sig'') = Some sig"
    using v(2) by blast
  let ?row = "report_record example_reporter ''r1'' ''d1'' ambiguous_verdict (''m'' @ [LF]) docs"
  have "InsertRecord ?row example_destined = Inr (example_destined\<lparr>result_records := [?row]\<rparr>)"
    by (simp add: InsertRecord_def report_record_def example_reporter_simps const_digest_of const_digest_hex(2) zero_time_def ambiguous_verdict_def
        path_Join_def Clean_def HasPrefix_def Let_def example_destined_tables insert_result_record_def campaignEligible_def bind_res_def check_all.simps
        example_run_def new_run_def lease_run_to_def delivery_row_def parent_def)
  then obtain s1 where s1: "InsertRecord ?row example_destined = Inr s1" "s1 = example_destined\<lparr>result_records := [?row]\<rparr>" by blast
  obtain s2 s3 where a: "BeginReportAttempt const_crypto ''r1'' example_dest 9 s1 = Inr (1, s2)" "FinishReportAttempt const_crypto 1 ''accepted'' [] 10 s2 = Inr s3"
    using example_attempt [of s1] s1(2) by (auto simp: example_destined_tables)
  have dest: "ReportDestinationForRun ''r1'' s1 = Inr example_dest"
    by (simp add: ReportDestinationForRun_def s1(2) example_destined_tables example_run_def new_run_def lease_run_to_def delivery_row_def example_dest_def)
  have msg: "\<exists>b. Message const_crypto (\<lambda>_. True) (report_reply ''d1'' docs (''m'' @ [LF]) sig example_dest) = Inr b"
    by (simp add: Message_def report_reply_def example_dest_def ContainsAny_def CRLF_def Let_def)
  then have sub: "Submit const_crypto (\<lambda>_. True) (re_smtp example_reporter) (report_reply ''d1'' docs (''m'' @ [LF]) sig example_dest) = (False, Inr ())"
    by (auto simp: Submit_def example_reporter_def)
  have "send_report example_reporter ''r1'' ''d1'' docs (''m'' @ [LF]) example_dest fs' s1 = ((Inr Complete, False), fs', s3)"
    unfolding send_report_def example_reporter_simps a(1) sum.case prod.case m(2) option.case sub a(2) ..
  then have rec: "record_report example_reporter ''r1'' ''d1'' ambiguous_verdict docs (replicate 64 (CHR ''k'')) fs' example_destined = ((Inr Complete, False), fs', s3)"
    unfolding record_report_def example_reporter_simps m(1) option.case s1(1) sum.case dest using v(1) by simp
  have d: "row_by d_delivery_id ''d1'' (deliveries example_destined) = Some (delivery_row ''d1'' ''dig'' ''k1'' (Some example_dest) 5)"
    "d_message_digest (delivery_row ''d1'' ''dig'' ''k1'' (Some example_dest) 5) = ''dig''"
    by (simp_all add: example_destined_tables delivery_row_def)
  have "reportRun example_reporter ''r1'' ''d1'' example_analysed_files example_destined = ((Inr Complete, False), fs', s3)"
    unfolding reportRun_def d option.case example_reporter_simps(1-4) example_analysed_files Option.bind.simps
    using p sg rec by (simp add: example_reporter_simps)
  moreover have "s3 \<noteq> example_destined"
    using attempt_outcome [OF a] by (auto simp: example_destined_tables)
  ultimately show ?thesis by blast
qed

theorem reported_run_witness:
  "\<exists>fs' s'. reportRun example_reporter ''r1'' ''d1'' example_analysed_files example_destined = ((Inr Complete, False), fs', s') \<and>
     (\<exists>row \<in> set (result_records s'). rr_run_id row = ''r1'' \<and> rr_verdict row = Indeterminate)"
proof -
  obtain fs' s' where r: "reportRun example_reporter ''r1'' ''d1'' example_analysed_files example_destined = ((Inr Complete, False), fs', s')"
    using example_complete by blast
  have "vd_Category ambiguous_verdict = Indeterminate" by (simp add: ambiguous_verdict_def)
  with reported_run [OF r] r show ?thesis by (fastforce simp: example_reporter_simps bind_eq_Some_conv)
qed

theorem report_sent_at_most_once_witness:
  "\<exists>fs' s'. reportRun example_reporter ''r1'' ''d1'' example_analysed_files example_destined = ((Inr Complete, False), fs', s') \<and>
     (\<exists>y fs''. reportRun example_reporter ''r1'' ''d1'' fs' s' = ((Inl y, False), fs'', s'))"
proof -
  obtain fs' s' where r: "reportRun example_reporter ''r1'' ''d1'' example_analysed_files example_destined = ((Inr Complete, False), fs', s')"
    "s' \<noteq> example_destined" using example_complete by blast
  from report_sent_at_most_once [OF r map_le_refl refl] r(1) show ?thesis by blast
qed

theorem bundle_verifies_like_original_witness:
  "\<exists>fs fs'. bundle_command ''/a'' (replicate 32 (CHR ''0'')) ''/o'' fs = (Inr (), fs') \<and>
     VerifyBundle const_crypto (example_env signed_manifest) ''/o'' [] fs' =
       VerifyBundle const_crypto (example_env signed_manifest) (report_dir ''/a'' (replicate 32 (CHR ''0''))) [] fs'"
proof -
  let ?i = "replicate 32 (CHR ''0'')"
  define fs :: files where "fs = (\<lambda>p. if p \<in> set (map (report_file ''/a'' ?i) bundle_names) then Some ''x'' else None)"
  have "\<exists>fs'. copy_all (map (\<lambda>name. (report_file ''/a'' ?i name, path_Join [''/o'', name])) bundle_names) fs = (Inr (), fs')"
    by (rule copy_all_total)
      (simp_all add: fs_def bundle_names_def report_file_def report_dir_def path_Join_def Clean_def HasPrefix_def Let_def numeral_eq_Suc)
  then obtain fs' where "copy_all (map (\<lambda>name. (report_file ''/a'' ?i name, path_Join [''/o'', name])) bundle_names) fs = (Inr (), fs')" by blast
  moreover have "safeID ?i" unfolding safeID_def by (simp add: list_all_iff)
  ultimately have "bundle_command ''/a'' ?i ''/o'' fs = (Inr (), fs')" by (simp add: bundle_command_def)
  from bundle_verifies_like_original [OF this] this show ?thesis by blast
qed

end
