(* ===== verification/Commands.thy ===== *)
theory Commands
  imports Delivery Intel Launch
begin

text \<open>
  The commands of \<open>cmd/mailproof/main.go\<close> that act once: the dispatch and the exit code, the operator commands
  \<open>submitter\<close> and \<open>intel\<close>, and for every program that writes the database without working on runs the lemma that it keeps
  the tables of deliveries and runs.
\<close>

section \<open>Dispatch and exit\<close>

definition errCollectorLeaseHeld :: err where "errCollectorLeaseHeld = Err ''collector lease is held''"
definition ErrCanceled :: err where "ErrCanceled = Err ''context canceled''"
definition ErrDeadline :: err where "ErrDeadline = Err ''context deadline exceeded''"

definition exitCode :: "err \<Rightarrow> int" where
  "exitCode e = (if e = errCollectorLeaseHeld then 3 else 2)"

definition main_exit :: "'a res \<Rightarrow> int" where
  "main_exit r = (case r of Inr _ \<Rightarrow> 0 | Inl e \<Rightarrow> if e = ErrCanceled then 0 else exitCode e)"

definition command_names :: "string list" where
  "command_names = [''version'', ''collect'', ''worker'', ''reporter'', ''analytics-projector'', ''intel-projector'', ''intel'', ''analytics'',
     ''results-api'', ''dashboard'', ''control-api'', ''status'', ''inspect'', ''replay'', ''bundle'', ''verify-report'', ''redeliver'', ''submitter'', ''admission'']"

definition run_dispatch :: "string list \<Rightarrow> (string \<times> string list) res" where
  "run_dispatch args = (case args of
       [] \<Rightarrow> Inl (Err ''usage: mailproof'')
     | c # rest \<Rightarrow> if c \<in> set command_names then Inr (c, rest) else Inl (Err ''unknown command''))"

record status_line =
  sl_command :: string
  sl_status :: string
  sl_count :: int

definition emitStatus :: "string \<Rightarrow> string \<Rightarrow> int \<Rightarrow> status_line res" where
  "emitStatus c st n = Inr \<lparr>sl_command = c, sl_status = st, sl_count = n\<rparr>"

definition status_command :: "bool \<Rightarrow> string \<Rightarrow> (string \<times> string) list res" where
  "status_command json version = (if \<not> json then Inl (Err ''status requires --json'')
     else Inr [(''status'', ''ok''), (''version'', version)])"

definition randomID :: "string option \<Rightarrow> string res" where
  "randomID bytes = (case bytes of None \<Rightarrow> Inl (Err ''generate identifier'') | Some b \<Rightarrow> Inr (hex_encode b))"

definition readLines :: "os_files \<Rightarrow> string \<Rightarrow> string list" where
  "readLines os path = (if path = [] then [] else case os_Read os path of None \<Rightarrow> [] | Some raw \<Rightarrow> Split LF raw)"

text \<open>\<open>decode\<close> is what \<open>json.Unmarshal\<close> leaves in the map, also when it fails part of the way.\<close>

definition readRegistry :: "os_files \<Rightarrow> (string \<Rightarrow> (string \<rightharpoonup> string)) \<Rightarrow> string \<Rightarrow> (string \<rightharpoonup> string)" where
  "readRegistry os decode path = (if path = [] then Map.empty else case os_Read os path of None \<Rightarrow> Map.empty | Some raw \<Rightarrow> decode raw)"

section \<open>Submitters\<close>

text \<open>\<open>postfixMailer.Send\<close>: the message handed to \<open>smtp.SendMail\<close>, whose answer is a parameter.\<close>

definition enrollment_message :: "crypto \<Rightarrow> string \<Rightarrow> string \<Rightarrow> string \<Rightarrow> string" where
  "enrollment_message cr to subject body =
     (let crlf = [CHR 0x0D, CHR 0x0A] in
      ''To: '' @ to @ crlf @ ''Subject: '' @ subject @ crlf @ ''Message-ID: <mailproof-enrollment-'' @
      hex_encode (take 16 (sha256 cr (to @ [CHR 0x00] @ body))) @ ''@mailproof>'' @ crlf @ crlf @ body)"

definition postfix_Send :: "crypto \<Rightarrow> (string \<Rightarrow> string \<Rightarrow> err option) \<Rightarrow> mailer" where
  "postfix_Send cr smtp to subject body = smtp to (enrollment_message cr to subject body)"

record submitter_flags =
  sf_keyFile :: string
  sf_keyID :: string
  sf_domain :: string
  sf_email :: string
  sf_code :: string
  sf_id :: string
  sf_dryRun :: bool
  sf_confirm :: bool
  sf_json :: bool

record submitter_world =
  sw_ascii :: to_ascii
  sw_smtp :: "string \<Rightarrow> string \<Rightarrow> err option"
  sw_bytes1 :: string
  sw_bytes2 :: string
  sw_bytes3 :: string
  sw_now :: time

text \<open>What is encoded on the output: the answer of a dry run or of the operation.\<close>

datatype submitter_output =
    Would string string
  | Challenged challenge_info
  | Activated activation
  | Listed "submitter list"
  | Revoked_ID string
  | Rotated string string

definition submitter_dry :: "to_ascii \<Rightarrow> string \<Rightarrow> submitter_flags \<Rightarrow> submitter_output res" where
  "submitter_dry ta verb f =
     (if verb = ''challenge'' then bind_res (CanonicalAddress ta (sf_email f)) (\<lambda>_. Inr (Would verb (sf_email f)))
      else if verb = ''activate'' then
        (case CanonicalAddress ta (sf_email f) of
           Inl _ \<Rightarrow> Inl (Err ''submitter activate requires --email and --code'')
         | Inr _ \<Rightarrow> if sf_code f = [] then Inl (Err ''submitter activate requires --email and --code'') else Inr (Would verb (sf_email f)))
      else if verb = ''revoke'' \<or> verb = ''rotate'' then
        (if \<not> safeID (sf_id f) then Inl (Err (''submitter '' @ verb @ '' requires a valid --id'')) else Inr (Would verb (sf_id f)))
      else Inl (Err ''unknown submitter command''))"

definition submitter_apply :: "crypto \<Rightarrow> submitter_world \<Rightarrow> service \<Rightarrow> string \<Rightarrow> submitter_flags \<Rightarrow> db \<Rightarrow> submitter_output res \<times> db" where
  "submitter_apply cr w svc verb f s =
     (if verb = ''challenge'' then
        (if sf_email f = [] then (Inl (Err ''submitter challenge requires --email''), s)
         else case Challenge cr (sw_ascii w) svc (Some (postfix_Send cr (sw_smtp w))) (sw_bytes1 w) (sw_bytes2 w) (sw_bytes3 w) (sw_now w) (sf_email f) s of
             (Inl e, s') \<Rightarrow> (Inl e, s') | (Inr c, s') \<Rightarrow> (Inr (Challenged c), s'))
      else if verb = ''activate'' then
        (if sf_email f = [] \<or> sf_code f = [] then (Inl (Err ''submitter activate requires --email and --code''), s)
         else case Activate cr (sw_ascii w) svc (sw_bytes1 w) (sw_bytes2 w) (sw_now w) (sf_email f) (sf_code f) s of
             Inl e \<Rightarrow> (Inl e, s) | Inr (a, s') \<Rightarrow> (Inr (Activated a), s'))
      else if verb = ''list'' then (Inr (Listed (List s)), s)
      else if verb = ''revoke'' then
        (if \<not> safeID (sf_id f) then (Inl (Err ''submitter revoke requires a valid --id''), s)
         else case Revoke (sf_id f) (sw_now w) s of Inl e \<Rightarrow> (Inl e, s) | Inr s' \<Rightarrow> (Inr (Revoked_ID (sf_id f)), s'))
      else if verb = ''rotate'' then
        (if \<not> safeID (sf_id f) then (Inl (Err ''submitter rotate requires a valid --id''), s)
         else case Rotate cr svc (sw_bytes1 w) (sw_bytes2 w) (sw_now w) (sf_id f) s of
             Inl e \<Rightarrow> (Inl e, s) | Inr (a, s') \<Rightarrow> (Inr (Rotated (sf_id f) a), s'))
      else (Inl (Err ''unknown submitter command''), s))"

definition submitterCommand :: "crypto \<Rightarrow> os_files \<Rightarrow> submitter_world \<Rightarrow> string list \<Rightarrow> submitter_flags \<Rightarrow> db \<Rightarrow> submitter_output res \<times> db" where
  "submitterCommand cr os w args f s = (case args of
       [] \<Rightarrow> (Inl (Err ''usage: mailproof submitter {challenge|activate|list|revoke|rotate}''), s)
     | verb # _ \<Rightarrow>
         if \<not> sf_json f then (Inl (Err ''submitter commands require --json''), s)
         else if verb \<noteq> ''list'' \<and> sf_dryRun f = sf_confirm f
         then (Inl (Err ''state-changing submitter commands require exactly one of --dry-run or --confirm''), s)
         else if verb = ''list'' \<and> (sf_dryRun f \<or> sf_confirm f) then (Inl (Err ''submitter list does not accept --dry-run or --confirm''), s)
         else if sf_dryRun f then (submitter_dry (sw_ascii w) verb f, s)
         else case os_Read os (sf_keyFile f) of
             None \<Rightarrow> (Inl (Err ''read capability HMAC key''), s)
           | Some key \<Rightarrow> submitter_apply cr w \<lparr>CapabilityKey = key, CapabilityKeyID = sf_keyID f, svc_Domain = sf_domain f\<rparr> verb f s)"

section \<open>Campaign commands\<close>

record intel_flags =
  if_version :: string
  if_dryRun :: bool
  if_confirm :: bool
  if_keyFile :: string

definition activate_version :: "string \<Rightarrow> db \<Rightarrow> db" where
  "activate_version version s = s\<lparr>campaign_projections := map (\<lambda>c. c\<lparr>cp_active := (cp_projection_version c = version)\<rparr>) (campaign_projections s)\<rparr>"

definition read_indicator_key :: "os_files \<Rightarrow> string \<Rightarrow> string res" where
  "read_indicator_key os path = (case os_Perm os path of
       None \<Rightarrow> Inl (Err ''indicator key must be a readable 0600 file'')
     | Some perm \<Rightarrow>
         if shared_mode perm then Inl (Err ''indicator key must be a readable 0600 file'')
         else read_long os path ''indicator key must contain at least 32 bytes'')"

definition intelCommand :: "crypto \<Rightarrow> os_files \<Rightarrow> string list \<Rightarrow> intel_flags \<Rightarrow> string list \<Rightarrow> time \<Rightarrow> db \<Rightarrow> status_line res \<times> db" where
  "intelCommand cr os args f order now s = (case args of
       [] \<Rightarrow> (Inl (Err ''usage: mailproof intel {rebuild|activate}''), s)
     | verb # _ \<Rightarrow>
         if verb \<noteq> ''rebuild'' \<and> verb \<noteq> ''activate'' then (Inl (Err ''usage: mailproof intel {rebuild|activate}''), s)
         else if if_dryRun f = if_confirm f \<or> if_version f = []
         then (Inl (Err ''intel operation requires exactly one of --dry-run or --confirm and a policy version''), s)
         else if if_dryRun f then (emitStatus (''intel-'' @ verb) ''dry-run'' 0, s)
         else if verb = ''activate'' then (emitStatus ''intel-activate'' ''completed'' 0, activate_version (if_version f) s)
         else case read_indicator_key os (if_keyFile f) of
             Inl e \<Rightarrow> (Inl e, s)
           | Inr key \<Rightarrow> (case RebuildComponents cr key (if_version f) order now s of
               Inl e \<Rightarrow> (Inl e, s) | Inr s' \<Rightarrow> (emitStatus ''intel-rebuild'' ''completed'' 0, s')))"

section \<open>Dry runs and activation\<close>

text \<open>A dry run, a listing and a refused invocation of \<open>submitter\<close> or \<open>intel\<close> leave the database as it is.\<close>

lemma dry_run_inert:
  "sf_dryRun f \<or> \<not> sf_confirm f \<Longrightarrow> snd (submitterCommand cr os w args f s) = s"
  "if_dryRun g \<or> \<not> if_confirm g \<Longrightarrow> snd (intelCommand cr os args g order now s) = s"
  by (auto simp: submitterCommand_def submitter_apply_def intelCommand_def split: list.splits option.splits)

text \<open>
  Activating a version makes every campaign of the version active, also those a rebuild had superseded.
\<close>

lemma activation_revives_superseded:
  assumes "c \<in> set (campaign_projections s)" "cp_projection_version c = version" "\<not> cp_active c" "cp_superseded_by c \<noteq> []"
  shows "\<exists>c' \<in> set (campaign_projections (activate_version version s)). cp_campaign_id c' = cp_campaign_id c \<and> cp_active c' \<and> cp_superseded_by c' \<noteq> []"
  using assms by (auto simp: activate_version_def intro!: rev_bexI [OF assms(1)])

section \<open>What the other programs leave alone\<close>

text \<open>Deliveries and runs are written by the collector, the worker, the reporter, \<open>replay\<close> and \<open>redeliver\<close> only.\<close>

definition same_runs :: "db \<Rightarrow> db \<Rightarrow> bool" where
  "same_runs s s' = (runs s' = runs s \<and> deliveries s' = deliveries s)"

lemma same_runs_refl [simp]: "same_runs s s"
  by (simp add: same_runs_def)

lemma same_runs_trans: "same_runs s t \<Longrightarrow> same_runs t u \<Longrightarrow> same_runs s u"
  by (simp add: same_runs_def)

lemma import_lines_same: "import_lines ta now ls s = Inr s' \<Longrightarrow> same_runs s s' \<and> collector_lease s' = collector_lease s"
  by (induction ta now ls s rule: import_lines.induct)
    (auto simp: bind_res_Inr_iff insert_policy_rule_def same_runs_def split: if_splits)

lemma BootstrapImport_same:
  assumes "BootstrapImport cr ta raw ids now s = Inr s'"
  shows "same_runs s s' \<and> collector_lease s' = collector_lease s"
proof (cases "policy_bootstrap s \<noteq> None \<or> sql_count (\<lambda>v. pv_version v > 0) (policy_versions s) \<noteq> 0")
  case True
  with assms show ?thesis by (auto simp: BootstrapImport_def Let_def same_runs_def split: if_splits)
next
  case False
  with assms obtain t u ls where t: "insert_policy_version \<lparr>pv_version = 1, pv_created_at = now, pv_command_id = ''bootstrap-import'',
      pv_digest = hex_encode (sha256 cr raw)\<rparr> s = Inr t" "import_lines ta now ls t = Inr u" "s' = u\<lparr>policy_bootstrap := Some (now, hex_encode (sha256 cr raw))\<rparr>"
    by (auto simp: BootstrapImport_def Let_def bind_res_Inr_iff)
  have "runs t = runs s" "deliveries t = deliveries s" "collector_lease t = collector_lease s"
    using t(1) by (auto simp: insert_policy_version_def split: if_splits)
  with import_lines_same [OF t(2)] show ?thesis by (simp add: t(3) same_runs_def)
qed

lemma handle_same: "same_runs s (snd (handle cr ta spf svc snap id_bytes now eof input s))"
proof -
  have "Admit cr ta spf svc snap id_bytes now r s = (x, s') \<Longrightarrow> same_runs s s'" for r x s'
    by (drule Admit_rd) (simp add: same_runs_def)
  then show ?thesis by (auto simp: handle_def split: option.split sum.split prod.split admit_result.split)
qed

lemma ConsumeStamp_same: "same_runs s (snd (ConsumeStamp cr svc hs q now s))"
  by (auto simp: ConsumeStamp_def same_runs_def split: sum.split option.split)

lemma leases_same:
  "same_runs s (snd (AcquireCollectorLease w now d s))" "same_runs s (ReleaseCollectorLease w s)"
  "same_runs s (snd (acquireAnalyticsLease w now d s))" "same_runs s (releaseAnalyticsLease w s)"
  by (auto simp: same_runs_def AcquireCollectorLease_def ReleaseCollectorLease_def acquireAnalyticsLease_def releaseAnalyticsLease_def split: option.split)

lemma analytics_same:
  "ProjectOnce n s = Inr (k, s') \<Longrightarrow> same_runs s s'"
  "analyticsCommand a now s = Inr (x, s') \<Longrightarrow> same_runs s s'"
proof -
  show "ProjectOnce n s = Inr (k, s') \<Longrightarrow> same_runs s s'"
    by (auto simp: same_runs_def ProjectOnce_def Let_def split: if_splits prod.splits)
  have w: "same_runs s (RebuildWindow a b s)" for a b by (simp add: same_runs_def RebuildWindow_def Let_def)
  have r: "same_runs s (rebuild_all s)" using w by (auto simp: rebuild_all_def Let_def split: list.split)
  have t: "retain d now s = Inr (y, s1) \<Longrightarrow> same_runs s s1" for d y s1
    by (auto simp: retain_def Let_def same_runs_def split: if_splits)
  show "analyticsCommand a now s = Inr (x, s') \<Longrightarrow> same_runs s s'"
    using w r t by (cases x) (auto simp: analyticsCommand_def Let_def bind_res_Inr_iff split: if_splits)
qed

lemma inserts_same:
  "insert_submitter a s = Inr s' \<Longrightarrow> same_runs s s'" "update_submitters P f s = Inr s' \<Longrightarrow> same_runs s s'"
  "insert_challenge b s = Inr s' \<Longrightarrow> same_runs s s'" "insert_capability c s = Inr s' \<Longrightarrow> same_runs s s'"
  "insert_policy_version d s = Inr s' \<Longrightarrow> same_runs s s'" "insert_policy_rule e s = Inr s' \<Longrightarrow> same_runs s s'"
  "insert_confirmation_token g s = Inr s' \<Longrightarrow> same_runs s s'"
  "insert_control_command h s = Inr s' \<Longrightarrow> same_runs s s'" "insert_audit_event i s = Inr s' \<Longrightarrow> same_runs s s'"
  by (auto simp: insert_defs update_submitters_def Let_def same_runs_def split: if_splits)

lemma same_runs_caps: "same_runs (s\<lparr>submission_capabilities := x\<rparr>) s' = same_runs s s'" "same_runs (s\<lparr>submitter_challenges := y\<rparr>) s' = same_runs s s'"
  by (simp_all add: same_runs_def)

lemma Challenge_same: "same_runs s (snd (Challenge cr ta svc m b1 b2 b3 now address s))"
proof -
  have "same_runs s s'" if tx: "challenge_tx c cid sid g now s = Inr (i, s')" for c cid sid g i s'
  proof -
    obtain a t row where t: "insert_submitter a s = Inr t \<or> t = s" "insert_challenge row t = Inr s'"
      using tx unfolding challenge_tx_def Let_def by (auto simp: bind_res_Inr_iff split: if_splits sum.splits option.splits)
    then have "same_runs s t" using inserts_same(1) by auto
    then show ?thesis by (rule same_runs_trans [OF _ inserts_same(3) [OF t(2)]])
  qed
  then show ?thesis by (auto simp: Challenge_def Let_def split: sum.split option.split prod.split)
qed

lemma Activate_same:
  assumes "Activate cr ta svc b1 b2 now address code s = Inr (a, s')"
  shows "same_runs s s'"
proof -
  obtain r c g h k where "activate_tx svc c g h k now s = Inr (r, s')"
    using assms by (auto simp: Activate_def Let_def bind_res_Inr_iff)
  then obtain y P f t cap where t: "update_submitters P f (s\<lparr>submitter_challenges := y\<rparr>) = Inr t" "insert_capability cap t = Inr s'"
    by (auto simp: activate_tx_def Let_def bind_res_Inr_iff split: option.splits if_splits)
  from inserts_same(2) [OF t(1)] inserts_same(4) [OF t(2)] show ?thesis unfolding same_runs_caps by (rule same_runs_trans)
qed

lemma Rotate_same: "Rotate cr svc b1 b2 now i s = Inr (a, s') \<Longrightarrow> same_runs s s'"
  by (auto simp: Rotate_def rotate_tx_def Let_def bind_res_Inr_iff same_runs_caps split: if_splits dest!: inserts_same(4))

lemma Revoke_same: "Revoke i now s = Inr s' \<Longrightarrow> same_runs s s'"
  by (auto simp: Revoke_def Let_def bind_res_Inr_iff split: if_splits dest!: inserts_same(2))

lemma submitterCommand_same: "same_runs s (snd (submitterCommand cr os w args f s))"
proof -
  have "same_runs s (snd (submitter_apply cr w svc verb f s))" for svc verb
  proof -
    have ch: "same_runs s s'" if "Challenge cr (sw_ascii w) svc m b1 b2 b3 now address s = (x, s')" for m b1 b2 b3 now address x s'
      using Challenge_same [of s cr "sw_ascii w" svc m b1 b2 b3 now address] that by simp
    have either: "same_runs s (snd a) \<Longrightarrow> same_runs s (snd b) \<Longrightarrow> same_runs s (snd (if c then a else b))" for a b :: "submitter_output res \<times> db" and c
      by simp
    show ?thesis unfolding submitter_apply_def
      by (intro either) (auto dest: ch Activate_same Rotate_same Revoke_same split: prod.split sum.split)
  qed
  then show ?thesis by (auto simp: submitterCommand_def split: list.split option.split)
qed

section \<open>Campaigns and policy\<close>

lemma add_members_same: "add_members version cid rs seen s = Inr (x, s') \<Longrightarrow> same_runs s s'"
  by (induction version cid rs seen s rule: add_members.induct) (auto simp: Let_def same_runs_def split: option.splits if_splits)

lemma supersede_same: "same_runs s (fold (supersede version cid) rs s)"
proof (induction rs arbitrary: s)
  case (Cons r rs)
  have "same_runs s (supersede version cid r s)" by (simp add: supersede_def same_runs_def)
  from same_runs_trans [OF this Cons.IH] show ?case by simp
qed simp

lemma write_components_same: "write_components cr key version now cs s = Inr s' \<Longrightarrow> same_runs s s'"
proof (induction cs arbitrary: s)
  case (Cons c cs)
  then obtain t where t: "write_component cr key version now c s = Inr t" "write_components cr key version now cs t = Inr s'"
    by (auto simp: bind_res_Inr_iff)
  obtain x u where u: "add_members version (campaignID cr key version (component_name c)) (fst c) (now, now) s = Inr (x, u)"
    "\<exists>y. t = fold (supersede version (campaignID cr key version (component_name c))) (fst c) (u\<lparr>campaign_projections := y\<rparr>)"
    using t(1) by (auto simp: write_component_def Let_def bind_res_Inr_iff)
  then obtain y where y: "t = fold (supersede version (campaignID cr key version (component_name c))) (fst c) (u\<lparr>campaign_projections := y\<rparr>)" by blast
  have "same_runs (u\<lparr>campaign_projections := y\<rparr>) t" unfolding y by (rule supersede_same)
  then have "same_runs s t" using add_members_same [OF u(1)] by (simp add: same_runs_def)
  from same_runs_trans [OF this Cons.IH [OF t(2)]] show ?case .
qed simp

lemma RebuildComponents_same: "RebuildComponents cr key version order now s = Inr s' \<Longrightarrow> same_runs s s'"
  using write_components_same by (fastforce simp: RebuildComponents_def same_runs_def)

lemma intelCommand_same: "same_runs s (snd (intelCommand cr os args f order now s))"
proof -
  have "same_runs s (activate_version v s)" for v by (simp add: activate_version_def same_runs_def)
  then show ?thesis using RebuildComponents_same by (auto simp: intelCommand_def split: list.split sum.split)
qed

lemma project_item_same: "same_runs s (project_item cr env fs p version now i s)"
proof -
  have f: "same_runs s t \<Longrightarrow> same_runs s (Intel.finish r st why now t)" for r st why t by (simp add: Intel.finish_def same_runs_def)
  have "persist cr version r e now s = Inr t \<Longrightarrow> same_runs s t" for r e t
    by (auto simp: persist_def Let_def bind_res_Inr_iff same_runs_def split: if_splits)
  then show ?thesis using f by (auto simp: project_item_def split: option.split sum.split)
qed

lemma project_items_same: "same_runs s (fold (project_item cr env fs p version now) items s)"
proof (induction items arbitrary: s)
  case (Cons i items)
  show ?case using same_runs_trans [OF project_item_same Cons.IH] by simp
qed simp

lemma Intel_ProjectOnce_same: "same_runs s (snd (Intel_ProjectOnce cr env fs p owner batch now order at s))"
proof -
  obtain items s1 where c: "claim_outbox owner (nat batch) now s = (items, s1)" by (cases "claim_outbox owner (nat batch) now s")
  then have "same_runs s s1" by (auto simp: claim_outbox_def Let_def same_runs_def)
  then have s2: "same_runs s (fold (project_item cr env fs p version now) items s1)" for version
    by (rule same_runs_trans [OF _ project_items_same])
  then have "RebuildComponents cr key version order at (fold (project_item cr env fs p version now) items s1) = Inr s3 \<Longrightarrow> same_runs s s3" for key version s3
    by (rule same_runs_trans [OF _ RebuildComponents_same])
  with s2 show ?thesis by (auto simp: Intel_ProjectOnce_def Let_def c split: sum.split)
qed

lemma Preview_same: "Preview cr svc session c tb now s = Inr (p, s') \<Longrightarrow> same_runs s s'"
  by (auto simp: Preview_def Let_def bind_res_Inr_iff split: if_splits dest!: inserts_same(7))

lemma apply_command_same: "apply_command typ v version now rid s = Inr s' \<Longrightarrow> same_runs s s'"
proof -
  have u: "update_one_submitter P f s = Inr s' \<Longrightarrow> same_runs s s'" for P f
    by (auto simp: update_one_submitter_def bind_res_Inr_iff split: if_splits dest!: inserts_same(2))
  have "same_runs s (s\<lparr>policy_rules := x\<rparr>)" for x by (simp add: same_runs_def)
  then show "apply_command typ v version now rid s = Inr s' \<Longrightarrow> same_runs s s'"
    by (auto simp: apply_command_def Let_def split: if_splits dest: u inserts_same(6))
qed

lemma rotate_same: "rotate cr v key domain b now secret s = Inr (a, s') \<Longrightarrow> same_runs s s'"
  by (auto simp: rotate_def Let_def bind_res_Inr_iff same_runs_caps split: if_splits dest!: inserts_same(4))

lemma Confirm_same:
  assumes "Confirm cr svc x cb rid now s = Inr (r, s')"
  shows "same_runs s s'"
  using assms
proof (cases rule: Confirm_Inr)
  case (1 t current s1 s2)
  have "same_runs s1 s2" using 1(9) by (auto simp: confirm_effect_def bind_res_Inr_iff split: if_splits dest: rotate_same apply_command_same)
  moreover have "same_runs s2 s'"
    using 1(11) by (auto simp: record_confirmation_def insert_control_command_def insert_audit_event_def consume_token_def bind_res_Inr_iff same_runs_def)
  ultimately show ?thesis using inserts_same(5) [OF 1(8)] by (blast intro: same_runs_trans)
qed

lemma control_same:
  "same_runs s (snd (http_preview cr svc ct body tb now s))" "same_runs s (snd (http_confirm cr svc ct x cb rid now s))"
  by (auto simp: http_preview_def http_confirm_def split: sum.split prod.split dest: Preview_same Confirm_same)

end
