(* ===== verification/Pipeline.thy ===== *)
theory Pipeline
  imports Commands
begin

text \<open>
  The processes of the installation together (\<open>cmd/mailproof/main.go\<close>): a step relation over one artifact tree and one
  database whose steps are the calls the processes make, in any interleaving of any number of processes. A worker and a
  reporter have a program counter each, by the owner they drew: what they hold between the claim of a run, the work on it and the call that
  gives it back. Every other process, the collector, the policy server, the projectors, the control interface and the operator commands, may make each of
  its calls at any time (\<open>service_step\<close>). A step is a whole call: one transaction, one file, or one \<open>analyzeRun\<close> or
  \<open>reportRun\<close>. Environments, clocks and what the servers answer may differ from step to step.
\<close>

section \<open>The calls\<close>


datatype worker_pc = Resting | Holding claimed_run | Analysed string | Failed string err

datatype reporter_pc = Waiting | Reporting claimed_run | Reported string run_state | Unreported string err bool

record system =
  sy_files :: files
  sy_db :: db
  sy_worker :: "string \<Rightarrow> worker_pc"
  sy_reporter :: "string \<Rightarrow> reporter_pc"





definition set_worker :: "string \<Rightarrow> worker_pc \<Rightarrow> system \<Rightarrow> system" where
  "set_worker w pc p = p\<lparr>sy_worker := (sy_worker p)(w := pc)\<rparr>"

definition set_reporter :: "string \<Rightarrow> reporter_pc \<Rightarrow> system \<Rightarrow> system" where
  "set_reporter w pc p = p\<lparr>sy_reporter := (sy_reporter p)(w := pc)\<rparr>"









lemma set_pc_simps [simp]:
  "sy_files (set_worker w pc p) = sy_files p" "sy_db (set_worker w pc p) = sy_db p" "sy_reporter (set_worker w pc p) = sy_reporter p"
  "sy_worker (set_worker w pc p) = (sy_worker p)(w := pc)" "sy_files (set_reporter w' pc' p) = sy_files p" "sy_db (set_reporter w' pc' p) = sy_db p"
  "sy_worker (set_reporter w' pc' p) = sy_worker p" "sy_reporter (set_reporter w' pc' p) = (sy_reporter p)(w' := pc')"
  by (simp_all add: set_worker_def set_reporter_def)

section \<open>Files and runs\<close>



















section \<open>The invariant\<close>












section \<open>A run through the pipeline\<close>








end
