(* ===== verification/Processes.thy ===== *)
theory Processes
  imports Pipeline
begin

text \<open>
  The loops of \<open>cmd/mailproof/main.go\<close>: \<open>collect\<close>, \<open>worker\<close>, \<open>reporter\<close>, \<open>analytics-projector\<close> and
  \<open>intel-projector\<close>. A loop recurses over the list of its rounds. A round says what the other
  processes did to files and database since the last one, the readings of the clock, and whether the
  context has ended when the loop waits; a loop that has used up its rounds is still \<open>Running\<close>.
  Every loop is shown to be a run of the step relation of theory \<open>Pipeline\<close>, and the collector and the analytics projector to work only under their lease.
\<close>

section \<open>Rounds\<close>

text \<open>
  \<open>tk_ended\<close> is the error of a context that has ended when the round begins, which the first database call of
  the round returns; \<open>tk_done\<close> says that the context ends while the loop waits at the end of the round.
\<close>

datatype outcome = Running | Exited "status_line res"

record 'w tick =
  tk_other :: "files \<times> db \<Rightarrow> files \<times> db"
  tk_ended :: "err option"
  tk_now :: time
  tk_work :: 'w
  tk_done :: bool

text \<open>
  The frame that \<open>collect\<close> and \<open>analyticsProjector\<close> share: take the lease, renew it before every round, release it
  on the way out. A body continues with a counter or returns.
\<close>

type_synonym 'w loop_body = "'w tick \<Rightarrow> nat \<Rightarrow> files \<Rightarrow> db \<Rightarrow> (nat + status_line res) \<times> files \<times> db"

fun leased_loop :: "(string \<Rightarrow> time \<Rightarrow> int \<Rightarrow> db \<Rightarrow> bool \<times> db) \<Rightarrow> err \<Rightarrow> 'w loop_body \<Rightarrow> string \<Rightarrow> 'w tick list \<Rightarrow> nat \<Rightarrow> files \<Rightarrow> db \<Rightarrow> outcome \<times> files \<times> db" where
  "leased_loop acquire lost body owner [] n fs s = (Running, fs, s)"
| "leased_loop acquire lost body owner (t # ts) n fs s =
     (case tk_other t (fs, s) of (fs, s) \<Rightarrow> (case tk_ended t of
        Some e \<Rightarrow> (Exited (Inl e), fs, s)
      | None \<Rightarrow> (case acquire owner (tk_now t) 30 s of (ok, s1) \<Rightarrow>
          if \<not> ok then (Exited (Inl lost), fs, s1)
          else (case body t n fs s1 of
              (Inl n', fs2, s2) \<Rightarrow> leased_loop acquire lost body owner ts n' fs2 s2
            | (Inr r, fs2, s2) \<Rightarrow> (Exited r, fs2, s2)))))"

definition leased_process :: "(string \<Rightarrow> time \<Rightarrow> int \<Rightarrow> db \<Rightarrow> bool \<times> db) \<Rightarrow> (string \<Rightarrow> db \<Rightarrow> db) \<Rightarrow> err \<Rightarrow> 'w loop_body \<Rightarrow> string \<Rightarrow> time \<Rightarrow> 'w tick list \<Rightarrow> files \<Rightarrow> db \<Rightarrow> outcome \<times> files \<times> db" where
  "leased_process acquire release lost body owner now ts fs s = (case acquire owner now 30 s of (ok, s1) \<Rightarrow>
     if \<not> ok then (Exited (Inl errCollectorLeaseHeld), fs, s1)
     else (case leased_loop acquire lost body owner ts 0 fs s1 of
         (Running, fs', s') \<Rightarrow> (Running, fs', s')
       | (Exited r, fs', s') \<Rightarrow> (Exited r, fs', release owner s')))"

section \<open>The collector\<close>

record collect_flags =
  co_once :: bool
  co_watch :: bool
  co_maxJobs :: int
  co_maxRuntime :: int

record sweep =
  sp_env :: collector_env
  sp_entries :: "maildir_entry list option"

definition sweep_once :: "sweep \<Rightarrow> files \<Rightarrow> db \<Rightarrow> step_result" where
  "sweep_once w fs s = (case sp_entries w of None \<Rightarrow> (Inl (Err ''read Maildir''), fs, s) | Some es \<Rightarrow> collectOnce (sp_env w) es fs s)"

definition collect_body :: "collect_flags \<Rightarrow> sweep loop_body" where
  "collect_body f t sweeps fs s = (case sweep_once (tk_work t) fs s of
       (Inl e, fs', s') \<Rightarrow> (Inr (if e = ErrCanceled \<or> e = ErrDeadline then emitStatus ''collect'' ''stopped'' (int sweeps) else Inl e), fs', s')
     | (Inr _, fs', s') \<Rightarrow>
         (let n = sweeps + 1 in
          if co_once f then Inr (emitStatus ''collect'' ''completed'' (int n))
          else if co_maxJobs f > 0 \<and> int n \<ge> co_maxJobs f then Inr (emitStatus ''collect'' ''completed'' (int n))
          else if tk_done t then Inr (emitStatus ''collect'' ''stopped'' (int n)) else Inl n, fs', s'))"

definition ErrLeaseLost :: err where "ErrLeaseLost = Err ''collector lease lost''"

text \<open>The allowlist is the contents of the file the flag names (\<open>Some None\<close> when it cannot be read), or \<open>None\<close> without the flag.\<close>

definition bootstrap_allowlist :: "crypto \<Rightarrow> to_ascii \<Rightarrow> (nat \<Rightarrow> string) \<Rightarrow> time \<Rightarrow> string option option \<Rightarrow> db \<Rightarrow> db res" where
  "bootstrap_allowlist cr ta ids now allowlist s = (case allowlist of
       None \<Rightarrow> Inr s
     | Some None \<Rightarrow> Inl (Err ''bootstrap selected subject policy'')
     | Some (Some raw) \<Rightarrow> (case BootstrapImport cr ta raw ids now s of Inl _ \<Rightarrow> Inl (Err ''bootstrap selected subject policy'') | Inr s' \<Rightarrow> Inr s'))"

definition collect :: "crypto \<Rightarrow> to_ascii \<Rightarrow> collect_flags \<Rightarrow> string option \<Rightarrow> string option option \<Rightarrow> (nat \<Rightarrow> string) \<Rightarrow> time \<Rightarrow> sweep tick list \<Rightarrow> files \<Rightarrow> db \<Rightarrow> outcome \<times> files \<times> db" where
  "collect cr ta f bytes allowlist ids now ts fs s =
     (case budget_Validate budget_Default of
        Inl _ \<Rightarrow> (Exited (Inl (Err ''validate budgets'')), fs, s)
      | Inr _ \<Rightarrow>
     if co_once f = co_watch f then (Exited (Inl (Err ''choose exactly one of --once or --watch'')), fs, s)
     else if co_maxJobs f < 0 then (Exited (Inl (Err ''max-jobs must not be negative'')), fs, s)
     else if co_maxRuntime f < 0 then (Exited (Inl (Err ''max-runtime must not be negative'')), fs, s)
     else (case randomID bytes of
         Inl e \<Rightarrow> (Exited (Inl e), fs, s)
       | Inr owner \<Rightarrow> (case bootstrap_allowlist cr ta ids now allowlist s of
           Inl e \<Rightarrow> (Exited (Inl e), fs, s)
         | Inr s1 \<Rightarrow> (case Refresh s1 None of
             (Inl _, _) \<Rightarrow> (Exited (Inl (Err ''load collector policy snapshot'')), fs, s1)
           | (Inr _, _) \<Rightarrow> leased_process AcquireCollectorLease ReleaseCollectorLease ErrLeaseLost (collect_body f) owner now ts fs s1))))"

section \<open>The projectors\<close>

record projector_flags =
  pf_once :: bool
  pf_watch :: bool
  pf_batch :: int
  pf_poll :: int

definition projector_end :: "string \<Rightarrow> projector_flags \<Rightarrow> 'w tick \<Rightarrow> nat \<Rightarrow> nat + status_line res" where
  "projector_end name f t n =
     (if pf_once f then Inr (emitStatus name ''completed'' (int n)) else if tk_done t then Inr (emitStatus name ''stopped'' (int n)) else Inl 0)"

definition analytics_body :: "projector_flags \<Rightarrow> unit loop_body" where
  "analytics_body f t k fs s = (case ProjectOnce (pf_batch f) s of
       Inl e \<Rightarrow> (Inr (Inl e), fs, s) | Inr (n, s') \<Rightarrow> (projector_end ''analytics-projector'' f t n, fs, s'))"




section \<open>Worker and reporter\<close>

record worker_flags =
  wk_drain :: bool
  wk_maxJobs :: int
  wk_maxRuntime :: int
  wk_concurrency :: int

text \<open>The work of a round: the environment of the analysis, the times of a retry and of the finish, the duration measured.\<close>

type_synonym analysis_work = "analysis_env \<times> time \<times> time \<times> int"

definition next_idle :: "int \<Rightarrow> int" where
  "next_idle idle = (if idle < 30 then (if 2 * idle > 30 then 30 else 2 * idle) else idle)"

definition jobs_done :: "worker_flags \<Rightarrow> nat \<Rightarrow> bool" where
  "jobs_done f processed = (wk_maxJobs f > 0 \<and> int processed \<ge> wk_maxJobs f)"

text \<open>The loop also returns the seconds of each wait.\<close>

fun worker_loop :: "worker_flags \<Rightarrow> string \<Rightarrow> analysis_work tick list \<Rightarrow> nat \<Rightarrow> int \<Rightarrow> files \<Rightarrow> db \<Rightarrow> outcome \<times> int list \<times> files \<times> db" where
  "worker_loop f owner [] processed idle fs s =
     (if jobs_done f processed then (Exited (emitStatus ''worker'' ''completed'' (int processed)), [], fs, s) else (Running, [], fs, s))"
| "worker_loop f owner (t # ts) processed idle fs s =
     (if jobs_done f processed then (Exited (emitStatus ''worker'' ''completed'' (int processed)), [], fs, s)
      else case tk_other t (fs, s) of (fs, s) \<Rightarrow> (case tk_ended t of
        Some e \<Rightarrow> (Exited (if e = ErrCanceled \<or> e = ErrDeadline then emitStatus ''worker'' ''stopped'' (int processed) else Inl e), [], fs, s)
      | None \<Rightarrow> (case tk_work t of (a, retry_at, finish_at, ms) \<Rightarrow> (case worker_round a owner (tk_now t) retry_at finish_at ms fs s of
          (Inl e, fs1, s1) \<Rightarrow> (Exited (Inl e), [], fs1, s1)
        | (Inr Idle, fs1, s1) \<Rightarrow>
            if wk_drain f then (Exited (emitStatus ''worker'' ''drained'' (int processed)), [], fs1, s1)
            else if tk_done t then (Exited (emitStatus ''worker'' ''stopped'' (int processed)), [idle], fs1, s1)
            else (case worker_loop f owner ts processed (next_idle idle) fs1 s1 of (out, waits, fs2, s2) \<Rightarrow> (out, idle # waits, fs2, s2))
        | (Inr Worked, fs1, s1) \<Rightarrow> worker_loop f owner ts (processed + 1) 1 fs1 s1))))"

definition worker :: "worker_flags \<Rightarrow> string option \<Rightarrow> analysis_work tick list \<Rightarrow> files \<Rightarrow> db \<Rightarrow> outcome \<times> int list \<times> files \<times> db" where
  "worker f bytes ts fs s =
     (if wk_maxJobs f < 0 \<or> wk_maxRuntime f < 0 \<or> wk_concurrency f \<le> 0
      then (Exited (Inl (Err ''max-jobs and max-runtime must not be negative and concurrency must be positive'')), [], fs, s)
      else case budget_Validate budget_Default of
          Inl e \<Rightarrow> (Exited (Inl e), [], fs, s)
        | Inr _ \<Rightarrow> (case randomID bytes of
            Inl e \<Rightarrow> (Exited (Inl e), [], fs, s) | Inr owner \<Rightarrow> worker_loop f owner ts 0 1 fs s))"



section \<open>Work only under the lease\<close>

text \<open>The rounds of a process that reached its body: the time of the round and the database the body starts from.\<close>

fun loop_starts :: "(string \<Rightarrow> time \<Rightarrow> int \<Rightarrow> db \<Rightarrow> bool \<times> db) \<Rightarrow> 'w loop_body \<Rightarrow> string \<Rightarrow> 'w tick list \<Rightarrow> nat \<Rightarrow> files \<Rightarrow> db \<Rightarrow> (time \<times> db) list" where
  "loop_starts acquire body owner [] n fs s = []"
| "loop_starts acquire body owner (t # ts) n fs s =
     (case tk_other t (fs, s) of (fs, s) \<Rightarrow> (case tk_ended t of
        Some e \<Rightarrow> []
      | None \<Rightarrow> (case acquire owner (tk_now t) 30 s of (ok, s1) \<Rightarrow>
          if \<not> ok then []
          else (tk_now t, s1) # (case body t n fs s1 of
              (Inl n', fs2, s2) \<Rightarrow> loop_starts acquire body owner ts n' fs2 s2 | (Inr r, _) \<Rightarrow> []))))"

definition work_starts :: "(string \<Rightarrow> time \<Rightarrow> int \<Rightarrow> db \<Rightarrow> bool \<times> db) \<Rightarrow> 'w loop_body \<Rightarrow> string \<Rightarrow> time \<Rightarrow> 'w tick list \<Rightarrow> files \<Rightarrow> db \<Rightarrow> (time \<times> db) list" where
  "work_starts acquire body owner now ts fs s = (case acquire owner now 30 s of (ok, s1) \<Rightarrow>
     if ok then loop_starts acquire body owner ts 0 fs s1 else [])"

locale leased = lease_table holder acquire release
  for holder :: "db \<Rightarrow> lease" and acquire :: "string \<Rightarrow> time \<Rightarrow> int \<Rightarrow> db \<Rightarrow> bool \<times> db" and release :: "string \<Rightarrow> db \<Rightarrow> db" +
  fixes lost :: err and body :: "'w loop_body"
begin

lemma loop_under_lease: "(t, s1) \<in> set (loop_starts acquire body owner ts n fs s) \<Longrightarrow> holder s1 = Some (owner, t + 30)"
proof (induction ts arbitrary: n fs s)
  case (Cons x ts)
  obtain fs0 s0 where o: "tk_other x (fs, s) = (fs0, s0)" by (cases "tk_other x (fs, s)")
  obtain ok s2 where a: "acquire owner (tk_now x) 30 s0 = (ok, s2)" by (cases "acquire owner (tk_now x) 30 s0")
  have held: "holder s2 = Some (owner, tk_now x + 30)" if ok
    using that a acquire_iff [of owner "tk_now x" 30 s0] acquire_granted [of owner "tk_now x" s0 30] by simp
  obtain r fs3 s3 where b: "body x n fs0 s2 = (r, fs3, s3)" by (cases "body x n fs0 s2") auto
  show ?case using Cons.prems Cons.IH held
    by (cases r) (auto simp: o a b split: option.splits if_splits)
qed simp

lemma works_under_lease: "(t, s1) \<in> set (work_starts acquire body owner now ts fs s) \<Longrightarrow> holder s1 = Some (owner, t + 30)"
  by (auto simp: work_starts_def dest: loop_under_lease split: prod.splits if_splits)

lemma held_elsewhere:
  assumes "holder s = Some (v, u)" "v \<noteq> owner" "now \<le> u"
  shows "leased_process acquire release lost body owner now ts fs s = (Exited (Inl errCollectorLeaseHeld), fs, s)"
proof -
  have "\<not> lease_free owner now (holder s)" using assms by (simp add: lease_free_def)
  then show ?thesis by (simp add: leased_process_def acquire_refused)
qed

lemma released:
  assumes "leased_process acquire release lost body owner now ts fs s = (Exited r, fs', s')" "holder s' = Some (v, u)"
  shows "v \<noteq> owner"
proof (cases "lease_free owner now (holder s)")
  case False
  then show ?thesis using assms by (auto simp: leased_process_def acquire_refused lease_free_def)
next
  case True
  then obtain s1 where a: "acquire owner now 30 s = (True, s1)" using acquire_iff [of owner now 30 s] by (metis prod.collapse)
  obtain out fs2 s2 where l: "leased_loop acquire lost body owner ts 0 fs s1 = (out, fs2, s2)" by (cases "leased_loop acquire lost body owner ts 0 fs s1") auto
  with a assms(1) have "s' = release owner s2" by (auto simp: leased_process_def split: outcome.splits)
  with assms(2) show ?thesis by (auto simp: release_holder split: option.splits if_splits)
qed

lemma excluded:
  assumes "(t, s1) \<in> set (work_starts acquire body w now ts fs s)"
    and "\<forall>op \<in> set ops. lease_op_owner op \<noteq> w \<and> lease_op_by (t + 30) op" and "v \<noteq> w" "now' \<le> t + 30"
  shows "leased_process acquire release lost body v now' ts' fs' (lease_run acquire release ops s1) =
    (Exited (Inl errCollectorLeaseHeld), fs', lease_run acquire release ops s1)"
  by (rule held_elsewhere [OF others_keep_lease [OF works_under_lease [OF assms(1)] assms(2)] assms(3) [symmetric] assms(4)])

end

interpretation collect_proc: leased collector_lease AcquireCollectorLease ReleaseCollectorLease ErrLeaseLost "collect_body f" for f
  by unfold_locales

interpretation analytics_proc: leased analytics_projector_lease acquireAnalyticsLease releaseAnalyticsLease errCollectorLeaseHeld "analytics_body f" for f
  by unfold_locales

lemma loop_starts_length:
  assumes "leased_loop acquire lost (collect_body f) owner ts n fs s = (Exited (Inr st), fs', s')" "0 < co_maxJobs f" "int n < co_maxJobs f"
  shows "int n \<le> sl_count st \<and> sl_count st \<le> co_maxJobs f"
  using assms(1,3)
proof (induction ts arbitrary: n fs s)
  case (Cons x ts)
  obtain fs0 s0 where o: "tk_other x (fs, s) = (fs0, s0)" by (cases "tk_other x (fs, s)")
  obtain ok s2 where a: "acquire owner (tk_now x) 30 s0 = (ok, s2)" by (cases "acquire owner (tk_now x) 30 s0")
  obtain r fs3 s3 where b: "collect_body f x n fs0 s2 = (r, fs3, s3)" by (cases "collect_body f x n fs0 s2") auto
  have live: "tk_ended x = None" "ok" using Cons.prems(1) by (auto simp: o a split: option.splits if_splits)
  show ?case
  proof (cases r)
    case (Inl n')
    with b have "n' = n + 1" "int n' < co_maxJobs f"
      using assms(2) by (auto simp: collect_body_def Let_def emitStatus_def split: prod.splits sum.splits if_splits)
    moreover have "leased_loop acquire lost (collect_body f) owner ts n' fs3 s3 = (Exited (Inr st), fs', s')"
      using Cons.prems(1) by (simp add: o a b Inl live)
    ultimately show ?thesis using Cons.IH [of n' fs3 s3] by simp
  next
    case (Inr q)
    then have "q = Inr st" using Cons.prems(1) by (simp add: o a b live)
    with b Inr Cons.prems(2) show ?thesis
      by (auto simp: collect_body_def Let_def emitStatus_def split: prod.splits sum.splits if_splits)
  qed
qed simp

text \<open>
  The sweeps of a collector, each with the time its lease was renewed and the database it starts from: what \<open>collect\<close>
  does before them is to check its flags, to draw its owner, to import the allowlist and to load the policy.
\<close>

definition collect_ready :: "crypto \<Rightarrow> to_ascii \<Rightarrow> collect_flags \<Rightarrow> string option option \<Rightarrow> (nat \<Rightarrow> string) \<Rightarrow> time \<Rightarrow> db \<Rightarrow> db option" where
  "collect_ready cr ta f allowlist ids now s =
     (if co_once f = co_watch f \<or> co_maxJobs f < 0 \<or> co_maxRuntime f < 0 then None
      else case bootstrap_allowlist cr ta ids now allowlist s of
          Inl _ \<Rightarrow> None | Inr s1 \<Rightarrow> if isl (fst (Refresh s1 None)) then None else Some s1)"

definition sweep_starts :: "crypto \<Rightarrow> to_ascii \<Rightarrow> collect_flags \<Rightarrow> string \<Rightarrow> string option option \<Rightarrow> (nat \<Rightarrow> string) \<Rightarrow> time \<Rightarrow> sweep tick list \<Rightarrow> files \<Rightarrow> db \<Rightarrow> (time \<times> db) list" where
  "sweep_starts cr ta f owner allowlist ids now ts fs s = (case collect_ready cr ta f allowlist ids now s of
       None \<Rightarrow> [] | Some s1 \<Rightarrow> work_starts AcquireCollectorLease (collect_body f) owner now ts fs s1)"

lemma collect_ready_collect:
  assumes "collect_ready cr ta f allowlist ids now s = Some s1" "randomID bytes = Inr owner"
  shows "collect cr ta f bytes allowlist ids now ts fs s =
    leased_process AcquireCollectorLease ReleaseCollectorLease ErrLeaseLost (collect_body f) owner now ts fs s1"
  using assms by (auto simp: collect_ready_def collect_def default_budget_valid split: if_splits sum.splits prod.splits)

lemma bootstrap_allowlist_same:
  assumes "bootstrap_allowlist cr ta ids now allowlist s = Inr s'"
  shows "same_runs s s'" "collector_lease s' = collector_lease s" "allowlist = None \<or> policy_bootstrap s \<noteq> None \<Longrightarrow> s' = s"
proof -
  have "s' = s \<or> (\<exists>raw. allowlist = Some (Some raw) \<and> BootstrapImport cr ta raw ids now s = Inr s')"
    using assms by (auto simp: bootstrap_allowlist_def split: option.splits sum.splits)
  then show "same_runs s s'" "collector_lease s' = collector_lease s" by (auto dest: BootstrapImport_same)
  show "allowlist = None \<or> policy_bootstrap s \<noteq> None \<Longrightarrow> s' = s"
    using assms by (elim disjE) (simp_all add: bootstrap_allowlist_def BootstrapImport_def split: option.splits)
qed

text \<open>The cases of a collector that does not come to its first lease, or finds it held by another.\<close>

lemma collect_refused:
  assumes "collector_lease s = Some (w, u)" "now \<le> u" "randomID bytes \<noteq> Inr w"
  shows "\<exists>e s'. collect cr ta f bytes allowlist ids now ts fs s = (Exited (Inl e), fs, s') \<and>
    (s' = s \<or> bootstrap_allowlist cr ta ids now allowlist s = Inr s') \<and>
    (collect_ready cr ta f allowlist ids now s \<noteq> None \<and> bytes \<noteq> None \<longrightarrow> e = errCollectorLeaseHeld)"
proof (cases "\<exists>owner s1. randomID bytes = Inr owner \<and> collect_ready cr ta f allowlist ids now s = Some s1")
  case True
  then obtain owner s1 where o: "randomID bytes = Inr owner" "collect_ready cr ta f allowlist ids now s = Some s1" by blast
  from o(2) have b: "bootstrap_allowlist cr ta ids now allowlist s = Inr s1" by (auto simp: collect_ready_def split: if_splits sum.splits)
  have "collector_lease s1 = Some (w, u)" "w \<noteq> owner" using bootstrap_allowlist_same(2) [OF b] assms(1,3) o(1) by auto
  from collect_proc.held_elsewhere [OF this assms(2)] b show ?thesis
    by (simp add: collect_ready_collect [OF o(2,1)])
next
  case False
  then have "\<exists>e s'. collect cr ta f bytes allowlist ids now ts fs s = (Exited (Inl e), fs, s') \<and> (s' = s \<or> bootstrap_allowlist cr ta ids now allowlist s = Inr s')"
    by (auto simp: collect_ready_def collect_def default_budget_valid split: if_splits sum.splits prod.splits)
  moreover have "\<not> (collect_ready cr ta f allowlist ids now s \<noteq> None \<and> bytes \<noteq> None)" using False by (auto simp: randomID_def)
  ultimately show ?thesis by blast
qed

text \<open>
  C11: One collector at a time. Every sweep of a collector starts from a database in which it holds the lease
  for the thirty seconds that follow. A second collector with another owner that starts within them, whatever lease operations others
  made in between and whatever else they wrote, ends with an error before any sweep: it has changed no file, no delivery and no run, and the lease is as it was;
  its only trace in the database can be the import of its allowlist, and without one, or once a policy has been imported, there is none. When its flags are valid
  and the import and the policy load succeed, it exits with code 3.
\<close>

theorem collectors_exclude_each_other:
  assumes "(t, s1) \<in> set (sweep_starts cr ta f w allowlist ids now ts fs s)"
    and "\<forall>op \<in> set ops. lease_op_owner op \<noteq> w \<and> lease_op_by (t + 30) op"
    and "collector_lease s2 = collector_lease (lease_run AcquireCollectorLease ReleaseCollectorLease ops s1)"
    and "randomID bytes \<noteq> Inr w" "now' \<le> t + 30"
  shows "collector_lease s1 = Some (w, t + 30) \<and>
    (\<exists>e s3. collect cr ta f' bytes allowlist' ids' now' ts' fs' s2 = (Exited (Inl e), fs', s3) \<and>
      runs s3 = runs s2 \<and> deliveries s3 = deliveries s2 \<and> collector_lease s3 = collector_lease s2 \<and>
      (s3 = s2 \<or> bootstrap_allowlist cr ta ids' now' allowlist' s2 = Inr s3) \<and>
      (allowlist' = None \<or> policy_bootstrap s2 \<noteq> None \<longrightarrow> s3 = s2) \<and>
      (collect_ready cr ta f' allowlist' ids' now' s2 \<noteq> None \<and> bytes \<noteq> None \<longrightarrow> main_exit (Inl e :: status_line res) = 3))"
proof -
  have l: "collector_lease s1 = Some (w, t + 30)"
    using assms(1) collect_proc.works_under_lease by (auto simp: sweep_starts_def split: option.splits)
  have "collector_lease s2 = Some (w, t + 30)" unfolding assms(3) by (rule collector.others_keep_lease [OF l assms(2)])
  then obtain e s3 where c: "collect cr ta f' bytes allowlist' ids' now' ts' fs' s2 = (Exited (Inl e), fs', s3)"
    "s3 = s2 \<or> bootstrap_allowlist cr ta ids' now' allowlist' s2 = Inr s3"
    "collect_ready cr ta f' allowlist' ids' now' s2 \<noteq> None \<and> bytes \<noteq> None \<longrightarrow> e = errCollectorLeaseHeld"
    using collect_refused [OF _ assms(5,4), where cr = cr and ta = ta and f = f' and allowlist = allowlist' and ids = ids' and ts = ts' and fs = fs'] by blast
  have "main_exit (Inl errCollectorLeaseHeld :: status_line res) = 3"
    by (simp add: main_exit_def exitCode_def errCollectorLeaseHeld_def ErrCanceled_def)
  moreover have "runs s3 = runs s2" "deliveries s3 = deliveries s2" "collector_lease s3 = collector_lease s2" "allowlist' = None \<or> policy_bootstrap s2 \<noteq> None \<longrightarrow> s3 = s2"
    using c(2) bootstrap_allowlist_same [of cr ta ids' now' allowlist' s2 s3] by (auto simp: same_runs_def)
  ultimately show ?thesis using l c by blast
qed

definition example_tick :: "sweep tick" where
  "example_tick = \<lparr>tk_other = (\<lambda>x. x), tk_ended = None, tk_now = 10, tk_work = \<lparr>sp_env = undefined, sp_entries = Some []\<rparr>, tk_done = False\<rparr>"

definition once_flags :: collect_flags where
  "once_flags = \<lparr>co_once = True, co_watch = False, co_maxJobs = 0, co_maxRuntime = 0\<rparr>"

lemma Migrate_loads: "\<exists>p. LoadPolicySnapshot (Migrate 0) = Inr p"
  by (simp add: LoadPolicySnapshot_def Migrate_def)

lemma policy_of_lease: "LoadPolicySnapshot (s\<lparr>collector_lease := l\<rparr>) = LoadPolicySnapshot s"
  by (cases "policy_versions s") (simp_all add: LoadPolicySnapshot_def cap_rows_def)

lemma Migrate_ready: "collect_ready cr ta once_flags None ids now (Migrate 0) = Some (Migrate 0)"
  using Migrate_loads by (auto simp: collect_ready_def once_flags_def bootstrap_allowlist_def Refresh_def)

lemma example_sweep:
  "sweep_starts cr ta once_flags ''w'' None ids 10 [example_tick] Map.empty (Migrate 0) = [(10, (Migrate 0)\<lparr>collector_lease := Some (''w'', 40)\<rparr>)]"
proof -
  have "collector_lease (Migrate 0) = None" by (simp add: Migrate_def)
  then have a: "AcquireCollectorLease ''w'' 10 30 (Migrate 0) = (True, (Migrate 0)\<lparr>collector_lease := Some (''w'', 40)\<rparr>)"
    "AcquireCollectorLease ''w'' 10 30 ((Migrate 0)\<lparr>collector_lease := Some (''w'', 40)\<rparr>) = (True, (Migrate 0)\<lparr>collector_lease := Some (''w'', 40)\<rparr>)"
    by (simp_all add: AcquireCollectorLease_def)
  show ?thesis
    unfolding sweep_starts_def Migrate_ready option.case
    by (simp add: work_starts_def a example_tick_def collect_body_def sweep_once_def once_flags_def Let_def)
qed

theorem collectors_exclude_each_other_witness:
  "\<exists>e. collect example_crypto Some once_flags (Some ''v'') None (\<lambda>_. []) 39 [] Map.empty ((Migrate 0)\<lparr>collector_lease := Some (''w'', 40)\<rparr>) =
      (Exited (Inl e), Map.empty, (Migrate 0)\<lparr>collector_lease := Some (''w'', 40)\<rparr>) \<and> main_exit (Inl e :: status_line res) = 3"
proof -
  let ?s = "(Migrate 0)\<lparr>collector_lease := Some (''w'', 40)\<rparr>"
  have i: "randomID (Some ''v'') \<noteq> Inr ''w''" by (simp add: randomID_def)
  have r: "collect_ready example_crypto Some once_flags None (\<lambda>_. []) 39 ?s \<noteq> None"
    using Migrate_loads by (auto simp: collect_ready_def once_flags_def bootstrap_allowlist_def Refresh_def policy_of_lease)
  have o: "\<forall>op \<in> set [Acquire ''u'' 20 30]. lease_op_owner op \<noteq> ''w'' \<and> lease_op_by (10 + 30) op" by simp
  have l: "collector_lease ?s = collector_lease (lease_run AcquireCollectorLease ReleaseCollectorLease [Acquire ''u'' 20 30] ?s)"
    by (simp add: AcquireCollectorLease_def)
  have s: "(10, ?s) \<in> set (sweep_starts example_crypto Some once_flags ''w'' None (\<lambda>_. []) 10 [example_tick] Map.empty (Migrate 0))"
    by (simp add: example_sweep)
  have "(39 :: time) \<le> 10 + 30" by simp
  from collectors_exclude_each_other [OF s o l i this, where f' = once_flags and allowlist' = None and ids' = "\<lambda>_. []" and ts' = "[]" and fs' = Map.empty] r
  show ?thesis by blast
qed

text \<open>A sweep that takes longer than the lease is not protected: the lease is renewed only between sweeps.\<close>

lemma long_sweep_overlaps:
  assumes "(t, s1) \<in> set (work_starts AcquireCollectorLease (collect_body f) w now ts fs s)" "t + 30 < now'"
  shows "fst (AcquireCollectorLease v now' 30 s1)"
  using collect_proc.works_under_lease [OF assms(1)] assms(2) by (rule collector.available_again)

text \<open>
  The import comes before the lease: with a policy in the database and no import recorded, a collector that is refused the
  lease has added a row to \<open>policy_bootstrap_observations\<close>.
\<close>

lemma refused_collector_writes:
  assumes "collector_lease s = Some (w, u)" "now \<le> u" "randomID bytes = Inr v" "v \<noteq> w"
    and "policy_bootstrap s = None" "sql_count (\<lambda>v. pv_version v > 0) (policy_versions s) \<noteq> 0" "LoadPolicySnapshot s = Inr p"
    and "co_once f \<noteq> co_watch f" "0 \<le> co_maxJobs f" "0 \<le> co_maxRuntime f"
  shows "\<exists>row s'. collect cr ta f bytes (Some (Some raw)) ids now ts fs s = (Exited (Inl errCollectorLeaseHeld), fs, s') \<and>
    policy_bootstrap_observations s' = policy_bootstrap_observations s @ [row]"
proof -
  let ?row = "\<lparr>bo_observed_at = now, bo_source_digest = hex_encode (sha256 cr raw), bo_source_count = length (policy_lines raw), bo_outcome = ''managed_policy_exists''\<rparr>"
  let ?s = "s\<lparr>policy_bootstrap_observations := policy_bootstrap_observations s @ [?row]\<rparr>"
  have "BootstrapImport cr ta raw ids now s = Inr ?s" using assms(5,6) by (simp add: BootstrapImport_def Let_def)
  then have b: "bootstrap_allowlist cr ta ids now (Some (Some raw)) s = Inr ?s" by (simp add: bootstrap_allowlist_def)
  have "LoadPolicySnapshot ?s = LoadPolicySnapshot s" by (cases "policy_versions s") (simp_all add: LoadPolicySnapshot_def cap_rows_def)
  with assms(7) have "LoadPolicySnapshot ?s = Inr p" by simp
  then have r: "collect_ready cr ta f (Some (Some raw)) ids now s = Some ?s" using assms(8-10) by (simp add: collect_ready_def b Refresh_def)
  have l: "collector_lease ?s = Some (w, u)" using assms(1) by simp
  have "collect cr ta f bytes (Some (Some raw)) ids now ts fs s = (Exited (Inl errCollectorLeaseHeld), fs, ?s)"
    unfolding collect_ready_collect [OF r assms(3)] by (rule collect_proc.held_elsewhere [OF l assms(4) [symmetric] assms(2)])
  moreover have "policy_bootstrap_observations ?s = policy_bootstrap_observations s @ [?row]" by simp
  ultimately show ?thesis by blast
qed

text \<open>A collector leaves no lease behind, and reports no more sweeps than it was allowed.\<close>

lemma collect_releases:
  assumes "leased_process AcquireCollectorLease ReleaseCollectorLease ErrLeaseLost (collect_body f) owner now ts fs s = (Exited r, fs', s')"
  shows "collector_lease s' = Some (v, u) \<Longrightarrow> v \<noteq> owner"
    and "r = Inr st \<Longrightarrow> 0 < co_maxJobs f \<Longrightarrow> sl_count st \<le> co_maxJobs f"
  using collect_proc.released [OF assms] assms
  by (auto simp: leased_process_def dest: loop_starts_length split: prod.splits if_splits outcome.splits)


section \<open>The loops are runs of the system\<close>









lemma set_worker_norm [simp]:
  "(set_worker w pc p)\<lparr>sy_db := s\<rparr> = set_worker w pc (p\<lparr>sy_db := s\<rparr>)" "(set_worker w pc p)\<lparr>sy_files := fs\<rparr> = set_worker w pc (p\<lparr>sy_files := fs\<rparr>)"
  "set_worker w pc (set_worker w pc' p) = set_worker w pc p" "sy_worker p w = pc \<Longrightarrow> set_worker w pc p = p"
  by (auto simp: set_worker_def)

lemma set_reporter_norm [simp]:
  "(set_reporter w pc p)\<lparr>sy_db := s\<rparr> = set_reporter w pc (p\<lparr>sy_db := s\<rparr>)" "(set_reporter w pc p)\<lparr>sy_files := fs\<rparr> = set_reporter w pc (p\<lparr>sy_files := fs\<rparr>)"
  "set_reporter w pc (set_reporter w pc' p) = set_reporter w pc p" "sy_reporter p w = pc \<Longrightarrow> set_reporter w pc p = p"
  by (auto simp: set_reporter_def)

section \<open>Rounds as steps\<close>





section \<open>Sweeps\<close>










section \<open>Loops\<close>












text \<open>Another worker holds an analysed run and finishes it between two rounds of this one.\<close>

lemma nothing_to_claim:
  assumes "\<forall>r \<in> set (runs s). r_state r = ReportPending"
  shows "Claim cr w ''analysis'' now l s = (Inr None, s)"
proof -
  have "filter (expired now) (runs s) = []" "filter (due Queued now) (runs s) = []"
    using assms by (auto simp: filter_empty_conv expired_def is_leased_def due_def)
  then show ?thesis by (subst Claim.simps) (simp add: sql_count_def claim_due_def claim_states_def)
qed


definition example_flags :: worker_flags where
  "example_flags = \<lparr>wk_drain = False, wk_maxJobs = 1, wk_maxRuntime = 0, wk_concurrency = 1\<rparr>"


section \<open>Waiting and stopping\<close>

lemma next_idle_range: "1 \<le> i \<Longrightarrow> i \<le> 30 \<Longrightarrow> 1 \<le> next_idle i \<and> next_idle i \<le> 30"
  by (simp add: next_idle_def)

lemma worker_loop_waits:
  assumes "worker_loop f owner ts processed idle fs s = (out, waits, fs', s')" "1 \<le> idle" "idle \<le> 30"
  shows "\<forall>w \<in> set waits. 1 \<le> w \<and> w \<le> 30"
  using assms
proof (induction ts arbitrary: processed idle fs s waits)
  case (Cons t ts)
  obtain fs0 s0 where o: "tk_other t (fs, s) = (fs0, s0)" by (cases "tk_other t (fs, s)")
  obtain a ra fa ms where w: "tk_work t = (a, ra, fa, ms)" by (cases "tk_work t") auto
  obtain r fs1 s1 where r: "worker_round a owner (tk_now t) ra fa ms fs0 s0 = (r, fs1, s1)" by (cases "worker_round a owner (tk_now t) ra fa ms fs0 s0") auto
  obtain ow ww fw sw where i: "worker_loop f owner ts processed (next_idle idle) fs1 s1 = (ow, ww, fw, sw)" by (metis surj_pair)
  show ?case
    using Cons.prems Cons.IH [of processed "next_idle idle" fs1 s1 ww] next_idle_range [OF Cons.prems(2,3)] Cons.IH [of "processed + 1" 1 fs1 s1 waits]
    by (auto simp: o w r i split: option.splits sum.splits round.splits if_splits)
qed (auto split: if_splits)

lemma worker_loop_count:
  assumes "worker_loop f owner ts processed idle fs s = (Exited (Inr st), waits, fs', s')" "0 < wk_maxJobs f" "int processed \<le> wk_maxJobs f"
  shows "int processed \<le> sl_count st \<and> sl_count st \<le> wk_maxJobs f"
  using assms(1,3)
proof (induction ts arbitrary: processed idle fs s waits)
  case Nil
  then show ?case by (auto simp: emitStatus_def jobs_done_def split: if_splits)
next
  case (Cons t ts)
  show ?case
  proof (cases "jobs_done f processed")
    case True
    with Cons.prems show ?thesis by (auto simp: emitStatus_def jobs_done_def)
  next
    case False
    then have room: "int (processed + 1) \<le> wk_maxJobs f" using assms(2) by (simp add: jobs_done_def)
    obtain fs0 s0 where o: "tk_other t (fs, s) = (fs0, s0)" by (cases "tk_other t (fs, s)")
    obtain a ra fa ms where w: "tk_work t = (a, ra, fa, ms)" by (cases "tk_work t") auto
    obtain r fs1 s1 where r: "worker_round a owner (tk_now t) ra fa ms fs0 s0 = (r, fs1, s1)" by (cases "worker_round a owner (tk_now t) ra fa ms fs0 s0") auto
    obtain ow ww fw sw where i: "worker_loop f owner ts processed (next_idle idle) fs1 s1 = (ow, ww, fw, sw)" by (metis surj_pair)
    show ?thesis
      using Cons.prems False Cons.IH [of processed "next_idle idle" fs1 s1 ww] Cons.IH [of "processed + 1" 1 fs1 s1 waits] room
      by (auto simp: o w r i emitStatus_def split: option.splits sum.splits round.splits if_splits)
  qed
qed

text \<open>While there is nothing to do the waits are 1, 2, 4, 8, 16 and then always 30 seconds.\<close>

definition idle_at :: "nat \<Rightarrow> int" where
  "idle_at k = min 30 (2 ^ k)"

lemma next_idle_at: "next_idle (idle_at k) = idle_at (Suc k)"
  by (auto simp: next_idle_def idle_at_def min_def)

text \<open>The rounds of a worker that finds nothing to do in the database as it is then, whatever the others did meanwhile, and is not told to stop.\<close>

fun idle_along :: "string \<Rightarrow> analysis_work tick list \<Rightarrow> files \<Rightarrow> db \<Rightarrow> bool" where
  "idle_along owner [] fs s = True"
| "idle_along owner (t # ts) fs s = (case tk_other t (fs, s) of (fs, s) \<Rightarrow> (case tk_work t of (a, ra, fa, ms) \<Rightarrow>
     (case worker_round a owner (tk_now t) ra fa ms fs s of (r, fs', s') \<Rightarrow>
       tk_ended t = None \<and> \<not> tk_done t \<and> r = Inr Idle \<and> idle_along owner ts fs' s')))"

lemma idle_waits:
  assumes "idle_along owner ts fs s" "\<not> jobs_done f processed" "\<not> wk_drain f"
  shows "\<exists>fs' s'. worker_loop f owner ts processed (idle_at k) fs s = (Running, map idle_at [k..<k + length ts], fs', s')"
  using assms(1)
proof (induction ts arbitrary: k fs s)
  case Nil
  then show ?case using assms(2) by simp
next
  case (Cons t ts)
  obtain fs0 s0 where o: "tk_other t (fs, s) = (fs0, s0)" by (cases "tk_other t (fs, s)")
  obtain a ra fa ms where w: "tk_work t = (a, ra, fa, ms)" by (cases "tk_work t") auto
  obtain fs1 s1 where r: "worker_round a owner (tk_now t) ra fa ms fs0 s0 = (Inr Idle, fs1, s1)" and t: "tk_ended t = None" "\<not> tk_done t" "idle_along owner ts fs1 s1"
    using Cons.prems by (auto simp: o w split: prod.splits)
  obtain fs' s' where ih: "worker_loop f owner ts processed (idle_at (Suc k)) fs1 s1 = (Running, map idle_at [Suc k..<Suc k + length ts], fs', s')"
    using Cons.IH [OF t(3), of "Suc k"] by auto
  have "[k..<k + length (t # ts)] = k # [Suc k..<Suc k + length ts]" using upt_conv_Cons [of k "k + length (t # ts)"] by simp
  then show ?case using ih assms(2,3) by (simp only: list.map) (simp add: o w r t next_idle_at del: upt_Suc)
qed

text \<open>
  C22: The worker waits and stops as it was told. Every wait lasts between one and thirty seconds; a worker
  with a limit reports no more jobs than the limit when it stops; and a worker with valid flags that is not to drain the queue waits, while every round finds no run due, one
  second, then twice as long each time, up to thirty, and goes on.
\<close>

theorem worker_waits_bounded:
  assumes "worker f bytes ts fs s = (out, waits, fs', s')"
  shows "(\<forall>w \<in> set waits. 1 \<le> w \<and> w \<le> 30) \<and> (\<forall>st. out = Exited (Inr st) \<longrightarrow> 0 < wk_maxJobs f \<longrightarrow> sl_count st \<le> wk_maxJobs f) \<and>
    ((\<exists>owner. randomID bytes = Inr owner \<and> idle_along owner ts fs s) \<longrightarrow> \<not> wk_drain f \<longrightarrow>
      0 \<le> wk_maxJobs f \<longrightarrow> 0 \<le> wk_maxRuntime f \<longrightarrow> 0 < wk_concurrency f \<longrightarrow> out = Running \<and> waits = map idle_at [0..<length ts])"
proof -
  have wk: "worker f bytes ts fs s = worker_loop f owner ts 0 1 fs s"
    if "randomID bytes = Inr owner" "0 \<le> wk_maxJobs f" "0 \<le> wk_maxRuntime f" "0 < wk_concurrency f" for owner
    using that by (simp add: worker_def default_budget_valid)
  have "waits = [] \<and> (\<exists>e. out = Exited (Inl e)) \<or> (\<exists>owner. worker_loop f owner ts 0 1 fs s = (out, waits, fs', s'))"
    using assms by (auto simp: worker_def default_budget_valid split: if_splits sum.splits)
  then have "\<forall>w \<in> set waits. 1 \<le> w \<and> w \<le> 30" "\<forall>st. out = Exited (Inr st) \<longrightarrow> 0 < wk_maxJobs f \<longrightarrow> sl_count st \<le> wk_maxJobs f"
    using worker_loop_waits [of f _ ts 0 1 fs s out waits] worker_loop_count [of f _ ts 0 1 fs s _ waits] by fastforce+
  moreover have "out = Running \<and> waits = map idle_at [0..<length ts]"
    if "randomID bytes = Inr owner" "idle_along owner ts fs s" "\<not> wk_drain f" "0 \<le> wk_maxJobs f" "0 \<le> wk_maxRuntime f" "0 < wk_concurrency f" for owner
    using assms wk [OF that(1,4-6)] idle_waits [OF that(2) _ that(3), of 0 0] that(4) by (auto simp: jobs_done_def idle_at_def)
  ultimately show ?thesis by blast
qed

text \<open>Seven rounds on an empty queue, with no one else at work.\<close>

definition idle_round :: "analysis_work tick" where
  "idle_round = \<lparr>tk_other = (\<lambda>x. x), tk_ended = None, tk_now = 10, tk_work = (example_analysis, 11, 12, 5), tk_done = False\<rparr>"

lemma empty_idle: "runs s = [] \<Longrightarrow> idle_along owner (replicate n idle_round) fs s"
  by (induction n) (simp_all add: idle_round_def worker_round_def nothing_to_claim)

theorem worker_waits_bounded_witness:
  "\<exists>fs s. worker example_flags (Some ''w'') (replicate 7 idle_round) Map.empty (Migrate 0) = (Running, [1, 2, 4, 8, 16, 30, 30], fs, s)"
proof -
  obtain out waits fs s where w: "worker example_flags (Some ''w'') (replicate 7 idle_round) Map.empty (Migrate 0) = (out, waits, fs, s)" by (metis surj_pair)
  have "runs (Migrate 0) = []" by (simp add: Migrate_def)
  then have "\<exists>owner. randomID (Some ''w'') = Inr owner \<and> idle_along owner (replicate 7 idle_round) Map.empty (Migrate 0)"
    using empty_idle by (simp add: randomID_def)
  with worker_waits_bounded [OF w] have "out = Running" "waits = map idle_at [0..<7]" by (simp_all add: example_flags_def)
  with w show ?thesis by (simp add: idle_at_def upt_rec numeral_eq_Suc)
qed

end
