(* ===== verification/Spec2Isabelle.thy ===== *)
theory Spec2Isabelle
  imports Spf Control Intel Collector Results_Http Dashboard Observers Policy_Server Processes
begin

text \<open>
  A verification library for Mailproof, a service that takes mail submitted for inspection, seals it,
  analyses it, and answers with a signed report. The program is the Go code under \<open>src/cmd/mailproof\<close> and
  \<open>src/internal\<close>; the processes share one SQLite database and one tree of write-once files.

  \<^bold>\<open>The parts and how they interact.\<close> An operator enrols a submitter (package \<open>submitter\<close>): a code is mailed,
  and activation creates the capability that is the local part of the submission address. Postfix asks the
  admission server (package \<open>admission\<close>) about every mail; an admission spends quota and returns a stamp
  header. The collector (\<open>collect\<close> in \<open>main.go\<close>) sweeps the Maildir, seals each message (package
  \<open>artifact\<close>), consumes its stamp and enqueues a run (package \<open>queue\<close>), or records the rejection. A worker
  claims queued runs, scans the selected subject through Rspamd (package \<open>analyzers\<close>), decides a verdict
  (package \<open>evidence\<close>) and publishes both. A reporter renders, signs and mails the report (package
  \<open>report\<close>) and stores the immutable result (package \<open>results\<close>). Projectors turn lifecycle events into
  rollups (package \<open>analytics\<close>) and signed campaign evidence into campaigns (package \<open>intel\<close>). The results
  API and the dashboard read these; the control API (package \<open>control\<close>) changes the policy in two phases.

  \<^bold>\<open>Theories.\<close>
  \<^item> \<open>Go_Prelude\<close>, \<open>Codec\<close>, \<open>Calendar\<close>, \<open>Netip\<close>, \<open>Http\<close>: what the program uses of Go's standard library (strings,
    SQL statements on tables, hex, base64, decimal, JSON texts, dates, IP addresses, request dispatch), with the
    locales \<open>invariant_system\<close>, \<open>codec\<close> and \<open>bearer_gate\<close>.
  \<^item> \<open>Schema\<close>: the tables of \<open>queue.Migrate\<close> as records, their constraints, and the locales \<open>keyed_table\<close> and
    \<open>lease_table\<close> every client of a table relies on.
  \<^item> \<open>Queue\<close> (\<open>queue.go\<close>): the run state machine; exclusive claims, a bound on the failed attempts of a run over every sequence of
    operations (leases that expire are not counted), invariants of every reachable database for any interleaving of the operations.
  \<^item> \<open>Analytics\<close> (\<open>analytics\<close>, the analytics commands): rollups count exactly the projected events; rebuild,
    retention and the dashboard queries.
  \<^item> \<open>Submitter\<close>, \<open>Admission\<close>, \<open>Spf\<close>: enrolment, the admission decision with quota and stamps, the resolver behind SPF, whose
    lookups are characterised for every content of the DNS by its bound of ten CNAME hops (locale \<open>cname_lookup\<close>).
  \<^item> \<open>Files\<close>, \<open>Evidence\<close>, \<open>Collector\<close>: write-once publication and the content-addressed store, the verdict policy and the bounded
    adapter runner, a sweep of the collector.
  \<^item> \<open>Analysis\<close>, \<open>Report\<close>, \<open>Delivery\<close>: the scan and the verdict of a run, the signed bundle and its
    verification, the reply and the operator commands on runs.
  \<^item> \<open>Campaign\<close>, \<open>Intel\<close>, \<open>Indicators\<close>: connected components, the campaign projector that refines them, and the
    normalisation of indicators.
  \<^item> \<open>Results\<close>, \<open>Results_Http\<close>, \<open>Dashboard\<close>, \<open>Control\<close>: cursor-paged listings (locale \<open>keyset_pages\<close>), the read API, the
    operator interface with sessions and CSRF tokens, and the two-phase policy commands.
  \<^item> \<open>Content\<close>, \<open>Observers\<close>: the analyzers of URLs, parts, archives, QR codes and phrases, of DNS and of signatures
    (\<open>content.go\<close>, \<open>dns.go\<close>, \<open>crypto.go\<close>), which no command calls yet.
  \<^item> \<open>Launch\<close>, \<open>Commands\<close>: what each server of \<open>main.go\<close> requires before it serves, the dispatch with the exit code, the
    commands that act once, and for every program that does not work on runs that it leaves deliveries and runs alone.
  \<^item> \<open>Pipeline\<close>: the whole installation as a step relation. Workers and reporters have a program counter each; the collector, the policy server, the
    projectors, the control interface and the operators may make each of their calls at any time. A run past its analysis has its evidence and verdict in every reachable state.
  \<^item> \<open>Processes\<close>: the loops of the long-running processes with their leases, limits and waiting times (locale \<open>leased\<close>), each shown to be
    a run of that step relation when the others take steps between its rounds (locale \<open>served\<close>).
  \<^item> \<open>Policy_Server\<close>: the admission server with its connections, handlers and policy refreshes as a step relation.
  This theory adds what spans components: an activated submitter is admitted, a suspended one is not.

  \<^bold>\<open>State and operations.\<close> The database is the record \<open>db\<close> of table rows; an operation is a function that returns the new
  database only if its transaction commits, and an error otherwise. Files are a map from clean paths to
  contents. Time, random bytes and what the outside world answers are arguments. Interleavings are sequences of
  operations or steps of an \<^theory_text>\<open>inductive\<close> relation, and the invariants hold for all of them.

  \<^bold>\<open>Parameters.\<close> Code that is not in the repository is an argument of the definitions that use it: SHA-256 and HMAC (record
  \<open>crypto\<close>), Ed25519 with PEM and DER, IDNA, the public suffix list, the SPF evaluator, the DNS client, the MIME and mail
  parsers, Rspamd, the SMTP server, HTML templates and Unicode tables. Theorems name what they need of them, such as that
  different messages have different digests or that a signature verifies, as hypotheses with a witness.

  \<^bold>\<open>Termination and bounds.\<close> Every definition is total. Loops over rows, lines and components are structural recursion;
  the CNAME chain carries the source's own counter of ten; the component walk has a measure; the loops of the
  long-running processes recurse over the list of their rounds, so a process that has not stopped yet is the value
  \<open>Running\<close>. Integers are unbounded where the source stores seconds, counts and limits far below 64 bits; \<open>ParseInt\<close> and the
  cursors check the 64-bit range as the source does.

  \<^bold>\<open>Not modelled.\<close> Flag parsing, sockets, TLS and signal handling; input/output errors other than those named in the
  definitions; the rendering of HTML; log output; the public suffix pin (\<open>publicsuffix.go\<close>), which is three constants. Case mapping and white
  space are those of ASCII except where a theory says otherwise.
\<close>

section \<open>From enrolment to admission\<close>

lemma filter_key_single: "distinct (map k t) \<Longrightarrow> x \<in> set t \<Longrightarrow> filter (\<lambda>y. k y = k x) t = [x]"
  by (induction t) (auto simp: filter_empty_conv image_iff)

lemma fold_upd_last: "fold (\<lambda>(d, item) m. m(d \<mapsto> item)) (xs @ [(k, item)]) m k = Some item"
  by simp

lemma activated_row:
  assumes ok: "registry_ok s" and tx: "activate_tx svc canonical digest capDigest capID now s = Inr (r, s')"
  obtains sub where "sub \<in> set (submitters s')" "s_submitter_id sub = s_submitter_id r" "s_status sub = Active"
    "s_canonical_address sub = canonical" "s_minute_limit sub = s_minute_limit r" "s_hour_limit sub = s_hour_limit r"
    "s_day_limit sub = s_day_limit r" "r \<in> set (submitters s)"
    "submission_capabilities s' = submission_capabilities s @ [\<lparr>c_capability_id = capID, c_submitter_id = s_submitter_id r,
       c_digest = capDigest, c_key_id = CapabilityKeyID svc, c_activated_at = now, c_revoked_at = None\<rparr>]"
proof (rule activate_tx_cases [OF tx])
  fix c s2
  assume a: "(r, c) \<in> set (open_challenges canonical digest now s)"
    "submitters s2 = sql_update (\<lambda>x. s_submitter_id x = s_submitter_id r \<and> s_status x = Pending)
        (\<lambda>x. x\<lparr>s_status := Active, s_verified_at := Some now\<rparr>) (submitters s)"
    "submission_capabilities s2 = submission_capabilities s"
    "insert_capability \<lparr>c_capability_id = capID, c_submitter_id = s_submitter_id r,
         c_digest = capDigest, c_key_id = CapabilityKeyID svc, c_activated_at = now, c_revoked_at = None\<rparr> s2 = Inr s'"
  note ins = insert_capability_Inr(1) [OF a(4)]
  have r: "r \<in> set (submitters s)" "s_canonical_address r = canonical" using a(1) by (simp_all add: open_challenges_mem)
  have "s_status r = Pending" by (rule activate_tx_pending [OF ok tx])
  then have "r\<lparr>s_status := Active, s_verified_at := Some now\<rparr> \<in> set (submitters s')"
    using r(1) by (auto simp: ins a(2) in_sql_update_iff intro!: bexI [of _ r])
  then show thesis by (rule that) (simp_all add: r ins a(3))
qed

lemma snapshot_of_last_capability:
  assumes snap: "LoadPolicySnapshot s = Inr p" and d: "distinct (map s_submitter_id (submitters s))"
    and sub: "sub \<in> set (submitters s)" "c_submitter_id c = s_submitter_id sub" "c_revoked_at c = None"
    and caps: "submission_capabilities s = cs @ [c]"
  shows "snap_Submitters p (hex_encode (c_digest c)) =
    Some \<lparr>sp_ID = s_submitter_id sub, sp_Address = s_canonical_address sub, sp_Status = s_status sub,
        sp_PolicyVersion = s_policy_version sub, sp_Minute = s_minute_limit sub, sp_Hour = s_hour_limit sub,
        sp_Day = s_day_limit sub\<rparr>"
proof -
  have "filter (\<lambda>r. s_submitter_id r = c_submitter_id c) (submitters s) = [sub]"
    using filter_key_single [OF d sub(1)] by (simp add: sub(2))
  then have "\<exists>xs. cap_rows s = xs @ [(hex_encode (c_digest c), \<lparr>sp_ID = s_submitter_id sub, sp_Address = s_canonical_address sub,
        sp_Status = s_status sub, sp_PolicyVersion = s_policy_version sub, sp_Minute = s_minute_limit sub, sp_Hour = s_hour_limit sub,
        sp_Day = s_day_limit sub\<rparr>)]"
    by (simp add: cap_rows_def caps active_caps_append) (simp add: active_caps_def sub(3))
  then show ?thesis unfolding LoadPolicySnapshot_submitters [OF snap] by auto
qed

text \<open>
  C15: Enrolment ends in admission. After a successful activation, the first request from the
  verified address to the submission address that activation returned is admitted under the next policy
  snapshot, when no policy rule blocks its peer or its domain, SPF passes and the decision
  identifier is new.
\<close>

theorem activated_submitter_admitted:
  assumes ok: "registry_ok s"
    and act: "Activate cr ta svc capb capidb t0 address code s = Inr (a, s1)"
    and snap: "LoadPolicySnapshot s1 = Inr p"
    and keys: "adm_CapabilityKey asvc = CapabilityKey svc" "adm_Domain asvc = svc_Domain svc" "32 \<le> length (StampKey asvc)"
    and cap: "24 \<le> length capb" "length capb \<le> 96" "CHR ''@'' \<notin> set (svc_Domain svc)" "length (svc_Domain svc) \<le> 800"
    and req: "Sender r = address" "Recipient r = ac_SubmissionAddress a"
    and pol: "BlockedPeer (PeerCIDRs p) (ClientAddress r) now = None"
      "BlockedOuter p (Split (CHR ''@'') (ac_Address a) ! 1) now = None"
    and spf: "spf (ac_Address a) (Helo r) (ParseIP (ClientAddress r)) = Inr ''pass''"
    and lim: "\<forall>x \<in> set (submitters s). s_minute_limit x \<ge> 1 \<and> s_hour_limit x \<ge> 1 \<and> s_day_limit x \<ge> 1"
    and new: "hex_encode id_bytes \<notin> sd_decision_id ` set (submission_decisions s1)"
      "hex_encode id_bytes \<notin> ae_decision_id ` set (admission_events s1)" "id_bytes \<noteq> []"
      "\<forall>e \<in> set (admission_events s1). ae_submitter_id e \<noteq> ac_ID a"
  shows "\<exists>d s2. Admit cr ta spf asvc (Some p) id_bytes now r s1 = (Admitted d, s2) \<and>
    dec_SubmitterID d = ac_ID a \<and> dec_Envelope d = ac_Address a"
proof -
  obtain canonical row where can: "CanonicalAddress ta address = Inr canonical" and key: "32 \<le> length (CapabilityKey svc)"
    and tx: "activate_tx svc canonical (hmac cr (CapabilityKey svc) code) (hmac cr (CapabilityKey svc) (b64_encode capb))
       (hex_encode capidb) t0 s = Inr (row, s1)"
    and a: "a = \<lparr>ac_ID = s_submitter_id row, ac_Address = canonical, ac_PolicyVersion = s_policy_version row,
             ac_CreatedAt = s_created_at row, ac_VerifiedAt = t0,
             ac_SubmissionAddress = ''verify+'' @ b64_encode capb @ ''@'' @ svc_Domain svc\<rparr>"
    by (rule Activate_Inr [OF act])
  let ?c = "\<lparr>c_capability_id = hex_encode capidb, c_submitter_id = s_submitter_id row,
       c_digest = hmac cr (CapabilityKey svc) (b64_encode capb), c_key_id = CapabilityKeyID svc, c_activated_at = t0, c_revoked_at = None\<rparr>"
  obtain sub where sub: "sub \<in> set (submitters s1)" "s_submitter_id sub = s_submitter_id row" "s_status sub = Active"
    "s_canonical_address sub = canonical" "s_minute_limit sub = s_minute_limit row" "s_hour_limit sub = s_hour_limit row"
    "s_day_limit sub = s_day_limit row" "row \<in> set (submitters s)" "submission_capabilities s1 = submission_capabilities s @ [?c]"
    by (rule activated_row [OF ok tx])
  have d: "distinct (map s_submitter_id (submitters s1))"
    using activate_tx_keeps [OF ok tx] by (simp add: registry_ok_def)
  let ?item = "\<lparr>sp_ID = s_submitter_id sub, sp_Address = s_canonical_address sub, sp_Status = s_status sub,
        sp_PolicyVersion = s_policy_version sub, sp_Minute = s_minute_limit sub, sp_Hour = s_hour_limit sub,
        sp_Day = s_day_limit sub\<rparr>"
  have look: "snap_Submitters p (hex_encode (hmac cr (CapabilityKey svc) (b64_encode capb))) = Some ?item"
    using snapshot_of_last_capability [OF snap d sub(1) _ _ sub(9)] sub(2) by simp
  have "identified cr ta spf asvc p now r canonical (b64_encode capb) ?item"
    unfolding identified_def using can look pol spf lim sub capability_of_address [OF cap]
    by (simp add: a req keys)
  note adm = Admit_identified [OF _ keys(3) this]
  have "admitted_since (s_submitter_id sub) t s1 = 0" for t
    using new(4) by (simp add: admitted_since_def a sub(2))
  then have "quota_room (s_submitter_id sub) (s_minute_limit sub) (s_hour_limit sub) (s_day_limit sub) now s1"
    using lim sub by (auto simp: quota_room_def)
  moreover have "s_submitter_id sub \<in> s_submitter_id ` set (submitters s1)" using sub(1) by blast
  ultimately obtain s2 where "admit_within cr asvc r (s_submitter_id sub) canonical (CHR ''v'' # show_int (snap_Version p))
      (hmac cr (CapabilityKey svc) (b64_encode capb)) (s_minute_limit sub) (s_hour_limit sub) (s_day_limit sub) id_bytes now s1 =
    (Admitted (admitted_decision cr asvc r (s_submitter_id sub) canonical (CHR ''v'' # show_int (snap_Version p)) id_bytes now), s2)"
    using admit_within_total [OF _ new(1-3)] by blast
  then show ?thesis using adm key keys(1) by (simp add: a sub(2) admitted_decision_fields [OF refl])
qed

theorem activated_submitter_admitted_witness:
  "\<exists>a s1 p d s2. Activate example_mac Some example_service (replicate 32 (CHR ''c'')) ''y'' 5 ''a@b.c'' ''code''
       (example_registry\<lparr>submitter_challenges := [\<lparr>ch_challenge_id = ''c1'', ch_submitter_id = ''sub1'',
          ch_code_digest = hmac example_mac (CapabilityKey example_service) ''code'', ch_created_at = 0,
          ch_expires_at = 900, ch_consumed_at = None\<rparr>]\<rparr>) = Inr (a, s1) \<and>
     LoadPolicySnapshot s1 = Inr p \<and>
     Admit example_mac Some example_spf example_adm (Some p) ''id'' 6
       (example_request\<lparr>Recipient := ac_SubmissionAddress a\<rparr>) s1 = (Admitted d, s2)"
proof -
  let ?s = "example_registry\<lparr>submitter_challenges := [\<lparr>ch_challenge_id = ''c1'', ch_submitter_id = ''sub1'',
          ch_code_digest = hmac example_mac (CapabilityKey example_service) ''code'', ch_created_at = 0,
          ch_expires_at = 900, ch_consumed_at = None\<rparr>]\<rparr>"
  let ?b = "replicate 32 (CHR ''c'')"
  have ok: "registry_ok ?s" using example_registry_ok registry_ok_cong [of ?s example_registry] by simp
  have "open_challenges ''a@b.c'' (hmac example_mac (CapabilityKey example_service) ''code'') 5 ?s =
      [(example_pending, hd (submitter_challenges ?s))]"
    by (simp add: open_challenges_def example_registry_tables example_pending_def)
  then have tx: "\<exists>r s1. activate_tx example_service ''a@b.c'' (hmac example_mac (CapabilityKey example_service) ''code'')
      d (hex_encode ''y'') 5 ?s = Inr (r, s1) \<and> submission_decisions s1 = [] \<and> admission_events s1 = [] \<and>
      policy_rules s1 = [] \<and> map pv_version (policy_versions s1) = [0]" for d
    unfolding activate_tx_def
    by (simp add: example_registry_tables example_pending_def update_submitters_def insert_capability_def
        check_all.simps submitters_unique_def fresh_def parent_def active_caps_def bind_res_def)
      (simp add: example_registry_def Migrate_def)
  obtain a s1 where a: "Activate example_mac Some example_service ?b ''y'' 5 ''a@b.c'' ''code'' ?s = Inr (a, s1)"
    and s1: "submission_decisions s1 = []" "admission_events s1 = []" "policy_rules s1 = []" "map pv_version (policy_versions s1) = [0]"
    and ad: "ac_Address a = ''a@b.c''"
    using tx [of "hmac example_mac (CapabilityKey example_service) (b64_encode ?b)"]
    by (auto simp: Activate_def example_canonical svc_digest_def Let_def example_service_def bind_res_def)
  obtain p where p: "LoadPolicySnapshot s1 = Inr p" "PeerCIDRs p = []" "OuterDomains p = Map.empty"
    unfolding LoadPolicySnapshot_def s1 by simp
  have "\<exists>d s2. Admit example_mac Some example_spf example_adm (Some p) ''id'' 6
       (example_request\<lparr>Recipient := ac_SubmissionAddress a\<rparr>) s1 = (Admitted d, s2) \<and>
    dec_SubmitterID d = ac_ID a \<and> dec_Envelope d = ac_Address a"
    by (rule activated_submitter_admitted [OF ok a p(1)])
      (simp_all add: p s1 example_adm_def example_service_def example_request_def BlockedOuter_def example_spf_def
        example_registry_tables example_pending_def)
  with a p(1) show ?thesis by blast
qed

section \<open>From a control command to admission\<close>

lemma confirmed_suspension:
  assumes d: "distinct (map s_submitter_id (submitters s))"
    and p: "Preview cr svc session c tb now s = Inr (pv, s1)" "cmd_CommandType c = ''submitter_suspend''"
    and x: "Confirm cr svc x capidb rid now' s1 = Inr (r, s2)" "cf_ConfirmationToken x = pv_ConfirmationToken pv"
    and sub: "sub \<in> set (submitters s2)" "s_submitter_id sub = p_submitter_id (pv_Normalized pv)"
  shows "s_status sub = Revoked"
  using x(1)
proof (cases rule: Confirm_Inr)
  case (1 t current sv sw)
  obtain tk where tk: "s1 = s\<lparr>confirmation_tokens := confirmation_tokens s @ [tk]\<rparr>"
    "ct_token_digest tk \<notin> ct_token_digest ` set (confirmation_tokens s)"
    "ct_token_digest tk = hmac cr (ConfirmationKey svc) (pv_ConfirmationToken pv)"
    "ct_command_type tk = cmd_CommandType c" "ct_command_json tk = pv_Normalized pv" "ct_command_digest tk = pv_AfterDigest pv"
    using p(1) by (rule Preview_token_row)
  have t: "t = tk" using 1(1) tk(1-3) x(2) by (auto simp: row_by_append row_by_None [THEN iffD2])
  have sv: "submitters sv = submitters s" using 1(8) tk(1) by (auto simp: insert_policy_version_def)
  let ?P = "\<lambda>r. s_submitter_id r = p_submitter_id (pv_Normalized pv) \<and> s_status r = Active"
  have "update_one_submitter ?P (\<lambda>r. r\<lparr>s_status := Revoked, s_revoked_at := Some now'\<rparr>) sv = Inr sw"
    using 1(9) p(2) by (simp add: confirm_effect_def t tk(4,5) apply_command_def bind_res_Inr_iff)
  note u = update_one_submitter_Inr [OF this]
  have s2: "submitters s2 = sql_update ?P (\<lambda>r. r\<lparr>s_status := Revoked, s_revoked_at := Some now'\<rparr>) (submitters s)"
    using record_confirmation_Inr(6) [OF 1(11)] by (simp add: u(1) sv)
  obtain old where old: "old \<in> set (submitters s)" "?P old" using sql_count_pos_ex [OF u(2)] sv by auto
  obtain q where q: "q \<in> set (submitters s)"
    "sub = (if ?P q then q\<lparr>s_status := Revoked, s_revoked_at := Some now'\<rparr> else q)"
    using sub(1) by (auto simp: s2 sql_update_def)
  then have "s_submitter_id q = s_submitter_id old" using sub(2) old(2) by (auto split: if_splits)
  with q old key_inj [OF d q(1) old(1)] show ?thesis by auto
qed

text \<open>
  C17: Once a suspension is confirmed, admission stops: with the policy loaded after the
  confirmation, no request is ever admitted for the suspended submitter, whatever its sender,
  recipient, peer and time, and whatever the decisions recorded since.
\<close>

theorem suspended_not_admitted:
  assumes d: "distinct (map s_submitter_id (submitters s))"
    and p: "Preview cr svc session c tb now s = Inr (pv, s1)" "cmd_CommandType c = ''submitter_suspend''"
    and x: "Confirm cr svc x capidb rid now' s1 = Inr (r, s2)" "cf_ConfirmationToken x = pv_ConfirmationToken pv"
    and snap: "LoadPolicySnapshot s2 = Inr snap"
  shows "\<forall>dec s4. Admit acr ta spf asvc (Some snap) id_bytes t q s3 = (Admitted dec, s4) \<longrightarrow>
     dec_SubmitterID dec \<noteq> p_submitter_id (pv_Normalized pv)"
proof (intro allI impI)
  fix dec s4
  assume "Admit acr ta spf asvc (Some snap) id_bytes t q s3 = (Admitted dec, s4)"
  then show "dec_SubmitterID dec \<noteq> p_submitter_id (pv_Normalized pv)"
proof (cases rule: Admit_admitted)
  case (1 p' envelope cap item)
  then have i: "snap_Submitters snap (hex_encode (hmac acr (adm_CapabilityKey asvc) cap)) = Some item" "sp_Status item = Active"
    by (auto simp: identified_def)
  from snap i(1) obtain c' sub where sub: "c' \<in> set (active_caps (submission_capabilities s2))" "sub \<in> set (submitters s2)"
    "c_digest c' = hmac acr (adm_CapabilityKey asvc) cap" "c_submitter_id c' = s_submitter_id sub" "sp_ID item = s_submitter_id sub"
    "sp_Address item = s_canonical_address sub" "sp_Status item = s_status sub" "sp_Minute item = s_minute_limit sub"
    "sp_Hour item = s_hour_limit sub" "sp_Day item = s_day_limit sub"
    by (rule snapshot_submitter)
  have "dec_SubmitterID dec = s_submitter_id sub" using 1 sub by (simp add: admitted_decision_def Let_def)
  with confirmed_suspension [OF d p x sub(2)] sub(7) i(2) show ?thesis by auto
qed
qed

theorem suspended_not_admitted_witness:
  "\<exists>pv s1 r s2 snap. Preview example_ctl_crypto example_ctl example_session example_suspend example_token 0 example_ctl_db = Inr (pv, s1) \<and>
     Confirm example_ctl_crypto example_ctl (confirmation_of example_session example_suspend pv) [] [] 10 s1 = Inr (r, s2) \<and>
     LoadPolicySnapshot s2 = Inr snap \<and>
     (\<nexists>dec s4. Admit example_mac Some example_spf example_adm (Some snap) ''id'' 11 example_request s2 = (Admitted dec, s4) \<and>
        dec_SubmitterID dec = p_submitter_id (pv_Normalized pv))"
proof -
  let ?run = "ctl_exec example_ctl_crypto example_ctl"
  obtain pv s1 r s2 where a: "Preview example_ctl_crypto example_ctl example_session example_suspend example_token 0 example_ctl_db = Inr (pv, s1)"
    "Confirm example_ctl_crypto example_ctl (confirmation_of example_session example_suspend pv) [] [] 10 s1 = Inr (r, s2)"
    using example_suspend_confirmed by blast
  have "s2 = ?run (DoConfirm (confirmation_of example_session example_suspend pv) [] [] 10)
      (?run (DoPreview example_session example_suspend example_token 0) example_ctl_db)"
    by (simp add: a)
  then obtain snap where snap: "LoadPolicySnapshot s2 = Inr snap"
    using ctl_ok_loads [OF ctl_ok_exec [OF ctl_ok_exec [OF example_ctl_ok]]] by metis
  from suspended_not_admitted [OF example_suspend_hyps(2) a(1) _ a(2) _ snap] a snap show ?thesis
    by (fastforce simp: example_suspend_def confirmation_of_def)
qed

end
